(* ===== verification/Prelude.thy ===== *)
theory Prelude
  imports Main Complex_Main
begin

section \<open>Shared vocabulary of the development\<close>

text \<open>
  The result type of fallible operations (a sum with a Python exception on the left), its
  bind, insertion-ordered dictionaries, and the generic list and map facts the component
  theories share.  Python integers are \<^typ>\<open>int\<close>; a finite Python float is the rational
  number it denotes.
\<close>

subsection \<open>Results\<close>

datatype py_error =
    TypeError | ValueError | KeyError | IndexError | RuntimeError | OverflowError
  | TimeoutError | FileNotFoundError | OSError | AssertionError | ContextExhaustedError
  | StaleGenerationError | UnknownDataPlaneError | StaleCounterGenerationError
  | SeqlockUnstableError | NoEligibleWorkerError | JournalUnreadableError
  | JournalUnwritableError | CancelledError

type_synonym 'a res = "py_error + 'a"

definition bindE :: "('e + 'a) \<Rightarrow> ('a \<Rightarrow> 'e + 'b) \<Rightarrow> 'e + 'b" where
  "bindE m f = (case m of Inl e \<Rightarrow> Inl e | Inr x \<Rightarrow> f x)"

text \<open>\<open>ensure b e\<close> is the statement \<open>if not b: raise e\<close>.\<close>

definition ensure :: "bool \<Rightarrow> 'e \<Rightarrow> 'e + unit" where
  "ensure b e = (if b then Inr () else Inl e)"

lemma bindE_Inl [simp]: "bindE (Inl e) f = Inl e"
  by (simp add: bindE_def)

lemma bindE_Inr [simp]: "bindE (Inr x) f = f x"
  by (simp add: bindE_def)

lemma bindE_assoc: "bindE (bindE m f) g = bindE m (\<lambda>x. bindE (f x) g)"
  by (cases m) simp_all

lemma bindE_eq_Inr: "bindE m f = Inr y \<longleftrightarrow> (\<exists>x. m = Inr x \<and> f x = Inr y)"
  by (cases m) simp_all

lemma bindE_eq_Inl: "bindE m f = Inl e \<longleftrightarrow> m = Inl e \<or> (\<exists>x. m = Inr x \<and> f x = Inl e)"
  by (cases m) simp_all

lemma ensure_eq_Inr [simp]: "ensure b e = Inr u \<longleftrightarrow> b"
  by (simp add: ensure_def)

lemma ensure_eq_Inl [simp]: "ensure b e = Inl e' \<longleftrightarrow> \<not> b \<and> e' = e"
  by (auto simp: ensure_def)

lemma ensure_True [simp]: "ensure True e = Inr ()"
  by (simp add: ensure_def)

lemma ensure_False [simp]: "ensure False e = Inl e"
  by (simp add: ensure_def)

fun mapE :: "('a \<Rightarrow> 'e + 'b) \<Rightarrow> 'a list \<Rightarrow> 'e + 'b list" where
  "mapE f [] = Inr []"
| "mapE f (x # xs) = bindE (f x) (\<lambda>y. bindE (mapE f xs) (\<lambda>ys. Inr (y # ys)))"

lemma mapE_Inr_iff:
  "mapE f xs = Inr ys \<longleftrightarrow> list_all2 (\<lambda>x y. f x = Inr y) xs ys"
  by (induction xs arbitrary: ys) (auto simp: bindE_eq_Inr list_all2_Cons1)

lemma mapE_length: "mapE f xs = Inr ys \<Longrightarrow> length ys = length xs"
  by (auto simp: mapE_Inr_iff dest: list_all2_lengthD)

text \<open>The statement \<open>for x in xs: body\<close> over a state; an exception ends the loop.\<close>

fun loopE :: "('a \<Rightarrow> 's \<Rightarrow> ('e + unit) \<times> 's) \<Rightarrow> 'a list \<Rightarrow> 's \<Rightarrow> ('e + unit) \<times> 's" where
  "loopE body [] s = (Inr (), s)"
| "loopE body (x # xs) s =
     (case body x s of (Inl e, s') \<Rightarrow> (Inl e, s') | (Inr _, s') \<Rightarrow> loopE body xs s')"

lemma loopE_invariant:
  assumes "\<And>x s r s'. x \<in> set xs \<Longrightarrow> I s \<Longrightarrow> body x s = (r, s') \<Longrightarrow> I s'"
    and "I s" and "loopE body xs s = (r, s')"
  shows "I s'"
  using assms
proof (induction xs arbitrary: s)
  case (Cons x xs)
  obtain r1 s1 where b: "body x s = (r1, s1)" by (cases "body x s")
  have i1: "I s1" using Cons.prems(1) [OF _ Cons.prems(2) b] by simp
  show ?case
  proof (cases r1)
    case (Inl e)
    then show ?thesis using Cons.prems(3) b i1 by simp
  next
    case (Inr u)
    then show ?thesis using Cons.prems b i1 by (intro Cons.IH [of s1]) auto
  qed
qed simp

text \<open>A loop that ended normally ran its body on every element.\<close>

lemma loopE_success:
  assumes step: "\<And>x s s'. x \<in> A \<Longrightarrow> G s \<Longrightarrow> P x s \<Longrightarrow> body x s = (Inr (), s') \<Longrightarrow>
      G s' \<and> Q x s' \<and> (\<forall>y \<in> A. y \<noteq> x \<longrightarrow> (P y s \<longrightarrow> P y s') \<and> (Q y s \<longrightarrow> Q y s'))"
    and "distinct xs" and "set xs \<subseteq> A" and "G s" and "\<forall>x \<in> set xs. P x s"
    and "loopE body xs s = (Inr (), s')"
  shows "G s' \<and> (\<forall>x \<in> set xs. Q x s') \<and> (\<forall>y \<in> A - set xs. (P y s \<longrightarrow> P y s') \<and> (Q y s \<longrightarrow> Q y s'))"
  using assms(2-)
proof (induction xs arbitrary: s)
  case (Cons x xs)
  from Cons.prems(5) obtain s1 where b: "body x s = (Inr (), s1)" and l: "loopE body xs s1 = (Inr (), s')"
    by (cases "body x s"; cases "fst (body x s)") auto
  from step [OF _ _ _ b] Cons.prems have s1: "G s1" "Q x s1"
    "\<forall>y \<in> A. y \<noteq> x \<longrightarrow> (P y s \<longrightarrow> P y s1) \<and> (Q y s \<longrightarrow> Q y s1)" by auto
  have "\<forall>y \<in> set xs. P y s1" using Cons.prems s1(3) by (metis distinct.simps(2) insert_subset list.simps(15) subsetD set_subset_Cons)
  with Cons.IH [OF _ _ s1(1) _ l] Cons.prems s1 show ?case by auto
qed simp

text \<open>A loop whose body turns \<open>P\<close> into \<open>Q\<close> at its own element and keeps both at the others.\<close>

lemma loopE_each:
  assumes step: "\<And>x s. x \<in> A \<Longrightarrow> G s \<Longrightarrow> P x s \<Longrightarrow>
      \<exists>s'. body x s = (Inr (), s') \<and> G s' \<and> Q x s' \<and>
        (\<forall>y \<in> A. y \<noteq> x \<longrightarrow> (P y s \<longrightarrow> P y s') \<and> (Q y s \<longrightarrow> Q y s'))"
    and "distinct xs" and "set xs \<subseteq> A" and "G s" and "\<forall>x \<in> set xs. P x s"
  shows "\<exists>s'. loopE body xs s = (Inr (), s') \<and> G s' \<and> (\<forall>x \<in> set xs. Q x s')
    \<and> (\<forall>y \<in> A - set xs. (P y s \<longrightarrow> P y s') \<and> (Q y s \<longrightarrow> Q y s'))"
  using assms(2-)
proof (induction xs arbitrary: s)
  case (Cons x xs)
  from step [of x s] Cons.prems obtain s1 where s1: "body x s = (Inr (), s1)" "G s1" "Q x s1"
    "\<forall>y \<in> A. y \<noteq> x \<longrightarrow> (P y s \<longrightarrow> P y s1) \<and> (Q y s \<longrightarrow> Q y s1)" by auto
  have "\<forall>y \<in> set xs. P y s1" using Cons.prems s1(4) by (metis distinct.simps(2) insert_subset list.simps(15) subsetD set_subset_Cons)
  from Cons.IH [OF _ _ s1(2) this] Cons.prems obtain s2 where s2: "loopE body xs s1 = (Inr (), s2)"
    "G s2" "\<forall>y \<in> set xs. Q y s2" "\<forall>y \<in> A - set xs. (P y s1 \<longrightarrow> P y s2) \<and> (Q y s1 \<longrightarrow> Q y s2)" by auto
  have "Q x s2" using s1(3) s2(4) Cons.prems by simp
  with s1 s2 show ?case by auto
qed simp

subsection \<open>Insertion-ordered dictionaries\<close>

text \<open>
  A Python dict iterates in insertion order; assigning an existing key keeps its place.
\<close>

type_synonym ('k, 'v) dict = "('k \<times> 'v) list"

definition dict_get :: "('k, 'v) dict \<Rightarrow> 'k \<Rightarrow> 'v option" where
  "dict_get d k = map_of d k"

fun dict_set :: "('k, 'v) dict \<Rightarrow> 'k \<Rightarrow> 'v \<Rightarrow> ('k, 'v) dict" where
  "dict_set [] k v = [(k, v)]"
| "dict_set ((k', v') # d) k v =
     (if k' = k then (k, v) # d else (k', v') # dict_set d k v)"

definition dict_pop :: "('k, 'v) dict \<Rightarrow> 'k \<Rightarrow> ('k, 'v) dict" where
  "dict_pop d k = filter (\<lambda>(k', _). k' \<noteq> k) d"

definition dict_keys :: "('k, 'v) dict \<Rightarrow> 'k list" where
  "dict_keys d = map fst d"

definition dict_vals :: "('k, 'v) dict \<Rightarrow> 'v list" where
  "dict_vals d = map snd d"

definition dict_wf :: "('k, 'v) dict \<Rightarrow> bool" where
  "dict_wf d \<longleftrightarrow> distinct (map fst d)"

named_theorems dict_simps

lemma dict_get_Nil [simp]: "dict_get [] k = None"
  by (simp add: dict_get_def)

lemma dict_get_Cons [simp]:
  "dict_get ((k', v) # d) k = (if k' = k then Some v else dict_get d k)"
  by (simp add: dict_get_def)

lemma dict_get_set [simp, dict_simps]:
  "dict_get (dict_set d k v) k' = (if k' = k then Some v else dict_get d k')"
  by (induction d) auto

lemma dict_get_pop [simp, dict_simps]:
  "dict_get (dict_pop d k) k' = (if k' = k then None else dict_get d k')"
  unfolding dict_pop_def by (induction d) auto

lemma dict_pop_Nil [simp]: "dict_pop [] k = []"
  by (simp add: dict_pop_def)

lemma dict_pop_Cons [simp]:
  "dict_pop ((k', v) # d) k = (if k' = k then dict_pop d k else (k', v) # dict_pop d k)"
  by (simp add: dict_pop_def)

lemma map_fst_dict_set:
  "map fst (dict_set d k v) = (if k \<in> fst ` set d then map fst d else map fst d @ [k])"
  by (induction d) force+

lemma dict_keys_set_set [dict_simps]: "fst ` set (dict_set d k v) = insert k (fst ` set d)"
  using arg_cong [OF map_fst_dict_set [of d k v], of set] by auto

lemma dict_keys_set_pop [dict_simps]: "fst ` set (dict_pop d k) = fst ` set d - {k}"
  unfolding dict_pop_def by auto

lemma dict_set_subset: "set (dict_set d k v) \<subseteq> insert (k, v) (set d)"
  by (induction d) (auto split: if_splits)

lemma dict_wf_set [simp, intro]: "dict_wf d \<Longrightarrow> dict_wf (dict_set d k v)"
  unfolding dict_wf_def map_fst_dict_set by auto

lemma dict_wf_pop [simp, intro]: "dict_wf d \<Longrightarrow> dict_wf (dict_pop d k)"
  unfolding dict_wf_def dict_pop_def by (simp add: distinct_map_filter)

lemma dict_wf_Nil [simp, intro]: "dict_wf []"
  by (simp add: dict_wf_def)

lemma dict_get_in: "dict_get d k = Some v \<Longrightarrow> (k, v) \<in> set d"
  by (simp add: dict_get_def map_of_SomeD)

lemma dict_get_wf: "dict_wf d \<Longrightarrow> dict_get d k = Some v \<longleftrightarrow> (k, v) \<in> set d"
  by (simp add: dict_get_def dict_wf_def)

lemma dict_get_None: "dict_get d k = None \<longleftrightarrow> k \<notin> fst ` set d"
  by (simp add: dict_get_def map_of_eq_None_iff)

lemma dict_get_dom: "(\<exists>v. dict_get d k = Some v) \<longleftrightarrow> k \<in> fst ` set d"
  using dict_get_None [of d k] by (metis not_None_eq)

subsection \<open>Lists\<close>

lemma take_app_le: "n \<le> length xs \<Longrightarrow> take n (xs @ ys) = take n xs"
  by simp

lemma nth_default_list [simp]: "i < length xs \<Longrightarrow> xs[i := x] ! i = x"
  by simp

lemma sum_list_map_filter_split:
  "sum_list (map f (filter P xs)) + sum_list (map f (filter (\<lambda>x. \<not> P x) xs))
     = (sum_list (map f xs) :: 'b :: comm_monoid_add)"
  by (induction xs) (auto simp: add_ac)

lemma sum_list_replicate_const: "sum_list (map (\<lambda>_. c) xs) = of_nat (length xs) * (c :: 'a :: comm_semiring_1)"
  by (induction xs) (auto simp: algebra_simps)

text \<open>\<open>xs[i]\<close> for an index that is not negative, and \<open>xs[a:b]\<close> for any integers.\<close>

definition nth_res :: "'a list \<Rightarrow> nat \<Rightarrow> 'a res" where
  "nth_res xs i = (if i < length xs then Inr (xs ! i) else Inl IndexError)"

lemma nth_res_Inr [simp]: "nth_res xs i = Inr x \<longleftrightarrow> i < length xs \<and> x = xs ! i"
  by (auto simp: nth_res_def)

definition slice_index :: "'a list \<Rightarrow> int \<Rightarrow> nat" where
  "slice_index xs i = nat (if i < 0 then max 0 (i + int (length xs)) else min i (int (length xs)))"

definition py_slice :: "'a list \<Rightarrow> int \<Rightarrow> int \<Rightarrow> 'a list" where
  "py_slice xs a b = take (slice_index xs b - slice_index xs a) (drop (slice_index xs a) xs)"

lemma py_slice_nonneg:
  assumes "0 \<le> a" and "0 \<le> n" and "a + n \<le> int (length xs)"
  shows "py_slice xs a (a + n) = take (nat n) (drop (nat a) xs)"
  using assms by (simp add: py_slice_def slice_index_def nat_add_distrib min_def)

end
