(* ===== verification/KV_Layout.thy ===== *)
theory KV_Layout
  imports Prelude
begin

section \<open>Page-table layout of one realtime request\<close>

text \<open>
  Models \<open>sglang_omni/models/moss_vl_realtime/kv_layout.py\<close>.  The request-to-token tensor is
  a rectangular list of rows of KV slot ids; a layout is the encoder prefix and the decoder
  region of one row.  Element types are fixed by HOL typing, so the \<open>isinstance\<close> guards of
  the source have no counterpart; every value guard is a branch.
\<close>

record kv_layout =
  encoder_slots :: "int list"
  decoder_slots :: "int list"

type_synonym page_table = "int list list"

definition slot_tuple :: "int list \<Rightarrow> int list res" where
  "slot_tuple slots =
     (if \<exists>v \<in> set slots. v \<le> 0 then Inl ValueError
      else if \<not> distinct slots then Inl ValueError
      else Inr slots)"

text \<open>\<open>MossVLRealtimeKVLayout.__post_init__\<close>: both regions are valid and disjoint.\<close>

definition mk_layout :: "int list \<Rightarrow> int list \<Rightarrow> kv_layout res" where
  "mk_layout enc dec =
     bindE (slot_tuple enc) (\<lambda>e.
     bindE (slot_tuple dec) (\<lambda>d.
       if set e \<inter> set d \<noteq> {} then Inl ValueError
       else Inr \<lparr>encoder_slots = e, decoder_slots = d\<rparr>))"

definition layout_encoder_length :: "kv_layout \<Rightarrow> int" where
  "layout_encoder_length l = int (length (encoder_slots l))"

definition layout_decoder_length :: "kv_layout \<Rightarrow> int" where
  "layout_decoder_length l = int (length (decoder_slots l))"

definition layout_total_length :: "kv_layout \<Rightarrow> int" where
  "layout_total_length l = layout_encoder_length l + layout_decoder_length l"

definition as_tuple :: "kv_layout \<Rightarrow> int list" where
  "as_tuple l = encoder_slots l @ decoder_slots l"

definition append_encoder :: "kv_layout \<Rightarrow> int list \<Rightarrow> kv_layout res" where
  "append_encoder l slots =
     bindE (slot_tuple slots) (\<lambda>new. mk_layout (encoder_slots l @ new) (decoder_slots l))"

definition append_decoder :: "kv_layout \<Rightarrow> int list \<Rightarrow> kv_layout res" where
  "append_decoder l slots =
     bindE (slot_tuple slots) (\<lambda>new. mk_layout (encoder_slots l) (decoder_slots l @ new))"

text \<open>All rows of the tensor have the width \<open>shape[1]\<close>, so the width of the addressed row
  is read once the row index is known to be in range.\<close>

definition validate_row_arguments :: "page_table \<Rightarrow> int \<Rightarrow> int \<Rightarrow> unit res" where
  "validate_row_arguments tbl idx total_length =
     (if idx < 0 \<or> idx \<ge> int (length tbl) then Inl IndexError
      else if total_length < 0 \<or> total_length > int (length (tbl ! nat idx)) then Inl ValueError
      else Inr ())"

definition read_layout :: "page_table \<Rightarrow> int \<Rightarrow> int \<Rightarrow> int \<Rightarrow> kv_layout res" where
  "read_layout tbl idx enc dec =
     bindE (validate_row_arguments tbl idx (enc + dec)) (\<lambda>_.
     if enc < 0 \<or> dec < 0 then Inl ValueError
     else let row = tbl ! nat idx in
       mk_layout (take (nat enc) row) (take (nat dec) (drop (nat enc) row)))"

definition write_row :: "int list \<Rightarrow> kv_layout \<Rightarrow> bool \<Rightarrow> int list" where
  "write_row row l clear_tail =
     (let n = length (as_tuple l) in
      as_tuple l @ (if clear_tail then replicate (length row - n) 0 else drop n row))"

definition write_layout :: "page_table \<Rightarrow> int \<Rightarrow> kv_layout \<Rightarrow> bool \<Rightarrow> page_table res" where
  "write_layout tbl idx l clear_tail =
     bindE (validate_row_arguments tbl idx (layout_total_length l)) (\<lambda>_.
       Inr (tbl[nat idx := write_row (tbl ! nat idx) l clear_tail]))"

definition insert_encoder_slots ::
    "page_table \<Rightarrow> int \<Rightarrow> int \<Rightarrow> int \<Rightarrow> int list \<Rightarrow> (page_table \<times> kv_layout) res" where
  "insert_encoder_slots tbl idx enc dec new =
     bindE (read_layout tbl idx enc dec) (\<lambda>l0.
     bindE (append_encoder l0 new) (\<lambda>l.
     bindE (write_layout tbl idx l False) (\<lambda>tbl'. Inr (tbl', l))))"

subsection \<open>Well-formed layouts\<close>

definition layout_wf :: "kv_layout \<Rightarrow> bool" where
  "layout_wf l \<longleftrightarrow> distinct (as_tuple l) \<and> (\<forall>v \<in> set (as_tuple l). 0 < v)"

named_theorems layout_defs

lemmas layout_length_defs [layout_defs] =
  layout_total_length_def layout_encoder_length_def layout_decoder_length_def as_tuple_def

lemma slot_tuple_Inr:
  "slot_tuple xs = Inr ys \<longleftrightarrow> ys = xs \<and> distinct xs \<and> (\<forall>v \<in> set xs. 0 < v)"
  by (auto simp: slot_tuple_def not_le Ball_def not_less)

lemma mk_layout_Inr:
  "mk_layout e d = Inr l \<longleftrightarrow>
     l = \<lparr>encoder_slots = e, decoder_slots = d\<rparr> \<and> layout_wf l"
  by (auto simp: mk_layout_def bindE_eq_Inr slot_tuple_Inr layout_wf_def as_tuple_def)

lemma mk_layout_self: "layout_wf l \<Longrightarrow> mk_layout (encoder_slots l) (decoder_slots l) = Inr l"
  by (simp add: mk_layout_Inr)

lemma append_encoder_Inr:
  "append_encoder l new = Inr l' \<longleftrightarrow>
     l' = l\<lparr>encoder_slots := encoder_slots l @ new\<rparr> \<and> layout_wf l'"
  by (cases l) (auto simp: append_encoder_def bindE_eq_Inr slot_tuple_Inr mk_layout_Inr
      layout_wf_def as_tuple_def)

lemma append_decoder_Inr:
  "append_decoder l new = Inr l' \<longleftrightarrow>
     l' = l\<lparr>decoder_slots := decoder_slots l @ new\<rparr> \<and> layout_wf l'"
  by (cases l) (auto simp: append_decoder_def bindE_eq_Inr slot_tuple_Inr mk_layout_Inr
      layout_wf_def as_tuple_def)

lemma validate_Inr:
  "validate_row_arguments tbl idx n = Inr u \<longleftrightarrow>
     0 \<le> idx \<and> idx < int (length tbl) \<and> 0 \<le> n \<and> n \<le> int (length (tbl ! nat idx))"
  by (auto simp: validate_row_arguments_def)

lemma length_write_row:
  "length (as_tuple l) \<le> length row \<Longrightarrow> length (write_row row l c) = length row"
  by (simp add: write_row_def Let_def)

lemma layout_total_nonneg [simp]: "0 \<le> layout_total_length l"
  by (simp add: layout_defs)

lemma layout_total_as_tuple: "layout_total_length l = int (length (as_tuple l))"
  by (simp add: layout_defs)

lemma write_layout_Inr:
  "write_layout tbl idx l c = Inr tbl' \<longleftrightarrow>
     0 \<le> idx \<and> idx < int (length tbl) \<and> length (as_tuple l) \<le> length (tbl ! nat idx) \<and>
     tbl' = tbl[nat idx := write_row (tbl ! nat idx) l c]"
  by (auto simp: write_layout_def bindE_eq_Inr validate_Inr layout_total_as_tuple)

lemma read_layout_Inr:
  "read_layout tbl idx e d = Inr l \<longleftrightarrow>
     0 \<le> idx \<and> idx < int (length tbl) \<and> 0 \<le> e \<and> 0 \<le> d \<and>
     e + d \<le> int (length (tbl ! nat idx)) \<and> layout_wf l \<and>
     encoder_slots l = take (nat e) (tbl ! nat idx) \<and>
     decoder_slots l = take (nat d) (drop (nat e) (tbl ! nat idx))"
  by (cases l) (auto simp: read_layout_def bindE_eq_Inr validate_Inr mk_layout_Inr Let_def)

lemma read_layout_lengths:
  assumes "read_layout tbl idx e d = Inr l"
  shows "layout_encoder_length l = e" and "layout_decoder_length l = d"
  using assms by (auto simp: read_layout_Inr layout_encoder_length_def layout_decoder_length_def)

lemma write_row_take: "take (length (as_tuple l)) (write_row row l c) = as_tuple l"
  by (simp add: write_row_def Let_def)

lemma write_row_drop:
  "drop (length (as_tuple l)) (write_row row l c) =
     (if c then replicate (length row - length (as_tuple l)) 0 else drop (length (as_tuple l)) row)"
  by (simp add: write_row_def Let_def)

lemma read_write_same:
  assumes w: "write_layout tbl idx l c = Inr tbl'" and wf: "layout_wf l"
  shows "read_layout tbl' idx (layout_encoder_length l) (layout_decoder_length l) = Inr l"
proof -
  have row: "tbl' ! nat idx = write_row (tbl ! nat idx) l c"
    and idx: "0 \<le> idx" "idx < int (length tbl')"
    and fit: "length (as_tuple l) \<le> length (tbl ! nat idx)"
    using w by (auto simp: write_layout_Inr)
  have app: "write_row (tbl ! nat idx) l c = encoder_slots l @ decoder_slots l @ 
      drop (length (as_tuple l)) (write_row (tbl ! nat idx) l c)"
    by (simp add: write_row_def Let_def as_tuple_def)
  have len: "length (tbl' ! nat idx) = length (tbl ! nat idx)"
    using row fit by (simp add: length_write_row)
  show ?thesis
    using wf idx fit len row app
    by (auto simp: read_layout_Inr layout_encoder_length_def layout_decoder_length_def as_tuple_def
        write_row_def Let_def)
qed

lemma write_layout_other_rows:
  assumes "write_layout tbl idx l c = Inr tbl'" and "i \<noteq> nat idx"
  shows "tbl' ! i = tbl ! i"
  using assms by (simp add: write_layout_Inr)

lemma write_layout_shape:
  assumes "write_layout tbl idx l c = Inr tbl'"
  shows "length tbl' = length tbl" and "length (tbl' ! i) = length (tbl ! i)"
proof -
  from assms have t: "tbl' = tbl[nat idx := write_row (tbl ! nat idx) l c]"
    and i: "nat idx < length tbl" and fit: "length (as_tuple l) \<le> length (tbl ! nat idx)"
    by (auto simp: write_layout_Inr)
  show "length tbl' = length tbl" using t by simp
  show "length (tbl' ! i) = length (tbl ! i)"
    using t i fit by (cases "i = nat idx") (simp_all add: length_write_row)
qed

lemma write_layout_frame:
  assumes "write_layout tbl idx l c = Inr tbl'" and "idx' \<noteq> idx" and "0 \<le> idx'"
  shows "read_layout tbl' idx' e d = read_layout tbl idx' e d"
proof -
  have "nat idx' \<noteq> nat idx" using assms by (auto simp: write_layout_Inr)
  with assms show ?thesis
    by (simp add: read_layout_def validate_row_arguments_def write_layout_other_rows
        write_layout_shape(1) [OF assms(1)])
qed

lemma write_layout_enabled:
  assumes "write_layout tbl idx l c = Inr tbl'"
  shows "(\<exists>u. write_layout tbl' j m c' = Inr u) \<longleftrightarrow> (\<exists>u. write_layout tbl j m c' = Inr u)"
  using write_layout_shape [OF assms] by (auto simp: write_layout_Inr)

lemma read_layout_writable:
  assumes "read_layout tbl idx e d = Inr l"
  shows "\<exists>u. write_layout tbl idx l c = Inr u"
  using assms by (auto simp: write_layout_Inr read_layout_Inr as_tuple_def)

subsection \<open>The page-store interface\<close>

text \<open>
  What the append transaction and the frame window rely on: a written layout is read back,
  other rows keep their reading, writing never changes which writes are possible, and what
  has been read can be written back.
\<close>

locale page_store =
  fixes rd :: "'t \<Rightarrow> 'i \<Rightarrow> int \<Rightarrow> int \<Rightarrow> 'e + 'l"
    and wr :: "'t \<Rightarrow> 'i \<Rightarrow> 'l \<Rightarrow> bool \<Rightarrow> 'e + 't"
    and wf_layout :: "'l \<Rightarrow> bool"
    and elen :: "'l \<Rightarrow> int"
    and dlen :: "'l \<Rightarrow> int"
    and row_ok :: "'i \<Rightarrow> bool"
  assumes rd_wf: "rd t i e d = Inr l \<Longrightarrow> wf_layout l \<and> elen l = e \<and> dlen l = d"
    and rd_wr: "wr t i l c = Inr t' \<Longrightarrow> wf_layout l \<Longrightarrow> rd t' i (elen l) (dlen l) = Inr l"
    and rd_frame: "wr t i l c = Inr t' \<Longrightarrow> j \<noteq> i \<Longrightarrow> row_ok j \<Longrightarrow> rd t' j e d = rd t j e d"
    and wr_enabled: "wr t i l c = Inr t' \<Longrightarrow>
          (\<exists>u. wr t' j m c' = Inr u) \<longleftrightarrow> (\<exists>u. wr t j m c' = Inr u)"
    and rd_writable: "rd t i e d = Inr l \<Longrightarrow> \<exists>u. wr t i l c = Inr u"
begin

text \<open>Any write over a row can be undone by writing back the layout read before it.\<close>

lemma undo_write:
  assumes b: "rd t i e d = Inr before" and w: "wr t i after c = Inr t1"
  shows "\<exists>t2. wr t1 i before c' = Inr t2 \<and> rd t2 i e d = Inr before \<and>
    (\<forall>j e' d'. j \<noteq> i \<longrightarrow> row_ok j \<longrightarrow> rd t2 j e' d' = rd t j e' d')"
proof -
  from rd_writable [OF b] obtain u where "wr t i before c' = Inr u" by blast
  with wr_enabled [OF w] obtain t2 where t2: "wr t1 i before c' = Inr t2" by blast
  from rd_wf [OF b] have wf: "wf_layout before" "elen before = e" "dlen before = d" by auto
  from rd_wr [OF t2 wf(1)] wf(2,3) have "rd t2 i e d = Inr before" by simp
  with t2 show ?thesis using rd_frame [OF w] rd_frame [OF t2] by auto
qed

end

interpretation pages: page_store read_layout write_layout layout_wf
    layout_encoder_length layout_decoder_length "\<lambda>i. 0 \<le> i"
proof unfold_locales
  fix tbl :: page_table and i e d l
  assume "read_layout tbl i e d = Inr l"
  then show "layout_wf l \<and> layout_encoder_length l = e \<and> layout_decoder_length l = d"
    using read_layout_lengths by (auto simp: read_layout_Inr)
qed (auto intro: read_write_same write_layout_frame read_layout_writable
      simp: write_layout_enabled)


subsection \<open>Properties\<close>

text \<open>
  Inserting encoder slots before the decoder region shifts the decoder
  mapping without changing it: the row reads, at the grown encoder length, as the old encoder
  slots followed by the new ones and then the same decoder slots, no slot occurs twice, and
  every other row reads as before.
\<close>
theorem insert_encoder_spec:
  assumes ins: "insert_encoder_slots tbl idx enc dec new = Inr (tbl', l')"
  shows "\<exists>l. read_layout tbl idx enc dec = Inr l
    \<and> read_layout tbl' idx (enc + int (length new)) dec = Inr l'
    \<and> encoder_slots l' = encoder_slots l @ new \<and> decoder_slots l' = decoder_slots l
    \<and> distinct (as_tuple l')
    \<and> (\<forall>j e d. j \<noteq> idx \<and> 0 \<le> j \<longrightarrow> read_layout tbl' j e d = read_layout tbl j e d)"
proof -
  from ins obtain l where rd: "read_layout tbl idx enc dec = Inr l"
    and ap: "append_encoder l new = Inr l'" and wr: "write_layout tbl idx l' False = Inr tbl'"
    by (auto simp: insert_encoder_slots_def bindE_eq_Inr)
  from ap have l': "encoder_slots l' = encoder_slots l @ new" "decoder_slots l' = decoder_slots l"
    "layout_wf l'" by (auto simp: append_encoder_Inr)
  have lens: "layout_encoder_length l' = enc + int (length new)" "layout_decoder_length l' = dec"
    using read_layout_lengths [OF rd] l' by (auto simp: layout_encoder_length_def layout_decoder_length_def)
  have "read_layout tbl' idx (enc + int (length new)) dec = Inr l'"
    using pages.rd_wr [OF wr l'(3)] lens by simp
  moreover have "\<forall>j e d. j \<noteq> idx \<and> 0 \<le> j \<longrightarrow> read_layout tbl' j e d = read_layout tbl j e d"
    using pages.rd_frame [OF wr] by blast
  ultimately show ?thesis using rd l' by (auto simp: layout_wf_def)
qed

theorem insert_encoder_spec_witness:
  "read_layout [[3, 7, 8, 5, 0]] 0 3 1 = Inr \<lparr>encoder_slots = [3, 7, 8], decoder_slots = [5]\<rparr>"
proof -
  have "insert_encoder_slots [[3, 5, 0, 0, 0]] 0 1 1 [7, 8]
      = Inr ([[3, 7, 8, 5, 0]], \<lparr>encoder_slots = [3, 7, 8], decoder_slots = [5]\<rparr>)"
    by (simp add: insert_encoder_slots_def read_layout_def validate_row_arguments_def mk_layout_def
        slot_tuple_def append_encoder_def write_layout_def write_row_def as_tuple_def Let_def
        layout_total_length_def layout_encoder_length_def layout_decoder_length_def)
  from insert_encoder_spec [OF this] show ?thesis by auto
qed

end
