(* ===== verification/Py_Value.thy ===== *)
theory Py_Value
  imports Prelude
begin

section \<open>Python values at the untyped boundaries\<close>

text \<open>
  Messages arrive as untyped Python values; \<open>pyval\<close> keeps the distinctions the source's
  \<open>isinstance\<close> guards draw (a \<open>bool\<close> is not accepted where an \<open>int\<close> is expected).  Also
  here: conversion of an \<open>int\<close> to the nearest double, and \<open>f"{x:.1f}"\<close> formatting.
\<close>

datatype pyfloat = PyFin rat | PyInf bool | PyNaN

datatype pyval =
    PyNone | PyBool bool | PyInt int | PyFloat pyfloat | PyStr string
  | PyList "pyval list" | PyDict "(string \<times> pyval) list" | PyObj nat

text \<open>A validated finite number: an \<open>int\<close> or a finite \<open>float\<close>.\<close>

datatype pynum = NInt int | NFloat rat

text \<open>\<open>float(n)\<close> for an \<open>int\<close>: exact up to \<open>2^53\<close>, otherwise rounded half to even to 53
  bits; \<open>None\<close> is the \<open>OverflowError\<close>.\<close>

function bit_length :: "nat \<Rightarrow> nat" where
  "bit_length n = (if n = 0 then 0 else Suc (bit_length (n div 2)))"
  by pat_completeness auto
termination
  by (relation "measure id") auto

declare bit_length.simps [simp del]

definition float_of_int :: "int \<Rightarrow> rat option" where
  "float_of_int n =
     (let a = nat \<bar>n\<bar> in
      if a \<le> 2 ^ 53 then Some (of_int n)
      else let e = bit_length a - 53; q = a div 2 ^ e; r = a mod 2 ^ e; h = 2 ^ (e - 1);
               q' = (if r > h \<or> (r = h \<and> odd q) then q + 1 else q);
               v = q' * 2 ^ e
           in if v \<ge> 2 ^ 1024 then None else Some (of_int (sgn n * int v)))"

fun num_value :: "pynum \<Rightarrow> rat" where
  "num_value (NInt n) = of_int n"
| "num_value (NFloat x) = x"

text \<open>\<open>float(x)\<close> for a number that \<open>math.isfinite\<close> has accepted.\<close>

fun num_float :: "pynum \<Rightarrow> rat" where
  "num_float (NInt n) = (case float_of_int n of Some x \<Rightarrow> x | None \<Rightarrow> of_int n)"
| "num_float (NFloat x) = x"

text \<open>\<open>isinstance(v, (int, float))\<close> without \<open>bool\<close>, then \<open>math.isfinite(v)\<close>
  (which raises \<open>OverflowError\<close> on an \<open>int\<close> too large for a double).\<close>

fun finite_number :: "pyval \<Rightarrow> pynum option res" where
  "finite_number (PyInt n) =
     (case float_of_int n of None \<Rightarrow> Inl OverflowError | Some _ \<Rightarrow> Inr (Some (NInt n)))"
| "finite_number (PyFloat (PyFin x)) = Inr (Some (NFloat x))"
| "finite_number (PyFloat _) = Inr None"
| "finite_number _ = Inl TypeError"

lemma float_of_int_small: "\<bar>n\<bar> \<le> 2 ^ 53 \<Longrightarrow> float_of_int n = Some (of_int n)"
  by (simp add: float_of_int_def Let_def nat_le_iff)

lemma float_of_int_nonneg:
  assumes "float_of_int n = Some x" and "0 \<le> n"
  shows "0 \<le> x"
proof -
  have "0 \<le> sgn n" using assms(2) by (simp add: sgn_if)
  then show ?thesis
    using assms by (auto simp: float_of_int_def Let_def simp del: of_int_mult split: if_splits)
qed

lemma num_float_nonneg: "0 \<le> num_value t \<Longrightarrow> 0 \<le> num_float t"
  by (cases t) (auto split: option.splits dest: float_of_int_nonneg)

subsection \<open>Decimal formatting\<close>

function show_nat :: "nat \<Rightarrow> string" where
  "show_nat n =
     (if n < 10 then [char_of (48 + n)] else show_nat (n div 10) @ [char_of (48 + n mod 10)])"
  by pat_completeness auto
termination
  by (relation "measure id") auto

declare show_nat.simps [simp del]

definition read_nat :: "string \<Rightarrow> nat" where
  "read_nat s = foldl (\<lambda>a c. 10 * a + (of_char c - 48)) 0 s"

lemma read_nat_snoc: "read_nat (s @ [c]) = 10 * read_nat s + (of_char c - 48)"
  by (simp add: read_nat_def)

lemma read_show_nat: "read_nat (show_nat n) = n"
proof (induction n rule: show_nat.induct)
  case (1 n)
  show ?case
  proof (cases "n < 10")
    case True
    then show ?thesis
      by (subst show_nat.simps) (simp add: read_nat_def of_char_of)
  next
    case False
    with 1 have "read_nat (show_nat (n div 10)) = n div 10" by simp
    with False show ?thesis
      by (subst show_nat.simps) (simp add: read_nat_snoc of_char_of)
  qed
qed

text \<open>Rounding of an exact value to an integer, ties to even.\<close>

definition round_half_even :: "rat \<Rightarrow> int" where
  "round_half_even x =
     (let f = \<lfloor>x\<rfloor>; d = x - of_int f in
      if d < 1 / 2 then f else if d > 1 / 2 then f + 1 else if even f then f else f + 1)"

definition format_1f :: "rat \<Rightarrow> string" where
  "format_1f x =
     (let t = nat (round_half_even (x * 10)) in show_nat (t div 10) @ ''.'' @ show_nat (t mod 10))"

lemma round_half_even_error: "\<bar>of_int (round_half_even x) - x\<bar> \<le> 1 / 2"
proof -
  have l: "of_int \<lfloor>x\<rfloor> \<le> x" and u: "x < of_int \<lfloor>x\<rfloor> + 1" by linarith+
  show ?thesis
    unfolding round_half_even_def Let_def using l u by (auto simp only: abs_if split: if_splits)
qed

lemma round_half_even_nonneg: "0 \<le> x \<Longrightarrow> 0 \<le> round_half_even x"
  by (auto simp: round_half_even_def Let_def)

text \<open>ASCII \<open>str.strip\<close> and \<open>str.lower\<close>.\<close>

definition is_ws :: "char \<Rightarrow> bool" where
  "is_ws c \<longleftrightarrow> c \<in> {CHR '' '', CHR 0x09, CHR 0x0A, CHR 0x0B, CHR 0x0C, CHR 0x0D,
                     CHR 0x1C, CHR 0x1D, CHR 0x1E, CHR 0x1F}"

definition py_strip :: "string \<Rightarrow> string" where
  "py_strip s = rev (dropWhile is_ws (rev (dropWhile is_ws s)))"

definition lower_char :: "char \<Rightarrow> char" where
  "lower_char c =
     (let n = of_char c :: nat in if 65 \<le> n \<and> n \<le> 90 then char_of (n + 32) else c)"

end
