(* ===== verification/Frame_Events.thy ===== *)
theory Frame_Events
  imports Py_Value
begin

section \<open>Frame and prompt events, and the per-request event queue\<close>

text \<open>
  Models \<open>moss_vl_realtime/payload_types.py\<close> (the event type, its validation, the
  dictionary form used on the control plane, the trained append text) and
  \<open>moss_vl_realtime/session_state.py\<close> (ordering and lifecycle of one request's events and
  the controller that owns the sessions).
\<close>

record frame_event =
  ev_request_id :: string
  ev_session_id :: string
  ev_seq_no :: int
  ev_timestamp :: pynum
  ev_frame_ref :: "string option"
  ev_prompt :: "string option"
  ev_final :: bool
  ev_fingerprint :: "string option"

subsection \<open>Validation: \<open>FramePromptEvent.__post_init__\<close>\<close>

fun require_nonempty_str :: "pyval \<Rightarrow> string res" where
  "require_nonempty_str (PyStr s) = (if s = [] then Inl ValueError else Inr s)"
| "require_nonempty_str _ = Inl TypeError"

fun require_seq_no :: "pyval \<Rightarrow> int res" where
  "require_seq_no (PyInt n) = (if n < 0 then Inl ValueError else Inr n)"
| "require_seq_no _ = Inl TypeError"

definition require_timestamp :: "pyval \<Rightarrow> pynum res" where
  "require_timestamp v =
     bindE (finite_number v) (\<lambda>t. case t of
       None \<Rightarrow> Inl ValueError
     | Some x \<Rightarrow> if num_value x < 0 then Inl ValueError else Inr x)"

fun optional_nonempty_str :: "pyval \<Rightarrow> string option res" where
  "optional_nonempty_str PyNone = Inr None"
| "optional_nonempty_str (PyStr s) = (if s = [] then Inl ValueError else Inr (Some s))"
| "optional_nonempty_str _ = Inl TypeError"

fun require_bool :: "pyval \<Rightarrow> bool res" where
  "require_bool (PyBool b) = Inr b"
| "require_bool _ = Inl TypeError"

fun optional_str :: "pyval \<Rightarrow> string option res" where
  "optional_str PyNone = Inr None"
| "optional_str (PyStr s) = Inr (Some s)"
| "optional_str _ = Inl TypeError"

definition new_event ::
    "pyval \<Rightarrow> pyval \<Rightarrow> pyval \<Rightarrow> pyval \<Rightarrow> pyval \<Rightarrow> pyval \<Rightarrow> pyval \<Rightarrow> pyval \<Rightarrow> frame_event res" where
  "new_event rid sid sq ts fref prm fin fp =
     bindE (require_nonempty_str rid) (\<lambda>rid'.
     bindE (require_nonempty_str sid) (\<lambda>sid'.
     bindE (require_seq_no sq) (\<lambda>sq'.
     bindE (require_timestamp ts) (\<lambda>ts'.
     bindE (optional_nonempty_str fref) (\<lambda>fref'.
     bindE (optional_nonempty_str prm) (\<lambda>prm'.
     bindE (ensure (\<not> (fref' = None \<and> prm' = None)) ValueError) (\<lambda>_.
     bindE (require_bool fin) (\<lambda>fin'.
     bindE (optional_str fp) (\<lambda>fp'.
       Inr \<lparr>ev_request_id = rid', ev_session_id = sid', ev_seq_no = sq', ev_timestamp = ts',
            ev_frame_ref = fref', ev_prompt = prm', ev_final = fin', ev_fingerprint = fp'\<rparr>)))))))))"

subsection \<open>The control-plane dictionary\<close>

definition to_dict :: "frame_event \<Rightarrow> pyval" where
  "to_dict e = PyDict
     ([(''_type'', PyStr ''FramePromptEvent''),
       (''request_id'', PyStr (ev_request_id e)),
       (''session_id'', PyStr (ev_session_id e)),
       (''seq_no'', PyInt (ev_seq_no e)),
       (''timestamp'', PyFloat (PyFin (num_float (ev_timestamp e)))),
       (''final'', PyBool (ev_final e))]
      @ (case ev_frame_ref e of None \<Rightarrow> [] | Some s \<Rightarrow> [(''frame_ref'', PyStr s)])
      @ (case ev_prompt e of None \<Rightarrow> [] | Some s \<Rightarrow> [(''prompt'', PyStr s)])
      @ (case ev_fingerprint e of None \<Rightarrow> [] | Some s \<Rightarrow> [(''fingerprint'', PyStr s)]))"

definition dict_lookup :: "(string \<times> pyval) list \<Rightarrow> string \<Rightarrow> pyval \<Rightarrow> pyval" where
  "dict_lookup d k def = (case map_of d k of None \<Rightarrow> def | Some v \<Rightarrow> v)"

fun from_dict :: "pyval \<Rightarrow> frame_event res" where
  "from_dict (PyDict d) =
     (if dict_lookup d ''_type'' (PyStr ''FramePromptEvent'') \<noteq> PyStr ''FramePromptEvent''
      then Inl ValueError
      else if filter (\<lambda>k. map_of d k = None)
                [''request_id'', ''session_id'', ''seq_no'', ''timestamp''] \<noteq> []
      then Inl ValueError
      else new_event (the (map_of d ''request_id'')) (the (map_of d ''session_id''))
             (the (map_of d ''seq_no'')) (the (map_of d ''timestamp''))
             (dict_lookup d ''frame_ref'' PyNone) (dict_lookup d ''prompt'' PyNone)
             (dict_lookup d ''final'' (PyBool False)) (dict_lookup d ''fingerprint'' PyNone))"
| "from_dict _ = Inl TypeError"

definition has_frame :: "frame_event \<Rightarrow> bool" where
  "has_frame e \<longleftrightarrow> ev_frame_ref e \<noteq> None"

text \<open>What construction guarantees.\<close>

definition event_valid :: "frame_event \<Rightarrow> bool" where
  "event_valid e \<longleftrightarrow>
     ev_request_id e \<noteq> [] \<and> ev_session_id e \<noteq> [] \<and> 0 \<le> ev_seq_no e \<and>
     0 \<le> num_value (ev_timestamp e) \<and>
     (case ev_timestamp e of NInt n \<Rightarrow> float_of_int n \<noteq> None | NFloat _ \<Rightarrow> True) \<and>
     ev_frame_ref e \<noteq> Some [] \<and> ev_prompt e \<noteq> Some [] \<and>
     (ev_frame_ref e \<noteq> None \<or> ev_prompt e \<noteq> None)"

definition event_floated :: "frame_event \<Rightarrow> frame_event" where
  "event_floated e = e\<lparr>ev_timestamp := NFloat (num_float (ev_timestamp e))\<rparr>"

lemma require_nonempty_str_Inr: "require_nonempty_str v = Inr s \<longleftrightarrow> v = PyStr s \<and> s \<noteq> []"
  by (cases v) auto

lemma require_seq_no_Inr: "require_seq_no v = Inr n \<longleftrightarrow> v = PyInt n \<and> 0 \<le> n"
  by (cases v) auto

lemma finite_number_Some:
  "finite_number v = Inr (Some t) \<Longrightarrow>
     (case t of NInt n \<Rightarrow> v = PyInt n \<and> float_of_int n \<noteq> None | NFloat x \<Rightarrow> v = PyFloat (PyFin x))"
  by (cases v rule: finite_number.cases) (auto split: option.splits)

lemma require_timestamp_Inr:
  "require_timestamp v = Inr t \<Longrightarrow>
     0 \<le> num_value t \<and>
     (case t of NInt n \<Rightarrow> v = PyInt n \<and> float_of_int n \<noteq> None | NFloat x \<Rightarrow> v = PyFloat (PyFin x))"
  by (auto simp: require_timestamp_def bindE_eq_Inr split: option.splits if_splits
      dest: finite_number_Some)

lemma optional_nonempty_str_Inr: "optional_nonempty_str v = Inr s \<Longrightarrow> s \<noteq> Some []"
  by (cases v rule: optional_nonempty_str.cases) (auto split: if_splits)

lemma new_event_valid: "new_event a b c d e f g h = Inr ev \<Longrightarrow> event_valid ev"
  by (auto simp: new_event_def bindE_eq_Inr event_valid_def require_nonempty_str_Inr
      require_seq_no_Inr split: pynum.splits dest!: require_timestamp_Inr optional_nonempty_str_Inr)

lemma from_dict_valid: "from_dict v = Inr ev \<Longrightarrow> event_valid ev"
  by (cases v) (auto split: if_splits dest: new_event_valid)

lemma dict_lookup_hit: "map_of d k = Some v \<Longrightarrow> dict_lookup d k def = v"
  by (simp add: dict_lookup_def)

lemma optional_nonempty_str_of:
  "s \<noteq> Some [] \<Longrightarrow>
     optional_nonempty_str (case s of None \<Rightarrow> PyNone | Some x \<Rightarrow> PyStr x) = Inr s"
  by (cases s) auto

lemma optional_str_of: "optional_str (case s of None \<Rightarrow> PyNone | Some x \<Rightarrow> PyStr x) = Inr s"
  by (cases s) auto

lemma from_to_dict_lookup:
  "from_dict (to_dict e) =
     new_event (PyStr (ev_request_id e)) (PyStr (ev_session_id e)) (PyInt (ev_seq_no e))
       (PyFloat (PyFin (num_float (ev_timestamp e))))
       (case ev_frame_ref e of None \<Rightarrow> PyNone | Some s \<Rightarrow> PyStr s)
       (case ev_prompt e of None \<Rightarrow> PyNone | Some s \<Rightarrow> PyStr s)
       (PyBool (ev_final e))
       (case ev_fingerprint e of None \<Rightarrow> PyNone | Some s \<Rightarrow> PyStr s)"
  by (simp add: to_dict_def dict_lookup_def split: option.splits)

subsection \<open>The trained append text\<close>

definition VISION_START_TOKEN :: string where "VISION_START_TOKEN = ''<|vision_start|>''"
definition VISION_END_TOKEN :: string where "VISION_END_TOKEN = ''<|vision_end|>''"
definition IMAGE_PLACEHOLDER :: string where "IMAGE_PLACEHOLDER = ''<|image|>''"
definition TIME_START_TOKEN :: string where "TIME_START_TOKEN = ''<|time_start|>''"
definition TIME_END_TOKEN :: string where "TIME_END_TOKEN = ''<|time_end|>''"
definition SILENCE_TOKEN :: string where "SILENCE_TOKEN = ''<|silence|>''"

abbreviation newline :: char where "newline \<equiv> CHR 0x0A"

definition build_realtime_frame_text :: "rat \<Rightarrow> string res" where
  "build_realtime_frame_text ts =
     (if ts < 0 then Inl ValueError
      else Inr (VISION_START_TOKEN @ TIME_START_TOKEN @ format_1f ts @ '' seconds''
                @ TIME_END_TOKEN @ IMAGE_PLACEHOLDER @ VISION_END_TOKEN))"

definition prompt_turn :: "string \<Rightarrow> string" where
  "prompt_turn prompt =
     ''<|im_end|>'' @ [newline] @ ''<|im_start|>user'' @ [newline] @ prompt
     @ ''<|im_end|>'' @ [newline] @ ''<|im_start|>assistant'' @ [newline] @ SILENCE_TOKEN"

fun append_prompts :: "string \<Rightarrow> string list \<Rightarrow> string res" where
  "append_prompts acc [] = Inr acc"
| "append_prompts acc (p # ps) =
     (if p = [] then Inl ValueError else append_prompts (acc @ prompt_turn p) ps)"

definition build_realtime_append_text :: "string list \<Rightarrow> rat list \<Rightarrow> string res" where
  "build_realtime_append_text prompts timestamps =
     bindE (append_prompts [] prompts) (\<lambda>acc.
     bindE (mapE build_realtime_frame_text timestamps) (\<lambda>fs. Inr (acc @ concat fs)))"

lemma append_prompts_ok:
  "\<forall>p \<in> set ps. p \<noteq> [] \<Longrightarrow> append_prompts acc ps = Inr (acc @ concat (map prompt_turn ps))"
  by (induction ps arbitrary: acc) auto

subsection \<open>One request's session\<close>

record event_session =
  se_request_id :: string
  se_session_id :: string
  next_seq_no :: int
  last_timestamp :: "rat option"
  final_received :: bool
  pending_events :: "frame_event list"

definition open_session :: "string \<Rightarrow> string \<Rightarrow> event_session" where
  "open_session rid sid =
     \<lparr>se_request_id = rid, se_session_id = sid, next_seq_no = 0, last_timestamp = None,
      final_received = False, pending_events = []\<rparr>"

definition accept :: "event_session \<Rightarrow> frame_event \<Rightarrow> event_session res" where
  "accept s e =
     (if ev_request_id e \<noteq> se_request_id s then Inl ValueError
      else if ev_session_id e \<noteq> se_session_id s then Inl ValueError
      else if final_received s then Inl RuntimeError
      else if ev_seq_no e \<noteq> next_seq_no s then Inl ValueError
      else if (case last_timestamp s of None \<Rightarrow> False
               | Some t \<Rightarrow> num_value (ev_timestamp e) < t) then Inl ValueError
      else Inr (s\<lparr>pending_events := pending_events s @ [e],
                 next_seq_no := next_seq_no s + 1,
                 last_timestamp := Some (num_float (ev_timestamp e)),
                 final_received := ev_final e\<rparr>))"

definition drain :: "event_session \<Rightarrow> int option \<Rightarrow> (frame_event list \<times> event_session) res" where
  "drain s max_events =
     (case max_events of
        Some m \<Rightarrow>
          if m \<le> 0 then Inl ValueError
          else let n = min (length (pending_events s)) (nat m) in
            Inr (take n (pending_events s), s\<lparr>pending_events := drop n (pending_events s)\<rparr>)
      | None \<Rightarrow> let n = length (pending_events s) in
            Inr (take n (pending_events s), s\<lparr>pending_events := drop n (pending_events s)\<rparr>))"

subsection \<open>The session controller\<close>

type_synonym sessions = "(string, event_session) dict"

definition ctl_open :: "sessions \<Rightarrow> string \<Rightarrow> string \<Rightarrow> (event_session \<times> sessions) res" where
  "ctl_open m rid sid =
     (if dict_get m rid \<noteq> None then Inl ValueError
      else let s = open_session rid sid in Inr (s, dict_set m rid s))"

definition ctl_ingest ::
    "sessions \<Rightarrow> string \<Rightarrow> frame_event + pyval \<Rightarrow> (frame_event \<times> sessions) res" where
  "ctl_ingest m rid data =
     (case dict_get m rid of
        None \<Rightarrow> Inl KeyError
      | Some s \<Rightarrow>
          bindE (case data of Inl e \<Rightarrow> Inr e | Inr v \<Rightarrow> from_dict v) (\<lambda>e.
          bindE (accept s e) (\<lambda>s'. Inr (e, dict_set m rid s'))))"

definition ctl_get :: "sessions \<Rightarrow> string \<Rightarrow> event_session option" where
  "ctl_get m rid = dict_get m rid"

definition ctl_close :: "sessions \<Rightarrow> string \<Rightarrow> bool \<times> sessions" where
  "ctl_close m rid = (dict_get m rid \<noteq> None, dict_pop m rid)"

definition ctl_contains :: "sessions \<Rightarrow> string \<Rightarrow> bool" where
  "ctl_contains m rid \<longleftrightarrow> dict_get m rid \<noteq> None"


subsection \<open>Queues that accept at the back and drain from the front\<close>

text \<open>
  \<open>fifo_run\<close> performs a list of accepts (\<open>Inl\<close>) and drains (\<open>Inr\<close>); a refused
  operation leaves the state alone, as the exceptions of the source are raised before any
  mutation.  It returns the accepted and the drained items in order.
\<close>

fun fifo_run ::
    "('s \<Rightarrow> 'e \<Rightarrow> 'x + 's) \<Rightarrow> ('s \<Rightarrow> 'k \<Rightarrow> 'x + 'e list \<times> 's) \<Rightarrow> 's \<Rightarrow> ('e + 'k) list
      \<Rightarrow> 'e list \<times> 'e list \<times> 's" where
  "fifo_run acc drn s [] = ([], [], s)"
| "fifo_run acc drn s (Inl e # ops) =
     (case acc s e of
        Inl _ \<Rightarrow> fifo_run acc drn s ops
      | Inr s1 \<Rightarrow> let (as, ds, s') = fifo_run acc drn s1 ops in (e # as, ds, s'))"
| "fifo_run acc drn s (Inr k # ops) =
     (case drn s k of
        Inl _ \<Rightarrow> fifo_run acc drn s ops
      | Inr (xs, s1) \<Rightarrow> let (as, ds, s') = fifo_run acc drn s1 ops in (as, xs @ ds, s'))"

locale event_fifo =
  fixes acc :: "'s \<Rightarrow> 'e \<Rightarrow> 'x + 's"
    and drn :: "'s \<Rightarrow> 'k \<Rightarrow> 'x + 'e list \<times> 's"
    and items :: "'s \<Rightarrow> 'e list"
  assumes acc_items: "acc s e = Inr s' \<Longrightarrow> items s' = items s @ [e]"
    and drn_items: "drn s k = Inr (xs, s') \<Longrightarrow> items s = xs @ items s'"
begin

text \<open>Nothing is lost, duplicated or reordered.\<close>

lemma run_conserves: "fifo_run acc drn s ops = (as, ds, s') \<Longrightarrow> items s @ as = ds @ items s'"
proof (induction ops arbitrary: s as ds)
  case Nil
  then show ?case by simp
next
  case (Cons op ops)
  then show ?case
    by (cases op) (auto split: sum.splits prod.splits dest!: acc_items drn_items dest: Cons.IH)
qed

end

lemma drain_pending: "drain s k = Inr (xs, s') \<Longrightarrow> pending_events s = xs @ pending_events s'"
  by (auto simp: drain_def Let_def split: option.splits if_splits)

interpretation session_fifo: event_fifo accept drain pending_events
  by unfold_locales (auto simp: accept_def drain_pending split: if_splits)

abbreviation session_run where "session_run \<equiv> fifo_run accept drain"

lemma drain_frame:
  "drain s k = Inr (xs, s') \<Longrightarrow>
     se_request_id s' = se_request_id s \<and> se_session_id s' = se_session_id s \<and>
     next_seq_no s' = next_seq_no s \<and> last_timestamp s' = last_timestamp s \<and>
     final_received s' = final_received s"
  by (auto simp: drain_def Let_def split: option.splits if_splits)

lemma accept_Inr:
  "accept s e = Inr s' \<longleftrightarrow>
     ev_request_id e = se_request_id s \<and> ev_session_id e = se_session_id s \<and>
     \<not> final_received s \<and> ev_seq_no e = next_seq_no s \<and>
     (\<forall>t. last_timestamp s = Some t \<longrightarrow> t \<le> num_value (ev_timestamp e)) \<and>
     s' = s\<lparr>pending_events := pending_events s @ [e], next_seq_no := next_seq_no s + 1,
            last_timestamp := Some (num_float (ev_timestamp e)), final_received := ev_final e\<rparr>"
  by (auto simp: accept_def split: option.splits)

text \<open>The accepted events continue the session's numbering, clock and identity.\<close>

definition continues :: "event_session \<Rightarrow> frame_event list \<Rightarrow> event_session \<Rightarrow> bool" where
  "continues s as s' \<longleftrightarrow>
     se_request_id s' = se_request_id s \<and> se_session_id s' = se_session_id s \<and>
     map ev_seq_no as = map (\<lambda>i. next_seq_no s + int i) [0..<length as] \<and>
     next_seq_no s' = next_seq_no s + int (length as) \<and>
     (\<forall>e \<in> set as. ev_request_id e = se_request_id s \<and> ev_session_id e = se_session_id s) \<and>
     successively (\<lambda>a b. num_float (ev_timestamp a) \<le> num_value (ev_timestamp b)) as \<and>
     (as \<noteq> [] \<longrightarrow> \<not> final_received s \<and>
        (\<forall>t. last_timestamp s = Some t \<longrightarrow> t \<le> num_value (ev_timestamp (hd as)))) \<and>
     (\<forall>e \<in> set (butlast as). \<not> ev_final e)"

lemma continues_Nil:
  "se_request_id s' = se_request_id s \<Longrightarrow> se_session_id s' = se_session_id s \<Longrightarrow>
   next_seq_no s' = next_seq_no s \<Longrightarrow> continues s [] s'"
  by (simp add: continues_def)

lemma map_add_upt_Suc:
  "map (\<lambda>i. n + int i) [0..<Suc k] = n # map (\<lambda>i. n + 1 + int i) [0..<k]"
  by (simp only: upt_conv_Cons [of 0 "Suc k"] map_Suc_upt [symmetric] list.map) (simp add: o_def)

lemma continues_Cons:
  assumes acc: "accept s e = Inr s1" and rest: "continues s1 as s'"
  shows "continues s (e # as) s'"
proof -
  have s1: "next_seq_no s1 = next_seq_no s + 1" "se_request_id s1 = se_request_id s"
      "se_session_id s1 = se_session_id s" "final_received s1 = ev_final e"
      "last_timestamp s1 = Some (num_float (ev_timestamp e))"
    and e: "ev_seq_no e = next_seq_no s" "ev_request_id e = se_request_id s"
      "ev_session_id e = se_session_id s" "\<not> final_received s"
      "\<forall>t. last_timestamp s = Some t \<longrightarrow> t \<le> num_value (ev_timestamp e)"
    using acc by (auto simp: accept_Inr)
  have seq: "map ev_seq_no (e # as) = map (\<lambda>i. next_seq_no s + int i) [0..<length (e # as)]"
    using rest s1(1) e(1) unfolding continues_def by (simp add: map_add_upt_Suc del: upt_Suc)
  have succ: "successively (\<lambda>a b. num_float (ev_timestamp a) \<le> num_value (ev_timestamp b)) (e # as)"
    using rest s1 unfolding continues_def by (cases as) auto
  have fin: "\<forall>x \<in> set (butlast (e # as)). \<not> ev_final x"
    using rest s1 unfolding continues_def by auto
  show ?thesis using rest s1 e seq succ fin unfolding continues_def by simp
qed

lemma continues_same:
  "continues s1 as s' \<Longrightarrow> se_request_id s1 = se_request_id s \<Longrightarrow> se_session_id s1 = se_session_id s \<Longrightarrow>
   next_seq_no s1 = next_seq_no s \<Longrightarrow> last_timestamp s1 = last_timestamp s \<Longrightarrow>
   final_received s1 = final_received s \<Longrightarrow> continues s as s'"
  by (simp add: continues_def)

lemma session_run_continues:
  "session_run s ops = (as, ds, s') \<Longrightarrow> continues s as s'"
proof (induction ops arbitrary: s as ds)
  case Nil
  then show ?case by (auto intro: continues_Nil)
next
  case (Cons op ops)
  show ?case
  proof (cases op)
    case (Inl e)
    with Cons show ?thesis
      by (auto split: sum.splits prod.splits intro: continues_Cons)
  next
    case (Inr k)
    with Cons show ?thesis
      by (auto split: sum.splits prod.splits intro: continues_same dest!: drain_frame)
  qed
qed

subsection \<open>Properties\<close>

text \<open>
  C40: A valid event survives the control plane: parsing the dictionary that
  \<open>to_dict\<close> produces gives the same event with its timestamp as a float.
\<close>

theorem event_roundtrip:
  assumes "event_valid e"
  shows "from_dict (to_dict e) = Inr (event_floated e)"
proof -
  have ts: "require_timestamp (PyFloat (PyFin (num_float (ev_timestamp e)))) =
      Inr (NFloat (num_float (ev_timestamp e)))"
    using assms num_float_nonneg by (auto simp: require_timestamp_def event_valid_def not_less)
  show ?thesis
    unfolding from_to_dict_lookup new_event_def ts
    using assms by (auto simp: event_valid_def event_floated_def optional_nonempty_str_of optional_str_of)
qed

theorem event_roundtrip_witness:
  "from_dict (to_dict \<lparr>ev_request_id = ''r'', ev_session_id = ''s'', ev_seq_no = 3,
      ev_timestamp = NInt 2, ev_frame_ref = Some ''shm://f'', ev_prompt = None, ev_final = True,
      ev_fingerprint = None\<rparr>) =
   Inr \<lparr>ev_request_id = ''r'', ev_session_id = ''s'', ev_seq_no = 3,
      ev_timestamp = NFloat 2, ev_frame_ref = Some ''shm://f'', ev_prompt = None, ev_final = True,
      ev_fingerprint = None\<rparr>"
  by (subst event_roundtrip) (simp_all add: event_valid_def event_floated_def float_of_int_small)

text \<open>
  Whatever the control plane delivers, an event the parser lets through
  satisfies every documented field constraint: ids non-empty, sequence number and timestamp
  non-negative, and a frame or a prompt present.
\<close>

theorem from_dict_rejects:
  "(case from_dict v of Inl e \<Rightarrow> e \<in> {TypeError, ValueError, OverflowError} | Inr ev \<Rightarrow> event_valid ev)"
proof (cases "from_dict v")
  case (Inr ev)
  then show ?thesis by (simp add: from_dict_valid)
next
  case (Inl e)
  have "e \<in> {TypeError, ValueError, OverflowError}" if "new_event a b c d f g h i = Inl e" for a b c d f g h i
  proof -
    have nes: "require_nonempty_str v = Inl x \<Longrightarrow> x \<in> {TypeError, ValueError}" for v x
      by (cases v) (auto split: if_splits)
    have sq: "require_seq_no v = Inl x \<Longrightarrow> x \<in> {TypeError, ValueError}" for v x
      by (cases v) (auto split: if_splits)
    have fn: "finite_number v = Inl x \<Longrightarrow> x \<in> {TypeError, OverflowError}" for v x
      by (cases v rule: finite_number.cases) (auto split: option.splits)
    have on: "optional_nonempty_str v = Inl x \<Longrightarrow> x \<in> {TypeError, ValueError}" for v x
      by (cases v) (auto split: if_splits)
    have rb: "require_bool v = Inl x \<Longrightarrow> x = TypeError" for v x by (cases v) auto
    have os: "optional_str v = Inl x \<Longrightarrow> x = TypeError" for v x by (cases v) auto
    show ?thesis
      using that
      by (auto simp: new_event_def bindE_eq_Inl require_timestamp_def split: option.splits if_splits
          dest!: nes sq fn on rb os)
  qed
  with Inl show ?thesis by (cases v) (auto split: if_splits)
qed

text \<open>
  C39: For every sequence of accepted, refused and drained events on a fresh
  session: the drained events followed by the pending ones are exactly the accepted events in
  order; their sequence numbers are 0, 1, 2, ...; all carry the session's identity; timestamps
  never move backwards; and only the last one may be final.
\<close>

theorem session_order:
  assumes run: "session_run (open_session rid sid) ops = (accepted, drained, s)"
  shows "drained @ pending_events s = accepted \<and>
    map ev_seq_no accepted = map int [0..<length accepted] \<and>
    next_seq_no s = int (length accepted) \<and>
    (\<forall>e \<in> set accepted. ev_request_id e = rid \<and> ev_session_id e = sid) \<and>
    successively (\<lambda>a b. num_float (ev_timestamp a) \<le> num_value (ev_timestamp b)) accepted \<and>
    (\<forall>e \<in> set (butlast accepted). \<not> ev_final e)"
  using session_fifo.run_conserves [OF run] session_run_continues [OF run]
  by (simp add: continues_def open_session_def)

theorem session_order_witness:
  "\<exists>s. session_run (open_session ''r'' ''s'')
     [Inl \<lparr>ev_request_id = ''r'', ev_session_id = ''s'', ev_seq_no = 0, ev_timestamp = NFloat 1,
        ev_frame_ref = None, ev_prompt = Some ''p'', ev_final = False, ev_fingerprint = None\<rparr>,
      Inr (Some 1)] =
     ([\<lparr>ev_request_id = ''r'', ev_session_id = ''s'', ev_seq_no = 0, ev_timestamp = NFloat 1,
        ev_frame_ref = None, ev_prompt = Some ''p'', ev_final = False, ev_fingerprint = None\<rparr>],
      [\<lparr>ev_request_id = ''r'', ev_session_id = ''s'', ev_seq_no = 0, ev_timestamp = NFloat 1,
        ev_frame_ref = None, ev_prompt = Some ''p'', ev_final = False, ev_fingerprint = None\<rparr>], s) \<and>
     next_seq_no s = 1"
proof -
  let ?e = "\<lparr>ev_request_id = ''r'', ev_session_id = ''s'', ev_seq_no = 0, ev_timestamp = NFloat 1,
        ev_frame_ref = None, ev_prompt = Some ''p'', ev_final = False, ev_fingerprint = None\<rparr>"
  have "\<exists>s. session_run (open_session ''r'' ''s'') [Inl ?e, Inr (Some 1)] = ([?e], [?e], s)"
    by (simp add: open_session_def accept_def drain_def)
  then obtain s where r: "session_run (open_session ''r'' ''s'') [Inl ?e, Inr (Some 1)] = ([?e], [?e], s)"
    by blast
  from session_order [OF r] r show ?thesis by simp
qed

end
