(* ===== verification/Accounting.thy ===== *)
theory Accounting
  imports Prelude
begin

section \<open>Logical-position accounting\<close>

text \<open>
  Models \<open>moss_vl_realtime/accounting.py\<close>: the counters of one request, their freezing, and
  the classification of an exception chain.  \<open>time.monotonic()\<close> is an argument.
\<close>

record accounting =
  ac_session_id :: string
  vision :: int
  text_input :: int
  text_output :: int
  ac_step :: int
  output_step :: int
  frozen :: bool
  retired_at :: "rat option"
  failure_code :: "string option"
  failure_seq :: "int option"

record usage =
  vision_tokens :: int
  text_input_tokens :: int
  text_output_tokens :: int
  text_tokens :: int
  total_tokens :: int

definition new_accounting :: "string \<Rightarrow> accounting" where
  "new_accounting sid =
     \<lparr>ac_session_id = sid, vision = 0, text_input = 0, text_output = 0, ac_step = 0,
      output_step = 0, frozen = False, retired_at = None, failure_code = None,
      failure_seq = None\<rparr>"

definition ac_commit :: "accounting \<Rightarrow> int \<Rightarrow> int \<Rightarrow> accounting res" where
  "ac_commit a v t =
     (if frozen a then Inl RuntimeError
      else if v < 0 \<or> t < 0 then Inl RuntimeError
      else Inr (a\<lparr>vision := vision a + v, text_input := text_input a + t,
                 ac_step := ac_step a + 1\<rparr>))"

definition ac_sampled :: "accounting \<Rightarrow> accounting res" where
  "ac_sampled a =
     (if frozen a then Inl RuntimeError
      else if ac_step a \<le> 0 then Inl RuntimeError
      else if output_step a \<noteq> ac_step a
      then Inr (a\<lparr>text_output := text_output a + 1, output_step := ac_step a\<rparr>)
      else Inr a)"

definition ac_snapshot :: "accounting \<Rightarrow> usage" where
  "ac_snapshot a =
     (let txt = text_input a + text_output a in
      \<lparr>vision_tokens = vision a, text_input_tokens = text_input a,
       text_output_tokens = text_output a, text_tokens = txt, total_tokens = vision a + txt\<rparr>)"

definition ac_freeze :: "accounting \<Rightarrow> rat \<Rightarrow> usage \<times> accounting" where
  "ac_freeze a now =
     (let a1 = a\<lparr>frozen := True\<rparr>;
          a2 = (if retired_at a1 = None then a1\<lparr>retired_at := Some now\<rparr> else a1)
      in (ac_snapshot a2, a2))"

subsection \<open>Classifying a failure\<close>

text \<open>
  Exceptions are objects with an identity (their index) and an optional \<open>__cause__\<close>; the
  walk stops at an object it has already visited, so a cyclic chain ends too.
\<close>

datatype exn_class = ExContextExhausted | ExTimeout | ExOther

function error_code_from :: "(exn_class \<times> nat option) list \<Rightarrow> nat list \<Rightarrow> nat option \<Rightarrow> string" where
  "error_code_from h seen i =
     (case i of
        None \<Rightarrow> ''response_failed''
      | Some k \<Rightarrow>
          if k \<in> set seen \<or> k \<ge> length h then ''response_failed''
          else case fst (h ! k) of
                 ExContextExhausted \<Rightarrow> ''context_exhausted''
               | ExTimeout \<Rightarrow> ''session_timeout''
               | ExOther \<Rightarrow> error_code_from h (k # seen) (snd (h ! k)))"
  by pat_completeness auto
termination
proof (relation "measure (\<lambda>(h, seen, _). card ({..<length h} - set seen))", goal_cases)
  case 1
  show ?case by simp
next
  case (2 h seen i k)
  then have "k \<in> {..<length h} - set seen" by auto
  then have "card ({..<length h} - set seen - {k}) < card ({..<length h} - set seen)"
    by (intro card_Diff1_less) auto
  moreover have "{..<length h} - set (k # seen) = {..<length h} - set seen - {k}" by auto
  ultimately show ?case by simp
qed

declare error_code_from.simps [simp del]

definition error_code :: "(exn_class \<times> nat option) list \<Rightarrow> nat option \<Rightarrow> string" where
  "error_code h i = error_code_from h [] i"

lemma error_code_from_cases:
  "error_code_from h seen i \<in> {''context_exhausted'', ''session_timeout'', ''response_failed''}"
proof (induction h seen i rule: error_code_from.induct)
  case (1 h seen i)
  then show ?case
    by (simp add: error_code_from.simps [of h seen i] split: option.split exn_class.split)
qed

subsection \<open>Runs of accounting operations\<close>

datatype ac_op = OpCommit int int | OpSampled | OpFreeze rat

text \<open>A raising operation leaves the counters as they are.\<close>

fun ac_apply :: "accounting \<Rightarrow> ac_op \<Rightarrow> accounting" where
  "ac_apply a (OpCommit v t) = (case ac_commit a v t of Inl _ \<Rightarrow> a | Inr a' \<Rightarrow> a')"
| "ac_apply a OpSampled = (case ac_sampled a of Inl _ \<Rightarrow> a | Inr a' \<Rightarrow> a')"
| "ac_apply a (OpFreeze now) = snd (ac_freeze a now)"

definition ac_run :: "accounting \<Rightarrow> ac_op list \<Rightarrow> accounting" where
  "ac_run a ops = fold (\<lambda>x s. ac_apply s x) ops a"

definition ac_inv :: "accounting \<Rightarrow> bool" where
  "ac_inv a \<longleftrightarrow>
     0 \<le> vision a \<and> 0 \<le> text_input a \<and> 0 \<le> text_output a \<and>
     text_output a \<le> output_step a \<and> output_step a \<le> ac_step a \<and>
     (frozen a \<longleftrightarrow> retired_at a \<noteq> None)"

named_theorems ac_defs

lemmas ac_op_defs [ac_defs] =
  ac_commit_def ac_sampled_def ac_freeze_def ac_snapshot_def Let_def

lemma ac_inv_new: "ac_inv (new_accounting sid)"
  by (simp add: ac_inv_def new_accounting_def)

lemma ac_apply_inv: "ac_inv a \<Longrightarrow> ac_inv (ac_apply a x)"
  by (cases x) (auto simp: ac_inv_def ac_defs)

lemma ac_run_inv: "ac_inv a \<Longrightarrow> ac_inv (ac_run a ops)"
  unfolding ac_run_def by (induction ops arbitrary: a) (auto simp: ac_apply_inv)

lemma ac_apply_frozen:
  "frozen a \<Longrightarrow> retired_at a \<noteq> None \<Longrightarrow> ac_apply a x = a"
  by (cases x) (auto simp: ac_defs)

lemma ac_run_frozen:
  "frozen a \<Longrightarrow> retired_at a \<noteq> None \<Longrightarrow> ac_run a ops = a"
  unfolding ac_run_def by (induction ops) (auto simp: ac_apply_frozen)

text \<open>
  In every run of commits, samples and freezes on a fresh record, counters stay
  non-negative, at most one output token is recorded per committed step, and the reported total is
  the sum of the vision, text-input and text-output positions.
\<close>

theorem accounting_run:
  "let a = ac_run (new_accounting sid) ops; u = ac_snapshot a in
     0 \<le> vision a \<and> 0 \<le> text_input a \<and> 0 \<le> text_output a \<and> text_output a \<le> ac_step a \<and>
     total_tokens u = vision a + text_input a + text_output a \<and>
     total_tokens u = vision_tokens u + text_input_tokens u + text_output_tokens u"
  using ac_run_inv [OF ac_inv_new, of sid ops] by (auto simp: ac_inv_def ac_snapshot_def Let_def)

text \<open>
  Once finalised, usage never changes: after \<open>freeze\<close> at any moment of a run,
  every further operation (a second freeze included) leaves the record and its usage as reported.
\<close>

theorem accounting_final:
  "let a = ac_run (new_accounting sid) before; (u, f) = ac_freeze a now; b = ac_run f later in
     b = f \<and> ac_snapshot b = u \<and> frozen b \<and> fst (ac_freeze b later_now) = u"
proof -
  have "ac_run f later = f" if "frozen f" "retired_at f \<noteq> None" for f
    using that by (rule ac_run_frozen)
  then show ?thesis by (auto simp: ac_defs)
qed

end
