(* ===== verification/Visibility.thy ===== *)
theory Visibility
  imports Prelude
begin

section \<open>Frame visibility of text tokens\<close>

text \<open>
  Models \<open>moss_vl_realtime/visibility.py\<close>.  A tensor of token ids is given with its rank;
  the \<open>int32\<close> counts are integers bounded by the number of image tokens.
\<close>

datatype ids_tensor = Ids1 "int list" | Ids2 "int list list" | IdsOther

fun cumsum_from :: "int \<Rightarrow> int list \<Rightarrow> int list" where
  "cumsum_from s [] = []"
| "cumsum_from s (x # xs) = (s + x) # cumsum_from (s + x) xs"

definition count_tokens :: "int list \<Rightarrow> int \<Rightarrow> int \<Rightarrow> int list" where
  "count_tokens ids tok initial =
     map (\<lambda>c. c + initial) (cumsum_from 0 (map (\<lambda>i. if i = tok then 1 else 0) ids))"

definition compute_visible_frame_counts :: "ids_tensor \<Rightarrow> int \<Rightarrow> int \<Rightarrow> int list res" where
  "compute_visible_frame_counts ids tok initial =
     bindE (case ids of
              Ids2 rows \<Rightarrow> (case rows of [r] \<Rightarrow> Inr r | _ \<Rightarrow> Inl ValueError)
            | Ids1 xs \<Rightarrow> Inr xs
            | IdsOther \<Rightarrow> Inl ValueError) (\<lambda>xs.
     if initial < 0 then Inl ValueError else Inr (count_tokens xs tok initial))"

definition append_visible_frame_counts ::
    "int list option \<Rightarrow> ids_tensor \<Rightarrow> int \<Rightarrow> int list res" where
  "append_visible_frame_counts prev ids tok =
     (let initial = (case prev of None \<Rightarrow> 0 | Some p \<Rightarrow> if p = [] then 0 else last p) in
      bindE (compute_visible_frame_counts ids tok initial) (\<lambda>new.
        case prev of None \<Rightarrow> Inr new | Some p \<Rightarrow> if p = [] then Inr new else Inr (p @ new)))"

lemma cumsum_from_shift: "map (\<lambda>c. c + k) (cumsum_from s xs) = cumsum_from (s + k) xs"
  by (induction xs arbitrary: s) (auto simp: add_ac)

lemma count_tokens_cumsum:
  "count_tokens ids tok initial = cumsum_from initial (map (\<lambda>i. if i = tok then 1 else 0) ids)"
  by (simp add: count_tokens_def cumsum_from_shift)

lemma length_cumsum_from [simp]: "length (cumsum_from s xs) = length xs"
  by (induction xs arbitrary: s) auto

lemma cumsum_from_append:
  "cumsum_from s (xs @ ys) = cumsum_from s xs @ cumsum_from (s + sum_list xs) ys"
  by (induction xs arbitrary: s) (auto simp: add_ac)

lemma cumsum_from_Nil_iff [simp]: "cumsum_from s xs = [] \<longleftrightarrow> xs = []"
  by (cases xs) auto

lemma last_cumsum_from: "xs \<noteq> [] \<Longrightarrow> last (cumsum_from s xs) = s + sum_list xs"
proof (induction xs arbitrary: s)
  case (Cons x xs)
  then show ?case by (cases "xs = []") (auto simp: add_ac)
qed simp

lemma cumsum_from_nth: "i < length xs \<Longrightarrow> cumsum_from s xs ! i = s + sum_list (take (Suc i) xs)"
proof (induction xs arbitrary: s i)
  case (Cons x xs)
  then show ?case by (cases i) auto
qed simp

lemma sum_indicator: "sum_list (map (\<lambda>i. if i = tok then 1 else (0::int)) ids) = int (count_list ids tok)"
  by (induction ids) auto

lemma count_tokens_nth:
  "i < length ids \<Longrightarrow>
     count_tokens ids tok initial ! i = initial + int (count_list (take (Suc i) ids) tok)"
  by (simp add: count_tokens_cumsum cumsum_from_nth take_map sum_indicator)

lemma count_tokens_append:
  "count_tokens (xs @ ys) tok k =
     count_tokens xs tok k @ count_tokens ys tok (k + int (count_list xs tok))"
  by (simp add: count_tokens_cumsum cumsum_from_append sum_indicator)

lemma last_count_tokens:
  "xs \<noteq> [] \<Longrightarrow> last (count_tokens xs tok k) = k + int (count_list xs tok)"
  by (simp add: count_tokens_cumsum last_cumsum_from sum_indicator)

lemma count_tokens_Nil [simp]: "count_tokens [] tok k = []"
  by (simp add: count_tokens_def)

lemma append_visible_Ids1:
  "append_visible_frame_counts (if xs = [] then None else Some (count_tokens xs tok 0)) (Ids1 ys) tok
     = Inr (count_tokens (xs @ ys) tok 0)"
proof (cases "xs = []")
  case False
  then have "count_tokens xs tok 0 \<noteq> []"
    by (metis count_tokens_cumsum length_0_conv length_cumsum_from length_map)
  with False show ?thesis
    by (simp add: append_visible_frame_counts_def compute_visible_frame_counts_def Let_def
        last_count_tokens count_tokens_append)
qed (simp add: append_visible_frame_counts_def compute_visible_frame_counts_def)

text \<open>Feeding segments one after the other.\<close>

fun append_all :: "int list option \<Rightarrow> int list list \<Rightarrow> int \<Rightarrow> int list option res" where
  "append_all prev [] tok = Inr prev"
| "append_all prev (s # ss) tok =
     bindE (append_visible_frame_counts prev (Ids1 s) tok) (\<lambda>c. append_all (Some c) ss tok)"

lemma append_visible_Some:
  "append_visible_frame_counts (Some (count_tokens xs tok 0)) (Ids1 ys) tok
     = Inr (count_tokens (xs @ ys) tok 0)"
  using append_visible_Ids1 [of xs tok ys]
  by (cases "xs = []") (simp_all add: append_visible_frame_counts_def)

lemma append_all_from:
  "append_all (Some (count_tokens xs tok 0)) ss tok = Inr (Some (count_tokens (xs @ concat ss) tok 0))"
  by (induction ss arbitrary: xs) (simp_all add: append_visible_Some)

text \<open>
  Incremental visibility equals the offline mask: however a token stream is
  cut into segments, appending the segments one by one gives, for every token, the number of image
  placeholders up to and including it.
\<close>

theorem visibility_incremental:
  assumes "ss \<noteq> []"
  shows "\<exists>counts. append_all None ss tok = Inr (Some counts) \<and>
     compute_visible_frame_counts (Ids1 (concat ss)) tok 0 = Inr counts \<and>
     length counts = length (concat ss) \<and>
     (\<forall>i < length counts. counts ! i = int (count_list (take (Suc i) (concat ss)) tok))"
proof -
  obtain s rest where ss: "ss = s # rest" using assms by (cases ss) auto
  have one: "append_visible_frame_counts None (Ids1 s) tok = Inr (count_tokens s tok 0)"
    using append_visible_Ids1 [of "[]" tok s] by simp
  have len: "length (count_tokens (concat ss) tok 0) = length (concat ss)"
    by (simp add: count_tokens_cumsum)
  have "append_all None ss tok = Inr (Some (count_tokens (concat ss) tok 0))"
    using one by (simp add: ss append_all_from)
  with len show ?thesis
    by (auto simp: compute_visible_frame_counts_def count_tokens_nth)
qed

theorem visibility_incremental_witness:
  "append_all None [[5, 9], [9]] 9 = Inr (Some [0, 1, 2]) \<and> [[5, 9], [9 :: int]] \<noteq> []"
proof -
  have h: "[[5, 9], [9 :: int]] \<noteq> []" by simp
  from visibility_incremental [OF h, of 9] obtain counts where
    c: "append_all None [[5, 9], [9]] 9 = Inr (Some counts)"
      "compute_visible_frame_counts (Ids1 (concat [[5, 9], [9]])) 9 0 = Inr counts" by blast
  from c(2) have "counts = [0, 1, 2]"
    by (simp add: compute_visible_frame_counts_def count_tokens_def)
  with c(1) show ?thesis by simp
qed

end
