(* ===== verification/Frame_Plan.thy ===== *)
theory Frame_Plan
  imports Py_Value
begin

section \<open>Planning one round of the vision-KV sliding window\<close>

text \<open>
  Models the pure half of \<open>moss_vl_realtime/frame_window.py\<close>: the window configuration,
  \<open>plan_frame_window\<close>, \<open>covered_spans\<close> and \<open>visible_count_remap\<close>.
  Timestamps are the rational values of the floats; their differences are taken exactly.
\<close>

subsection \<open>Configuration\<close>

record fw_config =
  enabled :: bool
  raw_window_s :: rat
  pool_window_s :: rat
  pool_ratio :: int
  pooling_enabled :: bool

definition env_flag :: "string \<Rightarrow> bool res" where
  "env_flag v =
     (let normalized = map lower_char (py_strip v) in
      if normalized \<in> {''1'', ''true'', ''yes'', ''on''} then Inr True
      else if normalized \<in> {''0'', ''false'', ''no'', ''off''} then Inr False
      else Inl ValueError)"

fun window_seconds :: "pyval \<Rightarrow> rat res" where
  "window_seconds v =
     bindE (finite_number v) (\<lambda>t. case t of
       None \<Rightarrow> Inl ValueError
     | Some x \<Rightarrow> if num_float x \<le> 0 then Inl ValueError else Inr (num_float x))"

definition mk_fw_config :: "pyval \<Rightarrow> pyval \<Rightarrow> pyval \<Rightarrow> pyval \<Rightarrow> pyval \<Rightarrow> fw_config res" where
  "mk_fw_config en raw pool ratio pooling =
     bindE (case en of PyBool b \<Rightarrow> Inr b | _ \<Rightarrow> Inl TypeError) (\<lambda>en'.
     bindE (case pooling of PyBool b \<Rightarrow> Inr b | _ \<Rightarrow> Inl TypeError) (\<lambda>pooling'.
     bindE (window_seconds raw) (\<lambda>raw'.
     bindE (window_seconds pool) (\<lambda>pool'.
     bindE (case ratio of PyInt n \<Rightarrow> Inr n | _ \<Rightarrow> Inl TypeError) (\<lambda>ratio'.
     bindE (ensure (2 \<le> ratio') ValueError) (\<lambda>_.
       Inr \<lparr>enabled = en', raw_window_s = raw', pool_window_s = pool', pool_ratio = ratio',
            pooling_enabled = pooling'\<rparr>))))))"

definition fw_config_ok :: "fw_config \<Rightarrow> bool" where
  "fw_config_ok c \<longleftrightarrow> 0 < raw_window_s c \<and> 0 < pool_window_s c \<and> 2 \<le> pool_ratio c"

lemma mk_fw_config_ok: "mk_fw_config a b c d e = Inr cfg \<Longrightarrow> fw_config_ok cfg"
  by (auto simp: mk_fw_config_def bindE_eq_Inr fw_config_ok_def split: option.splits if_splits)

subsection \<open>Frame records and plans\<close>

record frame_record =
  fr_timestamp :: rat
  grid_h :: int
  grid_w :: int
  fr_slots :: int
  pooled :: bool
  pooled_sources :: int

definition grid_row :: "frame_record \<Rightarrow> int \<times> int \<times> int" where
  "grid_row r = (1, grid_h r, grid_w r)"

type_synonym raw_chunk = "nat \<times> nat \<times> bool"

record frame_window_plan =
  evicted_virtual_count :: nat
  raw_chunks :: "raw_chunk list"
  new_records :: "frame_record list"

definition pooled_raw_count :: "frame_window_plan \<Rightarrow> nat" where
  "pooled_raw_count p = sum_list (map (\<lambda>(_, n, _). n) (filter (\<lambda>(_, _, b). b) (raw_chunks p)))"

definition dropped_raw_count :: "frame_window_plan \<Rightarrow> nat" where
  "dropped_raw_count p = sum_list (map (\<lambda>(_, n, _). n) (filter (\<lambda>(_, _, b). \<not> b) (raw_chunks p)))"

definition produced_virtual_count :: "frame_window_plan \<Rightarrow> nat" where
  "produced_virtual_count p = length (filter (\<lambda>(_, _, b). b) (raw_chunks p))"

definition removes_frames :: "frame_window_plan \<Rightarrow> bool" where
  "removes_frames p \<longleftrightarrow> 0 < evicted_virtual_count p \<or> raw_chunks p \<noteq> []"

subsection \<open>\<open>plan_frame_window\<close>\<close>

definition aged_prefix :: "rat \<Rightarrow> frame_record list \<Rightarrow> nat" where
  "aged_prefix window raws =
     (if raws = [] then 0
      else length (takeWhile (\<lambda>r. fr_timestamp (last raws) - fr_timestamp r > window) raws))"

definition same_shape :: "frame_record \<Rightarrow> frame_record \<Rightarrow> bool" where
  "same_shape a b \<longleftrightarrow> (grid_h a, grid_w a, fr_slots a) = (grid_h b, grid_w b, fr_slots b)"

definition pool_members :: "frame_record list \<Rightarrow> frame_record" where
  "pool_members members =
     \<lparr>fr_timestamp = fr_timestamp (last members), grid_h = grid_h (hd members),
      grid_w = grid_w (hd members), fr_slots = fr_slots (hd members), pooled = True,
      pooled_sources = int (length members)\<rparr>"

text \<open>The chunk loop over the poolable prefix, from \<open>cursor\<close> on.\<close>

function fold_chunks :: "nat \<Rightarrow> nat \<Rightarrow> frame_record list \<Rightarrow> raw_chunk list \<times> frame_record list" where
  "fold_chunks ratio cursor rs =
     (if rs = [] \<or> ratio = 0 then ([], [])
      else let members = take ratio rs;
               poolable = list_all (\<lambda>m. same_shape m (hd members)) members;
               (chunks, produced) = fold_chunks ratio (cursor + length members) (drop ratio rs)
           in ((cursor, length members, poolable) # chunks,
               (if poolable then pool_members members # produced else produced)))"
  by pat_completeness auto
termination
  by (relation "measure (\<lambda>(_, _, rs). length rs)") auto

declare fold_chunks.simps [simp del]

definition evict_prefix :: "rat \<Rightarrow> frame_record list \<Rightarrow> nat" where
  "evict_prefix window vs =
     (if length vs \<ge> 2
      then length (takeWhile (\<lambda>v. fr_timestamp (last vs) - fr_timestamp v > window) (butlast vs))
      else 0)"

fun mark_expired :: "nat \<Rightarrow> raw_chunk list \<Rightarrow> raw_chunk list" where
  "mark_expired expired [] = []"
| "mark_expired expired ((start, n, poolable) # cs) =
     (if poolable \<and> 0 < expired then (start, n, False) # mark_expired (expired - 1) cs
      else (start, n, poolable) # mark_expired expired cs)"

definition plan_frame_window :: "frame_record list \<Rightarrow> fw_config \<Rightarrow> frame_window_plan option res" where
  "plan_frame_window records cfg =
     (if \<not> enabled cfg \<or> records = [] then Inr None
      else let virtuals = takeWhile pooled records; raws = dropWhile pooled records in
      if \<exists>r \<in> set raws. pooled r then Inl RuntimeError
      else let aged_raw = aged_prefix (raw_window_s cfg) raws;
               ratio = nat (pool_ratio cfg);
               poolable_count =
                 (if pooling_enabled cfg then aged_raw div ratio * ratio else aged_raw);
               (chunks, produced) =
                 (if pooling_enabled cfg then fold_chunks ratio 0 (take poolable_count raws)
                  else (if aged_raw = 0 then [] else [(0, aged_raw, False)], []));
               virtuals_all = virtuals @ produced;
               evicted_virtual = evict_prefix (pool_window_s cfg) virtuals_all
           in if evicted_virtual = 0 \<and> chunks = [] then Inr None
              else let expired_produced = evicted_virtual - length virtuals in
                Inr (Some
                  \<lparr>evicted_virtual_count =
                     (if 0 < expired_produced then length virtuals else evicted_virtual),
                   raw_chunks =
                     (if 0 < expired_produced then mark_expired expired_produced chunks else chunks),
                   new_records = drop evicted_virtual virtuals_all @ drop poolable_count raws\<rparr>))"

subsection \<open>\<open>covered_spans\<close> and \<open>visible_count_remap\<close>\<close>

definition unit_spans :: "nat \<Rightarrow> nat \<Rightarrow> (nat \<times> nat) list" where
  "unit_spans cursor n = map (\<lambda>i. (i, i + 1)) [cursor..<cursor + n]"

fun chunk_spans :: "nat \<Rightarrow> raw_chunk list \<Rightarrow> (nat \<times> nat) list \<times> nat" where
  "chunk_spans cursor [] = ([], cursor)"
| "chunk_spans cursor ((_, n, poolable) # cs) =
     (let (spans, e) = chunk_spans (cursor + n) cs in
      ((if poolable then (cursor, cursor + n) # spans else spans), e))"

definition covered_spans ::
    "frame_record list \<Rightarrow> frame_window_plan \<Rightarrow> (nat \<times> nat) list res" where
  "covered_spans records p =
     (let old_virtual_count = length (filter pooled records);
          start = evicted_virtual_count p;
          kept_virtual = old_virtual_count - start;
          spans1 = unit_spans start kept_virtual;
          (spans2, c2) = chunk_spans (start + kept_virtual) (raw_chunks p);
          kept_raw = length (filter (\<lambda>r. \<not> pooled r) (new_records p));
          spans = spans1 @ spans2 @ unit_spans c2 kept_raw;
          cursor = c2 + kept_raw
      in if cursor \<noteq> length records then Inl RuntimeError
         else if length spans \<noteq> length (new_records p) then Inl RuntimeError
         else Inr spans)"

text \<open>\<open>for c in range(a, b): remap[c] = v\<close>.\<close>

definition fill :: "int list \<Rightarrow> nat \<Rightarrow> nat \<Rightarrow> int \<Rightarrow> int list res" where
  "fill xs a b v =
     (if b \<le> a then Inr xs
      else if b > length xs then Inl IndexError
      else Inr (take a xs @ replicate (b - a) v @ drop b xs))"

fun remap_spans :: "int list \<Rightarrow> nat \<Rightarrow> int \<Rightarrow> (nat \<times> nat) list \<Rightarrow> (int list \<times> nat \<times> int) res" where
  "remap_spans remap cursor produced [] = Inr (remap, cursor, produced)"
| "remap_spans remap cursor produced ((start, stop) # spans) =
     (if start < cursor \<or> stop \<le> start then Inl ValueError
      else bindE (fill remap cursor (start + 1) produced) (\<lambda>r1.
           bindE (fill r1 (start + 1) (stop + 1) (produced + 1)) (\<lambda>r2.
             remap_spans r2 stop (produced + 1) spans)))"

definition visible_count_remap :: "nat \<Rightarrow> (nat \<times> nat) list \<Rightarrow> int list res" where
  "visible_count_remap old_row_count spans =
     bindE (remap_spans (replicate (old_row_count + 1) 0) 0 0 spans) (\<lambda>(remap, cursor, produced).
       fill remap cursor (old_row_count + 1) produced)"

end
