(* ===== verification/Frame_Plan_Props.thy ===== *)
theory Frame_Plan_Props
  imports Frame_Plan
begin

section \<open>Correctness of the frame-window plan\<close>

text \<open>
  Lemmas on the chunk loop, the span computation and the remap table, and the properties of
  \<open>plan_frame_window\<close>: its spans cover every old record, the remap table counts surviving rows,
  a plan leaves nothing for a second round, and no frame is unaccounted for.
\<close>

subsection \<open>The chunk loop\<close>

definition chunk_total :: "raw_chunk list \<Rightarrow> nat" where
  "chunk_total cs = sum_list (map (\<lambda>(_, n, _). n) cs)"

definition n_poolable :: "raw_chunk list \<Rightarrow> nat" where
  "n_poolable cs = length (filter (\<lambda>(_, _, b). b) cs)"

lemma fold_chunks_Nil [simp]: "fold_chunks ratio cursor [] = ([], [])"
  by (simp add: fold_chunks.simps)

lemma fold_chunks_facts:
  assumes "0 < ratio" and "fold_chunks ratio cursor rs = (cs, pr)"
  shows "chunk_total cs = length rs \<and> length pr = n_poolable cs \<and> (\<forall>r \<in> set pr. pooled r)
     \<and> (\<forall>(s, n, b) \<in> set cs. 0 < n) \<and> (cs = [] \<longleftrightarrow> rs = [])"
  using assms
proof (induction ratio cursor rs arbitrary: cs pr rule: fold_chunks.induct)
  case (1 ratio cursor rs)
  show ?case
  proof (cases "rs = []")
    case True
    with 1(3) show ?thesis by (simp add: chunk_total_def n_poolable_def)
  next
    case False
    let ?m = "take ratio rs"
    obtain cs' pr' where rec: "fold_chunks ratio (cursor + length ?m) (drop ratio rs) = (cs', pr')"
      by (cases "fold_chunks ratio (cursor + length ?m) (drop ratio rs)") auto
    have "0 < length ?m" using False 1(2) by simp
    moreover have "length ?m + length (drop ratio rs) = length rs" by simp
    ultimately show ?thesis
      using 1(1) [OF _ refl refl 1(2) rec] 1(2,3) False rec
      by (auto simp: fold_chunks.simps [of ratio cursor rs] chunk_total_def n_poolable_def
          pool_members_def Let_def split: if_splits)
  qed
qed

lemma mark_expired_total [simp]: "chunk_total (mark_expired k cs) = chunk_total cs"
  by (induction k cs rule: mark_expired.induct) (auto simp: chunk_total_def)

lemma mark_expired_poolable: "n_poolable (mark_expired k cs) = n_poolable cs - k"
  by (induction k cs rule: mark_expired.induct) (auto simp: n_poolable_def)

lemma mark_expired_pos:
  "(\<forall>(s, n, b) \<in> set cs. 0 < n) \<Longrightarrow> (\<forall>(s, n, b) \<in> set (mark_expired k cs). 0 < n)"
  by (induction k cs rule: mark_expired.induct) (auto split: if_splits)

lemma mark_expired_Nil [simp]: "mark_expired k cs = [] \<longleftrightarrow> cs = []"
  by (cases cs) (auto split: if_splits)

subsection \<open>Ordered spans\<close>

fun spans_from :: "nat \<Rightarrow> (nat \<times> nat) list \<Rightarrow> nat \<Rightarrow> bool" where
  "spans_from c [] stop \<longleftrightarrow> c \<le> stop"
| "spans_from c ((s, e) # r) stop \<longleftrightarrow> c \<le> s \<and> s < e \<and> spans_from e r stop"

lemma spans_from_mono: "spans_from c xs m \<Longrightarrow> c' \<le> c \<Longrightarrow> spans_from c' xs m"
  by (cases xs) auto

lemma spans_from_bound: "spans_from c xs m \<Longrightarrow> c \<le> m"
  by (induction c xs m rule: spans_from.induct) auto

lemma spans_from_append: "spans_from c xs m \<Longrightarrow> spans_from m ys stop \<Longrightarrow> spans_from c (xs @ ys) stop"
  by (induction c xs m rule: spans_from.induct) (auto intro: spans_from_mono)

lemma unit_spans_Suc: "unit_spans a (Suc n) = (a, a + 1) # unit_spans (a + 1) n"
  by (simp add: unit_spans_def upt_conv_Cons)

lemma unit_spans_0 [simp]: "unit_spans a 0 = []"
  by (simp add: unit_spans_def)

lemma length_unit_spans [simp]: "length (unit_spans a n) = n"
  by (simp add: unit_spans_def)

lemma spans_from_unit: "spans_from a (unit_spans a n) (a + n)"
proof (induction n arbitrary: a)
  case (Suc n)
  from Suc.IH [of "Suc a"] show ?case by (simp add: unit_spans_Suc)
qed simp

lemma chunk_spans_end: "snd (chunk_spans c cs) = c + chunk_total cs"
  by (induction c cs rule: chunk_spans.induct) (auto simp: chunk_total_def split: prod.splits)

lemma chunk_spans_length: "length (fst (chunk_spans c cs)) = n_poolable cs"
  by (induction c cs rule: chunk_spans.induct) (auto simp: n_poolable_def split: prod.splits)

lemma chunk_spans_ordered:
  "(\<forall>(s, n, b) \<in> set cs. 0 < n) \<Longrightarrow> spans_from c (fst (chunk_spans c cs)) (c + chunk_total cs)"
proof (induction c cs rule: chunk_spans.induct)
  case (2 c s n b cs)
  then have "spans_from (c + n) (fst (chunk_spans (c + n) cs)) (c + n + chunk_total cs)" and "0 < n"
    by auto
  then show ?case
    by (auto simp: chunk_total_def add.assoc split: prod.splits intro: spans_from_mono)
qed (simp add: chunk_total_def)

subsection \<open>The remap table\<close>

text \<open>The specification: how many surviving rows intersect the first \<open>c\<close> old rows.\<close>

definition rows_seen :: "(nat \<times> nat) list \<Rightarrow> nat \<Rightarrow> nat" where
  "rows_seen spans c = length (filter (\<lambda>(s, _). s < c) spans)"

lemma rows_seen_none: "spans_from m spans stop \<Longrightarrow> c \<le> m \<Longrightarrow> rows_seen spans c = 0"
  by (induction m spans stop rule: spans_from.induct) (auto simp: rows_seen_def)

lemma rows_seen_Cons: "rows_seen ((s, e) # r) c = (if s < c then Suc (rows_seen r c) else rows_seen r c)"
  by (simp add: rows_seen_def)

lemma fill_ok:
  assumes "b \<le> length xs"
  shows "\<exists>ys. fill xs a b v = Inr ys \<and> length ys = length xs \<and>
     (\<forall>i < length xs. ys ! i = (if a \<le> i \<and> i < b then v else xs ! i))"
proof (cases "b \<le> a")
  case True
  then show ?thesis by (auto simp: fill_def)
next
  case False
  with assms show ?thesis
    by (auto simp: fill_def nth_append min_def)
qed

lemma remap_spans_ok:
  assumes "spans_from cur spans n" and "length remap = n + 1"
    and "\<forall>c < cur. remap ! c = f c"
    and "\<forall>c. cur \<le> c \<longrightarrow> c \<le> n \<longrightarrow> f c = k0 + int (rows_seen spans c)"
  shows "\<exists>remap' cur' k1. remap_spans remap cur k0 spans = Inr (remap', cur', k1) \<and>
     length remap' = n + 1 \<and> cur' \<le> n \<and> (\<forall>c < cur'. remap' ! c = f c) \<and>
     (\<forall>c. cur' \<le> c \<longrightarrow> c \<le> n \<longrightarrow> f c = k1)"
  using assms
proof (induction spans arbitrary: remap cur k0)
  case Nil
  then show ?case by (auto simp: rows_seen_def)
next
  case (Cons p r)
  obtain s e where p: "p = (s, e)" by (cases p)
  from Cons.prems(1) p have o: "cur \<le> s" "s < e" "spans_from e r n" by auto
  then have en: "e \<le> n" by (auto dest: spans_from_bound)
  obtain r1 where r1: "fill remap cur (s + 1) k0 = Inr r1" "length r1 = n + 1"
      "\<forall>i < n + 1. r1 ! i = (if cur \<le> i \<and> i < s + 1 then k0 else remap ! i)"
    using fill_ok [of "s + 1" remap cur k0] o en Cons.prems(2) by auto
  obtain r2 where r2: "fill r1 (s + 1) (e + 1) (k0 + 1) = Inr r2" "length r2 = n + 1"
      "\<forall>i < n + 1. r2 ! i = (if s + 1 \<le> i \<and> i < e + 1 then k0 + 1 else r1 ! i)"
    using fill_ok [of "e + 1" r1 "s + 1" "k0 + 1"] o en r1(2) by auto
  have low: "f c = k0" if "cur \<le> c" "c \<le> s" for c
    using Cons.prems(4) that o en rows_seen_none [OF o(3), of c] by (auto simp: p rows_seen_Cons)
  have mid: "f c = k0 + 1" if "s < c" "c \<le> e" for c
    using Cons.prems(4) that o en rows_seen_none [OF o(3), of c] by (auto simp: p rows_seen_Cons)
  have "\<forall>c < e. r2 ! c = f c"
  proof (intro allI impI)
    fix c assume "c < e"
    with r1 r2 low mid Cons.prems(3) en show "r2 ! c = f c"
      by (cases "c < cur"; cases "c \<le> s") auto
  qed
  moreover have "\<forall>c. e \<le> c \<longrightarrow> c \<le> n \<longrightarrow> f c = k0 + 1 + int (rows_seen r c)"
    using Cons.prems(4) o by (auto simp: p rows_seen_Cons)
  ultimately show ?case
    using Cons.IH [OF o(3) r2(2)] o r1(1) r2(1) by (auto simp: p)
qed

lemma visible_count_remap_spec:
  assumes "spans_from 0 spans n"
  shows "visible_count_remap n spans = Inr (map (\<lambda>c. int (rows_seen spans c)) [0..<n + 1])"
proof -
  let ?f = "\<lambda>c. int (rows_seen spans c)"
  from remap_spans_ok [OF assms, of "replicate (n + 1) 0" ?f 0]
  obtain r cur pr where m: "remap_spans (replicate (n + 1) 0) 0 0 spans = Inr (r, cur, pr)"
    "length r = n + 1" "cur \<le> n" "\<forall>c < cur. r ! c = ?f c" "\<forall>c. cur \<le> c \<longrightarrow> c \<le> n \<longrightarrow> ?f c = pr"
    by auto
  from fill_ok [of "n + 1" r cur pr] m(2) obtain ys where
    ys: "fill r cur (n + 1) pr = Inr ys" "length ys = n + 1"
      "\<forall>i < n + 1. ys ! i = (if cur \<le> i \<and> i < n + 1 then pr else r ! i)" by auto
  have "ys = map ?f [0..<n + 1]"
    using ys m by (intro nth_equalityI) (auto simp del: upt_Suc)
  with m(1) ys(1) show ?thesis by (simp add: visible_count_remap_def)
qed


subsection \<open>The shape of a plan\<close>

lemma aged_prefix_le: "aged_prefix w raws \<le> length raws"
  by (simp add: aged_prefix_def length_takeWhile_le)

lemma aged_prefix_last:
  assumes "0 < w" and "raws \<noteq> []"
  shows "aged_prefix w raws < length raws"
proof -
  have "length (takeWhile P raws) < length raws" if "\<not> P (last raws)" for P
    using that assms(2) by (metis last_in_set set_takeWhileD takeWhile_eq_all_conv
        length_takeWhile_le le_neq_implies_less takeWhile_eq_take take_all order_refl)
  then show ?thesis using assms by (simp add: aged_prefix_def)
qed

lemma evict_prefix_less: "vs \<noteq> [] \<Longrightarrow> evict_prefix w vs < length vs"
proof (cases "2 \<le> length vs")
  case True
  have "length (takeWhile P (butlast vs)) \<le> length vs - 1" for P
    by (metis length_butlast length_takeWhile_le)
  moreover have "length vs - 1 < length vs" using True by simp
  ultimately show ?thesis using True by (auto simp: evict_prefix_def intro: le_less_trans)
qed (simp add: evict_prefix_def)

text \<open>Everything a proof about a plan needs, read off the definition once.\<close>

lemma plan_shape:
  assumes plan: "plan_frame_window records cfg = Inr (Some p)" and ok: "fw_config_ok cfg"
  obtains vs raws pc cs pr ev where
    "records = vs @ raws" and "vs = takeWhile pooled records" and "raws = dropWhile pooled records"
    and "enabled cfg" and "records \<noteq> []"
    and "\<forall>r \<in> set raws. \<not> pooled r" and "\<forall>r \<in> set vs. pooled r"
    and "pc \<le> aged_prefix (raw_window_s cfg) raws"
    and "pc = (if pooling_enabled cfg
               then aged_prefix (raw_window_s cfg) raws div nat (pool_ratio cfg) * nat (pool_ratio cfg)
               else aged_prefix (raw_window_s cfg) raws)"
    and "(cs, pr) = (if pooling_enabled cfg then fold_chunks (nat (pool_ratio cfg)) 0 (take pc raws)
                     else (if pc = 0 then [] else [(0, pc, False)], []))"
    and "ev = evict_prefix (pool_window_s cfg) (vs @ pr)"
    and "chunk_total cs = pc" and "length pr = n_poolable cs" and "\<forall>r \<in> set pr. pooled r"
    and "\<forall>(s, n, b) \<in> set cs. 0 < n"
    and "ev \<noteq> 0 \<or> cs \<noteq> []"
    and "evicted_virtual_count p = min ev (length vs)"
    and "raw_chunks p = (if length vs < ev then mark_expired (ev - length vs) cs else cs)"
    and "new_records p = drop ev (vs @ pr) @ drop pc raws"
proof -
  let ?vs = "takeWhile pooled records" and ?raws = "dropWhile pooled records"
  let ?aged = "aged_prefix (raw_window_s cfg) ?raws" and ?ratio = "nat (pool_ratio cfg)"
  let ?pc = "if pooling_enabled cfg then ?aged div ?ratio * ?ratio else ?aged"
  have ratio: "0 < ?ratio" using ok by (simp add: fw_config_ok_def)
  obtain cs pr where cspr: "(cs, pr) =
      (if pooling_enabled cfg then fold_chunks ?ratio 0 (take ?pc ?raws)
       else (if ?pc = 0 then [] else [(0, ?pc, False)], []))"
    by (metis surj_pair)
  have pcle: "?pc \<le> ?aged" by (simp add: div_times_less_eq_dividend)
  have pclen: "length (take ?pc ?raws) = ?pc"
    using pcle aged_prefix_le [of "raw_window_s cfg" ?raws] by simp
  have facts: "chunk_total cs = ?pc \<and> length pr = n_poolable cs \<and> (\<forall>r \<in> set pr. pooled r)
      \<and> (\<forall>(s, n, b) \<in> set cs. 0 < n)"
  proof (cases "pooling_enabled cfg")
    case True
    then have "fold_chunks ?ratio 0 (take ?pc ?raws) = (cs, pr)" using cspr by simp
    from fold_chunks_facts [OF ratio this] pclen show ?thesis by auto
  next
    case False
    with cspr show ?thesis by (auto simp: chunk_total_def n_poolable_def split: if_splits)
  qed
  have en: "enabled cfg" "records \<noteq> []"
    using plan by (auto simp: plan_frame_window_def split: if_splits)
  have np: "\<forall>r \<in> set ?raws. \<not> pooled r"
  proof (rule ccontr)
    assume "\<not> ?thesis"
    then have "\<exists>r \<in> set ?raws. pooled r" by blast
    then have "plan_frame_window records cfg = Inl RuntimeError"
      using en by (simp add: plan_frame_window_def Let_def)
    with plan show False by simp
  qed
  let ?ev = "evict_prefix (pool_window_s cfg) (?vs @ pr)"
  have body: "plan_frame_window records cfg =
      (if ?ev = 0 \<and> cs = [] then Inr None
       else Inr (Some \<lparr>evicted_virtual_count = (if 0 < ?ev - length ?vs then length ?vs else ?ev),
          raw_chunks = (if 0 < ?ev - length ?vs then mark_expired (?ev - length ?vs) cs else cs),
          new_records = drop ?ev (?vs @ pr) @ drop ?pc ?raws\<rparr>))"
  proof (cases "pooling_enabled cfg")
    case True
    then have f: "fold_chunks ?ratio 0 (take (?aged div ?ratio * ?ratio) ?raws) = (cs, pr)"
      using cspr by simp
    show ?thesis
      using en np True by (simp add: plan_frame_window_def Let_def f)
  next
    case False
    then have f: "cs = (if ?aged = 0 then [] else [(0, ?aged, False)])" "pr = []"
      using cspr by (simp_all split: if_splits)
    show ?thesis
      using en np False by (simp add: plan_frame_window_def Let_def f)
  qed
  from body plan have nz: "?ev \<noteq> 0 \<or> cs \<noteq> []"
    and p: "p = \<lparr>evicted_virtual_count = (if 0 < ?ev - length ?vs then length ?vs else ?ev),
          raw_chunks = (if 0 < ?ev - length ?vs then mark_expired (?ev - length ?vs) cs else cs),
          new_records = drop ?ev (?vs @ pr) @ drop ?pc ?raws\<rparr>"
    by (auto split: if_splits)
  show thesis
    by (rule that [of ?vs ?raws ?pc cs pr ?ev])
      (use en np facts pcle cspr nz p in \<open>auto dest: set_takeWhileD simp: min_def\<close>)
qed


lemma plan_new_records_split:
  assumes "\<forall>r \<in> set raws. \<not> pooled r" and "\<forall>r \<in> set vs. pooled r" and "\<forall>r \<in> set pr. pooled r"
    and "new = drop ev (vs @ pr) @ drop pc raws"
  shows "takeWhile pooled new = drop ev (vs @ pr)" and "dropWhile pooled new = drop pc raws"
    and "filter (\<lambda>r. \<not> pooled r) new = drop pc raws"
proof -
  have h: "\<forall>r \<in> set (drop ev (vs @ pr)). pooled r"
    using assms(2,3) by (auto dest: in_set_dropD)
  have t: "\<forall>r \<in> set (drop pc raws). \<not> pooled r"
    using assms(1) by (auto dest: in_set_dropD)
  show "takeWhile pooled new = drop ev (vs @ pr)"
    using h t unfolding assms(4) by (cases "drop pc raws") (auto simp: takeWhile_tail)
  show "dropWhile pooled new = drop pc raws"
    using h t unfolding assms(4) by (cases "drop pc raws") (auto simp: dropWhile_append)
  show "filter (\<lambda>r. \<not> pooled r) new = drop pc raws"
    using h t unfolding assms(4) by (simp add: filter_id_conv filter_empty_conv del: drop_append)
qed

lemma takeWhile_dropWhile_same: "takeWhile P (dropWhile P xs) = []"
  by (induction xs) auto

lemma evict_prefix_drop: "evict_prefix w (drop (evict_prefix w vs) vs) = 0"
proof (cases "2 \<le> length vs")
  case True
  let ?P = "\<lambda>v. fr_timestamp (last vs) - fr_timestamp v > w"
  let ?n = "evict_prefix w vs"
  have n: "?n = length (takeWhile ?P (butlast vs))" using True by (simp add: evict_prefix_def)
  have "?n < length vs" using True by (intro evict_prefix_less) auto
  then have l: "last (drop ?n vs) = last vs" by simp
  have d: "butlast (drop ?n vs) = dropWhile ?P (butlast vs)"
    by (simp only: n dropWhile_eq_drop butlast_drop [symmetric])
  have "takeWhile ?P (dropWhile ?P (butlast vs)) = []"
    by (rule takeWhile_dropWhile_same)
  with l d show ?thesis by (simp add: evict_prefix_def)
qed (simp add: evict_prefix_def)

lemma aged_prefix_drop:
  assumes "0 < w" and "pc \<le> aged_prefix w raws"
  shows "aged_prefix w (drop pc raws) = aged_prefix w raws - pc"
proof (cases "raws = []")
  case False
  let ?P = "\<lambda>r. fr_timestamp (last raws) - fr_timestamp r > w"
  have "pc < length raws" using aged_prefix_last [OF assms(1) False] assms(2) by simp
  then have ne: "drop pc raws \<noteq> []" and l: "last (drop pc raws) = last raws" by auto
  have pc: "pc \<le> length (takeWhile ?P raws)" using assms(2) False by (simp add: aged_prefix_def)
  have "takeWhile ?P (drop pc raws) = drop pc (takeWhile ?P raws)"
    using pc
  proof (induction raws arbitrary: pc)
    case (Cons x xs)
    then show ?case by (cases pc) (auto split: if_splits)
  qed simp
  with ne l False show ?thesis by (simp add: aged_prefix_def)
qed (simp add: aged_prefix_def)

subsection \<open>Properties\<close>

text \<open>The span computation on a plan, as a lemma for the code that applies it.\<close>

lemma plan_covered:
  assumes plan: "plan_frame_window records cfg = Inr (Some p)" and ok: "fw_config_ok cfg"
  shows "\<exists>spans. covered_spans records p = Inr spans \<and> spans_from 0 spans (length records) \<and>
     length spans = length (new_records p) \<and>
     visible_count_remap (length records) spans =
       Inr (map (\<lambda>c. int (rows_seen spans c)) [0..<length records + 1])"
proof -
  obtain vs raws pc cs pr ev where sh: "records = vs @ raws" "vs = takeWhile pooled records"
      "raws = dropWhile pooled records" "\<forall>r \<in> set raws. \<not> pooled r" "\<forall>r \<in> set vs. pooled r"
      "pc \<le> aged_prefix (raw_window_s cfg) raws" "ev = evict_prefix (pool_window_s cfg) (vs @ pr)"
      "chunk_total cs = pc" "length pr = n_poolable cs" "\<forall>r \<in> set pr. pooled r"
      "\<forall>(s, n, b) \<in> set cs. 0 < n" "evicted_virtual_count p = min ev (length vs)"
      "raw_chunks p = (if length vs < ev then mark_expired (ev - length vs) cs else cs)"
      "new_records p = drop ev (vs @ pr) @ drop pc raws"
    by (rule plan_shape [OF plan ok])
  have fv: "filter pooled vs = vs" and fr: "filter pooled raws = []"
    using sh(4,5) by (simp_all add: filter_id_conv filter_empty_conv)
  have pcle: "pc \<le> length raws" using sh(6) aged_prefix_le le_trans by blast
  have ct: "chunk_total (raw_chunks p) = pc" using sh(8,13) by simp
  have np: "n_poolable (raw_chunks p) = length pr - (ev - length vs)"
    using sh(9,13) by (simp add: mark_expired_poolable)
  have pos: "\<forall>(s, n, b) \<in> set (raw_chunks p). 0 < n"
    using sh(11,13) mark_expired_pos by auto
  have raw: "filter (\<lambda>r. \<not> pooled r) (new_records p) = drop pc raws"
    using plan_new_records_split(3) [OF sh(4,5,10,14)] .
  let ?m = "min ev (length vs)" and ?k = "length vs - min ev (length vs)"
  let ?cs = "chunk_spans (length vs) (raw_chunks p)"
  let ?spans = "unit_spans ?m ?k @ fst ?cs @ unit_spans (length vs + pc) (length raws - pc)"
  have mk: "?m + ?k = length vs" by simp
  have e2: "snd ?cs = length vs + pc" by (simp add: chunk_spans_end ct)
  have evb: "ev \<le> length vs + length pr"
    using evict_prefix_less [of "vs @ pr" "pool_window_s cfg"] sh(7)
    by (cases "vs @ pr = []") (auto simp: evict_prefix_def)
  have len: "length ?spans = length (new_records p)"
    using evb pcle sh(14) by (auto simp: chunk_spans_length np min_def)
  have cov: "covered_spans records p = Inr ?spans"
    using len e2 pcle sh(1)
    by (simp add: covered_spans_def Let_def fv fr sh(12) raw mk split_def)
  have "spans_from ?m (unit_spans ?m ?k) (length vs)"
    using spans_from_unit [of ?m ?k] mk by simp
  moreover have "spans_from (length vs) (fst ?cs) (length vs + pc)"
    using chunk_spans_ordered [OF pos, of "length vs"] by (simp add: ct)
  moreover have "spans_from (length vs + pc) (unit_spans (length vs + pc) (length raws - pc)) (length records)"
    using spans_from_unit [of "length vs + pc" "length raws - pc"] pcle sh(1) by simp
  ultimately have "spans_from ?m ?spans (length records)" by (blast intro: spans_from_append)
  then have ord: "spans_from 0 ?spans (length records)" by (rule spans_from_mono) simp
  show ?thesis using cov ord len visible_count_remap_spec [OF ord] by blast
qed

text \<open>
  C37: Whenever planning yields a plan, the span computation accepts it: the spans are
  ordered, disjoint and non-empty, one per surviving record, lie within the old rows, and the
  remap table built from them maps every old visible-frame count \<open>c\<close> to the number of surviving
  rows that intersect the first \<open>c\<close> old rows.
\<close>

theorem plan_spans:
  assumes plan: "plan_frame_window records cfg = Inr (Some p)" and ok: "fw_config_ok cfg"
  shows "\<exists>spans. covered_spans records p = Inr spans \<and> spans_from 0 spans (length records) \<and>
     length spans = length (new_records p) \<and>
     visible_count_remap (length records) spans =
       Inr (map (\<lambda>c. int (rows_seen spans c)) [0..<length records + 1])"
  by (rule plan_covered [OF plan ok])

text \<open>
  One round is enough: planning again on the surviving records finds nothing to do,
  so evaluating the window at every decode gap cannot keep compacting the same frames.
\<close>

theorem plan_stable:
  assumes plan: "plan_frame_window records cfg = Inr (Some p)" and ok: "fw_config_ok cfg"
  shows "plan_frame_window (new_records p) cfg = Inr None"
proof -
  obtain vs raws pc cs pr ev where sh: "enabled cfg" "\<forall>r \<in> set raws. \<not> pooled r"
      "\<forall>r \<in> set vs. pooled r" "pc \<le> aged_prefix (raw_window_s cfg) raws"
      "pc = (if pooling_enabled cfg
             then aged_prefix (raw_window_s cfg) raws div nat (pool_ratio cfg) * nat (pool_ratio cfg)
             else aged_prefix (raw_window_s cfg) raws)"
      "ev = evict_prefix (pool_window_s cfg) (vs @ pr)" "\<forall>r \<in> set pr. pooled r"
      "new_records p = drop ev (vs @ pr) @ drop pc raws"
    by (rule plan_shape [OF plan ok])
  note split = plan_new_records_split [OF sh(2,3,7,8)]
  have w: "0 < raw_window_s cfg" and ratio: "0 < nat (pool_ratio cfg)"
    using ok by (auto simp: fw_config_ok_def)
  let ?a = "aged_prefix (raw_window_s cfg) raws"
  have aged: "aged_prefix (raw_window_s cfg) (drop pc raws) = ?a - pc"
    using aged_prefix_drop [OF w sh(4)] .
  have none: "(if pooling_enabled cfg then (?a - pc) div nat (pool_ratio cfg) * nat (pool_ratio cfg)
      else ?a - pc) = 0"
    using sh(5) ratio by (auto simp: minus_div_mult_eq_mod)
  have raws_ok: "\<not> (\<exists>r \<in> set (drop pc raws). pooled r)"
    using sh(2) by (auto dest: in_set_dropD)
  have evict: "evict_prefix (pool_window_s cfg) (drop ev (vs @ pr)) = 0"
    unfolding sh(6) by (rule evict_prefix_drop)
  show ?thesis
    using none raws_ok evict sh(1)
    by (cases "pooling_enabled cfg")
      (auto simp: plan_frame_window_def Let_def split aged simp del: drop_append)
qed


text \<open>A concrete round: two aged frames fold into one virtual frame.\<close>

definition demo_frame :: "rat \<Rightarrow> frame_record" where
  "demo_frame t = \<lparr>fr_timestamp = t, grid_h = 4, grid_w = 4, fr_slots = 5, pooled = False,
                   pooled_sources = 1\<rparr>"

definition demo_config :: fw_config where
  "demo_config = \<lparr>enabled = True, raw_window_s = 60, pool_window_s = 240, pool_ratio = 2,
                  pooling_enabled = True\<rparr>"

definition demo_plan :: frame_window_plan where
  "demo_plan = \<lparr>evicted_virtual_count = 0, raw_chunks = [(0, 2, True)],
                new_records = [\<lparr>fr_timestamp = 1, grid_h = 4, grid_w = 4, fr_slots = 5,
                                pooled = True, pooled_sources = 2\<rparr>, demo_frame 100]\<rparr>"

lemma demo_config_ok: "fw_config_ok demo_config"
  by (simp add: fw_config_ok_def demo_config_def)

lemma demo_planned:
  "plan_frame_window [demo_frame 0, demo_frame 1, demo_frame 100] demo_config = Inr (Some demo_plan)"
  by (simp add: plan_frame_window_def demo_frame_def demo_config_def demo_plan_def aged_prefix_def
      fold_chunks.simps same_shape_def pool_members_def evict_prefix_def Let_def)

theorem plan_spans_witness:
  "\<exists>spans. covered_spans [demo_frame 0, demo_frame 1, demo_frame 100] demo_plan = Inr spans \<and>
     length spans = 2 \<and> fw_config_ok demo_config"
  using plan_spans [OF demo_planned demo_config_ok] demo_config_ok by (auto simp: demo_plan_def)

theorem plan_stable_witness:
  "plan_frame_window (new_records demo_plan) demo_config = Inr None \<and> new_records demo_plan \<noteq> []"
  using plan_stable [OF demo_planned demo_config_ok] by (simp add: demo_plan_def)

subsection \<open>No frame is unaccounted for\<close>

definition sources :: "frame_record list \<Rightarrow> int" where
  "sources rs = sum_list (map pooled_sources rs)"

lemma sources_append [simp]: "sources (xs @ ys) = sources xs + sources ys"
  by (simp add: sources_def)

lemma sources_take_drop: "sources (take n xs) + sources (drop n xs) = sources xs"
  by (metis append_take_drop_id sources_append)

definition chunk_counts :: "bool \<Rightarrow> raw_chunk list \<Rightarrow> nat list" where
  "chunk_counts b cs = map (\<lambda>(_, n, _). n) (filter (\<lambda>(_, _, q). q = b) cs)"

lemma chunk_counts_simps [simp]:
  "chunk_counts b [] = []"
  "chunk_counts b ((s, n, q) # cs) = (if q = b then n # chunk_counts b cs else chunk_counts b cs)"
  by (simp_all add: chunk_counts_def)

lemma dropped_raw_chunk_counts: "dropped_raw_count p = sum_list (chunk_counts False (raw_chunks p))"
  by (simp add: dropped_raw_count_def chunk_counts_def)

lemma chunk_counts_total: "sum_list (chunk_counts True cs) + sum_list (chunk_counts False cs) = chunk_total cs"
  by (induction cs) (auto simp: chunk_total_def)

lemma sum_list_int: "sum_list (map int ns) = int (sum_list ns)"
  by (induction ns) auto

lemma fold_chunks_sources:
  assumes "fold_chunks ratio cursor rs = (cs, pr)"
  shows "map pooled_sources pr = map int (chunk_counts True cs)"
  using assms
proof (induction ratio cursor rs arbitrary: cs pr rule: fold_chunks.induct)
  case (1 ratio cursor rs)
  show ?case
  proof (cases "rs = [] \<or> ratio = 0")
    case True
    with 1(2) show ?thesis by (auto simp: fold_chunks.simps [of ratio cursor rs])
  next
    case False
    obtain cs' pr' where rec: "fold_chunks ratio (cursor + length (take ratio rs)) (drop ratio rs) = (cs', pr')"
      by (cases "fold_chunks ratio (cursor + length (take ratio rs)) (drop ratio rs)") auto
    show ?thesis
      using 1(1) [OF False refl refl rec] 1(2) False rec
      by (auto simp: fold_chunks.simps [of ratio cursor rs] Let_def pool_members_def split: if_splits)
  qed
qed

lemma mark_expired_dropped:
  "sum_list (chunk_counts False (mark_expired k cs)) =
     sum_list (chunk_counts False cs) + sum_list (take k (chunk_counts True cs))"
proof (induction k cs rule: mark_expired.induct)
  case (2 k s n b cs)
  then show ?case by (cases k) auto
qed simp

text \<open>
  No frame is lost from the books: the source frames represented by the survivors
  plus the units a round reports as dropped (raw frames dropped outright and the members of evicted
  virtual frames) equal the source frames represented before it.
\<close>

theorem plan_conserves:
  assumes plan: "plan_frame_window records cfg = Inr (Some p)" and ok: "fw_config_ok cfg"
    and unit: "\<forall>r \<in> set records. \<not> pooled r \<longrightarrow> pooled_sources r = 1"
  shows "sources (new_records p) + int (dropped_raw_count p)
           + sources (take (evicted_virtual_count p) records) = sources records"
proof -
  obtain vs raws pc cs pr ev where sh: "records = vs @ raws"
      "\<forall>r \<in> set raws. \<not> pooled r"
      "pc \<le> aged_prefix (raw_window_s cfg) raws"
      "(cs, pr) = (if pooling_enabled cfg then fold_chunks (nat (pool_ratio cfg)) 0 (take pc raws)
                     else (if pc = 0 then [] else [(0, pc, False)], []))"
      "chunk_total cs = pc" "length pr = n_poolable cs"
      "evicted_virtual_count p = min ev (length vs)"
      "raw_chunks p = (if length vs < ev then mark_expired (ev - length vs) cs else cs)"
      "new_records p = drop ev (vs @ pr) @ drop pc raws"
    by (rule plan_shape [OF plan ok])
  have pcle: "pc \<le> length raws" using sh(3) aged_prefix_le le_trans by blast
  have src: "map pooled_sources pr = map int (chunk_counts True cs)"
    using sh(4) fold_chunks_sources by (cases "pooling_enabled cfg") (auto split: if_splits)
  have "\<forall>r \<in> set (take pc raws). pooled_sources r = 1"
    using unit sh(1,2) by (auto dest: in_set_takeD)
  then have "map pooled_sources (take pc raws) = replicate (length (take pc raws)) 1"
    by (intro replicate_eqI) auto
  then have raw: "sources (take pc raws) = int pc"
    using pcle by (simp only: sources_def sum_list_replicate) simp
  have pr: "sources pr = int (sum_list (chunk_counts True cs))"
    by (simp add: sources_def src sum_list_int)
  have prk: "sources (take k pr) = int (sum_list (take k (chunk_counts True cs)))" for k
    by (simp add: sources_def src take_map [symmetric] sum_list_int) (simp add: take_map sum_list_int)
  have drp: "int (dropped_raw_count p) =
      int (sum_list (chunk_counts False cs)) + sources (take (ev - length vs) pr)"
    by (simp add: dropped_raw_chunk_counts sh(8) mark_expired_dropped prk)
  have tot: "sources pr + int (sum_list (chunk_counts False cs)) = sources (take pc raws)"
    using chunk_counts_total [of cs] sh(5) pr raw by linarith
  have head: "take (evicted_virtual_count p) records = take ev vs"
    using sh(1,7) by (auto simp: min_def)
  show ?thesis
    unfolding head sh(9) drp using tot sources_take_drop [of ev vs] sources_take_drop [of "ev - length vs" pr]
      sources_take_drop [of pc raws] by (simp add: sh(1))
qed

theorem plan_conserves_witness:
  "sources (new_records demo_plan) + int (dropped_raw_count demo_plan) +
     sources (take (evicted_virtual_count demo_plan) [demo_frame 0, demo_frame 1, demo_frame 100]) = 3"
proof -
  have u: "\<forall>r \<in> set [demo_frame 0, demo_frame 1, demo_frame 100]. \<not> pooled r \<longrightarrow> pooled_sources r = 1"
    by (simp add: demo_frame_def)
  from plan_conserves [OF demo_planned demo_config_ok u] show ?thesis
    by (simp add: sources_def demo_frame_def)
qed

subsection \<open>The raw window is bounded\<close>

definition over_age :: "rat \<Rightarrow> frame_record list \<Rightarrow> nat" where
  "over_age w raws =
     length (filter (\<lambda>r. fr_timestamp (last raws) - fr_timestamp r > w) raws)"

lemma filter_takeWhile_sorted:
  assumes "sorted_wrt (\<lambda>a b. Q b \<longrightarrow> Q a) xs"
  shows "filter Q xs = takeWhile Q xs"
  using assms by (induction xs) (auto simp: filter_empty_conv)

lemma over_age_prefix:
  assumes "sorted (map fr_timestamp raws)" and "raws \<noteq> []"
  shows "over_age w raws = aged_prefix w raws"
proof -
  have "sorted_wrt (\<lambda>a b. fr_timestamp a \<le> fr_timestamp b) raws"
    using assms(1) by (simp add: sorted_map)
  then have "sorted_wrt (\<lambda>a b. fr_timestamp (last raws) - fr_timestamp b > w \<longrightarrow>
      fr_timestamp (last raws) - fr_timestamp a > w) raws"
    by (rule sorted_wrt_mono_rel [rotated]) auto
  from filter_takeWhile_sorted [OF this] show ?thesis
    using assms(2) by (simp add: over_age_def aged_prefix_def)
qed

text \<open>
  C38: The raw window is bounded after a round on time-ordered frames: with pooling off
  no surviving raw frame is older than the window, with pooling on fewer than \<open>pool_ratio\<close> are
  (the documented overshoot); and the newest raw frame always survives.
\<close>

theorem plan_window_bound:
  assumes plan: "plan_frame_window records cfg = Inr (Some p)" and ok: "fw_config_ok cfg"
    and sorted: "sorted (map fr_timestamp (filter (\<lambda>r. \<not> pooled r) records))"
    and raws: "filter (\<lambda>r. \<not> pooled r) records \<noteq> []"
  shows "let old = filter (\<lambda>r. \<not> pooled r) records; new = filter (\<lambda>r. \<not> pooled r) (new_records p) in
     new \<noteq> [] \<and> last new = last old \<and>
     (if pooling_enabled cfg then int (over_age (raw_window_s cfg) new) < pool_ratio cfg
      else over_age (raw_window_s cfg) new = 0)"
proof -
  obtain vs raws pc cs pr ev where sh: "records = vs @ raws"
      "\<forall>r \<in> set raws. \<not> pooled r" "\<forall>r \<in> set vs. pooled r"
      "pc \<le> aged_prefix (raw_window_s cfg) raws"
      "pc = (if pooling_enabled cfg
             then aged_prefix (raw_window_s cfg) raws div nat (pool_ratio cfg) * nat (pool_ratio cfg)
             else aged_prefix (raw_window_s cfg) raws)"
      "\<forall>r \<in> set pr. pooled r" "new_records p = drop ev (vs @ pr) @ drop pc raws"
    by (rule plan_shape [OF plan ok])
  have old: "filter (\<lambda>r. \<not> pooled r) records = raws"
    using sh(1-3) by (simp add: filter_id_conv filter_empty_conv)
  have new: "filter (\<lambda>r. \<not> pooled r) (new_records p) = drop pc raws"
    using plan_new_records_split(3) [OF sh(2,3,6,7)] .
  have w: "0 < raw_window_s cfg" and r2: "2 \<le> pool_ratio cfg" using ok by (auto simp: fw_config_ok_def)
  have ne: "raws \<noteq> []" using raws old by simp
  have lt: "pc < length raws" using aged_prefix_last [OF w ne] sh(4) by simp
  have "sorted (map fr_timestamp (drop pc raws))"
    using sorted old by (simp add: drop_map [symmetric] sorted_wrt_drop)
  then have age: "over_age (raw_window_s cfg) (drop pc raws) = aged_prefix (raw_window_s cfg) raws - pc"
    using over_age_prefix [of "drop pc raws"] lt aged_prefix_drop [OF w sh(4)] by simp
  have "aged_prefix (raw_window_s cfg) raws - pc < nat (pool_ratio cfg)" if "pooling_enabled cfg"
    using that sh(5) r2 by (simp add: minus_div_mult_eq_mod)
  then have "int (over_age (raw_window_s cfg) (drop pc raws)) < pool_ratio cfg" if "pooling_enabled cfg"
    using that age by linarith
  then show ?thesis
    using lt age sh(5) by (auto simp: Let_def old new)
qed

theorem plan_window_bound_witness:
  "over_age 60 [demo_frame 100] < 2 \<and> sorted (map fr_timestamp [demo_frame 0, demo_frame 1, demo_frame 100])"
proof -
  have f: "filter (\<lambda>r. \<not> pooled r) [demo_frame 0, demo_frame 1, demo_frame 100] =
      [demo_frame 0, demo_frame 1, demo_frame 100]" by (simp add: demo_frame_def)
  have s: "sorted (map fr_timestamp (filter (\<lambda>r. \<not> pooled r) [demo_frame 0, demo_frame 1, demo_frame 100]))"
    unfolding f by (simp add: demo_frame_def)
  have n: "filter (\<lambda>r. \<not> pooled r) [demo_frame 0, demo_frame 1, demo_frame 100] \<noteq> []"
    unfolding f by simp
  show ?thesis
    using plan_window_bound [OF demo_planned demo_config_ok s n] s
    by (simp add: f Let_def demo_config_def demo_plan_def demo_frame_def)
qed

end
