(* ===== verification/Runtime_State.thy ===== *)
theory Runtime_State
  imports KV_Layout Accounting Frame_Plan
begin

section \<open>Runtime state of a realtime request and its append transaction\<close>

text \<open>
  Models \<open>moss_vl_realtime/runtime_state.py\<close>.  A transaction object holds references to the
  runtime state and to the page table, so the three live together in \<open>kv_world\<close>: the page
  table, the state, the most recent transaction, and the log of the slot tuples that were
  handed to the \<open>release_slots\<close> callback.  The callback is external: the model takes the
  result it returns for a tuple (an error when it raises).
\<close>

text \<open>A tensor of counts with its identity, for the code that compares with \<open>is\<close>.\<close>

record count_tensor =
  tensor_id :: nat
  tensor_values :: "int list"

datatype rt_phase = WaitingForEvent | Extending | Decoding | Finished | Aborted

record rt_state =
  request_id :: string
  session_id :: string
  req_pool_index :: "int option"
  encoder_length :: int
  decoder_length :: int
  surviving_frame_count :: int
  next_mrope_position :: int
  turn_id :: int
  max_tokens_per_turn :: rat
  decode_allowance :: "int option"
  context_limit :: "int option"
  next_decode_not_before :: rat
  pending_token_id :: "int option"
  mrope_positions :: "int list list option"
  visible_frame_counts :: "count_tensor option"
  full_grid_thw :: "(int \<times> int \<times> int) list option"
  frame_records :: "frame_record list option"
  evicted_frame_count :: int
  appended_encoder_length :: "int option"
  phase :: rt_phase
  append_inflight :: bool
  rt_accounting :: "accounting option"

subsection \<open>Construction\<close>

text \<open>A number the dataclass requires to be finite and above (or at least) zero.\<close>

definition checked_seconds :: "bool \<Rightarrow> pyval \<Rightarrow> rat res" where
  "checked_seconds allow_zero v =
     (case finite_number v of
        Inl OverflowError \<Rightarrow> Inl OverflowError
      | Inl _ \<Rightarrow> Inl ValueError
      | Inr None \<Rightarrow> Inl ValueError
      | Inr (Some x) \<Rightarrow>
          if num_value x < 0 \<or> (num_value x = 0 \<and> \<not> allow_zero) then Inl ValueError
          else Inr (num_float x))"

definition bind_req_pool_index :: "rt_state \<Rightarrow> int \<Rightarrow> rt_state res" where
  "bind_req_pool_index s i =
     (if i < 0 then Inl ValueError
      else if req_pool_index s \<noteq> None \<and> req_pool_index s \<noteq> Some i then Inl RuntimeError
      else Inr (s\<lparr>req_pool_index := Some i\<rparr>))"

definition mk_runtime_state :: "rt_state \<Rightarrow> pyval \<Rightarrow> pyval \<Rightarrow> rt_state res" where
  "mk_runtime_state s max_tokens not_before =
     bindE (ensure (request_id s \<noteq> [] \<and> session_id s \<noteq> []) ValueError) (\<lambda>_.
     bindE (ensure (\<forall>v \<in> set [encoder_length s, decoder_length s, surviving_frame_count s,
              next_mrope_position s, turn_id s, evicted_frame_count s]. 0 \<le> v) ValueError) (\<lambda>_.
     bindE (ensure (case context_limit s of None \<Rightarrow> True | Some n \<Rightarrow> 0 < n) ValueError) (\<lambda>_.
     bindE (ensure (case decode_allowance s of None \<Rightarrow> True | Some n \<Rightarrow> 0 < n) ValueError) (\<lambda>_.
     bindE (case req_pool_index s of None \<Rightarrow> Inr s | Some i \<Rightarrow> bind_req_pool_index s i) (\<lambda>s1.
     bindE (checked_seconds False max_tokens) (\<lambda>mt.
     bindE (checked_seconds True not_before) (\<lambda>nb.
     bindE (ensure (case appended_encoder_length s of None \<Rightarrow> True | Some n \<Rightarrow> 0 \<le> n)
              ValueError) (\<lambda>_.
       Inr (s1\<lparr>max_tokens_per_turn := mt, next_decode_not_before := nb,
               append_inflight := False\<rparr>)))))))))"

definition effective_appended_encoder_length :: "rt_state \<Rightarrow> int" where
  "effective_appended_encoder_length s =
     (case appended_encoder_length s of None \<Rightarrow> encoder_length s | Some n \<Rightarrow> n)"

subsection \<open>Phase changes\<close>

definition require_open :: "rt_state \<Rightarrow> unit res" where
  "require_open s = ensure (phase s \<notin> {Finished, Aborted}) RuntimeError"

definition mark_waiting :: "rt_state \<Rightarrow> rt_state res" where
  "mark_waiting s =
     bindE (require_open s) (\<lambda>_.
     if append_inflight s then Inl RuntimeError else Inr (s\<lparr>phase := WaitingForEvent\<rparr>))"

definition mark_decoding :: "rt_state \<Rightarrow> rt_state res" where
  "mark_decoding s =
     bindE (require_open s) (\<lambda>_.
     if append_inflight s then Inl RuntimeError else Inr (s\<lparr>phase := Decoding\<rparr>))"

definition finish :: "rt_state \<Rightarrow> bool \<Rightarrow> rt_state res" where
  "finish s aborted =
     (if append_inflight s then Inl RuntimeError
      else Inr (s\<lparr>phase := (if aborted then Aborted else Finished)\<rparr>))"

subsection \<open>The append transaction\<close>

record append_txn =
  before :: kv_layout
  after :: kv_layout
  added_frames :: int
  staged_next_mrope_position :: int
  new_slots :: "int list"
  release_slots :: "(int list \<Rightarrow> unit res) option"
  staged :: bool
  closed :: bool

record kv_world =
  pages :: page_table
  rt :: rt_state
  txn :: "append_txn option"
  released :: "int list list"

definition txn_create ::
    "rt_state \<Rightarrow> page_table \<Rightarrow> int list \<Rightarrow> int list \<Rightarrow> int \<Rightarrow> int option \<Rightarrow>
     (int list \<Rightarrow> unit res) option \<Rightarrow> append_txn res" where
  "txn_create s tbl new_enc new_dec added next_pos release =
     bindE (ensure (0 \<le> added) ValueError) (\<lambda>_.
     let pos = (case next_pos of None \<Rightarrow> next_mrope_position s | Some p \<Rightarrow> p) in
     bindE (ensure (next_mrope_position s \<le> pos) ValueError) (\<lambda>_.
     case req_pool_index s of None \<Rightarrow> Inl AssertionError | Some i \<Rightarrow>
     bindE (read_layout tbl i (encoder_length s) (decoder_length s)) (\<lambda>l0.
     bindE (append_encoder l0 new_enc) (\<lambda>l1.
     bindE (append_decoder l1 new_dec) (\<lambda>l2.
       Inr \<lparr>before = l0, after = l2, added_frames = added, staged_next_mrope_position = pos,
            new_slots = drop (length (encoder_slots l0)) (encoder_slots l1)
                        @ drop (length (decoder_slots l0)) (decoder_slots l2),
            release_slots = release, staged = False, closed = False\<rparr>)))))"

definition txn_stage :: "kv_world \<Rightarrow> append_txn \<Rightarrow> kv_world res" where
  "txn_stage w t =
     (if closed t \<or> staged t then Inl RuntimeError
      else case req_pool_index (rt w) of None \<Rightarrow> Inl AssertionError | Some i \<Rightarrow>
        bindE (write_layout (pages w) i (after t) False) (\<lambda>tbl.
          Inr (w\<lparr>pages := tbl, rt := (rt w)\<lparr>append_inflight := True, phase := Extending\<rparr>,
                txn := Some (t\<lparr>staged := True\<rparr>)\<rparr>)))"

definition begin_kv_append ::
    "kv_world \<Rightarrow> int list \<Rightarrow> int list \<Rightarrow> int \<Rightarrow> int option \<Rightarrow>
     (int list \<Rightarrow> unit res) option \<Rightarrow> kv_world res" where
  "begin_kv_append w new_enc new_dec added next_pos release =
     bindE (require_open (rt w)) (\<lambda>_.
     if req_pool_index (rt w) = None then Inl RuntimeError
     else if append_inflight (rt w) then Inl RuntimeError
     else bindE (txn_create (rt w) (pages w) new_enc new_dec added next_pos release)
            (txn_stage w))"

definition txn_active :: "kv_world \<Rightarrow> append_txn res" where
  "txn_active w =
     (case txn w of None \<Rightarrow> Inl RuntimeError
      | Some t \<Rightarrow> if \<not> staged t \<or> closed t then Inl RuntimeError else Inr t)"

definition txn_commit :: "kv_world \<Rightarrow> kv_world res" where
  "txn_commit w =
     bindE (txn_active w) (\<lambda>t.
       let s = rt w;
           baseline = (case appended_encoder_length s of
                         None \<Rightarrow> layout_encoder_length (before t) | Some n \<Rightarrow> n)
       in Inr (w\<lparr>rt := s\<lparr>encoder_length := layout_encoder_length (after t),
                          decoder_length := layout_decoder_length (after t),
                          surviving_frame_count := surviving_frame_count s + added_frames t,
                          appended_encoder_length := Some (baseline +
                            (layout_encoder_length (after t) - layout_encoder_length (before t))),
                          next_mrope_position := staged_next_mrope_position t,
                          append_inflight := False, phase := Decoding\<rparr>,
                  txn := Some (t\<lparr>closed := True\<rparr>)\<rparr>))"

text \<open>\<open>rollback\<close>: an exception of \<open>release_slots\<close> propagates after the \<open>finally\<close> block.\<close>

definition txn_rollback :: "kv_world \<Rightarrow> unit res \<times> kv_world" where
  "txn_rollback w =
     (case txn_active w of Inl e \<Rightarrow> (Inl e, w) | Inr t \<Rightarrow>
      case req_pool_index (rt w) of None \<Rightarrow> (Inl AssertionError, w) | Some i \<Rightarrow>
      case write_layout (pages w) i (before t) True of Inl e \<Rightarrow> (Inl e, w) | Inr tbl \<Rightarrow>
        let w1 = w\<lparr>pages := tbl, rt := (rt w)\<lparr>append_inflight := False,
                                             phase := WaitingForEvent\<rparr>,
                   txn := Some (t\<lparr>closed := True\<rparr>)\<rparr>
        in (case release_slots t of
              None \<Rightarrow> (Inr (), w1)
            | Some f \<Rightarrow> if new_slots t = [] then (Inr (), w1)
                        else (f (new_slots t), w1\<lparr>released := released w @ [new_slots t]\<rparr>)))"

definition txn_exit :: "kv_world \<Rightarrow> bool \<Rightarrow> unit res \<times> kv_world" where
  "txn_exit w raised =
     (case txn w of
        Some t \<Rightarrow>
          if closed t then (Inr (), w)
          else if \<not> raised then (case txn_commit w of Inl e \<Rightarrow> (Inl e, w) | Inr w' \<Rightarrow> (Inr (), w'))
          else txn_rollback w
      | None \<Rightarrow> (Inr (), w))"

subsection \<open>What a transaction holds\<close>

lemma append_layout_shape:
  assumes "append_encoder l0 ne = Inr l1" and "append_decoder l1 nd = Inr l2"
  shows "encoder_slots l2 = encoder_slots l0 @ ne" and "decoder_slots l2 = decoder_slots l0 @ nd"
    and "layout_wf l2" and "encoder_slots l1 = encoder_slots l0 @ ne"
    and "decoder_slots l1 = decoder_slots l0"
  using assms by (auto simp: append_encoder_Inr append_decoder_Inr)

lemma begin_kv_append_Inr:
  assumes "begin_kv_append w ne nd added np rel = Inr w'"
  obtains i l0 l2 pos tbl where
    "phase (rt w) \<notin> {Finished, Aborted}" "req_pool_index (rt w) = Some i"
    "\<not> append_inflight (rt w)" "0 \<le> added" "next_mrope_position (rt w) \<le> pos"
    "pos = (case np of None \<Rightarrow> next_mrope_position (rt w) | Some p \<Rightarrow> p)"
    "read_layout (pages w) i (encoder_length (rt w)) (decoder_length (rt w)) = Inr l0"
    "encoder_slots l2 = encoder_slots l0 @ ne" "decoder_slots l2 = decoder_slots l0 @ nd"
    "layout_wf l2" "write_layout (pages w) i l2 False = Inr tbl"
    "w' = w\<lparr>pages := tbl, rt := (rt w)\<lparr>append_inflight := True, phase := Extending\<rparr>,
           txn := Some \<lparr>before = l0, after = l2, added_frames = added,
             staged_next_mrope_position = pos, new_slots = ne @ nd, release_slots = rel,
             staged = True, closed = False\<rparr>\<rparr>"
proof -
  from assms obtain i t where open_: "phase (rt w) \<notin> {Finished, Aborted}"
    and i: "req_pool_index (rt w) = Some i" and fl: "\<not> append_inflight (rt w)"
    and c: "txn_create (rt w) (pages w) ne nd added np rel = Inr t" and st: "txn_stage w t = Inr w'"
    by (auto simp: begin_kv_append_def bindE_eq_Inr require_open_def split: if_splits)
  let ?pos = "case np of None \<Rightarrow> next_mrope_position (rt w) | Some p \<Rightarrow> p"
  from c i obtain l0 l1 l2 where a: "0 \<le> added" and p: "next_mrope_position (rt w) \<le> ?pos"
    and l0: "read_layout (pages w) i (encoder_length (rt w)) (decoder_length (rt w)) = Inr l0"
    and l1: "append_encoder l0 ne = Inr l1" and l2: "append_decoder l1 nd = Inr l2"
    and t: "t = \<lparr>before = l0, after = l2, added_frames = added, staged_next_mrope_position = ?pos,
            new_slots = drop (length (encoder_slots l0)) (encoder_slots l1)
                        @ drop (length (decoder_slots l0)) (decoder_slots l2),
            release_slots = rel, staged = False, closed = False\<rparr>"
    by (simp add: txn_create_def bindE_eq_Inr Let_def) blast
  note sh = append_layout_shape [OF l1 l2]
  have ns: "new_slots t = ne @ nd" using t sh by simp
  from st t i obtain tbl where wl: "write_layout (pages w) i l2 False = Inr tbl"
    and w': "w' = w\<lparr>pages := tbl, rt := (rt w)\<lparr>append_inflight := True, phase := Extending\<rparr>,
                txn := Some (t\<lparr>staged := True\<rparr>)\<rparr>"
    by (auto simp: txn_stage_def bindE_eq_Inr)
  have "w' = w\<lparr>pages := tbl, rt := (rt w)\<lparr>append_inflight := True, phase := Extending\<rparr>,
           txn := Some \<lparr>before = l0, after = l2, added_frames = added,
             staged_next_mrope_position = ?pos, new_slots = ne @ nd, release_slots = rel,
             staged = True, closed = False\<rparr>\<rparr>"
    using w' ns unfolding t by simp
  from that [OF open_ i fl a p refl l0 sh(1,2,3) wl this] show ?thesis .
qed

end
