(* ===== verification/Frame_Apply.thy ===== *)
theory Frame_Apply
  imports Runtime_State
begin

section \<open>Applying one frame-window plan\<close>

text \<open>
  Models \<open>apply_frame_window_plan\<close> of \<open>moss_vl_realtime/frame_window.py\<close> and its helpers.
  External code is a parameter: \<open>alloc n\<close> is what the KV allocator returns for \<open>n\<close> slots,
  \<open>provider\<close> whether the pool provider returns a pool, returns \<open>None\<close> or raises, \<open>mean\<close> the
  tensor mean of one slot's vectors, \<open>avail\<close> the allocator's free count.  What the code hands
  to the allocator is logged in the world.
\<close>

record mm_inputs =
  num_image_tokens :: int
  media_nums_per_sample :: "int list option"
  item_grid_thw :: "(int \<times> int \<times> int) list option list"
  mm_visible_counts :: "count_tensor option"

record window_req =
  rq_id :: nat
  multimodal_inputs :: "mm_inputs option"
  kv_allocated_len :: "int option"
  kv_committed_len :: "int option"

record running_batch =
  rb_reqs :: "nat list"
  encoder_lens_cpu :: "int list option"
  encoder_lens :: "int list option"

record 'v kv_pool =
  k_buffer :: "'v list list"
  v_buffer :: "'v list list"

record 'v apply_world =
  aw_pages :: page_table
  aw_state :: rt_state
  aw_req :: window_req
  aw_batch :: "running_batch option"
  aw_pool :: "'v kv_pool"
  aw_allocs :: "int list list"
  aw_frees :: "int list list"
  aw_fresh :: nat

record frame_window_event =
  ev_request_id :: string
  evicted_virtual_frames :: nat
  pooled_raw_frames :: nat
  produced_virtual_frames :: nat
  dropped_raw_frames :: nat
  encoder_length_before :: int
  encoder_length_after :: int
  ev_surviving_frame_count :: int
  pool_free_slots :: "int option"

subsection \<open>Slot runs\<close>

fun slot_runs_from :: "int list \<Rightarrow> int \<Rightarrow> frame_record list \<Rightarrow> int list list" where
  "slot_runs_from slots cursor [] = []"
| "slot_runs_from slots cursor (r # rs) =
     py_slice slots cursor (cursor + fr_slots r) # slot_runs_from slots (cursor + fr_slots r) rs"

definition record_slot_runs :: "frame_record list \<Rightarrow> int list \<Rightarrow> int list list res" where
  "record_slot_runs records slots =
     (if sum_list (map fr_slots records) \<noteq> int (length slots) then Inl RuntimeError
      else Inr (slot_runs_from slots 0 records))"

definition degraded_new_records :: "frame_record list \<Rightarrow> frame_window_plan \<Rightarrow> frame_record list" where
  "degraded_new_records records p =
     (let old_virtual_count = length (filter pooled records);
          aged_raw = pooled_raw_count p + dropped_raw_count p
      in drop (evicted_virtual_count p) (take old_virtual_count records)
         @ drop (old_virtual_count + aged_raw) records)"

definition degrade :: "frame_record list \<Rightarrow> frame_window_plan \<Rightarrow> frame_window_plan" where
  "degrade records p =
     \<lparr>evicted_virtual_count = evicted_virtual_count p,
      raw_chunks = map (\<lambda>(s, n, _). (s, n, False)) (raw_chunks p),
      new_records = degraded_new_records records p\<rparr>"

subsection \<open>Mean pooling\<close>

text \<open>\<open>index_select\<close>, \<open>view(group, width, -1)\<close> and \<open>mean(dim=0)\<close>.\<close>

definition pooled_rows ::
    "('v list \<Rightarrow> 'v) \<Rightarrow> 'v list \<Rightarrow> int list \<Rightarrow> nat \<Rightarrow> nat \<Rightarrow> 'v list res" where
  "pooled_rows mean buf src grp width =
     (if \<exists>s \<in> set src. s < 0 \<or> s \<ge> int (length buf) then Inl IndexError
      else if width = 0 then Inl RuntimeError
      else Inr (map (\<lambda>j. mean (map (\<lambda>g. buf ! nat (src ! (g * width + j))) [0..<grp]))
                 [0..<width]))"

definition index_copy :: "'v list \<Rightarrow> int list \<Rightarrow> 'v list \<Rightarrow> 'v list res" where
  "index_copy buf dst rows =
     (if length dst \<noteq> length rows then Inl IndexError
      else if \<exists>d \<in> set dst. d < 0 \<or> d \<ge> int (length buf) then Inl IndexError
      else Inr (fold (\<lambda>(d, x) b. b[nat d := x]) (zip dst rows) buf))"

fun pool_layers ::
    "('v list \<Rightarrow> 'v) \<Rightarrow> nat \<Rightarrow> nat \<Rightarrow> int list \<Rightarrow> int list \<Rightarrow> 'v list list \<Rightarrow> 'v list list \<Rightarrow>
     unit res \<times> 'v list list \<times> 'v list list" where
  "pool_layers mean grp width src dst (k # ks) (v # vs) =
     (case bindE (pooled_rows mean k src grp width) (\<lambda>pk.
           bindE (pooled_rows mean v src grp width) (\<lambda>pv.
           bindE (index_copy k dst pk) (\<lambda>k'. Inr (k', pv)))) of
        Inl e \<Rightarrow> (Inl e, k # ks, v # vs)
      | Inr (k', pv) \<Rightarrow>
         (case index_copy v dst pv of
            Inl e \<Rightarrow> (Inl e, k' # ks, v # vs)
          | Inr v' \<Rightarrow> let (r, ks', vs') = pool_layers mean grp width src dst ks vs in
                       (r, k' # ks', v' # vs')))"
| "pool_layers mean grp width src dst [] [] = (Inr (), [], [])"
| "pool_layers mean grp width src dst ks vs = (Inl ValueError, ks, vs)"

definition pool_group_into_slots ::
    "('v list \<Rightarrow> 'v) \<Rightarrow> 'v kv_pool \<Rightarrow> int list list \<Rightarrow> int list \<Rightarrow> unit res \<times> 'v kv_pool" where
  "pool_group_into_slots mean pool member_runs dst =
     (case member_runs of
        [] \<Rightarrow> (Inl IndexError, pool)
      | r # _ \<Rightarrow>
         let width = length r in
         if \<exists>run \<in> set member_runs. length run \<noteq> width then (Inl RuntimeError, pool)
         else let (res, ks, vs) = pool_layers mean (length member_runs) width (concat member_runs)
                                    dst (k_buffer pool) (v_buffer pool)
              in (res, pool\<lparr>k_buffer := ks, v_buffer := vs\<rparr>))"

fun pool_chunks ::
    "('v list \<Rightarrow> 'v) \<Rightarrow> int list list \<Rightarrow> nat \<Rightarrow> int list \<Rightarrow> raw_chunk list \<Rightarrow> nat list \<Rightarrow>
     'v kv_pool \<Rightarrow> int list list res \<times> 'v kv_pool" where
  "pool_chunks mean runs base dst [] [] pool = (Inr [], pool)"
| "pool_chunks mean runs base dst ((start, n, _) # cs) (w # ws) pool =
     (case mapE (nth_res runs) [base + start..<base + start + n] of
        Inl e \<Rightarrow> (Inl e, pool)
      | Inr member_runs \<Rightarrow>
         (case pool_group_into_slots mean pool member_runs (take w dst) of
            (Inl e, pool') \<Rightarrow> (Inl e, pool')
          | (Inr _, pool') \<Rightarrow>
             (case pool_chunks mean runs base (drop w dst) cs ws pool' of
                (Inl e, pool'') \<Rightarrow> (Inl e, pool'')
              | (Inr rest, pool'') \<Rightarrow> (Inr (take w dst # rest), pool''))))"
| "pool_chunks mean runs base dst _ _ pool = (Inl ValueError, pool)"

subsection \<open>The metadata update\<close>

record prepared_update =
  dropped_units :: int
  prepared_grid_thw :: "(int \<times> int \<times> int) list option"
  prepared_counts :: "(count_tensor \<times> count_tensor) list"

definition visible_counts_owners :: "window_req \<Rightarrow> rt_state \<Rightarrow> count_tensor list" where
  "visible_counts_owners req s =
     (let owners = (case visible_frame_counts s of None \<Rightarrow> [] | Some t \<Rightarrow> [t]);
          counts = (case multimodal_inputs req of None \<Rightarrow> None | Some mm \<Rightarrow> mm_visible_counts mm)
      in case counts of
           None \<Rightarrow> owners
         | Some t \<Rightarrow> if \<forall>o' \<in> set owners. tensor_id t \<noteq> tensor_id o' then owners @ [t] else owners)"

text \<open>\<open>remap[min(v, n)]\<close> with a list of \<open>n + 1\<close> entries; a negative \<open>v\<close> indexes from the end.\<close>

definition remap_count :: "int list \<Rightarrow> nat \<Rightarrow> int \<Rightarrow> int res" where
  "remap_count remap n v =
     (let i = min v (int n); j = (if i < 0 then i + int (length remap) else i) in
      if j < 0 \<or> j \<ge> int (length remap) then Inl IndexError else Inr (remap ! nat j))"

fun map_owners ::
    "int list \<Rightarrow> nat \<Rightarrow> nat \<Rightarrow> count_tensor list \<Rightarrow> (count_tensor \<times> count_tensor) list res" where
  "map_owners remap n fresh [] = Inr []"
| "map_owners remap n fresh (t # ts) =
     bindE (if tensor_values t = [] then Inr t
            else bindE (mapE (remap_count remap n) (tensor_values t)) (\<lambda>vs.
                   Inr \<lparr>tensor_id = fresh, tensor_values = vs\<rparr>)) (\<lambda>t'.
     bindE (map_owners remap n (fresh + 1) ts) (\<lambda>rest. Inr ((t, t') # rest)))"

definition prepare_metadata_update ::
    "window_req \<Rightarrow> rt_state \<Rightarrow> nat \<Rightarrow> frame_record list \<Rightarrow> frame_window_plan \<Rightarrow> prepared_update res" where
  "prepare_metadata_update req s fresh records p =
     bindE (covered_spans records p) (\<lambda>spans.
     bindE (visible_count_remap (length records) spans) (\<lambda>remap.
     bindE (map_owners remap (length records) fresh (visible_counts_owners req s)) (\<lambda>counts.
       Inr \<lparr>dropped_units = int (dropped_raw_count p)
              + sum_list (map pooled_sources (take (evicted_virtual_count p) records)),
            prepared_grid_thw = (case full_grid_thw s of None \<Rightarrow> None
                                 | Some _ \<Rightarrow> Some (map grid_row (new_records p))),
            prepared_counts = counts\<rparr>)))"

definition assign_visible_counts ::
    "count_tensor \<Rightarrow> count_tensor \<Rightarrow> window_req \<times> rt_state \<Rightarrow> window_req \<times> rt_state" where
  "assign_visible_counts old new rs =
     (let (req, s) = rs;
          is_old = (\<lambda>t. case t of None \<Rightarrow> False | Some x \<Rightarrow> tensor_id x = tensor_id old);
          s' = (if is_old (visible_frame_counts s) then s\<lparr>visible_frame_counts := Some new\<rparr> else s);
          req' = (case multimodal_inputs req of
                    None \<Rightarrow> req
                  | Some mm \<Rightarrow> if is_old (mm_visible_counts mm)
                               then req\<lparr>multimodal_inputs := Some (mm\<lparr>mm_visible_counts := Some new\<rparr>)\<rparr>
                               else req)
      in (req', s'))"

definition sync_mm_inputs :: "rt_state \<Rightarrow> nat \<Rightarrow> mm_inputs \<Rightarrow> mm_inputs" where
  "sync_mm_inputs s n mm =
     (let mm1 = mm\<lparr>num_image_tokens := int n\<rparr> in
      case full_grid_thw s of
        None \<Rightarrow> mm1
      | Some grid \<Rightarrow>
         mm1\<lparr>media_nums_per_sample := map_option (\<lambda>_. [int (length grid)]) (media_nums_per_sample mm1),
             item_grid_thw := (case item_grid_thw mm1 of [] \<Rightarrow> [] | _ # gs \<Rightarrow> Some grid # gs)\<rparr>)"

definition commit_metadata_update ::
    "window_req \<Rightarrow> rt_state \<Rightarrow> prepared_update \<Rightarrow> frame_window_plan \<Rightarrow> nat \<Rightarrow>
     window_req \<times> rt_state" where
  "commit_metadata_update req s prepared p n_slots =
     (let s1 = s\<lparr>frame_records := Some (new_records p),
                 evicted_frame_count := evicted_frame_count s + dropped_units prepared,
                 surviving_frame_count := int (length (new_records p))\<rparr>;
          s2 = (if full_grid_thw s1 = None then s1
                else s1\<lparr>full_grid_thw := prepared_grid_thw prepared\<rparr>);
          (req3, s3) = fold (\<lambda>(old, new). assign_visible_counts old new)
                         (prepared_counts prepared) (req, s2);
          req4 = req3\<lparr>multimodal_inputs := map_option (sync_mm_inputs s3 n_slots)
                                             (multimodal_inputs req3)\<rparr>;
          committed_total = int n_slots + decoder_length s3;
          req5 = req4\<lparr>kv_allocated_len := map_option (\<lambda>_. committed_total) (kv_allocated_len req4),
                      kv_committed_len := map_option (\<lambda>_. committed_total) (kv_committed_len req4)\<rparr>
      in (req5, s3))"

fun index_of :: "'a \<Rightarrow> 'a list \<Rightarrow> nat option" where
  "index_of x [] = None"
| "index_of x (y # ys) = (if y = x then Some 0 else map_option Suc (index_of x ys))"

definition set_nth_res :: "'a list \<Rightarrow> nat \<Rightarrow> 'a \<Rightarrow> 'a list res" where
  "set_nth_res xs i x = (if i < length xs then Inr (xs[i := x]) else Inl IndexError)"

definition update_running_batch_encoder_lens ::
    "running_batch \<Rightarrow> window_req \<Rightarrow> int \<Rightarrow> unit res \<times> running_batch" where
  "update_running_batch_encoder_lens b req n =
     (case index_of (rq_id req) (rb_reqs b) of
        None \<Rightarrow> (Inr (), b)
      | Some i \<Rightarrow>
         let put = (\<lambda>l. case l of None \<Rightarrow> Inr None
                        | Some xs \<Rightarrow> bindE (set_nth_res xs i n) (\<lambda>ys. Inr (Some ys)))
         in (case put (encoder_lens_cpu b) of
               Inl e \<Rightarrow> (Inl e, b)
             | Inr cpu \<Rightarrow>
                let b1 = b\<lparr>encoder_lens_cpu := cpu\<rparr> in
                (case put (encoder_lens b) of
                   Inl e \<Rightarrow> (Inl e, b1)
                 | Inr lens \<Rightarrow> (Inr (), b1\<lparr>encoder_lens := lens\<rparr>))))"

subsection \<open>\<open>apply_frame_window_plan\<close>\<close>

text \<open>The slots for the pooled copies, and the plan degraded to eviction when there are none.
  The result is the plan to apply, its poolable chunks with their widths, and the slots.\<close>

definition allocate_pooled ::
    "'v apply_world \<Rightarrow> frame_record list \<Rightarrow> int list list \<Rightarrow> frame_window_plan \<Rightarrow> bool res \<Rightarrow>
     (nat \<Rightarrow> int list option) \<Rightarrow>
     (frame_window_plan \<times> raw_chunk list \<times> nat list \<times> int list option) res \<times> 'v apply_world" where
  "allocate_pooled w records runs p provider alloc =
     (let chunks = filter (\<lambda>(_, _, b). b) (raw_chunks p);
          base = length (filter pooled records) in
      if chunks = [] then (Inr (p, [], [], None), w)
      else case mapE (\<lambda>(start, _, _). bindE (nth_res runs (base + start)) (\<lambda>r. Inr (length r))) chunks of
        Inl e \<Rightarrow> (Inl e, w)
      | Inr widths \<Rightarrow>
         (case provider of
            Inl e \<Rightarrow> (Inl e, w)
          | Inr has_pool \<Rightarrow>
             (case (if has_pool then alloc (sum_list widths) else None) of
                None \<Rightarrow> (Inr (degrade records p, [], [], None), w)
              | Some dst \<Rightarrow> (Inr (p, chunks, widths, Some dst), w\<lparr>aw_allocs := aw_allocs w @ [dst]\<rparr>))))"

text \<open>The \<open>try\<close> block: everything up to and including the page-row rewrite.\<close>

definition rewrite_row ::
    "('v list \<Rightarrow> 'v) \<Rightarrow> 'v apply_world \<Rightarrow> nat \<Rightarrow> frame_record list \<Rightarrow> kv_layout \<Rightarrow> int list list \<Rightarrow>
     frame_window_plan \<Rightarrow> raw_chunk list \<Rightarrow> nat list \<Rightarrow> int list option \<Rightarrow>
     (prepared_update \<times> int list list \<times> int list) res \<times> 'v apply_world" where
  "rewrite_row mean w row records layout runs p chunks widths dst =
     (let base = length (filter pooled records) in
      case prepare_metadata_update (aw_req w) (aw_state w) (aw_fresh w) records p of
        Inl e \<Rightarrow> (Inl e, w)
      | Inr prepared \<Rightarrow>
         (case (if chunks = [] then (Inr [], aw_pool w)
                else case dst of None \<Rightarrow> (Inl RuntimeError, aw_pool w)
                     | Some d \<Rightarrow> pool_chunks mean runs base d chunks widths (aw_pool w)) of
            (Inl e, pool') \<Rightarrow> (Inl e, w\<lparr>aw_pool := pool'\<rparr>)
          | (Inr produced, pool') \<Rightarrow>
             (let w1 = w\<lparr>aw_pool := pool'\<rparr>;
                  aged = pooled_raw_count p + dropped_raw_count p;
                  kept_virtual = drop (evicted_virtual_count p) (take base runs);
                  kept_raw = drop (base + aged) runs;
                  new_slots = concat (kept_virtual @ produced @ kept_raw)
              in case mk_layout new_slots (decoder_slots layout) of
                   Inl e \<Rightarrow> (Inl e, w1)
                 | Inr l \<Rightarrow>
                    (case write_layout (aw_pages w1) (int row) l True of
                       Inl e \<Rightarrow> (Inl e, w1)
                     | Inr tbl \<Rightarrow> (Inr (prepared, produced, new_slots), w1\<lparr>aw_pages := tbl\<rparr>)))))"

definition free_slots :: "int list \<Rightarrow> 'v apply_world \<Rightarrow> 'v apply_world" where
  "free_slots slots w = (if slots = [] then w else w\<lparr>aw_frees := aw_frees w @ [slots]\<rparr>)"

definition finish_apply ::
    "'v apply_world \<Rightarrow> nat \<Rightarrow> int list list \<Rightarrow> frame_window_plan \<Rightarrow> int option \<Rightarrow>
     prepared_update \<times> int list list \<times> int list \<Rightarrow> frame_window_event res \<times> 'v apply_world" where
  "finish_apply w base runs p avail built =
     (let (prepared, produced, new_slots) = built;
          aged = pooled_raw_count p + dropped_raw_count p;
          consumed = concat (take aged (drop base runs));
          freed = concat (take (evicted_virtual_count p) runs) @ consumed;
          w1 = free_slots freed w;
          n = length new_slots;
          (req2, s2) = commit_metadata_update (aw_req w1) (aw_state w1) prepared p n;
          w2 = w1\<lparr>aw_req := req2, aw_state := s2,
                 aw_fresh := aw_fresh w1 + length (prepared_counts prepared)\<rparr>;
          (r, batch) = (case aw_batch w2 of
                          None \<Rightarrow> (Inr (), None)
                        | Some b \<Rightarrow> let (r, b') = update_running_batch_encoder_lens b req2 (int n)
                                    in (r, Some b'));
          w3 = w2\<lparr>aw_batch := batch\<rparr>
      in case r of
           Inl e \<Rightarrow> (Inl e, w3)
         | Inr _ \<Rightarrow>
            (Inr \<lparr>ev_request_id = request_id s2,
                  evicted_virtual_frames = evicted_virtual_count p,
                  pooled_raw_frames = pooled_raw_count p,
                  produced_virtual_frames = length produced,
                  dropped_raw_frames = dropped_raw_count p,
                  encoder_length_before = encoder_length s2, encoder_length_after = int n,
                  ev_surviving_frame_count = int (length (new_records p)),
                  pool_free_slots = avail\<rparr>,
             w3\<lparr>aw_state := s2\<lparr>encoder_length := int n\<rparr>\<rparr>))"

definition apply_frame_window_plan ::
    "('v list \<Rightarrow> 'v) \<Rightarrow> bool res \<Rightarrow> (nat \<Rightarrow> int list option) \<Rightarrow> int option \<Rightarrow>
     frame_window_plan \<Rightarrow> frame_record list \<Rightarrow> 'v apply_world \<Rightarrow>
     frame_window_event res \<times> 'v apply_world" where
  "apply_frame_window_plan mean provider alloc avail p records w =
     (if \<not> removes_frames p then (Inl ValueError, w)
      else case req_pool_index (aw_state w) of None \<Rightarrow> (Inl RuntimeError, w) | Some row \<Rightarrow>
      case read_layout (aw_pages w) row (encoder_length (aw_state w)) (decoder_length (aw_state w)) of
        Inl e \<Rightarrow> (Inl e, w)
      | Inr layout \<Rightarrow>
      case record_slot_runs records (encoder_slots layout) of Inl e \<Rightarrow> (Inl e, w) | Inr runs \<Rightarrow>
      case allocate_pooled w records runs p provider alloc of
        (Inl e, w1) \<Rightarrow> (Inl e, w1)
      | (Inr (p1, chunks, widths, dst), w1) \<Rightarrow>
      case rewrite_row mean w1 (nat row) records layout runs p1 chunks widths dst of
        (Inl e, w2) \<Rightarrow> (Inl e, case dst of None \<Rightarrow> w2 | Some d \<Rightarrow> free_slots d w2)
      | (Inr built, w2) \<Rightarrow>
          finish_apply w2 (length (filter pooled records)) runs p1 avail built)"

end
