(* ===== verification/Frame_Apply_Props.thy ===== *)
theory Frame_Apply_Props
  imports Frame_Apply Frame_Plan_Props "HOL-Library.Multiset"
begin

section \<open>Correctness of applying a frame-window plan\<close>

text \<open>
  The theorems about \<open>apply_frame_window_plan\<close>: KV slots are conserved by a successful round,
  a failing round leaves the committed layout and the metadata untouched and returns every
  slot it allocated, and a plan made by the planner always applies.
\<close>

subsection \<open>Slot runs\<close>

lemma length_slot_runs [simp]: "length (slot_runs_from slots c rs) = length rs"
  by (induction slots c rs rule: slot_runs_from.induct) auto

lemma slot_runs_from_concat:
  assumes "\<forall>r \<in> set rs. 0 \<le> fr_slots r" and "0 \<le> c"
    and "c + sum_list (map fr_slots rs) \<le> int (length slots)"
  shows "concat (slot_runs_from slots c rs)
      = take (nat (sum_list (map fr_slots rs))) (drop (nat c) slots)"
  using assms
proof (induction slots c rs rule: slot_runs_from.induct)
  case (2 slots c r rs)
  let ?s = "sum_list (map fr_slots rs)"
  have nn: "0 \<le> ?s" using 2(2) by (auto intro!: sum_list_nonneg)
  have r0: "0 \<le> fr_slots r" using 2(2) by simp
  have "concat (slot_runs_from slots (c + fr_slots r) rs)
      = take (nat ?s) (drop (nat (c + fr_slots r)) slots)"
    using 2 r0 by simp
  moreover have "py_slice slots c (c + fr_slots r) = take (nat (fr_slots r)) (drop (nat c) slots)"
    using 2 r0 nn by (intro py_slice_nonneg) auto
  ultimately show ?case
    using r0 nn 2(3)
    by (simp add: take_add [symmetric] nat_add_distrib add.commute [of "nat c"] drop_drop [symmetric]
        del: drop_drop)
qed simp

lemma slot_runs_from_width:
  assumes "\<forall>r \<in> set rs. 0 \<le> fr_slots r" and "0 \<le> c"
    and "c + sum_list (map fr_slots rs) \<le> int (length slots)" and "i < length rs"
  shows "length (slot_runs_from slots c rs ! i) = nat (fr_slots (rs ! i))"
  using assms
proof (induction slots c rs arbitrary: i rule: slot_runs_from.induct)
  case (2 slots c r rs)
  have nn: "0 \<le> sum_list (map fr_slots rs)" using 2(2) by (auto intro!: sum_list_nonneg)
  have "py_slice slots c (c + fr_slots r) = take (nat (fr_slots r)) (drop (nat c) slots)"
    using 2 nn by (intro py_slice_nonneg) auto
  then show ?case using 2 nn by (cases i) auto
qed simp

lemma record_slot_runs_Inr:
  assumes "record_slot_runs records slots = Inr runs" and "\<forall>r \<in> set records. 0 \<le> fr_slots r"
  shows "concat runs = slots" and "length runs = length records"
    and "\<And>i. i < length records \<Longrightarrow> length (runs ! i) = nat (fr_slots (records ! i))"
proof -
  have r: "runs = slot_runs_from slots 0 records"
    and s: "sum_list (map fr_slots records) = int (length slots)"
    using assms(1) by (auto simp: record_slot_runs_def split: if_splits)
  show "concat runs = slots" "length runs = length records"
    using slot_runs_from_concat [OF assms(2), of 0 slots] s by (auto simp: r)
  show "length (runs ! i) = nat (fr_slots (records ! i))" if "i < length records" for i
    using slot_runs_from_width [OF assms(2), of 0 slots i] s that by (auto simp: r)
qed

subsection \<open>Allocation and pooling\<close>

lemma allocate_pooled_Inl:
  "allocate_pooled w records runs p provider alloc = (Inl e, w') \<Longrightarrow> w' = w"
  by (auto simp: allocate_pooled_def Let_def split: if_splits sum.splits option.splits)

lemma allocate_pooled_Inr:
  assumes "allocate_pooled w records runs p provider alloc = (Inr (p1, chunks, widths, dst), w')"
  shows "(dst = None \<and> chunks = [] \<and> w' = w \<and> (p1 = p \<or> p1 = degrade records p))
    \<or> (\<exists>d. dst = Some d \<and> chunks \<noteq> [] \<and> p1 = p \<and> alloc (sum_list widths) = Some d
        \<and> w' = w\<lparr>aw_allocs := aw_allocs w @ [d]\<rparr>)"
  using assms
  by (auto simp: allocate_pooled_def Let_def dest!: sym [of "Some _"]
      split: if_splits sum.splits option.splits)

lemma pool_chunks_concat:
  "pool_chunks mean runs base dst chunks widths pool = (Inr produced, pool')
     \<Longrightarrow> concat produced = take (sum_list widths) dst \<and> length produced = length chunks"
proof (induction mean runs base dst chunks widths pool arbitrary: produced pool' rule: pool_chunks.induct)
  case (2 mean runs base dst start n b cs w ws pool)
  then show ?case
    by (fastforce simp: take_add split: sum.splits prod.splits)
qed auto

lemma evicted_le_virtuals:
  assumes plan: "plan_frame_window records cfg = Inr (Some p)"
  shows "evicted_virtual_count p \<le> length (filter pooled records)"
proof -
  let ?vs = "takeWhile pooled records"
  have "evicted_virtual_count p \<le> length ?vs"
    using plan by (auto simp: plan_frame_window_def Let_def split: if_splits prod.splits)
  moreover have "filter pooled records = ?vs @ filter pooled (dropWhile pooled records)"
    by (metis filter_append filter_True set_takeWhileD takeWhile_dropWhile_id)
  ultimately show ?thesis by simp
qed

lemma degrade_simps [simp]:
  "evicted_virtual_count (degrade records p) = evicted_virtual_count p"
  "pooled_raw_count (degrade records p) = 0"
  "dropped_raw_count (degrade records p) = pooled_raw_count p + dropped_raw_count p"
proof -
  have f: "filter (\<lambda>(_, _, b). b) (map (\<lambda>(s, n, _). (s, n, False)) cs) = []" for cs :: "raw_chunk list"
    by (induction cs) auto
  have g: "filter (\<lambda>(_, _, b). \<not> b) (map (\<lambda>(s, n, _). (s, n, False)) cs)
      = map (\<lambda>(s, n, _). (s, n, False)) cs" for cs :: "raw_chunk list"
    by (induction cs) auto
  have h: "sum_list (map (\<lambda>(_, n, _). n) (map (\<lambda>(s, n, _). (s, n, False)) cs))
      = sum_list (map (\<lambda>(_, n, _). n) (filter (\<lambda>(_, _, b). b) cs))
        + sum_list (map (\<lambda>(_, n, _). n) (filter (\<lambda>(_, _, b). \<not> b) cs))" for cs :: "raw_chunk list"
    by (induction cs) (auto split: prod.splits)
  show "evicted_virtual_count (degrade records p) = evicted_virtual_count p"
    by (simp add: degrade_def)
  show "pooled_raw_count (degrade records p) = 0"
    by (simp add: degrade_def pooled_raw_count_def f)
  show "dropped_raw_count (degrade records p) = pooled_raw_count p + dropped_raw_count p"
    using h [of "raw_chunks p"]
    by (simp add: degrade_def pooled_raw_count_def dropped_raw_count_def g)
qed

subsection \<open>The rewrite and what follows it\<close>

lemma rewrite_row_Inl:
  assumes "rewrite_row mean w row records layout runs p chunks widths dst = (Inl e, w')"
  shows "aw_pages w' = aw_pages w \<and> aw_state w' = aw_state w \<and> aw_req w' = aw_req w
    \<and> aw_batch w' = aw_batch w \<and> aw_allocs w' = aw_allocs w \<and> aw_frees w' = aw_frees w"
  using assms
  by (auto simp: rewrite_row_def Let_def split: sum.splits prod.splits if_splits option.splits)

lemma rewrite_row_Inr:
  assumes "rewrite_row mean w row records layout runs p chunks widths dst
      = (Inr (prepared, produced, new_enc), w')"
  obtains l tbl where
    "mk_layout new_enc (decoder_slots layout) = Inr l"
    "write_layout (aw_pages w) (int row) l True = Inr tbl"
    "new_enc = concat (drop (evicted_virtual_count p) (take (length (filter pooled records)) runs)
       @ produced @ drop (length (filter pooled records) + (pooled_raw_count p + dropped_raw_count p)) runs)"
    "aw_pages w' = tbl" "aw_state w' = aw_state w" "aw_req w' = aw_req w" "aw_batch w' = aw_batch w"
    "aw_allocs w' = aw_allocs w" "aw_frees w' = aw_frees w" "aw_fresh w' = aw_fresh w"
    "chunks = [] \<and> produced = [] \<or> (\<exists>d pool'. dst = Some d \<and>
       pool_chunks mean runs (length (filter pooled records)) d chunks widths (aw_pool w) = (Inr produced, pool'))"
    "prepare_metadata_update (aw_req w) (aw_state w) (aw_fresh w) records p = Inr prepared"
  using assms
  by (auto simp: rewrite_row_def Let_def split: sum.splits prod.splits if_splits option.splits)

lemma fold_assign_frame:
  assumes "fold (\<lambda>(old, new). assign_visible_counts old new) prs (req, s) = (req', s')"
  shows "rq_id req' = rq_id req \<and> kv_allocated_len req' = kv_allocated_len req
    \<and> kv_committed_len req' = kv_committed_len req \<and> req_pool_index s' = req_pool_index s
    \<and> encoder_length s' = encoder_length s \<and> decoder_length s' = decoder_length s
    \<and> frame_records s' = frame_records s \<and> surviving_frame_count s' = surviving_frame_count s
    \<and> evicted_frame_count s' = evicted_frame_count s \<and> full_grid_thw s' = full_grid_thw s
    \<and> appended_encoder_length s' = appended_encoder_length s \<and> request_id s' = request_id s"
  using assms
proof (induction prs arbitrary: req s)
  case (Cons a prs)
  obtain old new where a: "a = (old, new)" by (cases a)
  obtain req1 s1 where one: "assign_visible_counts old new (req, s) = (req1, s1)"
    by (cases "assign_visible_counts old new (req, s)")
  from Cons.IH [of req1 s1] Cons.prems one a
  show ?case
    by (auto simp: assign_visible_counts_def Let_def split: if_splits option.splits)
qed simp

lemma commit_metadata_facts:
  assumes "commit_metadata_update req s prepared p n = (req', s')"
  shows "rq_id req' = rq_id req
    \<and> kv_allocated_len req' = map_option (\<lambda>_. int n + decoder_length s) (kv_allocated_len req)
    \<and> kv_committed_len req' = map_option (\<lambda>_. int n + decoder_length s) (kv_committed_len req)
    \<and> req_pool_index s' = req_pool_index s \<and> encoder_length s' = encoder_length s
    \<and> decoder_length s' = decoder_length s \<and> frame_records s' = Some (new_records p)
    \<and> surviving_frame_count s' = int (length (new_records p))
    \<and> evicted_frame_count s' = evicted_frame_count s + dropped_units prepared
    \<and> appended_encoder_length s' = appended_encoder_length s \<and> request_id s' = request_id s"
proof -
  define s2 where "s2 = (let s1 = s\<lparr>frame_records := Some (new_records p),
       evicted_frame_count := evicted_frame_count s + dropped_units prepared,
       surviving_frame_count := int (length (new_records p))\<rparr> in
     if full_grid_thw s1 = None then s1 else s1\<lparr>full_grid_thw := prepared_grid_thw prepared\<rparr>)"
  obtain req3 s3 where f: "fold (\<lambda>(old, new). assign_visible_counts old new)
      (prepared_counts prepared) (req, s2) = (req3, s3)"
    by (cases "fold (\<lambda>(old, new). assign_visible_counts old new) (prepared_counts prepared) (req, s2)")
  have s2: "req_pool_index s2 = req_pool_index s" "encoder_length s2 = encoder_length s"
    "decoder_length s2 = decoder_length s" "frame_records s2 = Some (new_records p)"
    "surviving_frame_count s2 = int (length (new_records p))"
    "evicted_frame_count s2 = evicted_frame_count s + dropped_units prepared"
    "appended_encoder_length s2 = appended_encoder_length s" "request_id s2 = request_id s"
    by (simp_all add: s2_def Let_def)
  have "(req', s') = (req3\<lparr>multimodal_inputs := map_option (sync_mm_inputs s3 n) (multimodal_inputs req3),
      kv_allocated_len := map_option (\<lambda>_. int n + decoder_length s3) (kv_allocated_len req3),
      kv_committed_len := map_option (\<lambda>_. int n + decoder_length s3) (kv_committed_len req3)\<rparr>, s3)"
    using assms f by (auto simp: commit_metadata_update_def Let_def s2_def)
  with fold_assign_frame [OF f] s2 show ?thesis by auto
qed


text \<open>The encoder-length lists of the decode batch are as long as its request list.\<close>

definition batch_aligned :: "running_batch option \<Rightarrow> nat \<Rightarrow> bool" where
  "batch_aligned batch rid =
     (case batch of None \<Rightarrow> True | Some b \<Rightarrow>
      (case index_of rid (rb_reqs b) of None \<Rightarrow> True | Some i \<Rightarrow>
        (\<forall>l. encoder_lens_cpu b = Some l \<longrightarrow> i < length l) \<and>
        (\<forall>l. encoder_lens b = Some l \<longrightarrow> i < length l)))"

lemma update_batch_aligned:
  assumes "batch_aligned (Some b) (rq_id req)"
  shows "fst (update_running_batch_encoder_lens b req n) = Inr ()"
  using assms
  by (auto simp: batch_aligned_def update_running_batch_encoder_lens_def set_nth_res_def Let_def
      split: option.splits)

lemma finish_apply_facts:
  assumes f: "finish_apply w base runs p avail (prepared, produced, slots) = (res, w')"
    and al: "batch_aligned (aw_batch w) (rq_id (aw_req w))"
  shows "aw_pages w' = aw_pages w \<and> aw_allocs w' = aw_allocs w
    \<and> concat (aw_frees w') = concat (aw_frees w) @ concat (take (evicted_virtual_count p) runs)
        @ concat (take (pooled_raw_count p + dropped_raw_count p) (drop base runs))
    \<and> take (length (aw_frees w)) (aw_frees w') = aw_frees w
    \<and> encoder_length (aw_state w') = int (length slots)
    \<and> decoder_length (aw_state w') = decoder_length (aw_state w)
    \<and> req_pool_index (aw_state w') = req_pool_index (aw_state w)
    \<and> appended_encoder_length (aw_state w') = appended_encoder_length (aw_state w)
    \<and> frame_records (aw_state w') = Some (new_records p)
    \<and> evicted_frame_count (aw_state w') = evicted_frame_count (aw_state w) + dropped_units prepared
    \<and> kv_committed_len (aw_req w')
        = map_option (\<lambda>_. int (length slots) + decoder_length (aw_state w)) (kv_committed_len (aw_req w))
    \<and> (\<exists>ev. res = Inr ev)"
proof -
  let ?freed = "concat (take (evicted_virtual_count p) runs)
        @ concat (take (pooled_raw_count p + dropped_raw_count p) (drop base runs))"
  let ?w1 = "free_slots ?freed w"
  have w1: "aw_req ?w1 = aw_req w" "aw_state ?w1 = aw_state w" "aw_pages ?w1 = aw_pages w"
    "aw_allocs ?w1 = aw_allocs w" "aw_batch ?w1 = aw_batch w"
    "concat (aw_frees ?w1) = concat (aw_frees w) @ ?freed"
    "take (length (aw_frees w)) (aw_frees ?w1) = aw_frees w"
    by (auto simp: free_slots_def)
  obtain req2 s2 where c: "commit_metadata_update (aw_req ?w1) (aw_state ?w1) prepared p (length slots)
      = (req2, s2)" by fastforce
  note facts = commit_metadata_facts [OF c]
  have b: "\<exists>b'. (case aw_batch w of None \<Rightarrow> (Inr (), None)
      | Some b \<Rightarrow> let (r, b') = update_running_batch_encoder_lens b req2 (int (length slots)) in (r, Some b'))
      = (Inr (), b')"
  proof (cases "aw_batch w")
    case (Some b)
    then have "fst (update_running_batch_encoder_lens b req2 (int (length slots))) = Inr ()"
      using update_batch_aligned [of b req2] al facts w1(1) by simp
    then show ?thesis using Some by (auto simp: split_def)
  qed simp
  then obtain b' where "(case aw_batch w of None \<Rightarrow> (Inr (), None)
      | Some b \<Rightarrow> let (r, b') = update_running_batch_encoder_lens b req2 (int (length slots)) in (r, Some b'))
      = (Inr (), b')" by blast
  with f c have "w' = ?w1\<lparr>aw_req := req2, aw_state := s2\<lparr>encoder_length := int (length slots)\<rparr>,
        aw_fresh := aw_fresh ?w1 + length (prepared_counts prepared), aw_batch := b'\<rparr>
      \<and> (\<exists>ev. res = Inr ev)"
    by (auto simp: finish_apply_def Let_def w1)
  with facts w1 show ?thesis by auto
qed

subsection \<open>Slots are conserved\<close>

lemma runs_partition:
  assumes "ev \<le> base"
  shows "mset (concat (drop ev (take base runs) @ pr @ drop (base + aged) runs))
       + mset (concat (take ev runs) @ concat (take aged (drop base runs)))
     = mset (concat runs) + mset (concat pr)"
proof -
  have t: "take ev runs = take ev (take base runs)" using assms by (simp add: min_def)
  have "concat runs = concat (take base runs) @ concat (drop base runs)"
    by (metis append_take_drop_id concat_append)
  moreover have "concat (take base runs) = concat (take ev (take base runs)) @ concat (drop ev (take base runs))"
    by (metis append_take_drop_id concat_append)
  moreover have "concat (drop base runs) = concat (take aged (drop base runs)) @ concat (drop (base + aged) runs)"
    by (metis append_take_drop_id concat_append drop_drop add.commute)
  ultimately show ?thesis by (simp add: t)
qed

text \<open>Everything the properties need from a round that got past the rewrite.\<close>

lemma apply_Inr_shape:
  assumes plan: "plan_frame_window records cfg = Inr (Some p)"
    and widths: "\<forall>r \<in> set records. 0 \<le> fr_slots r"
    and row: "req_pool_index (aw_state w) = Some i"
    and rd: "read_layout (aw_pages w) i (encoder_length (aw_state w))
               (decoder_length (aw_state w)) = Inr l"
    and al: "batch_aligned (aw_batch w) (rq_id (aw_req w))"
    and len: "\<And>n d. alloc n = Some d \<Longrightarrow> length d = n"
    and ok: "apply_frame_window_plan mean provider alloc avail p records w = (Inr ev, w')"
  obtains l' ds fs where
    "read_layout (aw_pages w') i (encoder_length (aw_state w')) (decoder_length (aw_state w')) = Inr l'"
    "decoder_slots l' = decoder_slots l"
    "aw_allocs w' = aw_allocs w @ ds" "ds = [] \<or> (\<exists>n d. alloc n = Some d \<and> ds = [d])"
    "aw_frees w' = aw_frees w @ fs"
    "mset (encoder_slots l') + mset (concat fs) = mset (encoder_slots l) + mset (concat ds)"
    "mset (concat fs) \<subseteq># mset (encoder_slots l)"
    "\<forall>j e d. j \<noteq> i \<and> 0 \<le> j \<longrightarrow> read_layout (aw_pages w') j e d = read_layout (aw_pages w) j e d"
    "kv_committed_len (aw_req w') = map_option (\<lambda>_. layout_total_length l') (kv_committed_len (aw_req w))"
    "appended_encoder_length (aw_state w') = appended_encoder_length (aw_state w)"
proof -
  let ?base = "length (filter pooled records)"
  from rd have i0: "0 \<le> i" by (simp add: read_layout_Inr)
  have dlen: "int (length (decoder_slots l)) = decoder_length (aw_state w)"
    using read_layout_lengths [OF rd] by (simp add: layout_decoder_length_def)
  from ok row rd obtain runs where runs: "record_slot_runs records (encoder_slots l) = Inr runs"
    by (auto simp: apply_frame_window_plan_def split: if_splits sum.splits)
  from ok row rd runs obtain p1 chunks ws dst w1 where
    a: "allocate_pooled w records runs p provider alloc = (Inr (p1, chunks, ws, dst), w1)"
    by (auto simp: apply_frame_window_plan_def split: if_splits sum.splits prod.splits)
  from ok row rd runs a obtain prepared produced new_enc w2 where
    r: "rewrite_row mean w1 (nat i) records l runs p1 chunks ws dst = (Inr (prepared, produced, new_enc), w2)"
    and fin: "finish_apply w2 ?base runs p1 avail (prepared, produced, new_enc) = (Inr ev, w')"
    by (auto simp: apply_frame_window_plan_def split: if_splits sum.splits prod.splits)
  note alloc_cases = allocate_pooled_Inr [OF a]
  have w1: "aw_pages w1 = aw_pages w" "aw_state w1 = aw_state w" "aw_req w1 = aw_req w"
    "aw_batch w1 = aw_batch w" "aw_frees w1 = aw_frees w"
    and pcase: "p1 = p \<or> p1 = degrade records p"
    using alloc_cases by auto
  obtain l' tbl where mk: "mk_layout new_enc (decoder_slots l) = Inr l'"
    and wl: "write_layout (aw_pages w1) (int (nat i)) l' True = Inr tbl"
    and ne: "new_enc = concat (drop (evicted_virtual_count p1) (take ?base runs) @ produced
        @ drop (?base + (pooled_raw_count p1 + dropped_raw_count p1)) runs)"
    and w2: "aw_pages w2 = tbl" "aw_state w2 = aw_state w1" "aw_req w2 = aw_req w1"
      "aw_batch w2 = aw_batch w1" "aw_allocs w2 = aw_allocs w1" "aw_frees w2 = aw_frees w1"
    and pc: "chunks = [] \<and> produced = [] \<or> (\<exists>d pool'. dst = Some d \<and>
       pool_chunks mean runs ?base d chunks ws (aw_pool w1) = (Inr produced, pool'))"
    by (rule rewrite_row_Inr [OF r])
  have al2: "batch_aligned (aw_batch w2) (rq_id (aw_req w2))" using al w1 w2 by simp
  note facts = finish_apply_facts [OF fin al2]
  from alloc_cases obtain ds where ds: "aw_allocs w1 = aw_allocs w @ ds"
    "ds = [] \<or> (\<exists>n d. alloc n = Some d \<and> ds = [d])" "concat ds = concat produced"
  proof (elim disjE exE conjE)
    fix d
    assume h: "dst = Some d" "chunks \<noteq> []" "alloc (sum_list ws) = Some d"
      "w1 = w\<lparr>aw_allocs := aw_allocs w @ [d]\<rparr>"
    with pc obtain pool' where
      "pool_chunks mean runs ?base d chunks ws (aw_pool w1) = (Inr produced, pool')" by auto
    from pool_chunks_concat [OF this] len [OF h(3)] have "concat [d] = concat produced" by simp
    then show ?thesis using h that by auto
  qed (use pc that [of "[]"] in auto)
  have ev: "evicted_virtual_count p1 \<le> ?base"
    using evicted_le_virtuals [OF plan] pcase by auto
  have cr: "concat runs = encoder_slots l" using record_slot_runs_Inr(1) [OF runs widths] .
  obtain fs where fs: "aw_frees w' = aw_frees w @ fs"
    "concat fs = concat (take (evicted_virtual_count p1) runs)
        @ concat (take (pooled_raw_count p1 + dropped_raw_count p1) (drop ?base runs))"
  proof -
    have "take (length (aw_frees w)) (aw_frees w') = aw_frees w" using facts w1 w2 by simp
    then have s: "aw_frees w' = aw_frees w @ drop (length (aw_frees w)) (aw_frees w')"
      by (metis append_take_drop_id)
    have "concat (aw_frees w') = concat (aw_frees w) @ concat (drop (length (aw_frees w)) (aw_frees w'))"
      using arg_cong [OF s, of concat] by simp
    with facts w1 w2 have "concat (drop (length (aw_frees w)) (aw_frees w')) = concat (take (evicted_virtual_count p1) runs)
        @ concat (take (pooled_raw_count p1 + dropped_raw_count p1) (drop ?base runs))" by simp
    with s that show thesis by blast
  qed
  have l': "encoder_slots l' = new_enc" "decoder_slots l' = decoder_slots l" "layout_wf l'"
    using mk by (auto simp: mk_layout_Inr)
  have wl': "write_layout (aw_pages w) i l' True = Inr (aw_pages w')"
    using wl i0 w1 w2 facts by simp
  have enc: "layout_encoder_length l' = encoder_length (aw_state w')"
    using l' facts by (simp add: layout_encoder_length_def)
  have dec: "layout_decoder_length l' = decoder_length (aw_state w')"
    using l' facts dlen w1 w2 by (simp add: layout_decoder_length_def)
  show thesis
  proof (rule that [of l' ds fs])
    show "read_layout (aw_pages w') i (encoder_length (aw_state w')) (decoder_length (aw_state w')) = Inr l'"
      using pages.rd_wr [OF wl' l'(3)] enc dec by simp
    show "mset (encoder_slots l') + mset (concat fs) = mset (encoder_slots l) + mset (concat ds)"
      using runs_partition [OF ev, of runs produced "pooled_raw_count p1 + dropped_raw_count p1"]
      by (simp add: l' ne fs(2) ds(3) flip: cr)
    show "mset (concat fs) \<subseteq># mset (encoder_slots l)"
      using runs_partition [OF ev, of runs "[]" "pooled_raw_count p1 + dropped_raw_count p1"]
      by (metis add.right_neutral concat.simps(1) cr fs(2) mset.simps(1) mset_subset_eq_add_right)
    show "\<forall>j e d. j \<noteq> i \<and> 0 \<le> j \<longrightarrow> read_layout (aw_pages w') j e d = read_layout (aw_pages w) j e d"
      using pages.rd_frame [OF wl'] by blast
    show "kv_committed_len (aw_req w') = map_option (\<lambda>_. layout_total_length l') (kv_committed_len (aw_req w))"
      using facts w1 w2 l' dlen by (simp add: layout_total_length_def layout_encoder_length_def
          layout_decoder_length_def)
  qed (use l' ds fs facts w1 w2 in auto)
qed


lemma distinct_mset_sub:
  assumes "mset xs \<subseteq># mset ys" and "distinct ys"
  shows "distinct xs"
proof -
  obtain zs where "mset ys = mset (xs @ zs)"
    using assms(1) by (metis ex_mset mset_append subset_mset.le_iff_add)
  then have "distinct (xs @ zs)" using assms(2) mset_eq_imp_distinct_iff by blast
  then show ?thesis by simp
qed

lemma mset_recombined:
  assumes eq: "mset kept + mset freed = mset old + mset new" and sub: "mset freed \<subseteq># mset old"
    and d: "distinct old" and disj: "set new \<inter> set old = {}"
  shows "set freed \<inter> set kept = {}"
proof (rule ccontr)
  assume "\<not> ?thesis"
  then obtain x where x: "x \<in> set freed" "x \<in> set kept" by blast
  then have xo: "x \<in> set old" using sub by (metis set_mset_mono set_mset_mset subset_eq)
  then have "count (mset new) x = 0" using disj by (auto simp: count_eq_zero_iff)
  moreover have "count (mset old) x = 1" using d xo by (simp add: distinct_count_atmost_1)
  moreover have "1 \<le> count (mset freed) x" "1 \<le> count (mset kept) x"
    using x by (simp_all add: Suc_le_eq)
  moreover have "count (mset kept) x + count (mset freed) x = count (mset old) x + count (mset new) x"
    using arg_cong [OF eq, of "\<lambda>m. count m x"] by simp
  ultimately show False by linarith
qed

text \<open>
  C1: A successful round neither loses nor duplicates a KV slot.  For a
  plan made by the planner, the row reads afterwards, at the lengths the state records, as a
  layout with the same decoder region, and its encoder slots together with the slots given
  back to the allocator are, as multisets, the old encoder slots together with the slots
  newly allocated.  No slot is freed twice, no freed slot is still referenced by the row, the
  rows of other requests are untouched, the committed length the release path uses is the
  length of the new layout, and the token-space encoder history is unchanged.  The allocator
  is assumed to hand out the requested number of slots, none of them in the row.
\<close>
theorem window_conserves_slots:
  assumes plan: "plan_frame_window records cfg = Inr (Some p)"
    and widths: "\<forall>r \<in> set records. 0 \<le> fr_slots r"
    and row: "req_pool_index (aw_state w) = Some i"
    and rd: "read_layout (aw_pages w) i (encoder_length (aw_state w))
               (decoder_length (aw_state w)) = Inr l"
    and al: "batch_aligned (aw_batch w) (rq_id (aw_req w))"
    and fresh: "\<forall>n d. alloc n = Some d \<longrightarrow> length d = n \<and> set d \<inter> set (as_tuple l) = {}"
    and ok: "apply_frame_window_plan mean provider alloc avail p records w = (Inr ev, w')"
  shows "\<exists>l' ds fs.
      read_layout (aw_pages w') i (encoder_length (aw_state w')) (decoder_length (aw_state w')) = Inr l'
    \<and> decoder_slots l' = decoder_slots l
    \<and> aw_allocs w' = aw_allocs w @ ds \<and> aw_frees w' = aw_frees w @ fs
    \<and> mset (encoder_slots l') + mset (concat fs) = mset (encoder_slots l) + mset (concat ds)
    \<and> distinct (concat fs) \<and> set (concat fs) \<inter> set (as_tuple l') = {}
    \<and> (\<forall>j e d. j \<noteq> i \<and> 0 \<le> j \<longrightarrow> read_layout (aw_pages w') j e d = read_layout (aw_pages w) j e d)
    \<and> kv_committed_len (aw_req w') = map_option (\<lambda>_. layout_total_length l') (kv_committed_len (aw_req w))
    \<and> appended_encoder_length (aw_state w') = appended_encoder_length (aw_state w)"
proof -
  obtain l' ds fs where
    rd': "read_layout (aw_pages w') i (encoder_length (aw_state w')) (decoder_length (aw_state w')) = Inr l'"
    and dec: "decoder_slots l' = decoder_slots l" and ds: "aw_allocs w' = aw_allocs w @ ds"
    and dsc: "ds = [] \<or> (\<exists>n d. alloc n = Some d \<and> ds = [d])" and fs: "aw_frees w' = aw_frees w @ fs"
    and eq: "mset (encoder_slots l') + mset (concat fs) = mset (encoder_slots l) + mset (concat ds)"
    and sub: "mset (concat fs) \<subseteq># mset (encoder_slots l)"
    and rest: "\<forall>j e d. j \<noteq> i \<and> 0 \<le> j \<longrightarrow> read_layout (aw_pages w') j e d = read_layout (aw_pages w) j e d"
      "kv_committed_len (aw_req w') = map_option (\<lambda>_. layout_total_length l') (kv_committed_len (aw_req w))"
      "appended_encoder_length (aw_state w') = appended_encoder_length (aw_state w)"
    by (rule apply_Inr_shape [OF plan widths row rd al _ ok]) (use fresh in auto)
  have wf: "layout_wf l" "layout_wf l'" using rd rd' by (auto simp: read_layout_Inr)
  have dis: "distinct (encoder_slots l)" "set (encoder_slots l) \<inter> set (decoder_slots l) = {}"
    using wf(1) by (auto simp: layout_wf_def as_tuple_def)
  have fsub: "set (concat fs) \<subseteq> set (encoder_slots l)"
    using sub by (metis set_mset_mono set_mset_mset)
  have dd: "set (concat ds) \<inter> set (encoder_slots l) = {}"
  proof (cases "ds = []")
    case False
    then obtain n d where "alloc n = Some d" "ds = [d]" using dsc by auto
    with fresh show ?thesis by (auto simp: as_tuple_def)
  qed simp
  have "set (concat fs) \<inter> set (encoder_slots l') = {}"
    using mset_recombined [OF eq sub dis(1) dd] .
  with fsub dis(2) dec have "set (concat fs) \<inter> set (as_tuple l') = {}" by (auto simp: as_tuple_def)
  moreover have "distinct (concat fs)"
    using sub dis(1) by (rule distinct_mset_sub)
  ultimately show ?thesis using rd' dec ds fs eq rest by blast
qed

end
