(* ===== verification/Frame_Apply_Atomic.thy ===== *)
theory Frame_Apply_Atomic
  imports Frame_Apply_Props
begin

section \<open>A failing round, and concrete rounds\<close>

text \<open>
  What an exception during \<open>apply_frame_window_plan\<close> leaves behind, and the concrete rounds at
  which the theorems about applying a plan are instantiated.
\<close>

lemma prepared_Inr_finish:
  assumes "finish_apply w base runs p avail x = (Inl e, w')"
    and "batch_aligned (aw_batch w) (rq_id (aw_req w))"
  shows False
  using finish_apply_facts [of w base runs p avail "fst x" "fst (snd x)" "snd (snd x)" "Inl e" w'] assms
  by auto

text \<open>
  C3: A round that raises is invisible to the request: the page table, the
  runtime state, the request's metadata and the decode batch are exactly as before, and every
  slot allocated during the round is given back, nothing else being freed.
\<close>
theorem window_failure_atomic:
  assumes al: "batch_aligned (aw_batch w) (rq_id (aw_req w))"
    and err: "apply_frame_window_plan mean provider alloc avail p records w = (Inl e, w')"
  shows "aw_pages w' = aw_pages w \<and> aw_state w' = aw_state w \<and> aw_req w' = aw_req w
    \<and> aw_batch w' = aw_batch w
    \<and> (\<exists>ds fs. aw_allocs w' = aw_allocs w @ ds \<and> aw_frees w' = aw_frees w @ fs
         \<and> concat fs = concat ds)"
proof -
  consider (early) "w' = w"
    | (late) row l runs p1 chunks ws dst w1 w2 where
        "allocate_pooled w records runs p provider alloc = (Inr (p1, chunks, ws, dst), w1)"
        "rewrite_row mean w1 row records l runs p1 chunks ws dst = (Inl e, w2)"
        "w' = (case dst of None \<Rightarrow> w2 | Some d \<Rightarrow> free_slots d w2)"
    | (finish) base row l runs p1 chunks ws dst w1 w2 x where
        "allocate_pooled w records runs p provider alloc = (Inr (p1, chunks, ws, dst), w1)"
        "rewrite_row mean w1 row records l runs p1 chunks ws dst = (Inr x, w2)"
        "finish_apply w2 base runs p1 avail x = (Inl e, w')"
    using err
    by (auto simp: apply_frame_window_plan_def split: if_splits option.splits sum.splits prod.splits
        dest: allocate_pooled_Inl)
  then show ?thesis
  proof cases
    case late
    note r = rewrite_row_Inl [OF late(2)]
    from allocate_pooled_Inr [OF late(1)] show ?thesis
    proof (elim disjE conjE exE)
      fix d
      assume d: "dst = Some d" "w1 = w\<lparr>aw_allocs := aw_allocs w @ [d]\<rparr>"
      have fr: "aw_frees w' = aw_frees w @ (if d = [] then [] else [d])"
        and al': "aw_allocs w' = aw_allocs w @ [d]"
        using r d late(3) by (auto simp: free_slots_def)
      have "\<exists>ds fs. aw_allocs w' = aw_allocs w @ ds \<and> aw_frees w' = aw_frees w @ fs
         \<and> concat fs = concat ds"
        by (rule exI [of _ "[d]"], rule exI [of _ "if d = [] then [] else [d]"]) (simp add: fr al')
      then show ?thesis using r d late(3) by (auto simp: free_slots_def)
    qed (use r late(3) in auto)
  next
    case finish
    have same: "aw_batch w1 = aw_batch w" "aw_req w1 = aw_req w"
      using allocate_pooled_Inr [OF finish(1)] by auto
    obtain pu pr ne where x: "x = (pu, pr, ne)" by (cases x)
    have "aw_batch w2 = aw_batch w1" "aw_req w2 = aw_req w1"
      by (rule rewrite_row_Inr [OF finish(2) [unfolded x]]; simp)+
    with same al prepared_Inr_finish [OF finish(3)] show ?thesis by simp
  qed auto
qed

subsection \<open>Concrete rounds\<close>

definition apply_rt :: rt_state where
  "apply_rt = \<lparr>request_id = ''r'', session_id = ''s'', req_pool_index = Some 0, encoder_length = 15,
     decoder_length = 2, surviving_frame_count = 3, next_mrope_position = 9, turn_id = 0,
     max_tokens_per_turn = 86400, decode_allowance = None, context_limit = None,
     next_decode_not_before = 0, pending_token_id = None, mrope_positions = None,
     visible_frame_counts = Some \<lparr>tensor_id = 7, tensor_values = [1, 2, 3]\<rparr>,
     full_grid_thw = Some [(1, 4, 4), (1, 4, 4), (1, 4, 4)], frame_records = None,
     evicted_frame_count = 0, appended_encoder_length = Some 15, phase = Decoding,
     append_inflight = False, rt_accounting = None\<rparr>"

definition apply_demo :: "int apply_world" where
  "apply_demo = \<lparr>aw_pages = [[1, 2, 3, 4, 5, 6, 7, 8, 9, 10, 11, 12, 13, 14, 15, 16, 17, 0]],
     aw_state = apply_rt,
     aw_req = \<lparr>rq_id = 4, multimodal_inputs = None, kv_allocated_len = Some 17, kv_committed_len = Some 17\<rparr>,
     aw_batch = None, aw_pool = \<lparr>k_buffer = [map int [0..<30]], v_buffer = [map int [0..<30]]\<rparr>,
     aw_allocs = [], aw_frees = [], aw_fresh = 8\<rparr>"

definition apply_records :: "frame_record list" where
  "apply_records = [demo_frame 0, demo_frame 1, demo_frame 100]"

definition demo_layout :: kv_layout where
  "demo_layout = \<lparr>encoder_slots = [1, 2, 3, 4, 5, 6, 7, 8, 9, 10, 11, 12, 13, 14, 15],
                  decoder_slots = [16, 17]\<rparr>"

definition demo_alloc :: "nat \<Rightarrow> int list option" where
  "demo_alloc n = (if n \<le> 5 then Some (map int [20..<20 + n]) else None)"

lemma apply_demo_read:
  "read_layout (aw_pages apply_demo) 0 (encoder_length (aw_state apply_demo))
     (decoder_length (aw_state apply_demo)) = Inr demo_layout"
  by (simp add: apply_demo_def apply_rt_def demo_layout_def read_layout_def validate_row_arguments_def
      mk_layout_def slot_tuple_def Let_def)

lemma demo_alloc_fresh:
  "\<forall>n d. demo_alloc n = Some d \<longrightarrow> length d = n \<and> set d \<inter> set (as_tuple demo_layout) = {}"
  by (auto simp: demo_alloc_def as_tuple_def demo_layout_def split: if_splits)

theorem window_failure_atomic_witness:
  "aw_pages (snd (apply_frame_window_plan sum_list (Inl RuntimeError) demo_alloc None demo_plan
     apply_records apply_demo)) = aw_pages apply_demo \<and>
   fst (apply_frame_window_plan sum_list (Inl RuntimeError) demo_alloc None demo_plan
     apply_records apply_demo) = Inl RuntimeError"
proof -
  have r: "record_slot_runs apply_records (encoder_slots demo_layout)
      = Inr [[1, 2, 3, 4, 5], [6, 7, 8, 9, 10], [11, 12, 13, 14, 15]]"
    by (simp add: record_slot_runs_def apply_records_def demo_frame_def demo_layout_def
        py_slice_def slice_index_def)
  have a: "apply_frame_window_plan sum_list (Inl RuntimeError) demo_alloc None demo_plan
      apply_records apply_demo = (Inl RuntimeError, apply_demo)"
    using apply_demo_read r
    by (simp add: apply_frame_window_plan_def removes_frames_def demo_plan_def apply_demo_def
        apply_rt_def allocate_pooled_def apply_records_def demo_frame_def nth_res_def)
  show ?thesis
    using window_failure_atomic [OF _ a] a by (simp add: batch_aligned_def apply_demo_def)
qed

end
