(* ===== verification/Frame_Apply_Total.thy ===== *)
theory Frame_Apply_Total
  imports Frame_Apply_Atomic
begin

section \<open>A planned round always applies\<close>

text \<open>
  With a plan made by the planner on records that match the page row, an allocator that hands
  out unused slots (or none) and a pool that holds every slot, nothing in
  \<open>apply_frame_window_plan\<close> raises.
\<close>

subsection \<open>Where the chunks of a plan lie\<close>

fun chunks_at :: "nat \<Rightarrow> raw_chunk list \<Rightarrow> bool" where
  "chunks_at c [] = True"
| "chunks_at c ((s, n, b) # cs) \<longleftrightarrow> s = c \<and> 0 < n \<and> chunks_at (c + n) cs"

definition chunk_uniform :: "frame_record list \<Rightarrow> raw_chunk \<Rightarrow> bool" where
  "chunk_uniform raws ch =
     (case ch of (s, n, b) \<Rightarrow> b \<longrightarrow> (\<forall>j < n. fr_slots (raws ! (s + j)) = fr_slots (raws ! s)))"

lemma chunks_at_within: "chunks_at c cs \<Longrightarrow> (s, n, b) \<in> set cs \<Longrightarrow> 0 < n \<and> c \<le> s \<and> s + n \<le> c + chunk_total cs"
  by (induction c cs rule: chunks_at.induct) (fastforce simp: chunk_total_def)+

lemma fold_chunks_at:
  assumes "0 < ratio" and "fold_chunks ratio c rs = (cs, pr)"
  shows "chunks_at c cs"
  using assms
proof (induction ratio c rs arbitrary: cs pr rule: fold_chunks.induct)
  case (1 ratio c rs)
  show ?case
  proof (cases "rs = []")
    case False
    let ?m = "take ratio rs"
    obtain cs' pr' where rec: "fold_chunks ratio (c + length ?m) (drop ratio rs) = (cs', pr')"
      by (cases "fold_chunks ratio (c + length ?m) (drop ratio rs)") auto
    have "0 < length ?m" using False 1(2) by simp
    then show ?thesis
      using 1(1) [OF _ refl refl 1(2) rec] 1(2,3) False rec
      by (auto simp: fold_chunks.simps [of ratio c rs] Let_def split: if_splits)
  qed (use 1(3) in auto)
qed

lemma fold_chunks_uniform:
  assumes "0 < ratio" and "fold_chunks ratio c rs = (cs, pr)" and "c = length pre"
  shows "\<forall>ch \<in> set cs. chunk_uniform (pre @ rs) ch"
  using assms
proof (induction ratio c rs arbitrary: pre cs pr rule: fold_chunks.induct)
  case (1 ratio c rs)
  show ?case
  proof (cases "rs = []")
    case False
    let ?m = "take ratio rs"
    obtain cs' pr' where rec: "fold_chunks ratio (c + length ?m) (drop ratio rs) = (cs', pr')"
      by (cases "fold_chunks ratio (c + length ?m) (drop ratio rs)") auto
    have len: "0 < length ?m" using False 1(2) by simp
    have "c + length ?m = length (pre @ ?m)" using 1(4) by simp
    from 1(1) [OF _ refl refl 1(2) rec this] False 1(2)
    have tl: "\<forall>ch \<in> set cs'. chunk_uniform (pre @ rs) ch" by simp
    have hd_uniform: "fr_slots ((pre @ rs) ! (c + j)) = fr_slots ((pre @ rs) ! c)"
      if "list_all (\<lambda>m. same_shape m (hd ?m)) ?m" "j < length ?m" for j
    proof -
      have "same_shape (?m ! j) (hd ?m)" using that by (simp add: list_all_length)
      moreover have "?m ! j = rs ! j" "hd ?m = rs ! 0"
        using that(2) False len by (auto simp: hd_conv_nth)
      ultimately show ?thesis using 1(4) by (simp add: nth_append same_shape_def)
    qed
    then have "chunk_uniform (pre @ rs) (c, length ?m, list_all (\<lambda>m. same_shape m (hd ?m)) ?m)"
      unfolding chunk_uniform_def prod.case by blast
    with tl show ?thesis
      using 1(3) False rec
      by (auto simp: fold_chunks.simps [of ratio c rs] Let_def split: if_splits)
  qed (use 1(3) in auto)
qed

lemma mark_expired_at [simp]: "chunks_at c (mark_expired k cs) = chunks_at c cs"
  by (induction k cs arbitrary: c rule: mark_expired.induct) auto

lemma mark_expired_uniform:
  "\<forall>ch \<in> set cs. chunk_uniform raws ch \<Longrightarrow> \<forall>ch \<in> set (mark_expired k cs). chunk_uniform raws ch"
  by (induction k cs rule: mark_expired.induct) (auto simp: chunk_uniform_def split: if_splits)

text \<open>The geometry of a plan: the old virtual prefix, the raw region and its chunks.\<close>

lemma plan_geometry:
  assumes plan: "plan_frame_window records cfg = Inr (Some p)" and ok: "fw_config_ok cfg"
  obtains vs raws where
    "records = vs @ raws" and "filter pooled records = vs" and "\<forall>r \<in> set raws. \<not> pooled r"
    and "evicted_virtual_count p \<le> length vs"
    and "chunks_at 0 (raw_chunks p)" and "chunk_total (raw_chunks p) \<le> length raws"
    and "\<forall>ch \<in> set (raw_chunks p). chunk_uniform raws ch" and "removes_frames p"
proof -
  obtain vs raws pc cs pr ev where sh: "records = vs @ raws"
      "\<forall>r \<in> set raws. \<not> pooled r" "\<forall>r \<in> set vs. pooled r"
      "pc \<le> aged_prefix (raw_window_s cfg) raws"
      "(cs, pr) = (if pooling_enabled cfg then fold_chunks (nat (pool_ratio cfg)) 0 (take pc raws)
                     else (if pc = 0 then [] else [(0, pc, False)], []))"
      "ev = evict_prefix (pool_window_s cfg) (vs @ pr)"
      "chunk_total cs = pc" "length pr = n_poolable cs"
      "ev \<noteq> 0 \<or> cs \<noteq> []" "evicted_virtual_count p = min ev (length vs)"
      "raw_chunks p = (if length vs < ev then mark_expired (ev - length vs) cs else cs)"
    by (rule plan_shape [OF plan ok])
  have ratio: "0 < nat (pool_ratio cfg)" using ok by (simp add: fw_config_ok_def)
  have pcle: "pc \<le> length raws" using sh(4) aged_prefix_le le_trans by blast
  have at: "chunks_at 0 cs"
    using sh(5) fold_chunks_at [OF ratio sym] by (auto split: if_splits)
  have uni: "\<forall>ch \<in> set cs. chunk_uniform raws ch"
  proof (cases "pooling_enabled cfg")
    case True
    then have "fold_chunks (nat (pool_ratio cfg)) 0 (take pc raws) = (cs, pr)"
      using sh(5) by simp
    from fold_chunks_uniform [OF ratio this, of "[]"]
    have u: "\<forall>ch \<in> set cs. chunk_uniform (take pc raws) ch" by simp
    show ?thesis
    proof
      fix ch assume ch: "ch \<in> set cs"
      obtain s n b where snb: "ch = (s, n, b)" by (cases ch)
      have "s + n \<le> pc" "0 < n" using chunks_at_within [OF at] ch sh(7) snb by auto
      with u ch snb show "chunk_uniform raws ch" by (fastforce simp: chunk_uniform_def)
    qed
  next
    case False
    then show ?thesis using sh(5) by (auto simp: chunk_uniform_def split: if_splits)
  qed
  have rm: "removes_frames p"
  proof (cases "cs = []")
    case True
    then have "pr = []" using sh(8) by (simp add: n_poolable_def)
    moreover have "ev \<noteq> 0" using sh(9) True by simp
    ultimately have "vs \<noteq> []" using sh(6) by (auto simp: evict_prefix_def split: if_splits)
    then show ?thesis using sh(10) \<open>ev \<noteq> 0\<close> by (simp add: removes_frames_def)
  qed (use sh(11) in \<open>auto simp: removes_frames_def\<close>)
  show thesis
    by (rule that [of vs raws])
      (use sh at uni rm pcle mark_expired_uniform [OF uni] in \<open>auto simp: filter_id_conv filter_empty_conv\<close>)
qed


subsection \<open>Every step of the round succeeds\<close>

lemma mapE_map: "\<forall>x \<in> set xs. f x = Inr (g x) \<Longrightarrow> mapE f xs = Inr (map g xs)"
  by (induction xs) auto

definition pool_widths :: "int list list \<Rightarrow> nat \<Rightarrow> raw_chunk list \<Rightarrow> nat list" where
  "pool_widths runs base cs = map (\<lambda>(s, _, _). length (runs ! (base + s))) cs"

lemma widths_computed:
  assumes "chunks_at 0 cs" and "base + chunk_total cs \<le> length runs" and "set cs' \<subseteq> set cs"
  shows "mapE (\<lambda>(start, _, _). bindE (nth_res runs (base + start)) (\<lambda>r. Inr (length r))) cs'
      = Inr (pool_widths runs base cs')"
  unfolding pool_widths_def
proof (rule mapE_map, rule ballI)
  fix ch assume "ch \<in> set cs'"
  moreover obtain st n b where ch: "ch = (st, n, b)" by (cases ch)
  ultimately have "st + n \<le> chunk_total cs" "0 < n"
    using chunks_at_within [OF assms(1)] assms(3) by auto
  then show "(case ch of (start, _, _) \<Rightarrow> bindE (nth_res runs (base + start)) (\<lambda>r. Inr (length r)))
      = Inr (case ch of (s, _, _) \<Rightarrow> length (runs ! (base + s)))"
    using assms(2) by (simp add: ch nth_res_def)
qed

lemma chunk_starts_sum:
  fixes f :: "nat \<Rightarrow> nat"
  shows "chunks_at c cs \<Longrightarrow> sum_list (map (\<lambda>(s, _, _). f s) (filter (\<lambda>(_, _, b). b) cs))
     \<le> sum_list (map f [c..<c + chunk_total cs])"
proof (induction c cs rule: chunks_at.induct)
  case (2 c s n b cs)
  have "[c..<c + chunk_total ((s, n, b) # cs)] = [c..<c + n] @ [c + n..<c + n + chunk_total cs]"
    using upt_add_eq_append [of c "c + n" "chunk_total cs"]
    by (simp add: chunk_total_def add.assoc del: upt_Suc)
  moreover have "f c \<le> sum_list (map f [c..<c + n])"
    by (rule member_le_sum_list) (use 2(2) in auto)
  moreover have "sum_list (map (\<lambda>(s, _, _). f s) (filter (\<lambda>(_, _, b). b) cs))
      \<le> sum_list (map f [c + n..<c + n + chunk_total cs])"
    using 2 unfolding chunks_at.simps by blast
  ultimately show ?case using 2(2) by (cases b) (auto simp: case_prod_unfold)
qed simp

lemma pool_widths_bound:
  assumes "chunks_at 0 cs" and "base + chunk_total cs \<le> length runs"
  shows "sum_list (pool_widths runs base (filter (\<lambda>(_, _, b). b) cs))
      \<le> length (concat (take (chunk_total cs) (drop base runs)))"
proof -
  have "map (\<lambda>i. length (runs ! (base + i))) [0..<chunk_total cs]
      = map length (take (chunk_total cs) (drop base runs))"
    using assms(2) by (intro nth_equalityI) auto
  then show ?thesis
    using chunk_starts_sum [OF assms(1), of "\<lambda>i. length (runs ! (base + i))"]
    by (simp add: pool_widths_def length_concat)
qed

definition pool_holds :: "'v kv_pool \<Rightarrow> int \<Rightarrow> bool" where
  "pool_holds pool n \<longleftrightarrow> length (k_buffer pool) = length (v_buffer pool)
     \<and> (\<forall>buf \<in> set (k_buffer pool @ v_buffer pool). n \<le> int (length buf))"

lemma length_copied [simp]: "length (fold (\<lambda>(d, x) b. b[nat d := x]) ps buf) = length buf"
  by (induction ps arbitrary: buf) auto

lemma pool_layers_ok:
  assumes "length ks = length vs" and "\<forall>buf \<in> set (ks @ vs). n \<le> int (length buf)"
    and "\<forall>x \<in> set (src @ dst). 0 \<le> x \<and> x < n" and "0 < width" and "length dst = width"
  shows "\<exists>ks' vs'. pool_layers mean grp width src dst ks vs = (Inr (), ks', vs')
     \<and> length ks' = length vs' \<and> (\<forall>buf \<in> set (ks' @ vs'). n \<le> int (length buf))"
  using assms
proof (induction ks vs rule: list_induct2)
  case (Cons k ks v vs)
  have inb: "\<not> (\<exists>x \<in> set src. x < 0 \<or> x \<ge> int (length buf))"
    "\<not> (\<exists>x \<in> set dst. x < 0 \<or> x \<ge> int (length buf))" if "buf = k \<or> buf = v" for buf
  proof -
    have "n \<le> int (length buf)" using Cons.prems(1) that by auto
    then have "x < int (length buf) \<and> 0 \<le> x" if "x \<in> set (src @ dst)" for x
      using Cons.prems(2) that by fastforce
    then show "\<not> (\<exists>x \<in> set src. x < 0 \<or> x \<ge> int (length buf))"
      "\<not> (\<exists>x \<in> set dst. x < 0 \<or> x \<ge> int (length buf))"
      by (auto simp: not_le not_less)
  qed
  have rows: "\<exists>r. pooled_rows mean buf src grp width = Inr r \<and> length r = width"
    if "buf = k \<or> buf = v" for buf
    using inb(1) [OF that] Cons.prems(3) by (simp add: pooled_rows_def)
  have copy: "length r = width \<Longrightarrow> \<exists>b'. index_copy buf dst r = Inr b' \<and> length b' = length buf"
    if "buf = k \<or> buf = v" for buf r
    using inb(2) [OF that] Cons.prems(4) by (simp add: index_copy_def)
  from rows obtain pk pv where "pooled_rows mean k src grp width = Inr pk" "length pk = width"
    "pooled_rows mean v src grp width = Inr pv" "length pv = width" by metis
  moreover from this copy obtain k' v' where "index_copy k dst pk = Inr k'" "length k' = length k"
    "index_copy v dst pv = Inr v'" "length v' = length v" by metis
  moreover obtain ks' vs' where "pool_layers mean grp width src dst ks vs = (Inr (), ks', vs')"
    "length ks' = length vs'" "\<forall>buf \<in> set (ks' @ vs'). n \<le> int (length buf)"
    using Cons.IH Cons.prems by auto
  ultimately show ?case using Cons.prems by auto
qed simp

lemma pool_chunks_ok:
  assumes "\<forall>(s, m, b) \<in> set cs. 0 < m \<and> base + s + m \<le> length runs
        \<and> (\<forall>j < m. length (runs ! (base + s + j)) = length (runs ! (base + s)))
        \<and> 0 < length (runs ! (base + s))"
    and "\<forall>run \<in> set runs. \<forall>x \<in> set run. 0 \<le> x \<and> x < n"
    and "\<forall>x \<in> set dst. 0 \<le> x \<and> x < n" and "sum_list (pool_widths runs base cs) \<le> length dst"
    and "pool_holds pool n"
  shows "\<exists>produced pool'. pool_chunks mean runs base dst cs (pool_widths runs base cs) pool
      = (Inr produced, pool')"
  using assms
proof (induction cs arbitrary: dst pool)
  case (Cons ch cs)
  obtain s m b where ch: "ch = (s, m, b)" by (cases ch)
  let ?w = "length (runs ! (base + s))" and ?idx = "[base + s..<base + s + m]"
  let ?runs = "map (\<lambda>i. runs ! i) ?idx"
  have h: "0 < m" "base + s + m \<le> length runs" "0 < ?w"
    "\<forall>j < m. length (runs ! (base + s + j)) = ?w"
    using Cons.prems(1) ch by auto
  have mem: "mapE (nth_res runs) ?idx = Inr ?runs"
    using h(2) by (intro mapE_map) (auto simp: nth_res_def)
  have wid: "\<forall>run \<in> set ?runs. length run = ?w"
    using h(4) by (auto simp: nat_le_iff_add)
  obtain rest where rs: "?runs = (runs ! (base + s)) # rest"
    using h(1) by (cases "?idx") (auto simp: upt_eq_Cons_conv)
  have slots: "\<forall>x \<in> set (concat ?runs @ take ?w dst). 0 \<le> x \<and> x < n"
    using Cons.prems(2,3) h(2) by (fastforce dest: in_set_takeD)
  have len: "length (take ?w dst) = ?w"
    using Cons.prems(4) ch by (simp add: pool_widths_def)
  obtain ks vs where pl: "pool_layers mean (length ?runs) ?w (concat ?runs) (take ?w dst)
      (k_buffer pool) (v_buffer pool) = (Inr (), ks, vs)"
    and hold: "length ks = length vs" "\<forall>buf \<in> set (ks @ vs). n \<le> int (length buf)"
    using pool_layers_ok [OF _ _ slots h(3) len] Cons.prems(5) unfolding pool_holds_def by meson
  have g: "pool_group_into_slots mean pool ?runs (take ?w dst)
      = (Inr (), pool\<lparr>k_buffer := ks, v_buffer := vs\<rparr>)"
    using wid pl unfolding pool_group_into_slots_def rs by (auto simp: Let_def)
  have "\<exists>produced pool'. pool_chunks mean runs base (drop ?w dst) cs (pool_widths runs base cs)
      (pool\<lparr>k_buffer := ks, v_buffer := vs\<rparr>) = (Inr produced, pool')"
    by (rule Cons.IH)
      (use Cons.prems ch hold in \<open>auto simp: pool_holds_def pool_widths_def dest: in_set_dropD\<close>)
  then show ?case
    using mem g by (auto simp: ch pool_widths_def)
qed (simp add: pool_widths_def)


lemma raw_counts_total: "pooled_raw_count p + dropped_raw_count p = chunk_total (raw_chunks p)"
proof -
  have "sum_list (map (\<lambda>(_, n, _). n) (filter (\<lambda>(_, _, b). b) cs))
      + sum_list (map (\<lambda>(_, n, _). n) (filter (\<lambda>(_, _, b). \<not> b) cs)) = chunk_total cs" for cs
    by (induction cs) (auto simp: chunk_total_def split: prod.splits)
  then show ?thesis by (simp add: pooled_raw_count_def dropped_raw_count_def)
qed

lemma degrade_covered:
  assumes rec: "records = vs @ raws" and fp: "filter pooled records = vs"
    and np: "\<forall>r \<in> set raws. \<not> pooled r" and ev: "evicted_virtual_count p \<le> length vs"
    and ct: "chunk_total (raw_chunks p) \<le> length raws"
  shows "\<exists>spans. covered_spans records (degrade records p) = Inr spans
      \<and> spans_from 0 spans (length records)"
proof -
  let ?q = "degrade records p" and ?ev = "evicted_virtual_count p"
  let ?ct = "chunk_total (raw_chunks p)"
  have cs: "chunk_total (raw_chunks ?q) = ?ct" "n_poolable (raw_chunks ?q) = 0"
    by (auto simp: degrade_def chunk_total_def n_poolable_def case_prod_unfold comp_def filter_empty_conv)
  have sp: "chunk_spans c (raw_chunks ?q) = ([], c + ?ct)" for c
    using chunk_spans_end [of c "raw_chunks ?q"] chunk_spans_length [of c "raw_chunks ?q"] cs
    by (simp add: prod_eq_iff)
  have new: "new_records ?q = drop ?ev vs @ drop ?ct raws"
    by (simp add: degrade_def degraded_new_records_def Let_def fp raw_counts_total)
      (simp add: rec)
  have vp: "\<forall>r \<in> set vs. pooled r" using fp by auto
  have raw: "filter (\<lambda>r. \<not> pooled r) (new_records ?q) = drop ?ct raws"
  proof -
    have "filter (\<lambda>r. \<not> pooled r) (drop ?ev vs) = []"
      using vp by (auto simp: filter_empty_conv dest: in_set_dropD)
    moreover have "filter (\<lambda>r. \<not> pooled r) (drop ?ct raws) = drop ?ct raws"
      using np by (auto simp: filter_id_conv dest: in_set_dropD)
    ultimately show ?thesis by (simp add: new)
  qed
  let ?spans = "unit_spans ?ev (length vs - ?ev) @ unit_spans (length vs + ?ct) (length raws - ?ct)"
  have "covered_spans records ?q = Inr ?spans"
  proof -
    have "length records = length vs + length raws" "?ev + (length vs - ?ev) = length vs"
      using rec ev by auto
    then show ?thesis using ct by (simp add: covered_spans_def Let_def fp sp raw) (simp add: new)
  qed
  moreover have "spans_from ?ev (unit_spans ?ev (length vs - ?ev)) (length vs)"
    using spans_from_unit [of ?ev "length vs - ?ev"] ev by simp
  moreover have "spans_from (length vs) (unit_spans (length vs + ?ct) (length raws - ?ct)) (length records)"
    using spans_from_unit [of "length vs + ?ct" "length raws - ?ct"] ct rec
    by (auto intro: spans_from_mono)
  ultimately show ?thesis
    using spans_from_mono [OF spans_from_append, of ?ev _ "length vs" _ "length records" 0] by blast
qed

lemma map_owners_ok:
  assumes "length remap = n + 1" and "\<forall>t \<in> set ts. \<forall>v \<in> set (tensor_values t). 0 \<le> v"
  shows "\<exists>r. map_owners remap n fresh ts = Inr r"
  using assms(2)
proof (induction ts arbitrary: fresh)
  case (Cons t ts)
  have "mapE (remap_count remap n) (tensor_values t)
      = Inr (map (\<lambda>v. remap ! nat (min v (int n))) (tensor_values t))"
    using Cons.prems assms(1) by (intro mapE_map) (auto simp: remap_count_def Let_def)
  then show ?case using Cons by (auto simp: bindE_eq_Inr)
qed simp

lemma prepare_ok:
  assumes "covered_spans records q = Inr spans" and "spans_from 0 spans (length records)"
    and "\<forall>t \<in> set (visible_counts_owners req s). \<forall>v \<in> set (tensor_values t). 0 \<le> v"
  shows "\<exists>u. prepare_metadata_update req s fresh records q = Inr u"
proof -
  have "\<exists>r. map_owners (map (\<lambda>c. int (rows_seen spans c)) [0..<length records + 1])
      (length records) fresh (visible_counts_owners req s) = Inr r"
    by (rule map_owners_ok) (use assms(3) in auto)
  then show ?thesis
    using assms(1) visible_count_remap_spec [OF assms(2)] by (auto simp: prepare_metadata_update_def)
qed

lemma new_encoder_ok:
  assumes wf: "layout_wf l" and cr: "concat runs = encoder_slots l" and ev: "ev \<le> base"
    and d: "distinct (concat pr)" "\<forall>x \<in> set (concat pr). 0 < x" "set (concat pr) \<inter> set (as_tuple l) = {}"
    and le: "length (concat pr) \<le> length (concat (take aged (drop base runs)))"
    and new: "new = concat (drop ev (take base runs) @ pr @ drop (base + aged) runs)"
  shows "mk_layout new (decoder_slots l) = Inr \<lparr>encoder_slots = new, decoder_slots = decoder_slots l\<rparr>
    \<and> length new \<le> length (encoder_slots l)"
proof -
  have m: "mset new + mset (concat (take ev runs) @ concat (take aged (drop base runs)))
      = mset (encoder_slots l) + mset (concat pr)"
    using runs_partition [OF ev, of runs pr aged] cr new by simp
  have "distinct (encoder_slots l @ concat pr)"
    using wf d by (auto simp: layout_wf_def as_tuple_def)
  moreover have "mset (new @ concat (take ev runs) @ concat (take aged (drop base runs)))
      = mset (encoder_slots l @ concat pr)" using m by simp
  ultimately have dn: "distinct (new @ concat (take ev runs) @ concat (take aged (drop base runs)))"
    using mset_eq_imp_distinct_iff by blast
  have sub: "set new \<subseteq> set (encoder_slots l) \<union> set (concat pr)"
    using arg_cong [OF m, of set_mset] by auto
  have "set new \<inter> set (decoder_slots l) = {}"
    using sub wf d(3) unfolding layout_wf_def as_tuple_def distinct_append set_append by blast
  moreover have "\<forall>x \<in> set new. 0 < x"
    using sub wf d(2) unfolding layout_wf_def as_tuple_def set_append by blast
  ultimately have "layout_wf \<lparr>encoder_slots = new, decoder_slots = decoder_slots l\<rparr>"
    using dn wf by (auto simp: layout_wf_def as_tuple_def)
  moreover have "length new \<le> length (encoder_slots l)"
    using arg_cong [OF m, of size] le by simp
  ultimately show ?thesis by (simp add: mk_layout_Inr)
qed


subsection \<open>The round\<close>

lemma rewrite_row_ok:
  assumes prep: "\<exists>u. prepare_metadata_update (aw_req w) (aw_state w) (aw_fresh w) records q = Inr u"
    and pc: "chunks = [] \<and> produced = [] \<or> (\<exists>d pool'. dst = Some d \<and> chunks \<noteq> [] \<and>
       pool_chunks mean runs (length (filter pooled records)) d chunks ws (aw_pool w) = (Inr produced, pool'))"
    and mk: "mk_layout (concat (drop (evicted_virtual_count q) (take (length (filter pooled records)) runs)
         @ produced @ drop (length (filter pooled records) + (pooled_raw_count q + dropped_raw_count q)) runs))
       (decoder_slots layout) = Inr l'"
    and wr: "\<exists>t. write_layout (aw_pages w) (int row) l' True = Inr t"
  shows "\<exists>x w2. rewrite_row mean w row records layout runs q chunks ws dst = (Inr x, w2)"
proof -
  obtain u where u: "prepare_metadata_update (aw_req w) (aw_state w) (aw_fresh w) records q = Inr u"
    using prep by blast
  obtain t where t: "write_layout (aw_pages w) (int row) l' True = Inr t" using wr by blast
  from pc show ?thesis
  proof (elim disjE conjE exE)
    assume "chunks = []" "produced = []"
    with u t mk show ?thesis by (simp add: rewrite_row_def Let_def)
  next
    fix d pool'
    assume "dst = Some d" "chunks \<noteq> []"
      "pool_chunks mean runs (length (filter pooled records)) d chunks ws (aw_pool w) = (Inr produced, pool')"
    with u t mk show ?thesis by (simp add: rewrite_row_def Let_def)
  qed
qed

lemma take_aged_freed:
  "length (concat (take n (drop base runs))) \<le> length (concat (runs :: 'a list list))"
  by (metis (no_types) append_take_drop_id concat_append le_add1 le_add2 le_trans length_append)

text \<open>What the KV allocator promises for a row: unused, distinct, positive slots.\<close>

definition fresh_alloc :: "(nat \<Rightarrow> int list option) \<Rightarrow> kv_layout \<Rightarrow> int \<Rightarrow> bool" where
  "fresh_alloc alloc l n \<longleftrightarrow>
     (\<forall>k d. alloc k = Some d \<longrightarrow> length d = k \<and> distinct d \<and> (\<forall>x \<in> set d. 0 < x \<and> x < n)
        \<and> set d \<inter> set (as_tuple l) = {})"

lemma apply_from_rewrite:
  assumes "removes_frames p" and "req_pool_index (aw_state w) = Some i"
    and "read_layout (aw_pages w) i (encoder_length (aw_state w)) (decoder_length (aw_state w)) = Inr l"
    and "record_slot_runs records (encoder_slots l) = Inr runs"
    and "allocate_pooled w records runs p provider alloc = (Inr (q, chunks, ws, dst), w1)"
    and r: "rewrite_row mean w1 (nat i) records l runs q chunks ws dst = (Inr x, w2)"
    and al: "batch_aligned (aw_batch w1) (rq_id (aw_req w1))"
  shows "\<exists>ev w'. apply_frame_window_plan mean provider alloc avail p records w = (Inr ev, w')"
proof -
  obtain pu pr ne where x: "x = (pu, pr, ne)" by (cases x)
  have same: "aw_batch w2 = aw_batch w1" "aw_req w2 = aw_req w1"
    by (rule rewrite_row_Inr [OF r [unfolded x]]; simp)+
  obtain res w' where f: "finish_apply w2 (length (filter pooled records)) runs q avail x = (res, w')"
    by fastforce
  then have "\<exists>ev. res = Inr ev"
    using finish_apply_facts [of w2 _ runs q avail pu pr ne res w'] al same x by auto
  then show ?thesis using assms f by (auto simp: apply_frame_window_plan_def)
qed

lemma pool_of_plan:
  assumes rec: "records = vs @ raws" and rl: "length runs = length records"
    and rw: "\<And>j. j < length records \<Longrightarrow> length (runs ! j) = nat (fr_slots (records ! j))"
    and within: "length vs + chunk_total cs \<le> length runs" and at: "chunks_at 0 cs"
    and uni: "\<forall>ch \<in> set cs. chunk_uniform raws ch" and pos: "\<forall>r \<in> set records. 0 < fr_slots r"
    and runs: "\<forall>run \<in> set runs. \<forall>x \<in> set run. 0 \<le> x \<and> x < n"
    and d: "\<forall>x \<in> set d. 0 \<le> x \<and> x < n"
    and len: "length d = sum_list (pool_widths runs (length vs) (filter (\<lambda>(_, _, b). b) cs))"
    and pool: "pool_holds pool n"
  shows "\<exists>produced pool'. pool_chunks mean runs (length vs) d (filter (\<lambda>(_, _, b). b) cs)
      (pool_widths runs (length vs) (filter (\<lambda>(_, _, b). b) cs)) pool = (Inr produced, pool')"
proof (rule pool_chunks_ok [OF _ runs d _ pool])
  show "\<forall>(s, m, b) \<in> set (filter (\<lambda>(_, _, b). b) cs). 0 < m \<and> length vs + s + m \<le> length runs
        \<and> (\<forall>j < m. length (runs ! (length vs + s + j)) = length (runs ! (length vs + s)))
        \<and> 0 < length (runs ! (length vs + s))"
  proof clarify
    fix s m b
    assume ch: "(s, m, b) \<in> set (filter (\<lambda>(_, _, b). b) cs)"
    then have sm: "0 < m" "s + m \<le> chunk_total cs" using chunks_at_within [OF at] by auto
    have bound: "length vs + s + j < length records" if "j < m" for j
      using sm that within rl by simp
    have u: "fr_slots (raws ! (s + j)) = fr_slots (raws ! s)" if "j < m" for j
      using uni ch that by (fastforce simp: chunk_uniform_def)
    have w: "length (runs ! (length vs + s + j)) = nat (fr_slots (raws ! s))" if "j < m" for j
      using rw [OF bound [OF that]] u [OF that] by (simp add: rec nth_append add.assoc)
    have "0 < fr_slots (raws ! s)"
      using bound [of 0] sm(1) pos rec by (metis add_0_right add_less_cancel_left length_append nth_mem in_set_conv_decomp append_assoc Un_iff set_append)
    then show "0 < m \<and> length vs + s + m \<le> length runs
        \<and> (\<forall>j < m. length (runs ! (length vs + s + j)) = length (runs ! (length vs + s)))
        \<and> 0 < length (runs ! (length vs + s))"
      using sm within w w [of 0] by simp
  qed
qed (simp add: len)

lemma slots_below:
  assumes "layout_wf l" and "\<forall>x \<in> set (encoder_slots l). x < n" and "concat runs = encoder_slots l"
  shows "\<forall>run \<in> set runs. \<forall>x \<in> set run. 0 \<le> x \<and> x < n"
proof (intro ballI)
  fix run x
  assume "run \<in> set runs" "x \<in> set run"
  then have "x \<in> set (encoder_slots l)" by (auto simp flip: assms(3))
  moreover from this have "0 < x" using assms(1) by (auto simp: layout_wf_def as_tuple_def)
  ultimately show "0 \<le> x \<and> x < n" using assms(2) by auto
qed

lemma apply_total:
  assumes plan: "plan_frame_window records cfg = Inr (Some p)" and ok: "fw_config_ok cfg"
    and pos: "\<forall>r \<in> set records. 0 < fr_slots r"
    and row: "req_pool_index (aw_state w) = Some i"
    and rd: "read_layout (aw_pages w) i (encoder_length (aw_state w))
               (decoder_length (aw_state w)) = Inr l"
    and cover: "sum_list (map fr_slots records) = encoder_length (aw_state w)"
    and prov: "provider = Inr has_pool" and fresh: "fresh_alloc alloc l n"
    and pool: "pool_holds (aw_pool w) n" "\<forall>x \<in> set (encoder_slots l). x < n"
    and counts: "\<forall>t \<in> set (visible_counts_owners (aw_req w) (aw_state w)).
                   \<forall>v \<in> set (tensor_values t). 0 \<le> v"
    and al: "batch_aligned (aw_batch w) (rq_id (aw_req w))"
  shows "\<exists>ev w'. apply_frame_window_plan mean provider alloc avail p records w = (Inr ev, w')"
proof -
  obtain vs raws where rec: "records = vs @ raws" and fp: "filter pooled records = vs"
    and np: "\<forall>r \<in> set raws. \<not> pooled r" and ev: "evicted_virtual_count p \<le> length vs"
    and at: "chunks_at 0 (raw_chunks p)" and ct: "chunk_total (raw_chunks p) \<le> length raws"
    and uni: "\<forall>ch \<in> set (raw_chunks p). chunk_uniform raws ch" and rm: "removes_frames p"
    by (rule plan_geometry [OF plan ok])
  let ?base = "length vs" and ?chunks = "filter (\<lambda>(_, _, b). b) (raw_chunks p)"
  have nn: "\<forall>r \<in> set records. 0 \<le> fr_slots r" using pos by auto
  have elen: "int (length (encoder_slots l)) = encoder_length (aw_state w)"
    using read_layout_lengths [OF rd] by (simp add: layout_encoder_length_def)
  obtain runs where runs: "record_slot_runs records (encoder_slots l) = Inr runs"
    using cover elen by (simp add: record_slot_runs_def)
  note rf = record_slot_runs_Inr [OF runs nn]
  have wf: "layout_wf l" using rd by (simp add: read_layout_Inr)
  have within: "?base + chunk_total (raw_chunks p) \<le> length runs" using ct rec rf(2) by simp
  obtain sp1 where sp1: "covered_spans records p = Inr sp1" "spans_from 0 sp1 (length records)"
    using plan_covered [OF plan ok] by blast
  obtain sp2 where sp2: "covered_spans records (degrade records p) = Inr sp2"
      "spans_from 0 sp2 (length records)"
    using degrade_covered [OF rec fp np ev ct] by blast
  let ?ws = "pool_widths runs ?base ?chunks"
  have widths: "mapE (\<lambda>(start, _, _). bindE (nth_res runs (?base + start)) (\<lambda>r. Inr (length r))) ?chunks
      = Inr ?ws"
    by (rule widths_computed [OF at within]) auto
  let ?aged = "chunk_total (raw_chunks p)"
  have i0: "0 \<le> i" using rd by (simp add: read_layout_Inr)
  have writable: "\<exists>t. write_layout (aw_pages w) (int (nat i))
      \<lparr>encoder_slots = new, decoder_slots = decoder_slots l\<rparr> True = Inr t"
    if "length new \<le> length (encoder_slots l)" for new
    using rd that i0 by (auto simp: write_layout_Inr read_layout_Inr as_tuple_def)
  have no_pool: "\<exists>ev w'. apply_frame_window_plan mean provider alloc avail p records w = (Inr ev, w')"
    if a: "allocate_pooled w records runs p provider alloc = (Inr (q, [], [], None), w)"
      and q: "q = p \<or> q = degrade records p" for q
  proof -
    have qs: "evicted_virtual_count q = evicted_virtual_count p"
      "pooled_raw_count q + dropped_raw_count q = ?aged"
      using q raw_counts_total [of p] by auto
    have prep: "\<exists>u. prepare_metadata_update (aw_req w) (aw_state w) (aw_fresh w) records q = Inr u"
      using q prepare_ok [OF sp1 counts] prepare_ok [OF sp2 counts] by blast
    let ?new = "concat (drop (evicted_virtual_count p) (take ?base runs) @ [] @ drop (?base + ?aged) runs)"
    have ne: "mk_layout ?new (decoder_slots l) = Inr \<lparr>encoder_slots = ?new, decoder_slots = decoder_slots l\<rparr>"
      and le: "length ?new \<le> length (encoder_slots l)"
      using new_encoder_ok [OF wf rf(1) ev, of "[]" ?aged, OF _ _ _ _ refl] by simp_all
    have "([] :: raw_chunk list) = [] \<and> ([] :: int list list) = [] \<or> (\<exists>d pool'. None = Some d \<and>
        ([] :: raw_chunk list) \<noteq> [] \<and> pool_chunks mean runs (length (filter pooled records)) d [] []
          (aw_pool w) = (Inr [], pool'))" by simp
    from rewrite_row_ok [OF prep this _ writable [OF le]] ne obtain x w2 where
      "rewrite_row mean w (nat i) records l runs q [] [] None = (Inr x, w2)"
      unfolding fp qs by blast
    from apply_from_rewrite [OF rm row rd runs a this al] show ?thesis .
  qed
  show ?thesis
  proof (cases "?chunks = []")
    case True
    then have "allocate_pooled w records runs p provider alloc = (Inr (p, [], [], None), w)"
      by (simp add: allocate_pooled_def)
    then show ?thesis using no_pool by blast
  next
    case chunks: False
    show ?thesis
    proof (cases "if has_pool then alloc (sum_list ?ws) else None")
      case None
      then have "allocate_pooled w records runs p provider alloc = (Inr (degrade records p, [], [], None), w)"
        using None chunks widths prov by (simp add: allocate_pooled_def fp Let_def)
      then show ?thesis using no_pool by blast
    next
      case (Some d)
      then have d: "alloc (sum_list ?ws) = Some d" by (simp split: if_splits)
      let ?w1 = "w\<lparr>aw_allocs := aw_allocs w @ [d]\<rparr>"
      have a: "allocate_pooled w records runs p provider alloc = (Inr (p, ?chunks, ?ws, Some d), ?w1)"
        using Some chunks widths prov by (simp add: allocate_pooled_def fp Let_def)
      have df: "length d = sum_list ?ws" "distinct d" "\<forall>x \<in> set d. 0 < x \<and> x < n"
        "set d \<inter> set (as_tuple l) = {}"
        using fresh d by (auto simp: fresh_alloc_def)
      obtain produced pool' where pc: "pool_chunks mean runs ?base d ?chunks ?ws (aw_pool w)
          = (Inr produced, pool')"
        using pool_of_plan [OF rec rf(2,3) within at uni pos slots_below [OF wf pool(2) rf(1)] _
            df(1) pool(1), of mean] df(3) by (auto simp: less_imp_le)
      have cp: "concat produced = d" using pool_chunks_concat [OF pc] df(1) by simp
      have le: "length (concat produced) \<le> length (concat (take ?aged (drop ?base runs)))"
        using pool_widths_bound [OF at within] cp df(1) by simp
      let ?new = "concat (drop (evicted_virtual_count p) (take ?base runs) @ produced
          @ drop (?base + ?aged) runs)"
      have ne: "mk_layout ?new (decoder_slots l) = Inr \<lparr>encoder_slots = ?new, decoder_slots = decoder_slots l\<rparr>"
        and le': "length ?new \<le> length (encoder_slots l)"
        using new_encoder_ok [OF wf rf(1) ev _ _ _ le refl] df cp by auto
      have prep: "\<exists>u. prepare_metadata_update (aw_req ?w1) (aw_state ?w1) (aw_fresh ?w1) records p = Inr u"
        using prepare_ok [OF sp1 counts] by simp
      have wr: "\<exists>t. write_layout (aw_pages ?w1) (int (nat i))
          \<lparr>encoder_slots = ?new, decoder_slots = decoder_slots l\<rparr> True = Inr t"
        using writable [OF le'] by simp
      have "?chunks = [] \<and> produced = [] \<or> (\<exists>d' pool'. Some d = Some d' \<and> ?chunks \<noteq> [] \<and>
         pool_chunks mean runs (length (filter pooled records)) d' ?chunks ?ws (aw_pool ?w1)
           = (Inr produced, pool'))"
        using pc chunks by (simp add: fp)
      from rewrite_row_ok [OF prep this _ wr] ne obtain x w2 where
        "rewrite_row mean ?w1 (nat i) records l runs p ?chunks ?ws (Some d) = (Inr x, w2)"
        unfolding fp raw_counts_total by blast
      from apply_from_rewrite [OF rm row rd runs a this] al show ?thesis by simp
    qed
  qed
qed


text \<open>
  C2: A plan made by the planner always applies: when the frame records
  account for exactly the encoder region of the row, every frame has a slot, the provider
  answers (with or without a pool), the allocator hands out unused slots or reports pressure,
  the pool holds every slot and no visible count is negative, \<open>apply_frame_window_plan\<close>
  returns an event.  None of its consistency errors can occur, whether the round pools or
  degrades to eviction.
\<close>
theorem window_always_applies:
  assumes "plan_frame_window records cfg = Inr (Some p)" and "fw_config_ok cfg"
    and "\<forall>r \<in> set records. 0 < fr_slots r"
    and "req_pool_index (aw_state w) = Some i"
    and "read_layout (aw_pages w) i (encoder_length (aw_state w))
               (decoder_length (aw_state w)) = Inr l"
    and "sum_list (map fr_slots records) = encoder_length (aw_state w)"
    and "provider = Inr has_pool" and "fresh_alloc alloc l n"
    and "pool_holds (aw_pool w) n" and "\<forall>x \<in> set (encoder_slots l). x < n"
    and "\<forall>t \<in> set (visible_counts_owners (aw_req w) (aw_state w)).
                   \<forall>v \<in> set (tensor_values t). 0 \<le> v"
    and "batch_aligned (aw_batch w) (rq_id (aw_req w))"
  shows "\<exists>ev w'. apply_frame_window_plan mean provider alloc avail p records w = (Inr ev, w')"
  using assms by (rule apply_total)

lemma demo_apply_hyps:
  "plan_frame_window apply_records demo_config = Inr (Some demo_plan)"
  "\<forall>r \<in> set apply_records. 0 < fr_slots r" "\<forall>r \<in> set apply_records. 0 \<le> fr_slots r"
  "req_pool_index (aw_state apply_demo) = Some 0"
  "sum_list (map fr_slots apply_records) = encoder_length (aw_state apply_demo)"
  "fresh_alloc demo_alloc demo_layout 30" "pool_holds (aw_pool apply_demo) 30"
  "\<forall>x \<in> set (encoder_slots demo_layout). x < 30"
  "\<forall>t \<in> set (visible_counts_owners (aw_req apply_demo) (aw_state apply_demo)).
                   \<forall>v \<in> set (tensor_values t). 0 \<le> v"
  "batch_aligned (aw_batch apply_demo) (rq_id (aw_req apply_demo))"
proof -
  show "plan_frame_window apply_records demo_config = Inr (Some demo_plan)"
    using demo_planned by (simp add: apply_records_def)
  show "\<forall>r \<in> set apply_records. 0 < fr_slots r" "\<forall>r \<in> set apply_records. 0 \<le> fr_slots r"
    by (simp_all add: apply_records_def demo_frame_def)
  show "req_pool_index (aw_state apply_demo) = Some 0" "sum_list (map fr_slots apply_records)
      = encoder_length (aw_state apply_demo)"
    by (simp_all add: apply_demo_def apply_rt_def apply_records_def demo_frame_def)
  show "fresh_alloc demo_alloc demo_layout 30"
    unfolding fresh_alloc_def
    by (auto simp: demo_alloc_def demo_layout_def as_tuple_def distinct_map split: if_splits)
  show "pool_holds (aw_pool apply_demo) 30" "\<forall>x \<in> set (encoder_slots demo_layout). x < 30"
    "\<forall>t \<in> set (visible_counts_owners (aw_req apply_demo) (aw_state apply_demo)).
        \<forall>v \<in> set (tensor_values t). 0 \<le> v"
    "batch_aligned (aw_batch apply_demo) (rq_id (aw_req apply_demo))"
    by (simp_all add: pool_holds_def apply_demo_def apply_rt_def demo_layout_def
        visible_counts_owners_def batch_aligned_def)
qed

theorem window_always_applies_witness:
  "\<exists>ev w'. apply_frame_window_plan sum_list (Inr True) demo_alloc None demo_plan apply_records apply_demo
     = (Inr ev, w')"
  by (rule window_always_applies [OF demo_apply_hyps(1) demo_config_ok demo_apply_hyps(2,4)
        apply_demo_read demo_apply_hyps(5) refl demo_apply_hyps(6-10)])

theorem window_conserves_slots_witness:
  "\<exists>(w' :: int apply_world) l' fs. read_layout (aw_pages w') 0 (encoder_length (aw_state w')) (decoder_length (aw_state w'))
       = Inr l' \<and> decoder_slots l' = [16, 17] \<and> distinct (concat fs) \<and> aw_frees w' = fs"
proof -
  obtain ev w' where ok: "apply_frame_window_plan sum_list (Inr True) demo_alloc None demo_plan
      apply_records apply_demo = (Inr ev, w')"
    using apply_total [OF demo_apply_hyps(1) demo_config_ok demo_apply_hyps(2,4)
        apply_demo_read demo_apply_hyps(5) refl demo_apply_hyps(6-10)] by blast
  have dec: "decoder_slots demo_layout = [16, 17]" and fr: "aw_frees apply_demo = []"
    by (simp_all add: demo_layout_def apply_demo_def)
  from window_conserves_slots [OF demo_apply_hyps(1,3,4) apply_demo_read demo_apply_hyps(10)
      demo_alloc_fresh ok]
  show ?thesis unfolding dec fr append_Nil by blast
qed

end
