(* ===== verification/Router_Worker.thy ===== *)
theory Router_Worker
  imports Py_Value
begin

section \<open>Router workers, their health and their selection\<close>

text \<open>
  Models \<open>sglang_omni_router/worker.py\<close>, \<open>selector.py\<close> and the probe of \<open>health.py\<close>: worker
  state with its operator, health and request-failure transitions, request counters, the
  eligibility filter and the load-balancing policies, and a health probe split at its
  \<open>await\<close>.  Clocks, the HTTP answer and \<open>random.choice\<close> are arguments.
\<close>

subsection \<open>Workers\<close>

datatype worker_state = Dead | Healthy | Unknown | Unhealthy

record worker_config =
  cfg_url :: string
  cfg_model :: "string option"
  cfg_capabilities :: "string list"

record worker =
  w_config :: worker_config
  incarnation :: string
  health_epoch :: int
  active_requests :: int
  w_state :: worker_state
  disabled :: bool
  consecutive_failures :: int
  consecutive_successes :: int
  routed_requests :: int
  successful_requests :: int
  failed_requests :: int
  routed_by_class :: "(string, int) dict"
  successful_by_class :: "(string, int) dict"
  failed_by_class :: "(string, int) dict"
  last_status_code :: "int option"
  last_error :: "string option"
  last_checked_at :: "rat option"

text \<open>\<open>urllib.parse.quote(url, safe="")\<close> on the bytes of the URL.\<close>

definition unreserved :: "char \<Rightarrow> bool" where
  "unreserved c \<longleftrightarrow>
     (let n = of_char c :: nat in
      (48 \<le> n \<and> n \<le> 57) \<or> (65 \<le> n \<and> n \<le> 90) \<or> (97 \<le> n \<and> n \<le> 122)) \<or> c \<in> set ''_.-~''"

definition hex_digit :: "nat \<Rightarrow> char" where
  "hex_digit n = (if n < 10 then char_of (48 + n) else char_of (55 + n))"

definition quote_char :: "char \<Rightarrow> string" where
  "quote_char c =
     (if unreserved c then [c]
      else [CHR ''%'', hex_digit (of_char c div 16), hex_digit (of_char c mod 16)])"

definition worker_id_from_url :: "string \<Rightarrow> string" where
  "worker_id_from_url url = concat (map quote_char url)"

text \<open>\<open>urllib.parse.unquote\<close>: a \<open>%\<close> followed by two hex digits is the byte they name, anything
  else is kept.\<close>

definition hex_value :: "char \<Rightarrow> nat option" where
  "hex_value c =
     (let n = of_char c in
      if 48 \<le> n \<and> n \<le> 57 then Some (n - 48)
      else if 65 \<le> n \<and> n \<le> 70 then Some (n - 55)
      else if 97 \<le> n \<and> n \<le> 102 then Some (n - 87) else None)"

fun unquote :: "string \<Rightarrow> string" where
  "unquote (p # a # b # s) =
     (case (hex_value a, hex_value b) of
        (Some x, Some y) \<Rightarrow> if p = CHR ''%'' then char_of (16 * x + y) # unquote s
                           else p # unquote (a # b # s)
      | _ \<Rightarrow> p # unquote (a # b # s))"
| "unquote s = s"

definition worker_url :: "worker \<Rightarrow> string" where
  "worker_url w = cfg_url (w_config w)"

definition worker_model :: "worker \<Rightarrow> string option" where
  "worker_model w = cfg_model (w_config w)"

definition worker_id :: "worker \<Rightarrow> string" where
  "worker_id w = worker_id_from_url (worker_url w)"

definition new_worker :: "worker_config \<Rightarrow> string \<Rightarrow> worker" where
  "new_worker cfg inc =
     \<lparr>w_config = cfg, incarnation = inc, health_epoch = 0, active_requests = 0, w_state = Unknown,
      disabled = False, consecutive_failures = 0, consecutive_successes = 0, routed_requests = 0,
      successful_requests = 0, failed_requests = 0, routed_by_class = [], successful_by_class = [],
      failed_by_class = [], last_status_code = None, last_error = None, last_checked_at = None\<rparr>"

definition build_workers :: "worker_config list \<Rightarrow> (nat \<Rightarrow> string) \<Rightarrow> worker list" where
  "build_workers cfgs uuid = map (\<lambda>(i, c). new_worker c (uuid i)) (enumerate 0 cfgs)"

definition is_healthy :: "worker \<Rightarrow> bool" where
  "is_healthy w \<longleftrightarrow> w_state w = Healthy"

definition is_dead :: "worker \<Rightarrow> bool" where
  "is_dead w \<longleftrightarrow> w_state w = Dead"

definition is_routable :: "worker \<Rightarrow> bool" where
  "is_routable w \<longleftrightarrow> is_healthy w \<and> \<not> disabled w"

definition supports :: "worker \<Rightarrow> string \<Rightarrow> bool" where
  "supports w c \<longleftrightarrow> c \<in> set (cfg_capabilities (w_config w))"

definition replace_config :: "worker \<Rightarrow> worker_config \<Rightarrow> worker res" where
  "replace_config w cfg =
     (if cfg_url cfg \<noteq> worker_url w then Inl ValueError else Inr (w\<lparr>w_config := cfg\<rparr>))"

definition mark_dead :: "string option \<Rightarrow> worker \<Rightarrow> worker" where
  "mark_dead error w =
     (let w1 = w\<lparr>w_state := Dead, health_epoch := health_epoch w + 1\<rparr>
      in if error = None then w1 else w1\<lparr>last_error := error\<rparr>)"

definition clear_dead :: "worker \<Rightarrow> worker" where
  "clear_dead w =
     w\<lparr>w_state := (if is_dead w then Unknown else w_state w), health_epoch := health_epoch w + 1,
       consecutive_failures := 0, consecutive_successes := 0\<rparr>"

definition set_disabled :: "bool \<Rightarrow> worker \<Rightarrow> worker" where
  "set_disabled b w = w\<lparr>disabled := b\<rparr>"

definition increment_active :: "worker \<Rightarrow> worker" where
  "increment_active w = w\<lparr>active_requests := active_requests w + 1\<rparr>"

definition decrement_active :: "worker \<Rightarrow> worker res" where
  "decrement_active w =
     (if active_requests w \<le> 0 then Inl AssertionError
      else Inr (w\<lparr>active_requests := active_requests w - 1\<rparr>))"

definition increment_counter :: "(string, int) dict \<Rightarrow> string \<Rightarrow> (string, int) dict" where
  "increment_counter c k = dict_set c k ((case dict_get c k of None \<Rightarrow> 0 | Some n \<Rightarrow> n) + 1)"

definition record_routed_request :: "int option \<Rightarrow> string \<Rightarrow> worker \<Rightarrow> worker" where
  "record_routed_request status cls w =
     (let w1 = w\<lparr>routed_requests := routed_requests w + 1,
                routed_by_class := increment_counter (routed_by_class w) cls\<rparr>
      in if (case status of None \<Rightarrow> False | Some s \<Rightarrow> 200 \<le> s \<and> s < 400)
         then w1\<lparr>successful_requests := successful_requests w1 + 1,
                 successful_by_class := increment_counter (successful_by_class w1) cls\<rparr>
         else w1\<lparr>failed_requests := failed_requests w1 + 1,
                 failed_by_class := increment_counter (failed_by_class w1) cls\<rparr>)"

definition record_failure :: "int \<Rightarrow> worker \<Rightarrow> worker" where
  "record_failure failure_threshold w =
     (let w1 = w\<lparr>consecutive_failures := consecutive_failures w + 1, consecutive_successes := 0\<rparr>
      in if failure_threshold \<le> consecutive_failures w1 then w1\<lparr>w_state := Unhealthy\<rparr> else w1)"

definition record_health_result ::
    "bool \<Rightarrow> int \<Rightarrow> int \<Rightarrow> int option \<Rightarrow> string option \<Rightarrow> rat \<Rightarrow> worker \<Rightarrow> worker" where
  "record_health_result ok failure_threshold success_threshold status error now w =
     (let w1 = w\<lparr>last_checked_at := Some now, last_status_code := status, last_error := error\<rparr>
      in if ok
         then let w2 = w1\<lparr>consecutive_successes := consecutive_successes w1 + 1,
                          consecutive_failures := 0\<rparr>
              in if success_threshold \<le> consecutive_successes w2
                 then w2\<lparr>w_state := Healthy\<rparr> else w2
         else record_failure failure_threshold w1)"

definition record_request_failure :: "int \<Rightarrow> int option \<Rightarrow> string option \<Rightarrow> rat \<Rightarrow> worker \<Rightarrow> worker" where
  "record_request_failure failure_threshold status error now w =
     record_failure failure_threshold
       (w\<lparr>last_checked_at := Some now, last_status_code := status, last_error := error\<rparr>)"

subsection \<open>Selection\<close>

definition eligible_workers :: "worker list \<Rightarrow> string list \<Rightarrow> string option \<Rightarrow> worker list" where
  "eligible_workers ws caps model =
     (let candidates = filter (\<lambda>w. is_routable w \<and> list_all (supports w) caps) ws;
          named = (\<lambda>w. case worker_model w of None \<Rightarrow> False | Some m \<Rightarrow> m \<noteq> [])
      in if model \<noteq> None \<and> list_ex named candidates
         then filter (\<lambda>w. worker_model w = model) candidates else candidates)"

definition require_eligible_worker ::
    "worker option \<Rightarrow> string list \<Rightarrow> string option \<Rightarrow> worker res" where
  "require_eligible_worker w caps model =
     (case eligible_workers (case w of None \<Rightarrow> [] | Some x \<Rightarrow> [x]) caps model of
        [] \<Rightarrow> Inl NoEligibleWorkerError
      | x # _ \<Rightarrow> Inr x)"

record selector =
  policy :: string
  rr_index :: nat

definition select_round_robin :: "selector \<Rightarrow> worker list \<Rightarrow> worker \<times> selector" where
  "select_round_robin s cs = (cs ! (rr_index s mod length cs), s\<lparr>rr_index := rr_index s + 1\<rparr>)"

text \<open>\<open>choice n\<close> is the index \<open>random.choice\<close> draws from a list of \<open>n\<close> elements.\<close>

definition select_worker ::
    "(nat \<Rightarrow> nat) \<Rightarrow> worker list \<Rightarrow> string list \<Rightarrow> string option \<Rightarrow> selector \<Rightarrow> (worker \<times> selector) res" where
  "select_worker choice ws caps model s =
     (let candidates = eligible_workers ws caps model in
      if candidates = [] then Inl NoEligibleWorkerError
      else if policy s = ''round_robin'' then Inr (select_round_robin s candidates)
      else if policy s = ''least_request'' then
        (let m = Min (set (map active_requests candidates))
         in Inr (select_round_robin s (filter (\<lambda>w. active_requests w = m) candidates)))
      else if policy s = ''random'' then Inr (candidates ! choice (length candidates), s)
      else Inl ValueError)"

subsection \<open>A health probe\<close>

text \<open>
  \<open>_check_worker_health\<close> up to its \<open>await\<close> (\<open>probe_start\<close> gives the pinned epoch, or \<open>None\<close>
  when the worker is dead) and after it (\<open>probe_finish\<close>).
\<close>

datatype probe_answer = HttpError string | HttpStatus int string

definition probe_start :: "worker \<Rightarrow> int option" where
  "probe_start w = (if is_dead w then None else Some (health_epoch w))"

definition probe_finish :: "int \<Rightarrow> int \<Rightarrow> int \<Rightarrow> probe_answer \<Rightarrow> rat \<Rightarrow> worker \<Rightarrow> worker" where
  "probe_finish epoch ft st answer now w =
     (if health_epoch w \<noteq> epoch then w
      else case answer of
        HttpError msg \<Rightarrow> record_health_result False ft st None (Some msg) now w
      | HttpStatus code body \<Rightarrow>
          let ok = 200 \<le> code \<and> code < 300;
              error = (if ok then None
                       else Some (if take 512 body \<noteq> [] then take 512 body
                                  else ''status='' @ (if code < 0 then ''-'' else '''')
                                       @ show_nat (nat \<bar>code\<bar>)))
          in record_health_result ok ft st (Some code) error now w)"

text \<open>A failure reported by the request path: the HTTP proxy and the control plane skip a dead
  worker, the websocket proxy does not (\<open>websocket_proxy.py\<close>, \<open>_complete_session\<close>).\<close>

definition report_failure :: "int \<Rightarrow> int option \<Rightarrow> string option \<Rightarrow> rat \<Rightarrow> worker \<Rightarrow> worker" where
  "report_failure ft status error now w =
     (if is_dead w then w else record_request_failure ft status error now w)"

definition ws_complete_session ::
    "int \<Rightarrow> int option \<Rightarrow> string option \<Rightarrow> int option \<Rightarrow> rat \<Rightarrow> worker \<Rightarrow> worker" where
  "ws_complete_session ft failure_status failure_error routed_status now w =
     record_routed_request routed_status ''tts_websocket''
       (if failure_status \<noteq> None \<or> failure_error \<noteq> None
        then record_request_failure ft failure_status failure_error now w else w)"

end
