(* ===== verification/Router_Worker_Props.thy ===== *)
theory Router_Worker_Props
  imports Router_Worker "HOL-Library.Multiset"
begin

section \<open>Correctness of worker health and selection\<close>

text \<open>
  Selection is sound and fair, an operator's dead mark survives every late probe and reported
  failure, request counters balance, and worker ids are unique per URL.
\<close>

subsection \<open>Selection\<close>

lemma eligible_subset: "set (eligible_workers ws caps model) \<subseteq> set ws"
  by (auto simp: eligible_workers_def Let_def)

lemma eligible_sound:
  assumes "w \<in> set (eligible_workers ws caps model)"
  shows "w \<in> set ws \<and> w_state w = Healthy \<and> \<not> disabled w \<and> (\<forall>c \<in> set caps. supports w c)"
  using assms
  by (auto simp: eligible_workers_def Let_def is_routable_def is_healthy_def list_all_iff
      split: if_splits)

text \<open>
  Whatever the policy, a selected worker is one of the pool, healthy, not disabled
  and supports every required capability; under \<open>least_request\<close> no eligible worker has fewer
  requests in flight; and selection with a known policy fails exactly when no worker is
  eligible.  Random choice is assumed to draw an index of the list.
\<close>
theorem select_sound:
  assumes choice: "\<forall>n > 0. choice n < n"
    and pol: "policy s \<in> {''round_robin'', ''least_request'', ''random''}"
  shows "(case select_worker choice ws caps model s of
            Inl e \<Rightarrow> e = NoEligibleWorkerError \<and> eligible_workers ws caps model = []
          | Inr (w, s') \<Rightarrow> w \<in> set ws \<and> w_state w = Healthy \<and> \<not> disabled w
              \<and> (\<forall>c \<in> set caps. supports w c)
              \<and> (policy s = ''least_request'' \<longrightarrow>
                   (\<forall>v \<in> set (eligible_workers ws caps model). active_requests w \<le> active_requests v))
              \<and> policy s' = policy s)"
proof (cases "eligible_workers ws caps model = []")
  case True
  then show ?thesis by (simp add: select_worker_def)
next
  case False
  let ?cs = "eligible_workers ws caps model"
  let ?m = "Min (set (map active_requests ?cs))"
  let ?least = "filter (\<lambda>w. active_requests w = ?m) ?cs"
  have "?m \<in> set (map active_requests ?cs)" using False by (intro Min_in) auto
  then have ne: "?least \<noteq> []" by (auto simp: filter_empty_conv)
  have pick: "cs ! (k mod length cs) \<in> set cs" if "cs \<noteq> []" for k and cs :: "worker list"
    using that by simp
  have lw: "?least ! (rr_index s mod length ?least) \<in> set ?cs"
    and lm: "active_requests (?least ! (rr_index s mod length ?least)) = ?m"
    using pick [OF ne, of "rr_index s"] by auto
  have min: "\<forall>v \<in> set ?cs. ?m \<le> active_requests v" by simp
  have r: "?cs ! choice (length ?cs) \<in> set ?cs" using False choice by simp
  note sound = eligible_sound [OF pick [OF False, of "rr_index s"]] eligible_sound [OF lw]
    eligible_sound [OF r]
  consider "policy s = ''round_robin''" | "policy s = ''least_request''" | "policy s = ''random''"
    using pol by auto
  then show ?thesis
    using False sound lm min
    by cases (simp_all add: select_worker_def Let_def select_round_robin_def)
qed

fun select_many ::
    "nat \<Rightarrow> (nat \<Rightarrow> nat) \<Rightarrow> worker list \<Rightarrow> string list \<Rightarrow> string option \<Rightarrow> selector \<Rightarrow> worker list res" where
  "select_many 0 choice ws caps model s = Inr []"
| "select_many (Suc k) choice ws caps model s =
     bindE (select_worker choice ws caps model s) (\<lambda>(w, s').
     bindE (select_many k choice ws caps model s') (\<lambda>rest. Inr (w # rest)))"

lemma select_many_rr:
  assumes "policy s = ''round_robin''" and "eligible_workers ws caps model \<noteq> []"
  shows "select_many k choice ws caps model s = Inr (map (\<lambda>i. eligible_workers ws caps model
           ! ((rr_index s + i) mod length (eligible_workers ws caps model))) [0..<k])"
  using assms(1)
proof (induction k arbitrary: s)
  case (Suc k)
  then show ?case
    using assms(2)
    by (simp add: select_worker_def select_round_robin_def Let_def map_Suc_upt [symmetric]
        upt_conv_Cons comp_def del: upt_Suc map_Suc_upt)
qed simp

lemma rotation_mset:
  assumes "cs \<noteq> []"
  shows "mset (map (\<lambda>i. cs ! ((r + i) mod length cs)) [0..<length cs]) = mset cs"
proof -
  have "map (\<lambda>i. cs ! ((r + i) mod length cs)) [0..<length cs] = rotate r cs"
    by (intro nth_equalityI) (simp_all add: nth_rotate)
  moreover have "mset (rotate r cs) = mset cs"
    by (simp add: rotate_drop_take mset_append [symmetric] del: mset_append)
      (metis append_take_drop_id mset_append union_commute)
  ultimately show ?thesis by simp
qed

text \<open>
  Round robin is fair: with \<open>n\<close> eligible workers, any \<open>n\<close> consecutive selections pick
  each of them exactly once, wherever the cursor stands.
\<close>
theorem rr_fair:
  assumes pol: "policy s = ''round_robin''" and ne: "eligible_workers ws caps model \<noteq> []"
  shows "\<exists>picks. select_many (length (eligible_workers ws caps model)) choice ws caps model s = Inr picks
     \<and> mset picks = mset (eligible_workers ws caps model)"
  using select_many_rr [OF pol ne] rotation_mset [OF ne] by blast

subsection \<open>Health\<close>

record health_world =
  hw_worker :: worker
  hw_probes :: "int list"

text \<open>Everything that can happen to one worker object, a probe being two steps.\<close>

inductive hc_step :: "int \<Rightarrow> int \<Rightarrow> health_world \<Rightarrow> health_world \<Rightarrow> bool" for ft st :: int where
  start: "probe_start (hw_worker h) = Some e \<Longrightarrow> hc_step ft st h (h\<lparr>hw_probes := e # hw_probes h\<rparr>)"
| finish: "e \<in> set (hw_probes h) \<Longrightarrow> hc_step ft st h
     (h\<lparr>hw_worker := probe_finish e ft st answer now (hw_worker h), hw_probes := remove1 e (hw_probes h)\<rparr>)"
| report: "hc_step ft st h (h\<lparr>hw_worker := report_failure ft status err now (hw_worker h)\<rparr>)"
| disable: "hc_step ft st h (h\<lparr>hw_worker := set_disabled b (hw_worker h)\<rparr>)"
| routed: "hc_step ft st h (h\<lparr>hw_worker := record_routed_request status cls (hw_worker h)\<rparr>)"
| kill: "hc_step ft st h (h\<lparr>hw_worker := mark_dead err (hw_worker h)\<rparr>)"

inductive hc_clear :: "health_world \<Rightarrow> health_world \<Rightarrow> bool" where
  "hc_clear h (h\<lparr>hw_worker := clear_dead (hw_worker h)\<rparr>)"

inductive_cases hc_stepE: "hc_step ft st h h'"

definition probe_inv :: "health_world \<Rightarrow> bool" where
  "probe_inv h \<longleftrightarrow> (\<forall>e \<in> set (hw_probes h). e \<le> health_epoch (hw_worker h)
     \<and> (is_dead (hw_worker h) \<longrightarrow> e < health_epoch (hw_worker h)))"

lemmas health_op_defs = probe_start_def probe_finish_def report_failure_def set_disabled_def
  record_routed_request_def mark_dead_def record_request_failure_def record_health_result_def
  record_failure_def is_dead_def clear_dead_def

lemma record_epoch [simp]:
  "health_epoch (record_failure ft w) = health_epoch w"
  "health_epoch (record_health_result ok ft st s e now w) = health_epoch w"
  "health_epoch (record_request_failure ft s e now w) = health_epoch w"
  "health_epoch (record_routed_request s c w) = health_epoch w"
  "w_state (record_routed_request s c w) = w_state w"
  by (auto simp: health_op_defs Let_def)

lemma finish_epoch [simp]: "health_epoch (probe_finish e ft st a now w) = health_epoch w"
  by (auto simp: probe_finish_def Let_def split: probe_answer.splits)

lemma record_never_dead:
  "w_state w \<noteq> Dead \<Longrightarrow> w_state (record_failure ft w) \<noteq> Dead"
  "w_state w \<noteq> Dead \<Longrightarrow> w_state (record_health_result ok ft st s e now w) \<noteq> Dead"
  by (auto simp: record_failure_def record_health_result_def Let_def)

lemma finish_never_dead:
  "w_state w \<noteq> Dead \<Longrightarrow> w_state (probe_finish e ft st a now w) \<noteq> Dead"
  by (auto simp: probe_finish_def Let_def record_never_dead split: probe_answer.splits)

lemma report_facts [simp]:
  "health_epoch (report_failure ft s e now w) = health_epoch w"
  "w_state (report_failure ft s e now w) = Dead \<longleftrightarrow> w_state w = Dead"
  by (auto simp: report_failure_def is_dead_def record_request_failure_def record_failure_def Let_def)

lemma probe_inv_step: "hc_step ft st h h' \<Longrightarrow> probe_inv h \<Longrightarrow> probe_inv h'"
proof (induction rule: hc_step.induct)
  case (finish e h answer now)
  then show ?case
    using finish_never_dead [of "hw_worker h" e ft st answer now]
    by (auto simp: probe_inv_def is_dead_def dest: notin_set_remove1 set_remove1_subset [THEN subsetD])
qed (fastforce simp: probe_inv_def probe_start_def is_dead_def set_disabled_def mark_dead_def Let_def
    split: if_splits)+

lemma probe_inv_clear: "hc_clear h h' \<Longrightarrow> probe_inv h \<Longrightarrow> probe_inv h'"
  by (induction rule: hc_clear.induct) (fastforce simp: probe_inv_def clear_dead_def is_dead_def)

lemma dead_step:
  "hc_step ft st h h' \<Longrightarrow> probe_inv h \<Longrightarrow> is_dead (hw_worker h) \<Longrightarrow> is_dead (hw_worker h')"
proof (induction rule: hc_step.induct)
  case (finish e h answer now)
  then have "health_epoch (hw_worker h) \<noteq> e" by (auto simp: probe_inv_def)
  then show ?case using finish by (simp add: probe_finish_def)
qed (auto simp: is_dead_def set_disabled_def mark_dead_def Let_def)

lemma dead_run:
  assumes "(hc_step ft st)\<^sup>*\<^sup>* h h'" and "probe_inv h" and "is_dead (hw_worker h)"
  shows "is_dead (hw_worker h') \<and> probe_inv h'"
  using assms by (induction rule: rtranclp_induct) (auto intro: dead_step probe_inv_step)

text \<open>
  An operator's dead mark is never undone by anything but the operator:
  from any state the pool can reach by probes, guarded failure reports, requests, disabling,
  marking and clearing, a dead worker stays dead through every continuation without a clear,
  however late the answers of probes started earlier arrive.
\<close>
theorem dead_until_cleared:
  assumes reach: "(\<lambda>a b. hc_step ft st a b \<or> hc_clear a b)\<^sup>*\<^sup>* \<lparr>hw_worker = new_worker cfg inc, hw_probes = []\<rparr> h"
    and dead: "is_dead (hw_worker h)" and run: "(hc_step ft st)\<^sup>*\<^sup>* h h'"
  shows "is_dead (hw_worker h') \<and> \<not> is_routable (hw_worker h')"
proof -
  have "probe_inv \<lparr>hw_worker = new_worker cfg inc, hw_probes = []\<rparr>" by (simp add: probe_inv_def)
  with reach have "probe_inv h"
    by (induction rule: rtranclp_induct) (auto intro: probe_inv_step probe_inv_clear)
  from dead_run [OF run this dead] show ?thesis
    by (simp add: is_dead_def is_routable_def is_healthy_def)
qed

definition demo_worker :: worker where
  "demo_worker = new_worker \<lparr>cfg_url = ''http://a'', cfg_model = None, cfg_capabilities = [''chat'']\<rparr> ''i''"

theorem dead_until_cleared_witness:
  "is_dead (probe_finish 0 1 1 (HttpStatus 200 '''') 5 (mark_dead None demo_worker))"
proof -
  let ?h0 = "\<lparr>hw_worker = demo_worker, hw_probes = []\<rparr>"
  let ?h1 = "\<lparr>hw_worker = demo_worker, hw_probes = [0]\<rparr>"
  let ?h2 = "\<lparr>hw_worker = mark_dead None demo_worker, hw_probes = [0]\<rparr>"
  let ?h3 = "\<lparr>hw_worker = probe_finish 0 1 1 (HttpStatus 200 '''') 5 (mark_dead None demo_worker),
              hw_probes = []\<rparr>"
  have s1: "hc_step 1 1 ?h0 ?h1"
    using hc_step.start [of ?h0 0 1 1] by (simp add: probe_start_def demo_worker_def new_worker_def is_dead_def)
  have s2: "hc_step 1 1 ?h1 ?h2" using hc_step.kill [of 1 1 ?h1 None] by simp
  have s3: "hc_step 1 1 ?h2 ?h3"
    using hc_step.finish [of 0 ?h2 1 1 "HttpStatus 200 ''''" 5] by simp
  have "(\<lambda>a b. hc_step 1 1 a b \<or> hc_clear a b)\<^sup>*\<^sup>* ?h0 ?h2"
    by (rule converse_rtranclp_into_rtranclp [of _ _ ?h1]) (use s1 s2 in auto)
  moreover have "is_dead (hw_worker ?h2)" by (simp add: mark_dead_def is_dead_def Let_def)
  moreover have "(hc_step 1 1)\<^sup>*\<^sup>* ?h2 ?h3" using s3 by blast
  ultimately show ?thesis
    using dead_until_cleared [of 1 1 "w_config demo_worker" "incarnation demo_worker" ?h2 ?h3]
    by (simp add: demo_worker_def new_worker_def)
qed

text \<open>
  The websocket proxy's completion handler lacks the guard the other
  failure reporters have: when a session on a worker the operator marked dead ends in an
  upstream failure that reaches the failure threshold, the dead mark becomes \<open>unhealthy\<close>, the
  health checker probes the worker again, and one success (threshold 1) makes it routable.
\<close>
theorem ws_failure_revives_dead:
  assumes dead: "is_dead w" and en: "\<not> disabled w" and thr: "ft \<le> consecutive_failures w + 1"
    and fail: "fs \<noteq> None \<or> fe \<noteq> None"
  shows "w_state (ws_complete_session ft fs fe rs now w) = Unhealthy
    \<and> (\<exists>e. probe_start (ws_complete_session ft fs fe rs now w) = Some e \<and>
         is_routable (probe_finish e ft 1 (HttpStatus 200 body) now'
           (ws_complete_session ft fs fe rs now w)))"
  using assms
  by (auto simp: ws_complete_session_def record_request_failure_def record_failure_def Let_def
      probe_start_def probe_finish_def is_dead_def record_health_result_def is_routable_def
      is_healthy_def record_routed_request_def)

theorem ws_failure_revives_dead_witness:
  "w_state (ws_complete_session 1 (Some 502) None None 3 (mark_dead None demo_worker)) = Unhealthy"
  using ws_failure_revives_dead [of "mark_dead None demo_worker" 1 "Some 502" None None 3]
  by (simp add: mark_dead_def is_dead_def Let_def demo_worker_def new_worker_def)

subsection \<open>Counters and identities\<close>

definition counter_of :: "(string, int) dict \<Rightarrow> string \<Rightarrow> int" where
  "counter_of c k = (case dict_get c k of None \<Rightarrow> 0 | Some n \<Rightarrow> n)"

lemma counter_of_increment [simp]:
  "counter_of (increment_counter c k) k' = counter_of c k' + (if k' = k then 1 else 0)"
  by (simp add: counter_of_def increment_counter_def)

lemma sum_dict_set:
  "sum_list (map snd (dict_set d k v)) = sum_list (map snd d) - counter_of d k + (v :: int)"
  by (induction d) (auto simp: counter_of_def)

lemma sum_increment [simp]:
  "sum_list (map snd (increment_counter c k)) = sum_list (map snd c) + (1 :: int)"
  by (simp add: increment_counter_def sum_dict_set counter_of_def)

text \<open>
  After any sequence of routed requests the counters of a worker balance: every
  routed request is counted once as a success or a failure, in total and within each service
  class, and the totals are the sums over the classes.
\<close>
theorem counters_balance:
  "let w = fold (\<lambda>(status, cls). record_routed_request status cls) reqs (new_worker cfg inc) in
     routed_requests w = int (length reqs)
   \<and> routed_requests w = successful_requests w + failed_requests w
   \<and> (\<forall>c. counter_of (routed_by_class w) c
           = counter_of (successful_by_class w) c + counter_of (failed_by_class w) c)
   \<and> routed_requests w = sum_list (dict_vals (routed_by_class w))
   \<and> successful_requests w = sum_list (dict_vals (successful_by_class w))
   \<and> failed_requests w = sum_list (dict_vals (failed_by_class w))"
proof (induction reqs rule: rev_induct)
  case Nil
  show ?case by (simp add: new_worker_def counter_of_def dict_vals_def)
next
  case (snoc r reqs)
  obtain st c where "r = (st, c)" by (cases r)
  with snoc show ?case
    by (auto simp: record_routed_request_def Let_def dict_vals_def)
qed

lemma hex_digit_value: "k < 16 \<Longrightarrow> (of_char (hex_digit k) :: nat) = (if k < 10 then 48 + k else 55 + k)"
  by (simp add: hex_digit_def of_char_of)

lemma hex_digit_inj:
  assumes m: "m < 16" and n: "n < 16" and eq: "hex_digit m = hex_digit n"
  shows "m = n"
proof -
  have "(of_char (hex_digit m) :: nat) = of_char (hex_digit n)" by (simp only: eq)
  then have "(if m < 10 then 48 + m else 55 + m) = (if n < 10 then 48 + n else 55 + n)"
    by (simp only: hex_digit_value [OF m] hex_digit_value [OF n])
  then show ?thesis by presburger
qed

lemma quote_char_prefix:
  assumes "quote_char c @ s = quote_char d @ t"
  shows "c = d \<and> s = t"
proof -
  have nu: "\<not> unreserved CHR ''%''" by (simp add: unreserved_def Let_def)
  have lt: "of_char x div 16 < (16 :: nat)" "of_char x mod 16 < (16 :: nat)" for x :: char
    using nat_of_char_less_256 [of x] by (simp_all add: less_mult_imp_div_less)
  show ?thesis
  proof (cases "unreserved c"; cases "unreserved d")
    assume "\<not> unreserved c" "\<not> unreserved d"
    with assms have "hex_digit (of_char c div 16) = hex_digit (of_char d div 16)"
      "hex_digit (of_char c mod 16) = hex_digit (of_char d mod 16)" "s = t"
      by (auto simp: quote_char_def)
    then have "of_char c div 16 = (of_char d div 16 :: nat)" "of_char c mod 16 = (of_char d mod 16 :: nat)"
      using hex_digit_inj lt by blast+
    then have "of_char c = (of_char d :: nat)" by (metis div_mult_mod_eq)
    then show ?thesis using \<open>s = t\<close> by simp
  qed (use assms nu in \<open>auto simp: quote_char_def\<close>)
qed

text \<open>
  The worker id derived from a URL identifies it: two URLs with the same id
  are equal, so the registry, the counters and the snapshot never confuse two workers.
\<close>
theorem worker_id_injective:
  "worker_id_from_url u = worker_id_from_url v \<longleftrightarrow> u = v"
proof -
  have "concat (map quote_char u) = concat (map quote_char v) \<Longrightarrow> u = v" for u v
  proof (induction u arbitrary: v)
    case Nil
    then show ?case by (cases v) (auto simp: quote_char_def split: if_splits)
  next
    case (Cons c u)
    show ?case
    proof (cases v)
      case Nil
      with Cons.prems show ?thesis by (auto simp: quote_char_def split: if_splits)
    next
      case (Cons d v')
      with Cons.prems have "quote_char c @ concat (map quote_char u) = quote_char d @ concat (map quote_char v')"
        by simp
      from quote_char_prefix [OF this] Cons.IH Cons show ?thesis by auto
    qed
  qed
  then show ?thesis by (auto simp: worker_id_from_url_def)
qed

theorem select_sound_witness:
  "(case select_worker (\<lambda>_. 0) [demo_worker\<lparr>w_state := Healthy\<rparr>] [''chat''] None
      \<lparr>policy = ''random'', rr_index = 0\<rparr> of Inl e \<Rightarrow> False | Inr (w, s') \<Rightarrow> w_state w = Healthy)"
proof -
  let ?ws = "[demo_worker\<lparr>w_state := Healthy\<rparr>]"
  have "eligible_workers ?ws [''chat''] None \<noteq> []"
    by (simp add: eligible_workers_def Let_def is_routable_def is_healthy_def supports_def
        demo_worker_def new_worker_def)
  then show ?thesis
    using select_sound [of "\<lambda>_. 0" "\<lparr>policy = ''random'', rr_index = 0\<rparr>" ?ws "[''chat'']" None]
    by (auto split: sum.splits)
qed

theorem rr_fair_witness:
  "select_many 1 (\<lambda>_. 0) [demo_worker\<lparr>w_state := Healthy\<rparr>] [] None \<lparr>policy = ''round_robin'', rr_index = 5\<rparr>
     = Inr [demo_worker\<lparr>w_state := Healthy\<rparr>]"
proof -
  let ?ws = "[demo_worker\<lparr>w_state := Healthy\<rparr>]"
  have "eligible_workers ?ws [] None = ?ws"
    by (simp add: eligible_workers_def is_routable_def is_healthy_def demo_worker_def new_worker_def)
  then show ?thesis
    using rr_fair [of "\<lparr>policy = ''round_robin'', rr_index = 5\<rparr>" ?ws "[]" None "\<lambda>_. 0"] by auto
qed

end
