(* ===== verification/Router_Channel.thy ===== *)
theory Router_Channel
  imports Router_Worker
begin

section \<open>The control plane's view of the data planes\<close>

text \<open>
  Models \<open>sglang_omni_router/internal_channel.py\<close> (registration and heartbeats with generation
  fencing) and the parts of \<open>control_plane.py\<close> that rest on it: one evaluation of the
  weight-update ACK barrier, the health verdict, and the worker-failure handler with its
  de-duplication.  Wall-clock readings are arguments; pydantic's field bounds hold of the
  messages that reach these functions.
\<close>

subsection \<open>Registration and heartbeats\<close>

record hello =
  h_dp :: nat
  h_generation :: int
  h_pid :: int

record heartbeat =
  b_dp :: nat
  b_generation :: int
  b_pid :: int
  b_seq :: int
  b_epoch :: string
  b_serving :: bool

record dp_record =
  dp_index :: nat
  generation :: int
  pid :: int
  last_applied_seq :: int
  last_applied_epoch :: string
  serving :: bool
  last_seen_at :: rat

type_synonym channel = "(nat, dp_record) dict"

definition channel_register :: "channel \<Rightarrow> hello \<Rightarrow> rat \<Rightarrow> (dp_record \<times> channel) res" where
  "channel_register ch m now =
     (let current = dict_get ch (h_dp m);
          fresh = \<lparr>dp_index = h_dp m, generation = h_generation m, pid = h_pid m,
                   last_applied_seq = 0, last_applied_epoch = '''', serving = True,
                   last_seen_at = now\<rparr>
      in case current of
           None \<Rightarrow> Inr (fresh, dict_set ch (h_dp m) fresh)
         | Some c \<Rightarrow>
             if h_generation m < generation c then Inl StaleGenerationError
             else if h_generation m = generation c \<and> h_pid m \<noteq> pid c then Inl StaleGenerationError
             else let r = (if h_generation m = generation c \<and> h_pid m = pid c
                           then fresh\<lparr>last_applied_seq := last_applied_seq c,
                                      last_applied_epoch := last_applied_epoch c,
                                      serving := serving c\<rparr>
                           else fresh)
                  in Inr (r, dict_set ch (h_dp m) r))"

definition channel_heartbeat :: "channel \<Rightarrow> heartbeat \<Rightarrow> rat \<Rightarrow> (dp_record \<times> channel) res" where
  "channel_heartbeat ch b now =
     (case dict_get ch (b_dp b) of
        None \<Rightarrow> Inl UnknownDataPlaneError
      | Some c \<Rightarrow>
          if b_generation b > generation c then Inl UnknownDataPlaneError
          else if b_generation b < generation c \<or> b_pid b \<noteq> pid c then Inl StaleGenerationError
          else let applied = (if b_epoch b = last_applied_epoch c
                              then max (last_applied_seq c) (b_seq b) else b_seq b);
                   r = \<lparr>dp_index = b_dp b, generation = b_generation b, pid = b_pid b,
                        last_applied_seq = applied, last_applied_epoch = b_epoch b,
                        serving = b_serving b, last_seen_at = now\<rparr>
               in Inr (r, dict_set ch (b_dp b) r))"

definition channel_drop :: "channel \<Rightarrow> nat \<Rightarrow> channel" where
  "channel_drop ch i = dict_pop ch i"

text \<open>The HTTP status the two routes answer with.\<close>

definition register_status :: "(dp_record \<times> channel) res \<Rightarrow> int" where
  "register_status r = (case r of Inr _ \<Rightarrow> 200 | Inl _ \<Rightarrow> 409)"

definition heartbeat_status :: "(dp_record \<times> channel) res \<Rightarrow> int" where
  "heartbeat_status r =
     (case r of Inr _ \<Rightarrow> 200 | Inl UnknownDataPlaneError \<Rightarrow> 428 | Inl _ \<Rightarrow> 409)"

subsection \<open>The ACK barrier\<close>

definition live_records :: "channel \<Rightarrow> rat \<Rightarrow> rat \<Rightarrow> dp_record list" where
  "live_records ch now liveness = filter (\<lambda>r. now - last_seen_at r \<le> liveness) (dict_vals ch)"

text \<open>The pending set of one iteration, sorted as the failure answer lists it.\<close>

definition ack_pending :: "channel \<Rightarrow> rat \<Rightarrow> rat \<Rightarrow> string \<Rightarrow> int \<Rightarrow> nat option \<Rightarrow> nat list" where
  "ack_pending ch now liveness cp_epoch target expected =
     (let live = live_records ch now liveness;
          unacked = map dp_index (filter (\<lambda>r. last_applied_epoch r \<noteq> cp_epoch
                                              \<or> last_applied_seq r < target) live);
          wanted = (case expected of Some n \<Rightarrow> [0..<n] | None \<Rightarrow> dict_keys ch);
          absent = filter (\<lambda>i. i \<notin> set (map dp_index live)) wanted
      in sort (remdups (unacked @ absent)))"

text \<open>
  The barrier polls until nothing is pending or the deadline passed; the observations it makes
  are a list of channel states with the two clock readings.
\<close>

fun ack_barrier ::
    "(channel \<times> rat \<times> bool) list \<Rightarrow> rat \<Rightarrow> string \<Rightarrow> int \<Rightarrow> nat option \<Rightarrow> (bool \<times> nat list) option" where
  "ack_barrier [] liveness cp_epoch target expected = None"
| "ack_barrier ((ch, now, past_deadline) # obs) liveness cp_epoch target expected =
     (let pending = ack_pending ch now liveness cp_epoch target expected in
      if pending = [] then Some (True, [])
      else if past_deadline then Some (False, pending)
      else ack_barrier obs liveness cp_epoch target expected)"

subsection \<open>The health verdict\<close>

record health_verdict =
  hv_status :: string
  hv_code :: int
  hv_serving :: nat
  hv_missing :: "nat list"
  hv_unexpected :: "nat list"

text \<open>
  \<open>slots\<close> is the outcome of the debounced admission reads: \<open>None\<close> without an admission region,
  \<open>Some (Inl _)\<close> when every read was torn, else the generation owning each slot.
\<close>

definition unreadable_since ::
    "('e + 'g) option \<Rightarrow> rat \<Rightarrow> rat option \<Rightarrow> rat option" where
  "unreadable_since slots now since =
     (case slots of
        Some (Inl _) \<Rightarrow> (case since of None \<Rightarrow> Some now | Some t \<Rightarrow> Some t)
      | _ \<Rightarrow> None)"

definition ready_indices ::
    "dp_record list \<Rightarrow> bool \<Rightarrow> string \<Rightarrow> ('e + (nat \<times> int) list) option \<Rightarrow> nat list" where
  "ready_indices live wedged cp_epoch slots =
     map dp_index (filter (\<lambda>r. \<not> wedged \<and> last_applied_epoch r = cp_epoch \<and> serving r \<and>
        (case slots of
           None \<Rightarrow> True
         | Some (Inl _) \<Rightarrow> True
         | Some (Inr gens) \<Rightarrow> map_of gens (dp_index r) = Some (generation r))) live)"

definition cp_health ::
    "worker list \<Rightarrow> channel \<Rightarrow> rat \<Rightarrow> rat \<Rightarrow> string \<Rightarrow> nat option \<Rightarrow>
     ('e + (nat \<times> int) list) option \<Rightarrow> rat option \<Rightarrow> rat \<Rightarrow> health_verdict \<times> rat option" where
  "cp_health ws ch now liveness cp_epoch expected slots since grace =
     (let live = live_records ch now liveness;
          since' = unreadable_since slots now since;
          wedged = (case since' of None \<Rightarrow> False | Some t \<Rightarrow> now - t \<ge> grace);
          ready = remdups (ready_indices live wedged cp_epoch slots);
          routable = length (filter is_routable ws);
          missing = (case expected of None \<Rightarrow> [] | Some n \<Rightarrow> filter (\<lambda>i. i \<notin> set ready) [0..<n]);
          unexpected = (case expected of None \<Rightarrow> []
                        | Some n \<Rightarrow> sort (remdups (filter (\<lambda>i. i \<ge> n) (map dp_index live))));
          serving = (case expected of None \<Rightarrow> length ready
                     | Some n \<Rightarrow> length (filter (\<lambda>i. i < n) ready));
          no_service = (routable = 0 \<or> wedged \<or> (expected \<noteq> None \<and> serving = 0));
          degraded = (missing \<noteq> [] \<and> serving > 0)
      in (\<lparr>hv_status = (if no_service then ''unhealthy'' else if degraded then ''degraded''
                        else ''healthy''),
           hv_code = (if no_service then 503 else 200),
           hv_serving = serving, hv_missing = missing, hv_unexpected = unexpected\<rparr>, since'))"

subsection \<open>Reported worker failures\<close>

record failure_report =
  fr_worker_id :: string
  fr_status_code :: "int option"
  fr_error :: "string option"
  fr_incarnation :: string
  fr_dp_index :: nat
  fr_generation :: int
  fr_seq :: int

record dedup_state =
  seen_seqs :: "int list"
  seq_floor :: int

type_synonym dedup = "(nat \<times> int, dedup_state) dict"

definition failure_already_applied :: "dedup \<Rightarrow> failure_report \<Rightarrow> bool \<times> dedup" where
  "failure_already_applied d rep =
     (let key = (fr_dp_index rep, fr_generation rep);
          s = (case dict_get d key of None \<Rightarrow> \<lparr>seen_seqs = [], seq_floor = 0\<rparr> | Some x \<Rightarrow> x);
          d1 = (case dict_get d key of None \<Rightarrow> dict_set d key s | Some _ \<Rightarrow> d)
      in if fr_seq rep \<le> seq_floor s then (True, d1)
         else if fr_seq rep \<in> set (seen_seqs s) then (True, d1)
         else let seqs = fr_seq rep # seen_seqs s;
                  s' = (if length seqs > 4096
                        then let floor = Max (set seqs) - 1024
                             in \<lparr>seen_seqs = filter (\<lambda>q. q > floor) seqs, seq_floor = floor\<rparr>
                        else s\<lparr>seen_seqs := seqs\<rparr>)
              in (False, dict_set d1 key s'))"

definition stale_generation :: "channel \<Rightarrow> nat \<Rightarrow> int \<Rightarrow> bool" where
  "stale_generation ch i g =
     (case dict_get ch i of None \<Rightarrow> False | Some c \<Rightarrow> g < generation c)"

fun find_worker :: "worker list \<Rightarrow> string \<Rightarrow> nat option" where
  "find_worker [] wid = None"
| "find_worker (w # ws) wid =
     (if worker_id w = wid \<or> worker_url w = unquote wid then Some 0
      else map_option Suc (find_worker ws wid))"

datatype failure_answer =
    StaleGen | WorkerNotFound | StaleIncarnation | Deduplicated | IgnoredDead
  | Applied worker_state bool

text \<open>The handler; the last component is whether a snapshot is published.\<close>

definition worker_failure ::
    "channel \<Rightarrow> int \<Rightarrow> failure_report \<Rightarrow> rat \<Rightarrow> worker list \<Rightarrow> dedup \<Rightarrow>
     failure_answer \<times> worker list \<times> dedup \<times> bool" where
  "worker_failure ch threshold rep now ws d =
     (if stale_generation ch (fr_dp_index rep) (fr_generation rep) then (StaleGen, ws, d, False)
      else case find_worker ws (fr_worker_id rep) of
        None \<Rightarrow> (WorkerNotFound, ws, d, False)
      | Some i \<Rightarrow>
          if fr_incarnation rep \<noteq> '''' \<and> incarnation (ws ! i) \<noteq> fr_incarnation rep
          then (StaleIncarnation, ws, d, False)
          else let (dup, d') = failure_already_applied d rep in
               if dup then (Deduplicated, ws, d', False)
               else if is_dead (ws ! i) then (IgnoredDead, ws, d', False)
               else let w' = record_request_failure threshold (fr_status_code rep) (fr_error rep)
                               now (ws ! i)
                    in (Applied (w_state w') (disabled w'), ws[i := w'], d',
                        (is_routable w', w_state w') \<noteq> (is_routable (ws ! i), w_state (ws ! i))))"

end
