(* ===== verification/Router_Channel_Props.thy ===== *)
theory Router_Channel_Props
  imports Router_Channel Router_Worker_Props
begin

section \<open>Fencing, acknowledgements and failure de-duplication\<close>

text \<open>
  A passed ACK barrier is backed by heartbeats really received from every expected data plane;
  generations only grow; the health verdict fails closed; a reported failure counts at most
  once; and a worker is found under its own id.
\<close>

subsection \<open>Acknowledgements\<close>

datatype channel_msg = Reg hello rat | Beat heartbeat rat | Drop nat

definition chan_step :: "channel_msg \<Rightarrow> channel \<Rightarrow> channel" where
  "chan_step m ch =
     (case m of
        Reg h now \<Rightarrow> (case channel_register ch h now of Inl _ \<Rightarrow> ch | Inr (_, ch') \<Rightarrow> ch')
      | Beat b now \<Rightarrow> (case channel_heartbeat ch b now of Inl _ \<Rightarrow> ch | Inr (_, ch') \<Rightarrow> ch')
      | Drop i \<Rightarrow> channel_drop ch i)"

definition chan_run :: "channel_msg list \<Rightarrow> channel" where
  "chan_run ms = fold chan_step ms []"

lemma chan_run_snoc: "chan_run (ms @ [m]) = chan_step m (chan_run ms)"
  by (simp add: chan_run_def)

lemma register_stores: "channel_register ch h now = Inr (r, ch') \<Longrightarrow> ch' = dict_set ch (h_dp h) r"
  by (auto simp: channel_register_def Let_def split: option.splits if_splits)

lemma heartbeat_stores: "channel_heartbeat ch b now = Inr (r, ch') \<Longrightarrow> ch' = dict_set ch (b_dp b) r"
  by (auto simp: channel_heartbeat_def Let_def split: option.splits if_splits)

lemma heartbeat_Inr:
  assumes h: "channel_heartbeat ch b now = Inr (r, ch')"
  obtains c where "dict_get ch (b_dp b) = Some c" "generation c = b_generation b" "pid c = b_pid b"
    "ch' = dict_set ch (b_dp b) r"
    "r = \<lparr>dp_index = b_dp b, generation = b_generation b, pid = b_pid b,
          last_applied_seq = (if b_epoch b = last_applied_epoch c
                              then max (last_applied_seq c) (b_seq b) else b_seq b),
          last_applied_epoch = b_epoch b, serving = b_serving b, last_seen_at = now\<rparr>"
proof (cases "dict_get ch (b_dp b)")
  case None
  with h show thesis by (simp add: channel_heartbeat_def)
next
  case (Some c)
  show thesis
  proof (rule that [OF Some])
    have ok: "\<not> b_generation b > generation c" "\<not> (b_generation b < generation c \<or> b_pid b \<noteq> pid c)"
      using h Some by (auto simp: channel_heartbeat_def split: if_splits)
    then show "generation c = b_generation b" "pid c = b_pid b" by auto
    show "ch' = dict_set ch (b_dp b) r" using h by (rule heartbeat_stores)
    show "r = \<lparr>dp_index = b_dp b, generation = b_generation b, pid = b_pid b,
          last_applied_seq = (if b_epoch b = last_applied_epoch c
                              then max (last_applied_seq c) (b_seq b) else b_seq b),
          last_applied_epoch = b_epoch b, serving = b_serving b, last_seen_at = now\<rparr>"
      using h Some ok by (simp add: channel_heartbeat_def Let_def)
  qed
qed

lemma chan_step_cases:
  "chan_step m ch = ch \<or> (\<exists>i r. chan_step m ch = dict_set ch i r) \<or> (\<exists>i. chan_step m ch = dict_pop ch i)"
  by (auto simp: chan_step_def channel_drop_def split: channel_msg.splits sum.splits
      dest!: register_stores heartbeat_stores)

definition acked :: "channel_msg list \<Rightarrow> dp_record \<Rightarrow> bool" where
  "acked ms r \<longleftrightarrow> (\<exists>b now. Beat b now \<in> set ms \<and> b_dp b = dp_index r
      \<and> b_generation b = generation r \<and> b_pid b = pid r
      \<and> b_epoch b = last_applied_epoch r \<and> b_seq b = last_applied_seq r)"

definition chan_inv :: "channel_msg list \<Rightarrow> channel \<Rightarrow> bool" where
  "chan_inv ms ch \<longleftrightarrow> (\<forall>i r. dict_get ch i = Some r \<longrightarrow>
     dp_index r = i \<and> (acked ms r \<or> (last_applied_epoch r = '''' \<and> last_applied_seq r = 0)))"

lemma acked_mono: "acked ms r \<Longrightarrow> acked (ms @ [m]) r"
  by (auto simp: acked_def)

lemma chan_inv_step:
  assumes inv: "chan_inv ms ch"
  shows "chan_inv (ms @ [m]) (chan_step m ch)"
proof -
  have keep: "chan_inv (ms @ [m]) ch" using inv acked_mono by (fastforce simp: chan_inv_def)
  show ?thesis
  proof (cases m)
    case (Reg h now)
    show ?thesis
    proof (cases "channel_register ch h now")
      case (Inr x)
      obtain r ch' where x: "x = (r, ch')" by (cases x)
      have ch': "ch' = dict_set ch (h_dp h) r"
        using Inr x by (auto simp: channel_register_def Let_def split: option.splits if_splits)
      have "dp_index r = h_dp h
          \<and> (acked (ms @ [m]) r \<or> (last_applied_epoch r = '''' \<and> last_applied_seq r = 0))"
      proof (cases "dict_get ch (h_dp h)")
        case (Some c)
        with keep have "dp_index c = h_dp h"
          "acked (ms @ [m]) c \<or> (last_applied_epoch c = '''' \<and> last_applied_seq c = 0)"
          by (auto simp: chan_inv_def)
        then show ?thesis
          using Inr x Some
          by (auto simp: channel_register_def Let_def acked_def split: if_splits)
      qed (use Inr x in \<open>auto simp: channel_register_def Let_def\<close>)
      then show ?thesis using keep Reg Inr x ch' by (auto simp: chan_step_def chan_inv_def)
    qed (use keep Reg in \<open>simp add: chan_step_def\<close>)
  next
    case (Beat b now)
    show ?thesis
    proof (cases "channel_heartbeat ch b now")
      case (Inr x)
      obtain r ch' where x: "x = (r, ch')" by (cases x)
      obtain c where c: "dict_get ch (b_dp b) = Some c" "generation c = b_generation b" "pid c = b_pid b"
        and ch': "ch' = dict_set ch (b_dp b) r"
        and r: "r = \<lparr>dp_index = b_dp b, generation = b_generation b, pid = b_pid b,
             last_applied_seq = (if b_epoch b = last_applied_epoch c
                                 then max (last_applied_seq c) (b_seq b) else b_seq b),
             last_applied_epoch = b_epoch b, serving = b_serving b, last_seen_at = now\<rparr>"
        by (rule heartbeat_Inr [OF Inr [unfolded x]])
      from keep c(1) have ci: "dp_index c = b_dp b"
        "acked (ms @ [m]) c \<or> (last_applied_epoch c = '''' \<and> last_applied_seq c = 0)"
        by (auto simp: chan_inv_def)
      have new: "Beat b now \<in> set (ms @ [m])" using Beat by simp
      have "dp_index r = b_dp b
          \<and> (acked (ms @ [m]) r \<or> (last_applied_epoch r = '''' \<and> last_applied_seq r = 0))"
      proof (cases "b_epoch b = last_applied_epoch c \<and> b_seq b < last_applied_seq c")
        case True
        then have "acked (ms @ [m]) r = acked (ms @ [m]) c" "last_applied_seq r = last_applied_seq c"
          "last_applied_epoch r = last_applied_epoch c"
          using ci(1) c r by (simp_all add: acked_def)
        with ci r show ?thesis by simp
      next
        case False
        then have "last_applied_seq r = b_seq b" using r by (auto simp: max_def)
        with new r show ?thesis unfolding acked_def by auto
      qed
      then show ?thesis using keep Beat Inr x ch' by (auto simp: chan_step_def chan_inv_def)
    qed (use keep Beat in \<open>simp add: chan_step_def\<close>)
  next
    case (Drop i)
    then show ?thesis using keep by (auto simp: chan_step_def chan_inv_def channel_drop_def)
  qed
qed

lemma chan_inv_run: "chan_inv ms (chan_run ms)"
proof (induction ms rule: rev_induct)
  case Nil
  show ?case by (simp add: chan_inv_def chan_run_def)
next
  case (snoc m ms)
  then show ?case using chan_inv_step by (simp add: chan_run_snoc)
qed

lemma ack_pending_Nil:
  assumes "ack_pending ch now liv E target (Some n) = []" and "i < n"
  shows "\<exists>r. r \<in> set (live_records ch now liv) \<and> dp_index r = i
     \<and> last_applied_epoch r = E \<and> target \<le> last_applied_seq r"
proof -
  let ?live = "live_records ch now liv"
  have e: "filter (\<lambda>r. last_applied_epoch r \<noteq> E \<or> last_applied_seq r < target) ?live = []"
    "filter (\<lambda>i. i \<notin> set (map dp_index ?live)) [0..<n] = []"
  proof -
    have "set (ack_pending ch now liv E target (Some n)) = {}" using assms(1) by simp
    then show "filter (\<lambda>r. last_applied_epoch r \<noteq> E \<or> last_applied_seq r < target) ?live = []"
      "filter (\<lambda>i. i \<notin> set (map dp_index ?live)) [0..<n] = []"
      by (auto simp: ack_pending_def Let_def filter_empty_conv)
  qed
  then have "i \<in> set (map dp_index ?live)" using assms(2) by (auto simp: filter_empty_conv)
  then obtain r where "r \<in> set ?live" "dp_index r = i" by auto
  with e(1) show ?thesis by (auto simp: filter_empty_conv not_less)
qed

lemma live_record_stored:
  "dict_wf ch \<Longrightarrow> r \<in> set (live_records ch now liv) \<Longrightarrow> \<exists>i. dict_get ch i = Some r"
  by (auto simp: live_records_def dict_vals_def dict_get_wf)

lemma chan_run_wf: "dict_wf (chan_run ms)"
proof (induction ms rule: rev_induct)
  case Nil
  show ?case by (simp add: chan_run_def)
next
  case (snoc m ms)
  then show ?case
    using chan_step_cases [of m "chan_run ms"] by (auto simp: chan_run_snoc)
qed

text \<open>
  C36: The ACK barrier fails closed: whatever registrations, heartbeats and drops the
  control plane has received, in any order and with any loss or replay, when an iteration finds
  nothing pending then every one of the \<open>n\<close> expected data planes really sent, from the
  generation and process now on record, a heartbeat of this control plane's epoch reporting
  the target snapshot or a newer one, and was heard from within the liveness window.
\<close>
theorem ack_sound:
  assumes pass: "ack_pending (chan_run ms) now liv E target (Some n) = []"
    and epoch: "E \<noteq> ''''" and i: "i < n"
  shows "\<exists>r b t. dict_get (chan_run ms) i = Some r \<and> now - last_seen_at r \<le> liv
     \<and> Beat b t \<in> set ms \<and> b_dp b = i \<and> b_generation b = generation r \<and> b_pid b = pid r
     \<and> b_epoch b = E \<and> target \<le> b_seq b"
proof -
  from ack_pending_Nil [OF pass i] obtain r where r: "r \<in> set (live_records (chan_run ms) now liv)"
    "dp_index r = i" "last_applied_epoch r = E" "target \<le> last_applied_seq r" by blast
  from live_record_stored [OF chan_run_wf r(1)] obtain j where j: "dict_get (chan_run ms) j = Some r"
    by blast
  with chan_inv_run [of ms] r(2,3) epoch have "j = i" "acked ms r" by (auto simp: chan_inv_def)
  with j r show ?thesis by (auto simp: acked_def live_records_def)
qed

subsection \<open>Generations\<close>

lemma chan_step_generation:
  assumes "dict_get ch i = Some r" and "\<forall>j. m \<noteq> Drop j"
  shows "\<exists>r'. dict_get (chan_step m ch) i = Some r' \<and> generation r \<le> generation r'
     \<and> (generation r' = generation r \<longrightarrow> pid r' = pid r)"
  using assms
  by (auto simp: chan_step_def channel_register_def channel_heartbeat_def Let_def
      split: channel_msg.splits sum.splits option.splits if_splits)

text \<open>
  A fenced data plane can never come back: once a data plane is on record,
  every later registration or heartbeat leaves a record of the same or a newer generation, an
  equal generation always belongs to the same process, and messages of an older generation are
  refused as stale (409) without changing anything.
\<close>
theorem generation_fencing:
  assumes rec: "dict_get (chan_run ms) i = Some r" and nodrop: "\<forall>m \<in> set ms'. \<forall>j. m \<noteq> Drop j"
  shows "\<exists>r'. dict_get (chan_run (ms @ ms')) i = Some r' \<and> generation r \<le> generation r'
      \<and> (generation r' = generation r \<longrightarrow> pid r' = pid r)
      \<and> (\<forall>h now. h_dp h = i \<and> h_generation h < generation r' \<longrightarrow>
           channel_register (chan_run (ms @ ms')) h now = Inl StaleGenerationError)
      \<and> (\<forall>b now. b_dp b = i \<and> b_generation b < generation r' \<longrightarrow>
           channel_heartbeat (chan_run (ms @ ms')) b now = Inl StaleGenerationError)"
proof -
  have "\<exists>r'. dict_get (chan_run (ms @ ms')) i = Some r' \<and> generation r \<le> generation r'
      \<and> (generation r' = generation r \<longrightarrow> pid r' = pid r)"
    using nodrop
  proof (induction ms' rule: rev_induct)
    case Nil
    then show ?case using rec by simp
  next
    case (snoc m ms')
    then obtain r1 where r1: "dict_get (chan_run (ms @ ms')) i = Some r1" "generation r \<le> generation r1"
      "generation r1 = generation r \<longrightarrow> pid r1 = pid r" by auto
    from chan_step_generation [OF r1(1), of m] snoc.prems obtain r2 where
      "dict_get (chan_step m (chan_run (ms @ ms'))) i = Some r2" "generation r1 \<le> generation r2"
      "generation r2 = generation r1 \<longrightarrow> pid r2 = pid r1" by auto
    with r1 show ?case by (auto simp: chan_run_snoc simp flip: append_assoc)
  qed
  then show ?thesis
    by (auto simp: channel_register_def channel_heartbeat_def Let_def)
qed

subsection \<open>The health verdict\<close>

lemma ready_indices_in:
  assumes "i \<in> set (ready_indices live wedged E slots)"
  shows "\<exists>r \<in> set live. dp_index r = i \<and> last_applied_epoch r = E \<and> serving r
    \<and> (\<forall>g. slots = Some (Inr g) \<longrightarrow> map_of g i = Some (generation r))"
proof (cases slots)
  case (Some a)
  with assms show ?thesis by (cases a) (auto simp: ready_indices_def)
qed (use assms in \<open>auto simp: ready_indices_def\<close>)

text \<open>
  The health verdict fails closed.  The answer is 200 only if some worker is
  routable, the admission region is not wedged and, with \<open>n\<close> data planes expected, at least one
  of them serves; and it reads \<open>healthy\<close> only if every one of the \<open>n\<close> is live, serving, has
  acknowledged this epoch and (when the slots are readable) owns its admission slot.
\<close>
theorem health_sound:
  assumes v: "cp_health ws ch now liv E (Some n) slots since grace = (v, since')"
  shows "(hv_code v = 200 \<longleftrightarrow> hv_status v \<noteq> ''unhealthy'') \<and> (hv_code v = 200 \<or> hv_code v = 503)
    \<and> (hv_code v = 200 \<longrightarrow> (\<exists>w \<in> set ws. is_routable w) \<and> 0 < hv_serving v
         \<and> (\<forall>t. since' = Some t \<longrightarrow> now - t < grace))
    \<and> (hv_status v = ''healthy'' \<longrightarrow>
         (\<forall>i < n. \<exists>r \<in> set (live_records ch now liv). dp_index r = i \<and> last_applied_epoch r = E
            \<and> serving r \<and> (\<forall>g. slots = Some (Inr g) \<longrightarrow> map_of g i = Some (generation r))))"
proof -
  let ?since = "unreadable_since slots now since"
  let ?wedged = "case ?since of None \<Rightarrow> False | Some t \<Rightarrow> now - t \<ge> grace"
  let ?ready = "remdups (ready_indices (live_records ch now liv) ?wedged E slots)"
  let ?missing = "filter (\<lambda>i. i \<notin> set ?ready) [0..<n]"
  let ?serving = "length (filter (\<lambda>i. i < n) ?ready)"
  let ?no = "length (filter is_routable ws) = 0 \<or> ?wedged \<or> ?serving = 0"
  from v have vs: "hv_status v = (if ?no then ''unhealthy''
      else if ?missing \<noteq> [] \<and> ?serving > 0 then ''degraded'' else ''healthy'')"
    "hv_code v = (if ?no then 503 else 200)" "hv_serving v = ?serving" "since' = ?since"
    by (auto simp: cp_health_def Let_def)
  have routable: "length (filter is_routable ws) \<noteq> 0 \<longrightarrow> (\<exists>w \<in> set ws. is_routable w)"
    by (auto simp: filter_empty_conv)
  have ready: "\<exists>r \<in> set (live_records ch now liv). dp_index r = i \<and> last_applied_epoch r = E
      \<and> serving r \<and> (\<forall>g. slots = Some (Inr g) \<longrightarrow> map_of g i = Some (generation r))"
    if "i \<in> set ?ready" for i
    by (rule ready_indices_in [of i _ ?wedged]) (use that in \<open>simp only: set_remdups\<close>)
  have all: "i \<in> set ?ready" if "hv_status v = ''healthy''" "i < n" for i
  proof (rule ccontr)
    assume "i \<notin> set ?ready"
    then have "?missing \<noteq> []" using that(2) by (auto simp: filter_empty_conv)
    then show False using that(1) vs(1) by (auto split: if_splits)
  qed
  have wedge: "\<not> ?no \<longrightarrow> (\<forall>t. since' = Some t \<longrightarrow> now - t < grace)"
    using vs(4) by (auto simp: not_le split: option.splits)
  define no where "no = ?no"
  have n: "hv_code v = (if no then 503 else 200)" "no \<Longrightarrow> hv_status v = ''unhealthy''"
    "\<not> no \<Longrightarrow> hv_status v = ''degraded'' \<or> hv_status v = ''healthy''"
    using vs(1,2) unfolding no_def by auto
  have pos: "\<not> no \<Longrightarrow> 0 < hv_serving v"
    unfolding vs(3) no_def by (metis gr0I)
  have ok: "\<not> no \<Longrightarrow> (\<exists>w \<in> set ws. is_routable w) \<and> 0 < hv_serving v \<and> (\<forall>t. since' = Some t \<longrightarrow> now - t < grace)"
    using routable wedge pos unfolding no_def by blast
  show ?thesis
  proof (intro conjI)
    show "hv_code v = 200 \<longleftrightarrow> hv_status v \<noteq> ''unhealthy''" "hv_code v = 200 \<or> hv_code v = 503"
      using n by (cases no; auto)+
    show "hv_code v = 200 \<longrightarrow> (\<exists>w \<in> set ws. is_routable w) \<and> 0 < hv_serving v
         \<and> (\<forall>t. since' = Some t \<longrightarrow> now - t < grace)"
      using n(1) ok by (cases no) simp_all
    show "hv_status v = ''healthy'' \<longrightarrow>
         (\<forall>i < n. \<exists>r \<in> set (live_records ch now liv). dp_index r = i \<and> last_applied_epoch r = E
            \<and> serving r \<and> (\<forall>g. slots = Some (Inr g) \<longrightarrow> map_of g i = Some (generation r)))"
      using all ready by blast
  qed
qed

subsection \<open>A reported failure counts at most once\<close>

definition fr_key :: "failure_report \<Rightarrow> nat \<times> int" where
  "fr_key rep = (fr_dp_index rep, fr_generation rep)"

definition dedup_after :: "failure_report list \<Rightarrow> dedup" where
  "dedup_after reps = fold (\<lambda>r d. snd (failure_already_applied d r)) reps []"

definition dedup_of :: "dedup \<Rightarrow> nat \<times> int \<Rightarrow> dedup_state" where
  "dedup_of d k = (case dict_get d k of None \<Rightarrow> \<lparr>seen_seqs = [], seq_floor = 0\<rparr> | Some s \<Rightarrow> s)"

definition dedup_add :: "dedup_state \<Rightarrow> int \<Rightarrow> dedup_state" where
  "dedup_add s q =
     (let seqs = q # seen_seqs s in
      if length seqs > 4096
      then let floor = Max (set seqs) - 1024
           in \<lparr>seen_seqs = filter (\<lambda>q. q > floor) seqs, seq_floor = floor\<rparr>
      else s\<lparr>seen_seqs := seqs\<rparr>)"

definition blocked :: "dedup_state \<Rightarrow> int \<Rightarrow> bool" where
  "blocked s q \<longleftrightarrow> q \<le> seq_floor s \<or> q \<in> set (seen_seqs s)"

lemma already_applied_eq:
  "fst (failure_already_applied d rep) \<longleftrightarrow> blocked (dedup_of d (fr_key rep)) (fr_seq rep)"
  "dedup_of (snd (failure_already_applied d rep)) k =
     (if k = fr_key rep \<and> \<not> blocked (dedup_of d k) (fr_seq rep)
      then dedup_add (dedup_of d k) (fr_seq rep) else dedup_of d k)"
  by (auto simp: failure_already_applied_def dedup_of_def dedup_add_def blocked_def fr_key_def Let_def
      split: option.splits if_splits)

lemma distinct_int_bound:
  assumes "distinct xs" and "\<forall>x \<in> set xs. a < x \<and> x \<le> (b :: int)"
  shows "int (length xs) \<le> max 0 (b - a)"
proof -
  have "set xs \<subseteq> {a<..b}" using assms(2) by auto
  then have "card (set xs) \<le> card {a<..b}" by (rule card_mono [rotated]) simp
  then show ?thesis using assms(1) by (simp add: distinct_card)
qed

definition dedup_ok :: "dedup_state \<Rightarrow> bool" where
  "dedup_ok s \<longleftrightarrow> distinct (seen_seqs s) \<and> (\<forall>x \<in> set (seen_seqs s). seq_floor s < x)
     \<and> length (seen_seqs s) \<le> 4096"

lemma dedup_add_ok:
  assumes ok: "dedup_ok s" and nb: "\<not> blocked s q"
  shows "dedup_ok (dedup_add s q) \<and> seq_floor s \<le> seq_floor (dedup_add s q)
    \<and> (seq_floor (dedup_add s q) = seq_floor s \<or> seq_floor (dedup_add s q) < Max (set (q # seen_seqs s)))
    \<and> set (seen_seqs (dedup_add s q)) \<subseteq> set (q # seen_seqs s)
    \<and> (\<forall>p. blocked s p \<or> p = q \<longrightarrow> blocked (dedup_add s q) p)"
proof (cases "length (q # seen_seqs s) > 4096")
  case False
  then show ?thesis using ok nb by (auto simp: dedup_add_def dedup_ok_def blocked_def Let_def)
next
  case True
  let ?seqs = "q # seen_seqs s" and ?m = "Max (set (q # seen_seqs s))"
  have d: "distinct ?seqs" and gt: "\<forall>x \<in> set ?seqs. seq_floor s < x \<and> x \<le> ?m"
    using ok nb by (auto simp: dedup_ok_def blocked_def)
  from distinct_int_bound [OF d gt] True have big: "seq_floor s + 1024 \<le> ?m" by auto
  let ?kept = "filter (\<lambda>x. x > ?m - 1024) ?seqs"
  have dk: "distinct ?kept" using d by (rule distinct_filter)
  have "\<forall>x \<in> set ?kept. ?m - 1024 < x \<and> x \<le> ?m" using gt by auto
  from distinct_int_bound [OF dk this] have len: "length ?kept \<le> 4096" by simp
  have add: "dedup_add s q = \<lparr>seen_seqs = ?kept, seq_floor = ?m - 1024\<rparr>"
    using True by (simp add: dedup_add_def Let_def)
  have bl: "\<forall>p. blocked s p \<or> p = q \<longrightarrow> p \<le> ?m - 1024 \<or> p \<in> set ?kept"
    using big by (auto simp: blocked_def not_less)
  have sub: "set ?kept \<subseteq> set ?seqs" by (rule filter_is_subset)
  have "dedup_ok (dedup_add s q)" using dk len unfolding add dedup_ok_def by simp
  moreover have "seq_floor s \<le> ?m - 1024" "?m - 1024 < ?m" using big by linarith+
  ultimately show ?thesis using bl sub unfolding add blocked_def by simp
qed

lemma dedup_after_snoc: "dedup_after (reps @ [r]) = snd (failure_already_applied (dedup_after reps) r)"
  by (simp add: dedup_after_def)

definition dedup_inv :: "failure_report list \<Rightarrow> nat \<times> int \<Rightarrow> dedup_state \<Rightarrow> bool" where
  "dedup_inv reps k s \<longleftrightarrow> dedup_ok s
   \<and> (\<forall>r \<in> set reps. fr_key r = k \<longrightarrow> blocked s (fr_seq r))
   \<and> set (seen_seqs s) \<subseteq> fr_seq ` {r \<in> set reps. fr_key r = k}
   \<and> (seq_floor s = 0 \<or> (\<exists>r \<in> set reps. fr_key r = k \<and> seq_floor s < fr_seq r))"

lemma dedup_inv_add:
  assumes inv: "dedup_inv reps (fr_key rep) s" and nb: "\<not> blocked s (fr_seq rep)"
  shows "dedup_inv (reps @ [rep]) (fr_key rep) (dedup_add s (fr_seq rep))"
proof -
  have ok: "dedup_ok s" using inv by (simp add: dedup_inv_def)
  note add = dedup_add_ok [OF ok nb]
  let ?all = "fr_seq ` {r \<in> set (reps @ [rep]). fr_key r = fr_key rep}"
  have seen: "set (fr_seq rep # seen_seqs s) \<subseteq> ?all"
    using inv by (auto simp: dedup_inv_def)
  have "Max (set (fr_seq rep # seen_seqs s)) \<in> set (fr_seq rep # seen_seqs s)"
    by (rule Max_in) auto
  with seen have "Max (set (fr_seq rep # seen_seqs s)) \<in> ?all" by blast
  then obtain r where "Max (set (fr_seq rep # seen_seqs s)) = fr_seq r"
    "r \<in> {r \<in> set (reps @ [rep]). fr_key r = fr_key rep}" by (rule imageE)
  then have r: "r \<in> set (reps @ [rep])" "fr_key r = fr_key rep"
    "fr_seq r = Max (set (fr_seq rep # seen_seqs s))" by (simp_all only: mem_Collect_eq)
  have "seq_floor (dedup_add s (fr_seq rep)) = 0
      \<or> (\<exists>r \<in> set (reps @ [rep]). fr_key r = fr_key rep \<and> seq_floor (dedup_add s (fr_seq rep)) < fr_seq r)"
  proof (cases "seq_floor (dedup_add s (fr_seq rep)) = seq_floor s")
    case True
    then show ?thesis using inv by (auto simp: dedup_inv_def)
  next
    case False
    then show ?thesis using add r by auto
  qed
  moreover have "\<forall>r \<in> set (reps @ [rep]). fr_key r = fr_key rep \<longrightarrow>
      blocked (dedup_add s (fr_seq rep)) (fr_seq r)"
    using add inv by (auto simp: dedup_inv_def)
  moreover have "set (seen_seqs (dedup_add s (fr_seq rep))) \<subseteq> ?all"
    using add seen by blast
  ultimately show ?thesis using add by (simp add: dedup_inv_def)
qed

lemma dedup_after_inv: "dedup_inv reps k (dedup_of (dedup_after reps) k)"
proof (induction reps rule: rev_induct)
  case Nil
  show ?case by (simp add: dedup_after_def dedup_of_def dedup_ok_def dedup_inv_def)
next
  case (snoc rep reps)
  let ?s = "dedup_of (dedup_after reps) k"
  show ?case
  proof (cases "k = fr_key rep \<and> \<not> blocked ?s (fr_seq rep)")
    case True
    then have "dedup_of (dedup_after (reps @ [rep])) k = dedup_add ?s (fr_seq rep)"
      by (simp only: dedup_after_snoc already_applied_eq(2)) auto
    then show ?thesis using snoc True dedup_inv_add by metis
  next
    case False
    then have "dedup_of (dedup_after (reps @ [rep])) k = ?s"
      by (auto simp: dedup_after_snoc already_applied_eq(2))
    moreover have "dedup_inv (reps @ [rep]) k ?s"
      using snoc False unfolding dedup_inv_def by fastforce
    ultimately show ?thesis by simp
  qed
qed

text \<open>
  Retried failure reports are idempotent and the memory for it is bounded:
  after any stream of reports, in any order, a report with the identity (data plane,
  generation, failure number) of one already processed is recognised as applied, while a
  report numbered above all those seen from its sender is not; and no sender ever has more
  than 4096 numbers remembered.
\<close>
theorem failure_at_most_once:
  "(\<forall>r \<in> set reps. fr_key r = fr_key rep \<and> fr_seq r = fr_seq rep \<longrightarrow>
       fst (failure_already_applied (dedup_after reps) rep))
   \<and> (1 \<le> fr_seq rep \<and> (\<forall>r \<in> set reps. fr_key r = fr_key rep \<longrightarrow> fr_seq r < fr_seq rep) \<longrightarrow>
       \<not> fst (failure_already_applied (dedup_after reps) rep))
   \<and> (\<forall>k s. dict_get (dedup_after reps) k = Some s \<longrightarrow> length (seen_seqs s) \<le> 4096)"
proof -
  note inv = dedup_after_inv [of reps "fr_key rep", unfolded dedup_inv_def]
  have "length (seen_seqs s) \<le> 4096" if "dict_get (dedup_after reps) k = Some s" for k s
    using dedup_after_inv [of reps k] that by (simp add: dedup_inv_def dedup_ok_def dedup_of_def)
  moreover have "\<not> blocked (dedup_of (dedup_after reps) (fr_key rep)) (fr_seq rep)"
    if "1 \<le> fr_seq rep" "\<forall>r \<in> set reps. fr_key r = fr_key rep \<longrightarrow> fr_seq r < fr_seq rep"
    using inv that by (fastforce simp: blocked_def)
  moreover have "fst (failure_already_applied (dedup_after reps) rep)"
    if "r \<in> set reps" "fr_key r = fr_key rep" "fr_seq r = fr_seq rep" for r
    using inv that by (metis already_applied_eq(1))
  ultimately show ?thesis by (simp add: already_applied_eq(1))
qed

subsection \<open>Workers are found under their ids\<close>

lemma hex_value_digit: "k < 16 \<Longrightarrow> hex_value (hex_digit k) = Some k"
  using hex_digit_value [of k] by (auto simp: hex_value_def Let_def)

lemma unquote_cons_plain: "c \<noteq> CHR ''%'' \<Longrightarrow> unquote (c # s) = c # unquote s"
  by (cases "c # s" rule: unquote.cases) (auto split: option.splits)

lemma unquote_quote: "unquote (worker_id_from_url u) = u"
proof (induction u)
  case (Cons c u)
  have lt: "of_char c div 16 < (16 :: nat)" "of_char c mod 16 < (16 :: nat)"
    using nat_of_char_less_256 [of c] by (simp_all add: less_mult_imp_div_less)
  have nu: "\<not> unreserved CHR ''%''" by (simp add: unreserved_def Let_def)
  show ?case
  proof (cases "unreserved c")
    case True
    then have "c \<noteq> CHR ''%''" using nu by auto
    then show ?thesis
      using True Cons by (simp add: worker_id_from_url_def quote_char_def unquote_cons_plain)
  next
    case False
    then show ?thesis
      using Cons lt by (simp add: worker_id_from_url_def quote_char_def hex_value_digit mult.commute)
  qed
qed (simp add: worker_id_from_url_def)

text \<open>
  Every worker is found under the id it publishes, and what is found under that id
  has the same URL: percent-decoding an id gives back the URL it was made from.
\<close>
theorem worker_lookup:
  assumes "w \<in> set ws"
  shows "\<exists>i < length ws. find_worker ws (worker_id w) = Some i \<and> worker_url (ws ! i) = worker_url w
    \<and> unquote (worker_id w) = worker_url w"
proof -
  have "(\<exists>w \<in> set ws. worker_url w = u) \<Longrightarrow>
      \<exists>i < length ws. find_worker ws (worker_id_from_url u) = Some i \<and> worker_url (ws ! i) = u" for u
  proof (induction ws)
    case (Cons v ws)
    show ?case
    proof (cases "worker_url v = u")
      case True
      then show ?thesis by (auto simp: worker_id_def)
    next
      case False
      then have "worker_id v \<noteq> worker_id_from_url u"
        by (metis unquote_quote worker_id_def)
      then show ?thesis using Cons False by (auto simp: unquote_quote)
    qed
  qed simp
  then show ?thesis using assms by (auto simp: worker_id_def unquote_quote)
qed

subsection \<open>Concrete instances\<close>

definition demo_msgs :: "channel_msg list" where
  "demo_msgs = [Reg \<lparr>h_dp = 0, h_generation = 2, h_pid = 9\<rparr> 1,
     Beat \<lparr>b_dp = 0, b_generation = 2, b_pid = 9, b_seq = 5, b_epoch = ''e'', b_serving = True\<rparr> 2]"

definition demo_record :: dp_record where
  "demo_record = \<lparr>dp_index = 0, generation = 2, pid = 9, last_applied_seq = 5,
     last_applied_epoch = ''e'', serving = True, last_seen_at = 2\<rparr>"

lemma demo_channel: "chan_run demo_msgs = [(0, demo_record)]"
  by (simp add: chan_run_def demo_msgs_def chan_step_def channel_register_def channel_heartbeat_def
      demo_record_def Let_def)

theorem ack_sound_witness:
  "ack_pending (chan_run demo_msgs) 3 6 ''e'' 5 (Some 1) = [] \<and>
   (\<exists>b t. Beat b t \<in> set demo_msgs \<and> b_epoch b = ''e'' \<and> 5 \<le> b_seq b)"
proof -
  have p: "ack_pending (chan_run demo_msgs) 3 6 ''e'' 5 (Some 1) = []"
    by (simp add: demo_channel ack_pending_def live_records_def dict_vals_def demo_record_def)
  from ack_sound [OF p _, of 0] p show ?thesis by auto
qed

theorem generation_fencing_witness:
  "channel_register (chan_run demo_msgs) \<lparr>h_dp = 0, h_generation = 1, h_pid = 4\<rparr> 7 = Inl StaleGenerationError"
proof -
  have "dict_get (chan_run demo_msgs) 0 = Some demo_record" by (simp add: demo_channel)
  from generation_fencing [OF this, of "[]"] show ?thesis by (auto simp: demo_channel demo_record_def)
qed

theorem health_sound_witness:
  "hv_status (fst (cp_health [demo_worker\<lparr>w_state := Healthy\<rparr>] (chan_run demo_msgs) 3 6 ''e'' (Some 1)
      (None :: (py_error + (nat \<times> int) list) option) None 1)) = ''healthy''
   \<and> (\<exists>r. r \<in> set (live_records (chan_run demo_msgs) 3 6) \<and> serving r)"
proof -
  let ?h = "cp_health [demo_worker\<lparr>w_state := Healthy\<rparr>] (chan_run demo_msgs) 3 6 ''e'' (Some 1)
      (None :: (py_error + (nat \<times> int) list) option) None 1"
  have h: "hv_status (fst ?h) = ''healthy''"
    by (simp add: cp_health_def Let_def demo_channel live_records_def dict_vals_def demo_record_def
        ready_indices_def unreadable_since_def demo_worker_def new_worker_def is_routable_def
        is_healthy_def)
  with health_sound [of "[demo_worker\<lparr>w_state := Healthy\<rparr>]" "chan_run demo_msgs" 3 6 "''e''" 1
      "None :: (py_error + (nat \<times> int) list) option" None 1 "fst ?h" "snd ?h"]
  show ?thesis by auto
qed

definition demo_report :: failure_report where
  "demo_report = \<lparr>fr_worker_id = ''w'', fr_status_code = None, fr_error = None, fr_incarnation = [],
      fr_dp_index = 0, fr_generation = 1, fr_seq = 3\<rparr>"

theorem failure_at_most_once_witness:
  "fst (failure_already_applied (dedup_after [demo_report]) demo_report)
   \<and> \<not> fst (failure_already_applied (dedup_after [demo_report]) (demo_report\<lparr>fr_seq := 4\<rparr>))"
  using failure_at_most_once [of "[demo_report]" demo_report]
    failure_at_most_once [of "[demo_report]" "demo_report\<lparr>fr_seq := 4\<rparr>"]
  by (simp add: demo_report_def fr_key_def)

theorem worker_lookup_witness:
  "find_worker [demo_worker] ''http%3A%2F%2Fa'' = Some 0"
proof -
  have "worker_id_from_url ''http://a'' = ''http%3A%2F%2Fa''" by code_simp
  then have "worker_id demo_worker = ''http%3A%2F%2Fa''"
    by (simp add: worker_id_def worker_url_def demo_worker_def new_worker_def)
  then show ?thesis using worker_lookup [of demo_worker "[demo_worker]"] by auto
qed

end
