(* ===== verification/Newer_Gate.thy ===== *)
theory Newer_Gate
  imports Prelude "HOL-Library.Option_ord"
begin

section \<open>The "apply only what is newer" interface\<close>

text \<open>
  Several receivers of the router apply a message only when its stamp is strictly newer than
  what they hold for its sender, so that re-delivery and reordering are harmless.  The
  contract is stated once, per sender (\<open>newer_channels\<close>) and for a single sender
  (\<open>newer_gate\<close>); the counter ledger and the snapshot reader are interpretations.
\<close>

locale newer_channels =
  fixes step :: "'m \<Rightarrow> 's \<Rightarrow> 's"
    and chan :: "'m \<Rightarrow> 'c"
    and key :: "'c \<Rightarrow> 's \<Rightarrow> 'k :: linorder"
    and stamp :: "'m \<Rightarrow> 'k"
  assumes stale: "stamp m \<le> key (chan m) s \<Longrightarrow> step m s = s"
    and fresh: "key (chan m) s < stamp m \<Longrightarrow> key (chan m) (step m s) = stamp m"
    and other: "c \<noteq> chan m \<Longrightarrow> key c (step m s) = key c s"
begin

lemma key_step: "key (chan m) (step m s) = max (key (chan m) s) (stamp m)"
  by (cases "stamp m \<le> key (chan m) s") (auto simp: stale fresh max_def)

lemma key_step_mono: "key c s \<le> key c (step m s)"
  by (cases "c = chan m") (simp_all add: key_step other)

lemma key_run_mono: "key c s \<le> key c (fold step ms s)"
proof (induction ms arbitrary: s)
  case (Cons m ms)
  have "key c s \<le> key c (step m s)" by (rule key_step_mono)
  also have "\<dots> \<le> key c (fold step ms (step m s))" by (rule Cons.IH)
  finally show ?case by simp
qed simp

lemma stamp_le_run: "m \<in> set ms \<Longrightarrow> stamp m \<le> key (chan m) (fold step ms s)"
proof (induction ms arbitrary: s)
  case (Cons x ms)
  show ?case
  proof (cases "m = x")
    case True
    have "stamp m \<le> key (chan m) (step m s)" by (simp add: key_step)
    also have "\<dots> \<le> key (chan m) (fold step ms (step m s))" by (rule key_run_mono)
    finally show ?thesis using True by simp
  next
    case False
    then show ?thesis using Cons by simp
  qed
qed simp

text \<open>Delivering again anything that was delivered before changes nothing.\<close>

lemma redelivery: "m \<in> set ms \<Longrightarrow> step m (fold step ms s) = fold step ms s"
  by (rule stale) (rule stamp_le_run)

lemma redelivery_run: "set ms' \<subseteq> set ms \<Longrightarrow> fold step ms' (fold step ms s) = fold step ms s"
  by (induction ms') (auto simp: redelivery)

end

locale newer_gate =
  fixes step :: "'m \<Rightarrow> 's \<Rightarrow> 's"
    and key :: "'s \<Rightarrow> 'k :: linorder"
    and stamp :: "'m \<Rightarrow> 'k"
  assumes gate_stale: "stamp m \<le> key s \<Longrightarrow> step m s = s"
    and gate_fresh: "key s < stamp m \<Longrightarrow> key (step m s) = stamp m"

sublocale newer_gate \<subseteq> newer_channels step "\<lambda>_. ()" "\<lambda>_. key" stamp
  by unfold_locales (auto intro: gate_stale gate_fresh)

end
