(* ===== verification/Router_Snapshot.thy ===== *)
theory Router_Snapshot
  imports Router_Worker Newer_Gate "HOL-Library.List_Lexorder" "HOL-Library.Char_ord"
begin

section \<open>The worker snapshot handed from the control plane to the data planes\<close>

text \<open>
  Models \<open>sglang_omni_router/snapshot.py\<close> and, from \<open>control_plane.py\<close>, \<open>snapshot_workers\<close> and
  \<open>restore_workers\<close>.  The file is its fingerprint (inode, size, mtime) with what JSON parsing of
  its contents yields (\<open>None\<close> for a torn or invalid file); serialisation by pydantic is outside
  the model.  \<open>maybe_reload\<close> takes fingerprint and contents at one instant, the source calls \<open>stat\<close> and
  then opens the file: a publication between the two calls is not modelled.
\<close>

record snapshot_worker =
  sw_url :: string
  sw_worker_id :: string
  sw_incarnation :: string
  sw_model :: "string option"
  sw_capabilities :: "string list"
  sw_routable :: bool
  sw_state :: worker_state
  sw_disabled :: bool

record worker_snapshot =
  ws_version :: int
  ws_seq :: int
  ws_epoch :: string
  ws_generated_at :: rat
  ws_workers :: "snapshot_worker list"

definition SNAPSHOT_SCHEMA_VERSION :: int where
  "SNAPSHOT_SCHEMA_VERSION = 1"

type_synonym fingerprint = "int \<times> int \<times> int"
type_synonym snapshot_file = "(fingerprint \<times> worker_snapshot option) option"

subsection \<open>The writer\<close>

record snapshot_writer =
  wr_epoch :: string
  wr_seq :: int

text \<open>\<open>publish\<close>: the replaced file, or an error of the temporary file that leaves the old one.\<close>

definition snapshot_publish ::
    "snapshot_writer \<Rightarrow> snapshot_worker list \<Rightarrow> rat \<Rightarrow> fingerprint res \<Rightarrow> snapshot_file \<Rightarrow>
     worker_snapshot res \<times> snapshot_writer \<times> snapshot_file" where
  "snapshot_publish w workers now write_result file =
     (let w' = w\<lparr>wr_seq := wr_seq w + 1\<rparr>;
          snap = \<lparr>ws_version = SNAPSHOT_SCHEMA_VERSION, ws_seq = wr_seq w', ws_epoch = wr_epoch w',
                  ws_generated_at = now, ws_workers = workers\<rparr>
      in case write_result of
           Inl e \<Rightarrow> (Inl e, w', file)
         | Inr fp \<Rightarrow> (Inr snap, w', Some (fp, Some snap)))"

definition snapshot_unlink :: "snapshot_file \<Rightarrow> snapshot_file" where
  "snapshot_unlink file = None"

subsection \<open>The reader\<close>

record snapshot_reader =
  last_fingerprint :: "fingerprint option"
  rd_snapshot :: "worker_snapshot option"

definition new_reader :: snapshot_reader where
  "new_reader = \<lparr>last_fingerprint = None, rd_snapshot = None\<rparr>"

definition reader_age :: "snapshot_reader \<Rightarrow> rat \<Rightarrow> rat option" where
  "reader_age r now = map_option (\<lambda>s. now - ws_generated_at s) (rd_snapshot r)"

text \<open>The acceptance rule: within one epoch only a strictly newer sequence number.\<close>

definition accept_snapshot ::
    "worker_snapshot \<Rightarrow> worker_snapshot option \<Rightarrow> worker_snapshot option" where
  "accept_snapshot new current =
     (case current of
        None \<Rightarrow> Some new
      | Some c \<Rightarrow> if ws_epoch new = ws_epoch c \<and> ws_seq new \<le> ws_seq c then Some c else Some new)"

definition maybe_reload :: "snapshot_reader \<Rightarrow> snapshot_file \<Rightarrow> bool \<times> snapshot_reader" where
  "maybe_reload r file =
     (case file of
        None \<Rightarrow> (False, r)
      | Some (fp, content) \<Rightarrow>
          if last_fingerprint r = Some fp then (False, r)
          else case content of
            None \<Rightarrow> (False, r)
          | Some s \<Rightarrow>
              if ws_version s \<noteq> SNAPSHOT_SCHEMA_VERSION then (False, r)
              else let r1 = r\<lparr>last_fingerprint := Some fp\<rparr> in
                   if (case rd_snapshot r of None \<Rightarrow> False
                       | Some c \<Rightarrow> ws_epoch s = ws_epoch c \<and> ws_seq s \<le> ws_seq c)
                   then (False, r1)
                   else (True, r1\<lparr>rd_snapshot := Some s\<rparr>))"

subsection \<open>The registry in a snapshot\<close>

definition snapshot_of_worker :: "worker \<Rightarrow> snapshot_worker" where
  "snapshot_of_worker w =
     \<lparr>sw_url = worker_url w, sw_worker_id = worker_id w, sw_incarnation = incarnation w,
      sw_model = worker_model w,
      sw_capabilities = sort (remdups (cfg_capabilities (w_config w))),
      sw_routable = is_routable w, sw_state = w_state w, sw_disabled = disabled w\<rparr>"

definition snapshot_workers :: "worker list \<Rightarrow> snapshot_worker list" where
  "snapshot_workers ws = map snapshot_of_worker ws"

text \<open>\<open>restore_workers\<close>; \<open>mk_config\<close> is the validating constructor of \<open>WorkerConfig\<close>.\<close>

definition restore_worker ::
    "(string \<Rightarrow> string option \<Rightarrow> string list \<Rightarrow> worker_config res) \<Rightarrow> string \<Rightarrow> snapshot_worker \<Rightarrow> worker res" where
  "restore_worker mk_config uuid e =
     bindE (mk_config (sw_url e) (sw_model e) (sw_capabilities e)) (\<lambda>cfg.
       let w = new_worker cfg uuid;
           w1 = (if sw_incarnation e \<noteq> [] then w\<lparr>incarnation := sw_incarnation e\<rparr> else w)
       in Inr (w1\<lparr>w_state := sw_state e, disabled := sw_disabled e\<rparr>))"

definition restore_workers ::
    "(string \<Rightarrow> string option \<Rightarrow> string list \<Rightarrow> worker_config res) \<Rightarrow> (nat \<Rightarrow> string) \<Rightarrow>
     worker_config list \<Rightarrow> snapshot_file \<Rightarrow> worker list res" where
  "restore_workers mk_config uuid configured file =
     (case file of
        None \<Rightarrow> Inr (build_workers configured uuid)
      | Some _ \<Rightarrow>
          (case maybe_reload new_reader file of
             (True, r) \<Rightarrow>
               (case rd_snapshot r of
                  None \<Rightarrow> Inl RuntimeError
                | Some s \<Rightarrow> mapE (\<lambda>(i, e). restore_worker mk_config (uuid i) e)
                              (enumerate 0 (ws_workers s)))
           | (False, _) \<Rightarrow> Inl RuntimeError))"

subsection \<open>The reader as a gate\<close>

definition epoch_key :: "string \<Rightarrow> worker_snapshot option \<Rightarrow> int option" where
  "epoch_key E s = (case s of None \<Rightarrow> None | Some c \<Rightarrow> if ws_epoch c = E then Some (ws_seq c) else None)"

interpretation snapshots: newer_gate "\<lambda>m. accept_snapshot (m\<lparr>ws_epoch := E\<rparr>)" "epoch_key E"
    "\<lambda>m. Some (ws_seq m)" for E
proof
  fix m s
  show "Some (ws_seq m) \<le> epoch_key E s \<Longrightarrow> accept_snapshot (m\<lparr>ws_epoch := E\<rparr>) s = s"
    by (cases s) (auto simp: accept_snapshot_def epoch_key_def split: if_splits)
  show "epoch_key E s < Some (ws_seq m) \<Longrightarrow>
      epoch_key E (accept_snapshot (m\<lparr>ws_epoch := E\<rparr>) s) = Some (ws_seq m)"
    by (cases s) (auto simp: accept_snapshot_def epoch_key_def split: if_splits)
qed

text \<open>
  Deliveries of one epoch's snapshots may be repeated and reordered at will: what
  the reader holds afterwards carries the highest sequence number delivered, and delivering
  any of them again changes nothing.
\<close>
theorem snapshot_gate:
  assumes ms: "\<forall>m \<in> set ms. ws_epoch m = E" and m: "m \<in> set ms"
  shows "(\<exists>s. fold accept_snapshot ms cur = Some s \<and> ws_epoch s = E \<and> ws_seq m \<le> ws_seq s)
    \<and> accept_snapshot m (fold accept_snapshot ms cur) = fold accept_snapshot ms cur"
proof -
  have same: "ms = map (\<lambda>m. m\<lparr>ws_epoch := E\<rparr>) ms"
    using ms by (intro nth_equalityI) auto
  have f: "fold (\<lambda>m. accept_snapshot (m\<lparr>ws_epoch := E\<rparr>)) ms cur = fold accept_snapshot ms cur"
    by (subst (2) same) (simp add: fold_map comp_def)
  have me: "m\<lparr>ws_epoch := E\<rparr> = m" using ms m by auto
  from snapshots.stamp_le_run [OF m, of E cur] f
  have "Some (ws_seq m) \<le> epoch_key E (fold accept_snapshot ms cur)" by simp
  moreover from snapshots.redelivery [OF m, of E cur] f me
  have "accept_snapshot m (fold accept_snapshot ms cur) = fold accept_snapshot ms cur" by simp
  ultimately show ?thesis
    by (auto simp: epoch_key_def split: option.splits if_splits)
qed

subsection \<open>Delivery\<close>

text \<open>
  The control plane and one data plane around the shared file.  A publish succeeds (the file
  gets a fingerprint never used before: \<open>os.replace\<close> gives a fresh inode) or fails before the
  replace; the control plane may restart, with an epoch never used before; the data plane
  polls.  \<open>w_used\<close> and \<open>e_used\<close> are the fingerprints and epochs spent so far.
\<close>

record snap_system =
  sy_writer :: snapshot_writer
  sy_file :: snapshot_file
  sy_reader :: snapshot_reader
  fp_used :: "fingerprint set"
  ep_used :: "string set"

inductive snap_step :: "snap_system \<Rightarrow> snap_system \<Rightarrow> bool" where
  publish: "fp \<notin> fp_used s \<Longrightarrow> snapshot_publish (sy_writer s) workers now (Inr fp) (sy_file s) = (r, w, f)
     \<Longrightarrow> snap_step s (s\<lparr>sy_writer := w, sy_file := f, fp_used := insert fp (fp_used s)\<rparr>)"
| publish_fails: "snapshot_publish (sy_writer s) workers now (Inl e) (sy_file s) = (r, w, f)
     \<Longrightarrow> snap_step s (s\<lparr>sy_writer := w, sy_file := f\<rparr>)"
| restart: "ep \<notin> ep_used s \<Longrightarrow>
     snap_step s (s\<lparr>sy_writer := \<lparr>wr_epoch = ep, wr_seq = 0\<rparr>, ep_used := insert ep (ep_used s)\<rparr>)"
| poll: "snap_step s (s\<lparr>sy_reader := snd (maybe_reload (sy_reader s) (sy_file s))\<rparr>)"

definition snap_start :: "string \<Rightarrow> snap_system" where
  "snap_start ep = \<lparr>sy_writer = \<lparr>wr_epoch = ep, wr_seq = 0\<rparr>, sy_file = None, sy_reader = new_reader,
     fp_used = {}, ep_used = {ep}\<rparr>"

text \<open>The reader is never ahead of the file, the file never ahead of the writer.\<close>

definition snap_inv :: "snap_system \<Rightarrow> bool" where
  "snap_inv s \<longleftrightarrow> wr_epoch (sy_writer s) \<in> ep_used s \<and>
     (case sy_file s of
        None \<Rightarrow> sy_reader s = new_reader
      | Some (fp, None) \<Rightarrow> False
      | Some (fp, Some f) \<Rightarrow> fp \<in> fp_used s \<and> ws_version f = SNAPSHOT_SCHEMA_VERSION \<and> ws_epoch f \<in> ep_used s
          \<and> (ws_epoch f = wr_epoch (sy_writer s) \<longrightarrow> ws_seq f \<le> wr_seq (sy_writer s))
          \<and> (\<forall>q. last_fingerprint (sy_reader s) = Some q \<longrightarrow> q \<in> fp_used s)
          \<and> (last_fingerprint (sy_reader s) = Some fp \<longrightarrow> rd_snapshot (sy_reader s) = Some f)
          \<and> (\<forall>c. rd_snapshot (sy_reader s) = Some c \<longrightarrow> ws_epoch c \<in> ep_used s
               \<and> (ws_epoch c = ws_epoch f \<longrightarrow> ws_seq c < ws_seq f \<or> c = f)
               \<and> (ws_epoch c = wr_epoch (sy_writer s) \<longrightarrow> ws_epoch c = ws_epoch f)))"

lemma snap_inv_file:
  assumes "sy_file s = Some (fp, Some f)"
  shows "snap_inv s \<longleftrightarrow> wr_epoch (sy_writer s) \<in> ep_used s \<and> fp \<in> fp_used s
     \<and> ws_version f = SNAPSHOT_SCHEMA_VERSION \<and> ws_epoch f \<in> ep_used s
     \<and> (ws_epoch f = wr_epoch (sy_writer s) \<longrightarrow> ws_seq f \<le> wr_seq (sy_writer s))
     \<and> (\<forall>q. last_fingerprint (sy_reader s) = Some q \<longrightarrow> q \<in> fp_used s)
     \<and> (last_fingerprint (sy_reader s) = Some fp \<longrightarrow> rd_snapshot (sy_reader s) = Some f)
     \<and> (\<forall>c. rd_snapshot (sy_reader s) = Some c \<longrightarrow> ws_epoch c \<in> ep_used s
          \<and> (ws_epoch c = ws_epoch f \<longrightarrow> ws_seq c < ws_seq f \<or> c = f)
          \<and> (ws_epoch c = wr_epoch (sy_writer s) \<longrightarrow> ws_epoch c = ws_epoch f))"
  unfolding snap_inv_def assms option.case prod.case ..

lemma poll_reads_file:
  assumes "snap_inv s" and "sy_file s = Some (fp, Some f)"
  shows "rd_snapshot (snd (maybe_reload (sy_reader s) (sy_file s))) = Some f"
proof (cases "last_fingerprint (sy_reader s) = Some fp")
  case True
  then show ?thesis using assms by (simp add: snap_inv_def maybe_reload_def)
next
  case False
  have v: "ws_version f = SNAPSHOT_SCHEMA_VERSION" using assms by (simp add: snap_inv_def)
  show ?thesis
  proof (cases "rd_snapshot (sy_reader s)")
    case None
    then show ?thesis using False v assms(2) by (simp add: maybe_reload_def Let_def)
  next
    case (Some c)
    then have "ws_epoch c = ws_epoch f \<longrightarrow> ws_seq c < ws_seq f \<or> c = f"
      using assms by (simp add: snap_inv_def)
    then show ?thesis using False v assms(2) Some by (auto simp: maybe_reload_def Let_def)
  qed
qed

lemma poll_fingerprint:
  "last_fingerprint (snd (maybe_reload r f)) = last_fingerprint r
   \<or> (\<exists>fp s. f = Some (fp, Some s) \<and> last_fingerprint (snd (maybe_reload r f)) = Some fp)"
  by (auto simp: maybe_reload_def Let_def split: option.splits)

lemma snap_inv_poll:
  assumes inv: "snap_inv s"
  shows "snap_inv (s\<lparr>sy_reader := snd (maybe_reload (sy_reader s) (sy_file s))\<rparr>)"
proof (cases "sy_file s")
  case None
  then show ?thesis using inv by (simp add: snap_inv_def maybe_reload_def)
next
  case (Some x)
  with inv obtain fp f where f: "sy_file s = Some (fp, Some f)"
    by (cases x) (auto simp: snap_inv_def split: option.splits)
  have wf: "ws_epoch f \<in> ep_used s" "fp \<in> fp_used s" using inv f by (auto simp: snap_inv_def)
  from poll_fingerprint [of "sy_reader s" "sy_file s"]
  have "\<forall>q. last_fingerprint (snd (maybe_reload (sy_reader s) (sy_file s))) = Some q \<longrightarrow> q \<in> fp_used s"
    using inv f wf by (auto simp: snap_inv_def)
  then show ?thesis
    using inv f wf poll_reads_file [OF inv f] by (auto simp: snap_inv_def)
qed

lemma snap_inv_step: "snap_step s s' \<Longrightarrow> snap_inv s \<Longrightarrow> snap_inv s'"
proof (induction rule: snap_step.induct)
  case (publish fp s workers now r w f)
  then have wf: "w = (sy_writer s)\<lparr>wr_seq := wr_seq (sy_writer s) + 1\<rparr>"
    "f = Some (fp, Some \<lparr>ws_version = SNAPSHOT_SCHEMA_VERSION, ws_seq = wr_seq (sy_writer s) + 1,
       ws_epoch = wr_epoch (sy_writer s), ws_generated_at = now, ws_workers = workers\<rparr>)"
    by (auto simp: snapshot_publish_def Let_def)
  show ?case
  proof (cases "sy_file s")
    case None
    then show ?thesis using publish.prems wf by (auto simp: snap_inv_def new_reader_def)
  next
    case (Some x)
    with publish.prems obtain fp0 f0 where f0: "sy_file s = Some (fp0, Some f0)"
      by (cases x) (auto simp: snap_inv_def split: option.splits)
    from publish.prems have inv: "wr_epoch (sy_writer s) \<in> ep_used s"
      "ws_epoch f0 = wr_epoch (sy_writer s) \<longrightarrow> ws_seq f0 \<le> wr_seq (sy_writer s)"
      "\<forall>q. last_fingerprint (sy_reader s) = Some q \<longrightarrow> q \<in> fp_used s"
      "\<forall>c. rd_snapshot (sy_reader s) = Some c \<longrightarrow> ws_epoch c \<in> ep_used s
         \<and> (ws_epoch c = ws_epoch f0 \<longrightarrow> ws_seq c < ws_seq f0 \<or> c = f0)
         \<and> (ws_epoch c = wr_epoch (sy_writer s) \<longrightarrow> ws_epoch c = ws_epoch f0)"
      unfolding snap_inv_file [OF f0] by blast+
    have newer: "ws_seq c < wr_seq (sy_writer s) + 1"
      if "rd_snapshot (sy_reader s) = Some c" "ws_epoch c = wr_epoch (sy_writer s)" for c
      using inv(2,4) that by force
    have "last_fingerprint (sy_reader s) \<noteq> Some fp" using inv(3) publish.hyps(1) by blast
    moreover have nf: "sy_file (s\<lparr>sy_writer := w, sy_file := f, fp_used := insert fp (fp_used s)\<rparr>)
        = Some (fp, Some \<lparr>ws_version = SNAPSHOT_SCHEMA_VERSION, ws_seq = wr_seq (sy_writer s) + 1,
           ws_epoch = wr_epoch (sy_writer s), ws_generated_at = now, ws_workers = workers\<rparr>)"
      by (simp add: wf)
    ultimately show ?thesis
      using inv(1,3,4) newer unfolding snap_inv_file [OF nf] by (simp add: wf)
  qed
next
  case (publish_fails s workers now e r w f)
  then have "w = (sy_writer s)\<lparr>wr_seq := wr_seq (sy_writer s) + 1\<rparr>" "f = sy_file s"
    by (auto simp: snapshot_publish_def Let_def)
  then show ?case using publish_fails.prems by (auto simp: snap_inv_def split: option.splits)
next
  case (restart ep s)
  then show ?case by (auto simp: snap_inv_def split: option.splits)
next
  case (poll s)
  then show ?case by (rule snap_inv_poll)
qed

text \<open>
  C35: Every poll delivers the newest publication: whatever interleaving of
  publications, failed publications, control-plane restarts (each with a new epoch, whose
  sequence numbers start again at 1) and polls has happened, a poll leaves the data plane
  with exactly the snapshot now in the file, never an older one it may have been holding.
\<close>
theorem snapshot_delivery:
  assumes run: "snap_step\<^sup>*\<^sup>* (snap_start ep) s" and inf: "sy_file s = Some (fp, content)"
  shows "\<exists>f. content = Some f
    \<and> rd_snapshot (snd (maybe_reload (sy_reader s) (sy_file s))) = Some f"
proof -
  have "snap_inv (snap_start ep)" by (simp add: snap_start_def snap_inv_def)
  with run have inv: "snap_inv s" by (induction rule: rtranclp_induct) (auto intro: snap_inv_step)
  then obtain f where "content = Some f"
    using inf by (auto simp: snap_inv_def split: option.splits)
  with poll_reads_file [OF inv] inf show ?thesis by simp
qed

subsection \<open>Recovery of the registry\<close>

lemma enumerate_zip: "enumerate n xs = zip [n..<n + length xs] xs"
  by (simp add: enumerate_eq_zip)

text \<open>
  A restarted control plane recovers the registry it published: from the file
  holding the snapshot of its workers it rebuilds, in order, workers with the same URL (hence
  id), model, capabilities, incarnation, state and disabled flag, so the same workers are
  routable.  The configuration constructor is assumed to accept a URL it has normalised
  before.
\<close>
theorem registry_recovered:
  assumes cfg: "\<forall>w \<in> set ws. \<forall>caps. mk_config (worker_url w) (worker_model w) caps
      = Inr \<lparr>cfg_url = worker_url w, cfg_model = worker_model w, cfg_capabilities = caps\<rparr>"
    and inc: "\<forall>w \<in> set ws. incarnation w \<noteq> []"
    and pub: "snapshot_publish wr (snapshot_workers ws) now (Inr fp) old = (r, wr', file)"
  shows "\<exists>ws'. restore_workers mk_config uuid configured file = Inr ws'
    \<and> list_all2 (\<lambda>w w'. worker_url w' = worker_url w \<and> worker_id w' = worker_id w
          \<and> worker_model w' = worker_model w \<and> (\<forall>c. supports w' c = supports w c)
          \<and> incarnation w' = incarnation w \<and> w_state w' = w_state w \<and> disabled w' = disabled w
          \<and> is_routable w' = is_routable w) ws ws'"
proof -
  let ?snap = "\<lparr>ws_version = SNAPSHOT_SCHEMA_VERSION, ws_seq = wr_seq wr + 1, ws_epoch = wr_epoch wr,
      ws_generated_at = now, ws_workers = snapshot_workers ws\<rparr>"
  have fcont: "file = Some (fp, Some ?snap)"
    using pub by (auto simp: snapshot_publish_def Let_def)
  have one: "\<exists>w'. restore_worker mk_config u (snapshot_of_worker w) = Inr w'
      \<and> worker_url w' = worker_url w \<and> worker_id w' = worker_id w
      \<and> worker_model w' = worker_model w \<and> (\<forall>c. supports w' c = supports w c)
      \<and> incarnation w' = incarnation w \<and> w_state w' = w_state w \<and> disabled w' = disabled w
      \<and> is_routable w' = is_routable w" if "w \<in> set ws" for w u
    using that cfg inc
    by (simp add: restore_worker_def snapshot_of_worker_def Let_def new_worker_def worker_url_def
        worker_model_def worker_id_def supports_def is_routable_def is_healthy_def)
  have "\<exists>ws'. mapE (\<lambda>(i, e). restore_worker mk_config (uuid i) e) (enumerate n (snapshot_workers ws1)) = Inr ws'
    \<and> list_all2 (\<lambda>w w'. worker_url w' = worker_url w \<and> worker_id w' = worker_id w
          \<and> worker_model w' = worker_model w \<and> (\<forall>c. supports w' c = supports w c)
          \<and> incarnation w' = incarnation w \<and> w_state w' = w_state w \<and> disabled w' = disabled w
          \<and> is_routable w' = is_routable w) ws1 ws'"
    if "set ws1 \<subseteq> set ws" for ws1 n
    using that
  proof (induction ws1 arbitrary: n)
    case Nil
    show ?case by (simp add: snapshot_workers_def)
  next
    case (Cons w ws1)
    from one [of w "uuid n"] Cons.prems obtain w' where
      "restore_worker mk_config (uuid n) (snapshot_of_worker w) = Inr w'"
      "worker_url w' = worker_url w \<and> worker_id w' = worker_id w
      \<and> worker_model w' = worker_model w \<and> (\<forall>c. supports w' c = supports w c)
      \<and> incarnation w' = incarnation w \<and> w_state w' = w_state w \<and> disabled w' = disabled w
      \<and> is_routable w' = is_routable w" by auto
    with Cons.IH [of "Suc n"] Cons.prems show ?case by (auto simp: snapshot_workers_def)
  qed
  from this [of ws 0] show ?thesis
    by (simp add: restore_workers_def fcont maybe_reload_def new_reader_def Let_def)
qed

definition demo_snap :: "int \<Rightarrow> worker_snapshot" where
  "demo_snap n = \<lparr>ws_version = 1, ws_seq = n, ws_epoch = ''e'', ws_generated_at = 0, ws_workers = []\<rparr>"

theorem snapshot_gate_witness:
  "\<exists>s. fold accept_snapshot [demo_snap 2, demo_snap 1] None = Some s \<and> 2 \<le> ws_seq s"
proof -
  have "\<forall>m \<in> set [demo_snap 2, demo_snap 1]. ws_epoch m = ''e''" by (simp add: demo_snap_def)
  from snapshot_gate [OF this, of "demo_snap 2" None] show ?thesis by (auto simp: demo_snap_def)
qed

theorem snapshot_delivery_witness:
  "rd_snapshot (snd (maybe_reload new_reader (Some ((1, 2, 3), Some (demo_snap 1))))) = Some (demo_snap 1)"
proof -
  let ?s = "(snap_start ''e'')\<lparr>sy_writer := \<lparr>wr_epoch = ''e'', wr_seq = 1\<rparr>,
      sy_file := Some ((1, 2, 3), Some (demo_snap 1)), fp_used := insert (1, 2, 3) {}\<rparr>"
  have "snap_step (snap_start ''e'') ?s"
    using snap_step.publish [of "(1, 2, 3)" "snap_start ''e''" "[]" 0]
    by (simp add: snap_start_def snapshot_publish_def Let_def demo_snap_def SNAPSHOT_SCHEMA_VERSION_def)
  then have "snap_step\<^sup>*\<^sup>* (snap_start ''e'') ?s" by blast
  from snapshot_delivery [OF this] show ?thesis by (simp add: snap_start_def)
qed

definition reg_worker :: worker where
  "reg_worker = (new_worker \<lparr>cfg_url = ''http://a'', cfg_model = None, cfg_capabilities = [''chat'']\<rparr> ''i'')
     \<lparr>w_state := Dead\<rparr>"

theorem registry_recovered_witness:
  "\<exists>w'. restore_workers (\<lambda>u m c. Inr \<lparr>cfg_url = u, cfg_model = m, cfg_capabilities = c\<rparr>) (\<lambda>_. ''n'') []
       (snd (snd (snapshot_publish \<lparr>wr_epoch = ''e'', wr_seq = 4\<rparr> (snapshot_workers [reg_worker]) 7
         (Inr (1, 2, 3)) None))) = Inr [w'] \<and> w_state w' = Dead \<and> worker_url w' = ''http://a''"
proof -
  let ?p = "snapshot_publish \<lparr>wr_epoch = ''e'', wr_seq = 4\<rparr> (snapshot_workers [reg_worker]) 7
         (Inr (1, 2, 3)) None"
  obtain r wr' snap_file where p: "?p = (r, wr', snap_file)" by (cases ?p)
  from registry_recovered [of "[reg_worker]" "\<lambda>u m c. Inr \<lparr>cfg_url = u, cfg_model = m, cfg_capabilities = c\<rparr>",
      OF _ _ p, of "\<lambda>_. ''n''" "[]"]
  show ?thesis unfolding p by (auto simp: reg_worker_def new_worker_def worker_url_def list_all2_Cons1)
qed

end
