(* ===== verification/Counter_Ledger.thy ===== *)
theory Counter_Ledger
  imports Newer_Gate
begin

section \<open>Aggregation of per-data-plane counters\<close>

text \<open>
  Models \<open>sglang_omni_router/observability.py\<close>: cumulative reports keyed by data plane,
  generation and sequence number, per-incarnation segments with baselines and high-water
  marks, retirement, and the totals shown.  The three counter names are a datatype; the clock
  is an argument.
\<close>

datatype counter_key = RoutedK | SuccessfulK | FailedK

record worker_counters =
  wc_worker_id :: string
  wc_incarnation :: string
  wc_total :: "counter_key \<Rightarrow> int"
  wc_active :: int
  wc_by_class :: "counter_key \<Rightarrow> (string, int) dict"

record counter_report =
  cr_dp :: nat
  cr_generation :: int
  cr_seq :: int
  cr_workers :: "worker_counters list"

record worker_ledger =
  baseline :: "counter_key \<Rightarrow> int"
  high_water :: "counter_key \<Rightarrow> int"
  class_baseline :: "counter_key \<Rightarrow> (string, int) dict"
  class_high_water :: "counter_key \<Rightarrow> (string, int) dict"
  wl_active :: int

record ledger_entry =
  le_generation :: int
  le_seq :: int
  le_reported_at :: rat
  le_workers :: "(string, (string, worker_ledger) dict) dict"

record counter_ledger =
  cl_entries :: "(nat, ledger_entry) dict"
  cl_retired :: "(string, counter_key \<Rightarrow> int) dict"
  cl_retired_by_class :: "(string, counter_key \<Rightarrow> (string, int) dict) dict"
  cl_seen :: "nat list"
  cl_liveness :: rat

definition new_ledger :: "rat \<Rightarrow> counter_ledger" where
  "new_ledger liv = \<lparr>cl_entries = [], cl_retired = [], cl_retired_by_class = [], cl_seen = [],
     cl_liveness = liv\<rparr>"

definition dict_get_or :: "('k, 'v) dict \<Rightarrow> 'k \<Rightarrow> 'v \<Rightarrow> 'v" where
  "dict_get_or d k v = (case dict_get d k of None \<Rightarrow> v | Some x \<Rightarrow> x)"

definition contribution :: "worker_ledger \<Rightarrow> counter_key \<Rightarrow> int" where
  "contribution l k = max 0 (high_water l k - baseline l k)"

definition class_contributions :: "worker_ledger \<Rightarrow> counter_key \<Rightarrow> (string, int) dict" where
  "class_contributions l k =
     map (\<lambda>(c, v). (c, max 0 (v - dict_get_or (class_baseline l k) c 0))) (class_high_water l k)"

definition add_counter_maps :: "(string, int) dict \<Rightarrow> (string, int) dict \<Rightarrow> (string, int) dict" where
  "add_counter_maps target source =
     fold (\<lambda>(c, v) t. dict_set t c (dict_get_or t c 0 + v)) source target"

definition retire_worker :: "string \<Rightarrow> worker_ledger \<Rightarrow> counter_ledger \<Rightarrow> counter_ledger" where
  "retire_worker wid l L =
     (let slot = dict_get_or (cl_retired L) wid (\<lambda>_. 0);
          class_slot = dict_get_or (cl_retired_by_class L) wid (\<lambda>_. [])
      in L\<lparr>cl_retired := dict_set (cl_retired L) wid (\<lambda>k. slot k + contribution l k),
           cl_retired_by_class := dict_set (cl_retired_by_class L) wid
             (\<lambda>k. add_counter_maps (class_slot k) (class_contributions l k))\<rparr>)"

text \<open>The segments of an entry under their \<open>(worker id, incarnation)\<close> keys.\<close>

definition segments :: "(string, (string, worker_ledger) dict) dict \<Rightarrow> ((string \<times> string) \<times> worker_ledger) list" where
  "segments pw = concat (map (\<lambda>(wid, segs). map (\<lambda>(inc, l). ((wid, inc), l)) segs) pw)"

definition retire_all :: "((string \<times> string) \<times> worker_ledger) list \<Rightarrow> counter_ledger \<Rightarrow> counter_ledger" where
  "retire_all segs L = fold (\<lambda>((wid, _), l). retire_worker wid l) segs L"

definition first_segment :: "bool \<Rightarrow> worker_counters \<Rightarrow> worker_ledger" where
  "first_segment first_contact item =
     \<lparr>baseline = (\<lambda>k. if first_contact then wc_total item k else 0), high_water = wc_total item,
      class_baseline = (\<lambda>k. if first_contact then wc_by_class item k else []),
      class_high_water = wc_by_class item, wl_active = wc_active item\<rparr>"

definition raise_segment :: "worker_counters \<Rightarrow> worker_ledger \<Rightarrow> worker_ledger" where
  "raise_segment item l =
     l\<lparr>high_water := (\<lambda>k. max (high_water l k) (wc_total item k)),
       class_high_water := (\<lambda>k. fold (\<lambda>(c, v) hw. dict_set hw c (max (dict_get_or hw c 0) v))
                                  (wc_by_class item k) (class_high_water l k)),
       wl_active := wc_active item\<rparr>"

type_synonym apply_state =
  "((string \<times> string) \<times> worker_ledger) list \<times> (string, (string, worker_ledger) dict) dict \<times> counter_ledger"

definition apply_item :: "bool \<Rightarrow> worker_counters \<Rightarrow> apply_state \<Rightarrow> apply_state" where
  "apply_item first_contact item st =
     (let (carried, pw, L) = st;
          wid = wc_worker_id item; inc = wc_incarnation item;
          l = (case dict_get carried (wid, inc) of
                 None \<Rightarrow> first_segment first_contact item
               | Some l \<Rightarrow> raise_segment item l);
          segs = dict_get_or pw wid [];
          L' = (case dict_get segs inc of None \<Rightarrow> L | Some dup \<Rightarrow> retire_worker wid dup L)
      in (dict_pop carried (wid, inc), dict_set pw wid (dict_set segs inc l), L'))"

definition ledger_apply :: "counter_report \<Rightarrow> rat \<Rightarrow> counter_ledger \<Rightarrow> bool res \<times> counter_ledger" where
  "ledger_apply rep now L =
     (let entry = dict_get (cl_entries L) (cr_dp rep);
          go = (\<lambda>carried L0.
            let first_contact = (cr_dp rep \<notin> set (cl_seen L0));
                L1 = (if first_contact then L0\<lparr>cl_seen := cr_dp rep # cl_seen L0\<rparr> else L0);
                (carried', pw, L2) = fold (apply_item first_contact) (cr_workers rep) (carried, [], L1);
                L3 = retire_all carried' L2
            in (Inr True, L3\<lparr>cl_entries := dict_set (cl_entries L3) (cr_dp rep)
                  \<lparr>le_generation = cr_generation rep, le_seq = cr_seq rep, le_reported_at = now,
                   le_workers = pw\<rparr>\<rparr>))
      in case entry of
           None \<Rightarrow> go [] L
         | Some e \<Rightarrow>
             if cr_generation rep < le_generation e then (Inl StaleCounterGenerationError, L)
             else if cr_generation rep = le_generation e \<and> cr_seq rep \<le> le_seq e then (Inr False, L)
             else if cr_generation rep > le_generation e
             then go [] (retire_all (segments (le_workers e)) L)
             else go (segments (le_workers e)) L)"

definition entry_ledgers :: "ledger_entry \<Rightarrow> string \<Rightarrow> worker_ledger list" where
  "entry_ledgers e wid = dict_vals (dict_get_or (le_workers e) wid [])"

definition ledger_totals :: "counter_ledger \<Rightarrow> string \<Rightarrow> counter_key \<Rightarrow> int" where
  "ledger_totals L wid k =
     dict_get_or (cl_retired L) wid (\<lambda>_. 0) k
     + sum_list (map (\<lambda>e. sum_list (map (\<lambda>l. contribution l k) (entry_ledgers e wid)))
                  (dict_vals (cl_entries L)))"

definition ledger_class_totals :: "counter_ledger \<Rightarrow> string \<Rightarrow> counter_key \<Rightarrow> (string, int) dict" where
  "ledger_class_totals L wid k =
     fold (\<lambda>e t. fold (\<lambda>l t'. add_counter_maps t' (class_contributions l k)) (entry_ledgers e wid) t)
       (dict_vals (cl_entries L)) (dict_get_or (cl_retired_by_class L) wid (\<lambda>_. []) k)"

definition active_gauge :: "counter_ledger \<Rightarrow> string \<Rightarrow> rat \<Rightarrow> int" where
  "active_gauge L wid now =
     sum_list (map (\<lambda>e. if now - le_reported_at e > cl_liveness L then 0
                        else sum_list (map wl_active (entry_ledgers e wid)))
                (dict_vals (cl_entries L)))"

definition ledger_overlay ::
    "counter_ledger \<Rightarrow> string \<Rightarrow> rat \<Rightarrow> int \<times> (counter_key \<Rightarrow> int) \<times> (counter_key \<Rightarrow> (string, int) dict)" where
  "ledger_overlay L wid now =
     (active_gauge L wid now, ledger_totals L wid, ledger_class_totals L wid)"

subsection \<open>Stamps\<close>

text \<open>A report is ordered by its generation, then by its sequence number.\<close>

datatype report_stamp = Stamp int int

instantiation report_stamp :: linorder
begin

definition less_eq_report_stamp :: "report_stamp \<Rightarrow> report_stamp \<Rightarrow> bool" where
  "less_eq_report_stamp x y =
     (case (x, y) of (Stamp g s, Stamp g' s') \<Rightarrow> g < g' \<or> (g = g' \<and> s \<le> s'))"

definition less_report_stamp :: "report_stamp \<Rightarrow> report_stamp \<Rightarrow> bool" where
  "less_report_stamp x y =
     (case (x, y) of (Stamp g s, Stamp g' s') \<Rightarrow> g < g' \<or> (g = g' \<and> s < s'))"

instance
proof
  fix x y z :: report_stamp
  show "x < y \<longleftrightarrow> x \<le> y \<and> \<not> y \<le> x"
    by (cases x; cases y) (auto simp: less_eq_report_stamp_def less_report_stamp_def)
  show "x \<le> x" by (cases x) (simp add: less_eq_report_stamp_def)
  show "x \<le> y \<Longrightarrow> y \<le> z \<Longrightarrow> x \<le> z"
    by (cases x; cases y; cases z) (auto simp: less_eq_report_stamp_def)
  show "x \<le> y \<Longrightarrow> y \<le> x \<Longrightarrow> x = y"
    by (cases x; cases y) (auto simp: less_eq_report_stamp_def)
  show "x \<le> y \<or> y \<le> x"
    by (cases x; cases y) (auto simp: less_eq_report_stamp_def)
qed

end

definition report_stamp_of :: "counter_report \<Rightarrow> report_stamp option" where
  "report_stamp_of rep = Some (Stamp (cr_generation rep) (cr_seq rep))"

definition ledger_stamp :: "nat \<Rightarrow> counter_ledger \<Rightarrow> report_stamp option" where
  "ledger_stamp i L = map_option (\<lambda>e. Stamp (le_generation e) (le_seq e)) (dict_get (cl_entries L) i)"

lemma retire_worker_entries [simp]:
  "cl_entries (retire_worker wid l L) = cl_entries L" "cl_seen (retire_worker wid l L) = cl_seen L"
  by (simp_all add: retire_worker_def Let_def)

lemma retire_all_entries [simp]:
  "cl_entries (retire_all segs L) = cl_entries L" "cl_seen (retire_all segs L) = cl_seen L"
  by (induction segs arbitrary: L) (auto simp: retire_all_def)

lemma apply_items_entries:
  "fold (apply_item fc) items (carried, pw, L) = (carried', pw', L') \<Longrightarrow>
     cl_entries L' = cl_entries L \<and> cl_seen L' = cl_seen L"
proof (induction items arbitrary: carried pw L)
  case (Cons x xs)
  obtain c1 p1 L1 where one: "apply_item fc x (carried, pw, L) = (c1, p1, L1)"
    by (cases "apply_item fc x (carried, pw, L)")
  have "cl_entries L1 = cl_entries L \<and> cl_seen L1 = cl_seen L"
    using one by (auto simp: apply_item_def Let_def split: option.splits)
  with Cons.IH [of c1 p1 L1] Cons.prems one show ?case by simp
qed simp

interpretation ledgers: newer_channels "\<lambda>(rep, now) L. snd (ledger_apply rep now L)"
    "\<lambda>(rep, now). cr_dp rep" ledger_stamp "\<lambda>(rep, now). report_stamp_of rep"
proof
  fix m :: "counter_report \<times> rat" and L :: counter_ledger and c :: nat
  obtain rep now where m: "m = (rep, now)" by (cases m)
  let ?L = "snd (ledger_apply rep now L)"
  have stale: "?L = L" if "report_stamp_of rep \<le> ledger_stamp (cr_dp rep) L"
    using that
    by (auto simp: ledger_apply_def ledger_stamp_def report_stamp_of_def less_eq_report_stamp_def Let_def
        split: option.splits)
  show "(case m of (rep, now) \<Rightarrow> report_stamp_of rep) \<le> ledger_stamp (case m of (rep, now) \<Rightarrow> cr_dp rep) L
      \<Longrightarrow> (case m of (rep, now) \<Rightarrow> \<lambda>L. snd (ledger_apply rep now L)) L = L"
    using stale by (simp add: m)
  show "ledger_stamp (case m of (rep, now) \<Rightarrow> cr_dp rep) L < (case m of (rep, now) \<Rightarrow> report_stamp_of rep)
      \<Longrightarrow> ledger_stamp (case m of (rep, now) \<Rightarrow> cr_dp rep)
            ((case m of (rep, now) \<Rightarrow> \<lambda>L. snd (ledger_apply rep now L)) L)
          = (case m of (rep, now) \<Rightarrow> report_stamp_of rep)"
    by (auto simp: m ledger_apply_def ledger_stamp_def report_stamp_of_def less_report_stamp_def Let_def
        split: option.splits prod.splits)
  show "c \<noteq> (case m of (rep, now) \<Rightarrow> cr_dp rep) \<Longrightarrow>
      ledger_stamp c ((case m of (rep, now) \<Rightarrow> \<lambda>L. snd (ledger_apply rep now L)) L) = ledger_stamp c L"
    by (auto simp: m ledger_apply_def ledger_stamp_def Let_def dest!: apply_items_entries
        split: option.splits prod.splits)
qed

end
