(* ===== verification/Counter_Ledger_Props.thy ===== *)
theory Counter_Ledger_Props
  imports Counter_Ledger
begin

section \<open>Displayed totals never move backwards\<close>

text \<open>
  Re-delivered and reordered reports change nothing, and no report of any kind can lower a
  displayed total.  The proof follows the code's bookkeeping: a segment's contribution is
  carried over, raised, or folded into the retired accumulator.
\<close>

definition ledger_run :: "(counter_report \<times> rat) list \<Rightarrow> rat \<Rightarrow> counter_ledger" where
  "ledger_run ms liv = fold (\<lambda>(rep, now) L. snd (ledger_apply rep now L)) ms (new_ledger liv)"

text \<open>
  Counter reports may be delivered again and in any order after their first
  delivery: whatever reports from whatever data planes have been processed, processing any of
  them again, singly or in sequence, changes nothing.
\<close>
theorem ledger_idempotent:
  assumes "set again \<subseteq> set ms"
  shows "fold (\<lambda>(rep, now) L. snd (ledger_apply rep now L)) again (ledger_run ms liv) = ledger_run ms liv"
  unfolding ledger_run_def by (rule ledgers.redelivery_run [OF assms])

subsection \<open>Sums over dictionaries\<close>

lemma sum_vals_set:
  "sum_list (map f (dict_vals (dict_set d k v))) =
     sum_list (map f (dict_vals d)) - (case dict_get d k of None \<Rightarrow> 0 | Some x \<Rightarrow> f x) + (f v :: int)"
  by (induction d) (auto simp: dict_vals_def)

lemma dict_get_or_set [simp]:
  "dict_get_or (dict_set d k v) k' x = (if k' = k then v else dict_get_or d k' x)"
  by (simp add: dict_get_or_def)

definition seg_sum :: "string \<Rightarrow> counter_key \<Rightarrow> ((string \<times> string) \<times> worker_ledger) list \<Rightarrow> int" where
  "seg_sum wid k segs = sum_list (map (\<lambda>((w, _), l). if w = wid then contribution l k else 0) segs)"

lemma seg_sum_simps [simp]:
  "seg_sum wid k [] = 0"
  "seg_sum wid k (((w, i), l) # segs) = (if w = wid then contribution l k else 0) + seg_sum wid k segs"
  "seg_sum wid k (xs @ ys) = seg_sum wid k xs + seg_sum wid k ys"
  by (simp_all add: seg_sum_def)

lemma seg_sum_pop:
  "dict_wf segs \<Longrightarrow> seg_sum wid k (dict_pop segs (w, i)) = seg_sum wid k segs
     - (case dict_get segs (w, i) of None \<Rightarrow> 0 | Some l \<Rightarrow> if w = wid then contribution l k else 0)"
proof (induction segs)
  case (Cons x segs)
  obtain w' i' l' where x: "x = ((w', i'), l')" by (metis surj_pair)
  show ?case
  proof (cases "(w', i') = (w, i)")
    case True
    then have "dict_get segs (w, i) = None"
      using Cons.prems by (auto simp: x dict_wf_def dict_get_None)
    then have "seg_sum wid k (dict_pop segs (w, i)) = seg_sum wid k segs"
      using Cons by (simp add: dict_wf_def)
    then show ?thesis using True by (simp add: x)
  next
    case False
    then show ?thesis using Cons by (auto simp: x dict_wf_def)
  qed
qed simp

definition pw_wf :: "(string, (string, worker_ledger) dict) dict \<Rightarrow> bool" where
  "pw_wf pw \<longleftrightarrow> dict_wf pw \<and> (\<forall>(w, segs) \<in> set pw. dict_wf segs)"

lemma segments_Cons: "segments ((w, segs) # pw) = map (\<lambda>(i, l). ((w, i), l)) segs @ segments pw"
  by (simp add: segments_def)

lemma segments_keys: "(w, i) \<in> fst ` set (segments pw) \<Longrightarrow> w \<in> fst ` set pw"
  by (force simp: segments_def)

lemma segments_wf: "pw_wf pw \<Longrightarrow> dict_wf (segments pw)"
proof (induction pw)
  case Nil
  show ?case by (simp add: segments_def)
next
  case (Cons x pw)
  obtain w segs where x: "x = (w, segs)" by (cases x)
  have tl: "dict_wf (segments pw)" and w: "w \<notin> fst ` set pw" and s: "dict_wf segs"
    using Cons by (auto simp: pw_wf_def x dict_wf_def)
  have f: "map fst (map (\<lambda>(i, l). ((w, i), l)) segs) = map (Pair w) (map fst segs)"
    by (induction segs) auto
  have "distinct (map (Pair w) (map fst segs))"
    using s by (simp add: dict_wf_def distinct_map inj_on_def)
  moreover have "set (map (Pair w) (map fst segs)) \<inter> fst ` set (segments pw) = {}"
  proof -
    have "(w, i) \<notin> fst ` set (segments pw)" for i using w segments_keys by blast
    then show ?thesis by (auto simp del: fst_conv)
  qed
  ultimately show ?case
    using tl by (simp only: x segments_Cons dict_wf_def map_append f distinct_append set_map)
qed

lemma seg_sum_segments:
  "pw_wf pw \<Longrightarrow> seg_sum wid k (segments pw)
     = sum_list (map (\<lambda>l. contribution l k) (dict_vals (dict_get_or pw wid [])))"
proof (induction pw)
  case Nil
  show ?case by (simp add: segments_def dict_get_or_def dict_vals_def)
next
  case (Cons x pw)
  obtain w segs where x: "x = (w, segs)" by (cases x)
  have one: "seg_sum wid k (map (\<lambda>(i, l). ((w, i), l)) segs)
      = (if w = wid then sum_list (map (\<lambda>l. contribution l k) (dict_vals segs)) else 0)" for segs
    by (induction segs) (auto simp: dict_vals_def)
  have none: "dict_get_or pw wid [] = []" if "w = wid"
    using Cons.prems that by (auto simp: pw_wf_def x dict_wf_def dict_get_or_def dict_get_None split: option.splits
        dest!: dict_get_in) (force dest: dict_get_in)?
  have "pw_wf pw" using Cons.prems by (auto simp: pw_wf_def x dict_wf_def)
  with Cons.IH none show ?case
    by (auto simp: x segments_Cons one dict_get_or_def dict_vals_def)
qed

subsection \<open>One report\<close>

definition retired_of :: "counter_ledger \<Rightarrow> string \<Rightarrow> counter_key \<Rightarrow> int" where
  "retired_of L wid k = dict_get_or (cl_retired L) wid (\<lambda>_. 0) k"

lemma retired_of_worker [simp]:
  "retired_of (retire_worker w l L) wid k = retired_of L wid k + (if w = wid then contribution l k else 0)"
  by (auto simp: retired_of_def retire_worker_def dict_get_or_def Let_def split: option.splits)

lemma retired_of_all: "retired_of (retire_all segs L) wid k = retired_of L wid k + seg_sum wid k segs"
proof (induction segs arbitrary: L)
  case (Cons x segs)
  obtain w i l where x: "x = ((w, i), l)" by (metis surj_pair)
  show ?case using Cons [of "retire_worker w l L"] by (simp add: x retire_all_def)
qed (simp add: retire_all_def)

fun potential :: "string \<Rightarrow> counter_key \<Rightarrow> apply_state \<Rightarrow> int" where
  "potential wid k (carried, pw, L) = retired_of L wid k + seg_sum wid k carried
     + sum_list (map (\<lambda>l. contribution l k) (dict_vals (dict_get_or pw wid [])))"

fun state_wf :: "apply_state \<Rightarrow> bool" where
  "state_wf (carried, pw, L) \<longleftrightarrow> dict_wf carried \<and> pw_wf pw"

lemma contribution_nonneg [simp]: "0 \<le> contribution l k"
  by (simp add: contribution_def)

lemma contribution_first: "contribution (first_segment True item) k = 0"
  by (simp add: contribution_def first_segment_def)

lemma contribution_raise: "contribution l k \<le> contribution (raise_segment item l) k"
  by (simp add: contribution_def raise_segment_def)

lemma pw_wf_set: "pw_wf pw \<Longrightarrow> dict_wf segs \<Longrightarrow> pw_wf (dict_set pw w segs)"
  using dict_set_subset [of pw w segs] by (auto simp: pw_wf_def)

lemma pw_wf_get: "pw_wf pw \<Longrightarrow> dict_wf (dict_get_or pw w [])"
  by (auto simp: pw_wf_def dict_get_or_def split: option.splits dest: dict_get_in)

lemma apply_item_potential:
  assumes wf: "state_wf st"
  shows "state_wf (apply_item fc item st)
    \<and> potential wid k st \<le> potential wid k (apply_item fc item st)
    \<and> (fc \<and> fst st = [] \<longrightarrow> fst (apply_item fc item st) = []
         \<and> potential wid k (apply_item fc item st) = potential wid k st)"
proof -
  obtain carried pw L where st: "st = (carried, pw, L)" by (cases st)
  let ?w = "wc_worker_id item" and ?i = "wc_incarnation item"
  let ?old = "dict_get carried (?w, ?i)" and ?segs = "dict_get_or pw ?w []"
  let ?l = "case ?old of None \<Rightarrow> first_segment fc item | Some l \<Rightarrow> raise_segment item l"
  let ?L = "case dict_get ?segs ?i of None \<Rightarrow> L | Some dup \<Rightarrow> retire_worker ?w dup L"
  have it: "apply_item fc item (carried, pw, L) = (dict_pop carried (?w, ?i), dict_set pw ?w (dict_set ?segs ?i ?l), ?L)"
    by (simp add: apply_item_def Let_def)
  have wf': "dict_wf carried" "pw_wf pw" using wf by (simp_all add: st)
  have gain: "(case ?old of None \<Rightarrow> 0 | Some l \<Rightarrow> contribution l k) \<le> contribution ?l k"
    by (cases ?old) (simp_all add: contribution_raise)
  have ret: "retired_of ?L wid k = retired_of L wid k
      + (if ?w = wid then (case dict_get ?segs ?i of None \<Rightarrow> 0 | Some d \<Rightarrow> contribution d k) else 0)"
    by (cases "dict_get ?segs ?i") auto
  have pot: "potential wid k (apply_item fc item st) = potential wid k st
      + (if ?w = wid then contribution ?l k - (case ?old of None \<Rightarrow> 0 | Some l \<Rightarrow> contribution l k) else 0)"
  proof (cases "?w = wid")
    case True
    then show ?thesis
      by (simp add: it st ret seg_sum_pop [OF wf'(1)] sum_vals_set split: option.splits)
  next
    case False
    then show ?thesis
      by (simp add: it st ret seg_sum_pop [OF wf'(1)] split: option.splits)
  qed
  have "state_wf (apply_item fc item st)"
    using wf' by (simp add: st it pw_wf_set pw_wf_get)
  moreover have "fc \<and> fst st = [] \<longrightarrow> fst (apply_item fc item st) = []
         \<and> potential wid k (apply_item fc item st) = potential wid k st"
  proof (intro impI conjI; elim conjE)
    assume h: "fc" "fst st = []"
    show "fst (apply_item fc item st) = []" using h it by (simp add: st)
    show "potential wid k (apply_item fc item st) = potential wid k st"
      unfolding pot using h by (simp add: st contribution_first)
  qed
  ultimately show ?thesis using pot gain by auto
qed

lemma apply_items_potential:
  "state_wf st \<Longrightarrow> state_wf (fold (apply_item fc) items st)
    \<and> potential wid k st \<le> potential wid k (fold (apply_item fc) items st)
    \<and> (fc \<and> fst st = [] \<longrightarrow> fst (fold (apply_item fc) items st) = []
         \<and> potential wid k (fold (apply_item fc) items st) = potential wid k st)"
proof (induction items arbitrary: st)
  case (Cons x xs)
  from apply_item_potential [OF Cons.prems, of fc x wid k] Cons.IH [of "apply_item fc x st"]
  show ?case by (auto intro: order_trans)
qed simp

definition entry_sum :: "string \<Rightarrow> counter_key \<Rightarrow> ledger_entry \<Rightarrow> int" where
  "entry_sum wid k e = sum_list (map (\<lambda>l. contribution l k) (entry_ledgers e wid))"

lemma ledger_totals_alt:
  "ledger_totals L wid k = retired_of L wid k + sum_list (map (entry_sum wid k) (dict_vals (cl_entries L)))"
  by (simp add: ledger_totals_def retired_of_def entry_sum_def [abs_def])

text \<open>The part of \<open>apply\<close> after the staleness checks.\<close>

definition ledger_commit ::
    "counter_report \<Rightarrow> rat \<Rightarrow> ((string \<times> string) \<times> worker_ledger) list \<Rightarrow> counter_ledger \<Rightarrow> counter_ledger" where
  "ledger_commit rep now carried L0 =
     (let first_contact = (cr_dp rep \<notin> set (cl_seen L0));
          L1 = (if first_contact then L0\<lparr>cl_seen := cr_dp rep # cl_seen L0\<rparr> else L0);
          (carried', pw, L2) = fold (apply_item first_contact) (cr_workers rep) (carried, [], L1);
          L3 = retire_all carried' L2
      in L3\<lparr>cl_entries := dict_set (cl_entries L3) (cr_dp rep)
            \<lparr>le_generation = cr_generation rep, le_seq = cr_seq rep, le_reported_at = now,
             le_workers = pw\<rparr>\<rparr>)"

lemma ledger_apply_commit:
  "snd (ledger_apply rep now L) =
     (case dict_get (cl_entries L) (cr_dp rep) of
        None \<Rightarrow> ledger_commit rep now [] L
      | Some e \<Rightarrow>
          if cr_generation rep < le_generation e \<or> (cr_generation rep = le_generation e \<and> cr_seq rep \<le> le_seq e)
          then L
          else if cr_generation rep > le_generation e
          then ledger_commit rep now [] (retire_all (segments (le_workers e)) L)
          else ledger_commit rep now (segments (le_workers e)) L)"
  by (auto simp: ledger_apply_def ledger_commit_def Let_def split: option.splits prod.splits)

definition ledger_wf :: "counter_ledger \<Rightarrow> bool" where
  "ledger_wf L \<longleftrightarrow> (\<forall>(i, e) \<in> set (cl_entries L). pw_wf (le_workers e))
     \<and> fst ` set (cl_entries L) \<subseteq> set (cl_seen L)"

lemma ledger_commit_totals:
  assumes wf: "dict_wf carried" and lw: "ledger_wf L0"
    and old: "retired_of L0 wid k + seg_sum wid k carried =
        retired_of L wid k + (case dict_get (cl_entries L) (cr_dp rep) of None \<Rightarrow> 0 | Some e \<Rightarrow> entry_sum wid k e)"
    and same: "cl_entries L0 = cl_entries L"
  shows "ledger_totals L wid k \<le> ledger_totals (ledger_commit rep now carried L0) wid k
    \<and> ledger_wf (ledger_commit rep now carried L0)
    \<and> (cr_dp rep \<notin> set (cl_seen L0) \<and> carried = [] \<longrightarrow>
         ledger_totals (ledger_commit rep now carried L0) wid k = ledger_totals L wid k)"
proof -
  let ?fc = "cr_dp rep \<notin> set (cl_seen L0)"
  let ?L1 = "if ?fc then L0\<lparr>cl_seen := cr_dp rep # cl_seen L0\<rparr> else L0"
  let ?st = "(carried, [], ?L1)"
  obtain carried' pw L2 where f: "fold (apply_item ?fc) (cr_workers rep) ?st = (carried', pw, L2)"
    by (cases "fold (apply_item ?fc) (cr_workers rep) ?st")
  have "state_wf ?st" using wf by (simp add: pw_wf_def)
  from apply_items_potential [OF this, of ?fc "cr_workers rep" wid k] f
  have pw: "dict_wf carried'" "pw_wf pw"
    and le: "potential wid k ?st \<le> potential wid k (carried', pw, L2)"
    and eq: "?fc \<and> carried = [] \<longrightarrow> potential wid k (carried', pw, L2) = potential wid k ?st"
    by auto
  have init: "potential wid k ?st = retired_of L0 wid k + seg_sum wid k carried"
    by (simp add: retired_of_def dict_get_or_def dict_vals_def)
  have ent: "cl_entries L2 = cl_entries L" "cl_seen L2 = cl_seen ?L1"
    using apply_items_entries [OF f] same by auto
  let ?e = "\<lparr>le_generation = cr_generation rep, le_seq = cr_seq rep, le_reported_at = now, le_workers = pw\<rparr>"
  have c: "ledger_commit rep now carried L0 =
      (retire_all carried' L2)\<lparr>cl_entries := dict_set (cl_entries L) (cr_dp rep) ?e\<rparr>"
    using f ent by (simp add: ledger_commit_def Let_def)
  have tot: "ledger_totals (ledger_commit rep now carried L0) wid k = potential wid k (carried', pw, L2)
      + sum_list (map (entry_sum wid k) (dict_vals (cl_entries L)))
      - (case dict_get (cl_entries L) (cr_dp rep) of None \<Rightarrow> 0 | Some e \<Rightarrow> entry_sum wid k e)"
  proof -
    have "retired_of (ledger_commit rep now carried L0) wid k = retired_of (retire_all carried' L2) wid k"
      by (simp add: c retired_of_def)
    moreover have "entry_sum wid k ?e = sum_list (map (\<lambda>l. contribution l k) (dict_vals (dict_get_or pw wid [])))"
      by (simp add: entry_sum_def entry_ledgers_def)
    ultimately show ?thesis
      by (simp add: ledger_totals_alt retired_of_all sum_vals_set) (simp add: c sum_vals_set)
  qed
  from dict_set_subset [of "cl_entries L" "cr_dp rep" ?e] have "ledger_wf (ledger_commit rep now carried L0)"
    using lw pw ent same by (auto simp: ledger_wf_def c dict_keys_set_set)
  with le eq tot init old show ?thesis by (auto simp: ledger_totals_alt split: option.splits)
qed

lemma ledger_apply_totals:
  assumes lw: "ledger_wf L"
  shows "ledger_totals L wid k \<le> ledger_totals (snd (ledger_apply rep now L)) wid k
    \<and> ledger_wf (snd (ledger_apply rep now L))
    \<and> (cr_dp rep \<notin> set (cl_seen L) \<longrightarrow> ledger_totals (snd (ledger_apply rep now L)) wid k = ledger_totals L wid k)"
proof (cases "dict_get (cl_entries L) (cr_dp rep)")
  case None
  then show ?thesis
    using ledger_commit_totals [of "[]" L wid k L rep now] lw by (simp add: ledger_apply_commit)
next
  case (Some e)
  then have pe: "pw_wf (le_workers e)" and seen: "cr_dp rep \<in> set (cl_seen L)"
    using lw dict_get_in [OF Some] by (auto simp: ledger_wf_def)
  have es: "seg_sum wid k (segments (le_workers e)) = entry_sum wid k e"
    using seg_sum_segments [OF pe] by (simp add: entry_sum_def entry_ledgers_def)
  have lw': "ledger_wf (retire_all (segments (le_workers e)) L)" using lw by (simp add: ledger_wf_def)
  note a = ledger_commit_totals [of "[]" "retire_all (segments (le_workers e)) L" wid k L rep now]
  note b = ledger_commit_totals [of "segments (le_workers e)" L wid k L rep now]
  show ?thesis
    using a b lw lw' Some es seen segments_wf [OF pe]
    by (simp add: ledger_apply_commit retired_of_all)
qed

lemma ledger_run_snoc: "ledger_run (ms @ [(rep, now)]) liv = snd (ledger_apply rep now (ledger_run ms liv))"
  by (simp add: ledger_run_def)

lemma ledger_run_wf: "ledger_wf (ledger_run ms liv)"
proof (induction ms rule: rev_induct)
  case Nil
  show ?case by (simp add: ledger_run_def new_ledger_def ledger_wf_def)
next
  case (snoc m ms)
  obtain rep now where "m = (rep, now)" by (cases m)
  with ledger_apply_totals [OF snoc] show ?case by (simp add: ledger_run_snoc)
qed

text \<open>
  Displayed totals never move backwards and a first report is only a baseline:
  after any reports whatsoever, processing one more (new, stale, duplicate, of a respawned
  data plane, with regressed counters, with workers missing, re-added or repeated) leaves every
  total of every worker at least as high, and the very first report of a data plane leaves
  them exactly as they were.
\<close>
theorem ledger_monotone:
  "ledger_totals (ledger_run ms liv) wid k \<le> ledger_totals (ledger_run (ms @ [(rep, now)]) liv) wid k
   \<and> ((\<forall>(r, t) \<in> set ms. cr_dp r \<noteq> cr_dp rep) \<longrightarrow>
        ledger_totals (ledger_run (ms @ [(rep, now)]) liv) wid k = ledger_totals (ledger_run ms liv) wid k)"
proof -
  have seen: "set (cl_seen (ledger_run ms liv)) \<subseteq> (\<lambda>(r, t). cr_dp r) ` set ms"
  proof (induction ms rule: rev_induct)
    case Nil
    show ?case by (simp add: ledger_run_def new_ledger_def)
  next
    case (snoc m ms)
    obtain r t where m: "m = (r, t)" by (cases m)
    have "set (cl_seen (snd (ledger_apply r t L))) \<subseteq> insert (cr_dp r) (set (cl_seen L))" for L
      by (auto simp: ledger_apply_def Let_def dest!: apply_items_entries split: option.splits prod.splits if_splits)
    with snoc show ?case by (fastforce simp: m ledger_run_snoc)
  qed
  have "cr_dp rep \<notin> set (cl_seen (ledger_run ms liv))" if "\<forall>(r, t) \<in> set ms. cr_dp r \<noteq> cr_dp rep"
    using seen that by fastforce
  with ledger_apply_totals [OF ledger_run_wf, of ms liv wid k rep now] show ?thesis
    by (simp add: ledger_run_snoc)
qed

definition demo_counter_report :: "int \<Rightarrow> int \<Rightarrow> counter_report" where
  "demo_counter_report s n = \<lparr>cr_dp = 0, cr_generation = 1, cr_seq = s, cr_workers =
     [\<lparr>wc_worker_id = ''w'', wc_incarnation = ''i'', wc_total = (\<lambda>_. n), wc_active = 0,
       wc_by_class = (\<lambda>_. [])\<rparr>]\<rparr>"

theorem ledger_idempotent_witness:
  "snd (ledger_apply (demo_counter_report 1 5) 0 (ledger_run [(demo_counter_report 1 5, 0)] 3))
     = ledger_run [(demo_counter_report 1 5, 0)] 3"
  using ledger_idempotent [of "[(demo_counter_report 1 5, 0)]" "[(demo_counter_report 1 5, 0)]" 3] by simp

theorem ledger_monotone_witness:
  "ledger_totals (ledger_run [(demo_counter_report 1 5, 0)] 3) ''w'' RoutedK
     = ledger_totals (ledger_run [] 3) ''w'' RoutedK"
  using ledger_monotone [of "[]" 3 "''w''" RoutedK "demo_counter_report 1 5" 0] by simp

end
