(* ===== verification/Seqlock.thy ===== *)
theory Seqlock
  imports Prelude
begin

section \<open>The seqlock of a shared-memory admission slot\<close>

text \<open>
  Models \<open>SlotCodec\<close> of \<open>sglang_omni_router/admission_shm.py\<close>.  A slot is eight words; the
  reader and the writer are separate processes, so the writer is a step relation that stores
  one word at a time and may die between any two stores, and the reader is a function of the
  trace of memory contents its loads see: load number \<open>n\<close> of a read happens at instant \<open>n\<close>,
  and any number of writer steps may separate two instants.  Stores become visible in program
  order, as the platform note of the source demands.  \<open>struct.error\<close> for values outside 64 bits
  is not modelled; sequence numbers stay far below that bound.
\<close>

subsection \<open>Slots\<close>

record slot_view =
  sv_seq :: int
  sv_inflight :: int
  sv_peak_sum :: int
  sv_rejected_total :: int
  sv_generation :: int
  sv_pid :: int
  sv_heartbeat_ts :: rat

text \<open>The seven values of \<open>_FIELDS_FORMAT\<close>; the trailing padding word is always 0.\<close>

record slot_fields =
  f_inflight :: int
  f_peak_sum :: int
  f_rejected_total :: int
  f_generation :: int
  f_pid :: int
  f_heartbeat_ts :: rat

definition slot_of :: "int \<Rightarrow> slot_fields \<Rightarrow> slot_view" where
  "slot_of s f =
     \<lparr>sv_seq = s, sv_inflight = f_inflight f, sv_peak_sum = f_peak_sum f,
      sv_rejected_total = f_rejected_total f, sv_generation = f_generation f,
      sv_pid = f_pid f, sv_heartbeat_ts = f_heartbeat_ts f\<rparr>"

definition zero_slot :: slot_view where
  "zero_slot = \<lparr>sv_seq = 0, sv_inflight = 0, sv_peak_sum = 0, sv_rejected_total = 0,
                sv_generation = 0, sv_pid = 0, sv_heartbeat_ts = 0\<rparr>"

text \<open>\<open>create_admission_file\<close>: one zeroed slot per data plane and the retired slot.\<close>

definition create_admission_file :: "nat \<Rightarrow> slot_view list" where
  "create_admission_file slots = replicate (slots + 1) zero_slot"

definition retired_slot_index :: "nat \<Rightarrow> nat" where
  "retired_slot_index slots = slots"

subsection \<open>The writer\<close>

text \<open>\<open>seq | 1\<close>.\<close>

definition write_marker :: "slot_view \<Rightarrow> int" where
  "write_marker v = or (sv_seq v) 1"

definition begin_write :: "slot_view \<Rightarrow> slot_view" where
  "begin_write v = v\<lparr>sv_seq := write_marker v\<rparr>"

text \<open>The \<open>k\<close>-th word store of \<open>pack_into(_FIELDS_FORMAT, ...)\<close>.\<close>

definition store_field :: "slot_fields \<Rightarrow> nat \<Rightarrow> slot_view \<Rightarrow> slot_view" where
  "store_field f k v =
     (if k = 0 then v\<lparr>sv_inflight := f_inflight f\<rparr>
      else if k = 1 then v\<lparr>sv_peak_sum := f_peak_sum f\<rparr>
      else if k = 2 then v\<lparr>sv_rejected_total := f_rejected_total f\<rparr>
      else if k = 3 then v\<lparr>sv_generation := f_generation f\<rparr>
      else if k = 4 then v\<lparr>sv_pid := f_pid f\<rparr>
      else v\<lparr>sv_heartbeat_ts := f_heartbeat_ts f\<rparr>)"

definition write_fields :: "slot_fields \<Rightarrow> slot_view \<Rightarrow> slot_view" where
  "write_fields f v = fold (store_field f) [0..<6] v"

definition end_write :: "int \<Rightarrow> slot_view \<Rightarrow> slot_view" where
  "end_write marker v = v\<lparr>sv_seq := marker + 1\<rparr>"

definition slot_write :: "slot_fields \<Rightarrow> slot_view \<Rightarrow> slot_view" where
  "slot_write f v = end_write (write_marker v) (write_fields f (begin_write v))"

definition slot_reclaim :: "rat \<Rightarrow> slot_view \<Rightarrow> slot_view" where
  "slot_reclaim now v =
     slot_write \<lparr>f_inflight = 0, f_peak_sum = 0, f_rejected_total = 0, f_generation = 0,
                 f_pid = 0, f_heartbeat_ts = now\<rparr> v"

text \<open>
  The processes that may write one slot: idle, or in the middle of a \<open>write\<close> with \<open>k\<close> words
  stored.  \<open>w_die\<close> leaves the slot as it is; the next writer (the supervisor, after reaping)
  starts from there.  \<open>completed\<close> records the writes that ended, the newest last.
\<close>

datatype writer = Idle | Writing int slot_fields nat

record slot_world =
  mem :: slot_view
  pc :: writer
  completed :: "slot_view list"

inductive wstep :: "slot_world \<Rightarrow> slot_world \<Rightarrow> bool" where
  w_begin: "pc w = Idle \<Longrightarrow>
     wstep w (w\<lparr>mem := begin_write (mem w), pc := Writing (write_marker (mem w)) f 0\<rparr>)"
| w_store: "pc w = Writing m f k \<Longrightarrow> k < 6 \<Longrightarrow>
     wstep w (w\<lparr>mem := store_field f k (mem w), pc := Writing m f (Suc k)\<rparr>)"
| w_end: "pc w = Writing m f 6 \<Longrightarrow>
     wstep w (w\<lparr>mem := end_write m (mem w), pc := Idle,
                completed := completed w @ [slot_of (m + 1) f]\<rparr>)"
| w_die: "pc w = Writing m f k \<Longrightarrow> wstep w (w\<lparr>pc := Idle\<rparr>)"

inductive_cases wstepE: "wstep w w'"

definition new_world :: "slot_view \<Rightarrow> slot_world" where
  "new_world v = \<lparr>mem = v, pc = Idle, completed = [v]\<rparr>"

subsection \<open>The reader\<close>

definition READ_SPIN_LIMIT :: nat where "READ_SPIN_LIMIT = 1000"

definition READ_BACKOFF_LIMIT :: nat where "READ_BACKOFF_LIMIT = 20000"

text \<open>
  One pass over a slot whose \<open>j\<close>-th load sees \<open>tr (t + j)\<close>: \<open>unpack_from(_SLOT_FORMAT)\<close> loads
  the words in address order, the sequence word first.
\<close>

definition load_words :: "(nat \<Rightarrow> slot_view) \<Rightarrow> nat \<Rightarrow> slot_view" where
  "load_words tr t =
     \<lparr>sv_seq = sv_seq (tr t), sv_inflight = sv_inflight (tr (t + 1)),
      sv_peak_sum = sv_peak_sum (tr (t + 2)), sv_rejected_total = sv_rejected_total (tr (t + 3)),
      sv_generation = sv_generation (tr (t + 4)), sv_pid = sv_pid (tr (t + 5)),
      sv_heartbeat_ts = sv_heartbeat_ts (tr (t + 6))\<rparr>"

text \<open>
  \<open>for attempt in range(budget)\<close>, starting at instant \<open>t\<close>: an attempt that finds the sequence
  number odd makes one load (and may sleep, which takes no load); a full attempt makes ten: the
  sequence word, the eight words of the slot and the sequence word again.
\<close>

fun read_loop :: "nat \<Rightarrow> (nat \<Rightarrow> slot_view) \<Rightarrow> nat \<Rightarrow> (slot_view \<times> nat) res" where
  "read_loop 0 tr t = Inl SeqlockUnstableError"
| "read_loop (Suc budget) tr t =
     (if odd (sv_seq (tr t)) then read_loop budget tr (t + 1)
      else if sv_seq (tr (t + 9)) = sv_seq (tr t) then Inr (load_words tr (t + 1), t)
      else read_loop budget tr (t + 10))"

definition read_budget :: "bool \<Rightarrow> nat" where
  "read_budget fail_fast =
     (if fail_fast then READ_SPIN_LIMIT else READ_SPIN_LIMIT + READ_BACKOFF_LIMIT)"

text \<open>The view, and the instant at which the attempt that returned it began.\<close>

definition slot_read :: "bool \<Rightarrow> (nat \<Rightarrow> slot_view) \<Rightarrow> (slot_view \<times> nat) res" where
  "slot_read fail_fast tr = read_loop (read_budget fail_fast) tr 0"


subsection \<open>The protocol\<close>

lemma or_1_int: "or (n :: int) 1 = (if even n then n + 1 else n)"
  by (simp add: or_one_eq)

lemma write_marker_odd [simp]: "odd (write_marker v)"
  by (simp add: write_marker_def or_1_int)

lemma write_marker_bounds: "sv_seq v \<le> write_marker v" "even (sv_seq v) \<Longrightarrow> sv_seq v < write_marker v"
  by (simp_all add: write_marker_def or_1_int)

lemma sv_seq_store_field [simp]: "sv_seq (store_field f k v) = sv_seq v"
  by (simp add: store_field_def)

lemma sv_seq_begin_write [simp]: "sv_seq (begin_write v) = write_marker v"
  by (simp add: begin_write_def)

lemma sv_seq_end_write [simp]: "sv_seq (end_write m v) = m + 1"
  by (simp add: end_write_def)

definition stored :: "slot_fields \<Rightarrow> nat \<Rightarrow> slot_view \<Rightarrow> bool" where
  "stored f k v \<longleftrightarrow>
     (0 < k \<longrightarrow> sv_inflight v = f_inflight f) \<and> (1 < k \<longrightarrow> sv_peak_sum v = f_peak_sum f) \<and>
     (2 < k \<longrightarrow> sv_rejected_total v = f_rejected_total f) \<and>
     (3 < k \<longrightarrow> sv_generation v = f_generation f) \<and> (4 < k \<longrightarrow> sv_pid v = f_pid f) \<and>
     (5 < k \<longrightarrow> sv_heartbeat_ts v = f_heartbeat_ts f)"

lemma stored_0 [simp]: "stored f 0 v"
  by (simp add: stored_def)

lemma stored_Suc: "stored f k v \<Longrightarrow> k < 6 \<Longrightarrow> stored f (Suc k) (store_field f k v)"
  by (auto simp: stored_def store_field_def)

lemma stored_6: "stored f 6 v \<Longrightarrow> end_write m v = slot_of (m + 1) f"
  by (simp add: stored_def end_write_def slot_of_def)

lemma write_fields_stored: "stored f 6 (write_fields f v)"
  by (simp add: write_fields_def stored_def store_field_def upt_rec)

text \<open>A complete write leaves exactly its arguments, under the next even number.\<close>

lemma slot_write_eq: "slot_write f v = slot_of (write_marker v + 1) f"
  unfolding slot_write_def by (rule stored_6 [OF write_fields_stored])

lemma slot_write_even [simp]: "even (sv_seq (slot_write f v))"
  by (simp add: slot_write_eq slot_of_def)

lemma slot_write_seq_less: "sv_seq v < sv_seq (slot_write f v)"
  using write_marker_bounds(1) [of v] by (simp add: slot_write_eq slot_of_def)

definition slot_inv :: "slot_world \<Rightarrow> bool" where
  "slot_inv w \<longleftrightarrow> completed w \<noteq> [] \<and>
     (case pc w of
        Idle \<Rightarrow> even (sv_seq (mem w)) \<longrightarrow> mem w = last (completed w)
      | Writing m f k \<Rightarrow> k \<le> 6 \<and> odd m \<and> sv_seq (mem w) = m \<and> stored f k (mem w))"

lemma slot_inv_new: "slot_inv (new_world v)"
  by (simp add: slot_inv_def new_world_def)

lemma wstep_inv: "wstep w w' \<Longrightarrow> slot_inv w \<Longrightarrow> slot_inv w'"
  by (induction rule: wstep.induct) (auto simp: slot_inv_def stored_Suc stored_6)

lemma wstep_seq: "wstep w w' \<Longrightarrow> slot_inv w \<Longrightarrow> sv_seq (mem w) \<le> sv_seq (mem w')"
  by (induction rule: wstep.induct) (auto simp: slot_inv_def write_marker_bounds)

lemma wstep_seq_even:
  "wstep w w' \<Longrightarrow> slot_inv w \<Longrightarrow> even (sv_seq (mem w)) \<Longrightarrow> sv_seq (mem w) < sv_seq (mem w')"
  by (induction rule: wstep.induct) (auto simp: slot_inv_def write_marker_bounds)

lemma wsteps_inv: "wstep\<^sup>*\<^sup>* w w' \<Longrightarrow> slot_inv w \<Longrightarrow> slot_inv w' \<and> sv_seq (mem w) \<le> sv_seq (mem w')"
  by (induction rule: rtranclp_induct) (auto dest: wstep_inv wstep_seq)

text \<open>A slot whose even sequence number has not moved has not been touched.\<close>

lemma wsteps_quiet:
  assumes "wstep\<^sup>*\<^sup>* w w'" and "slot_inv w" and "even (sv_seq (mem w))"
    and "sv_seq (mem w') = sv_seq (mem w)"
  shows "w' = w"
  using assms(1)
proof (cases rule: converse_rtranclpE)
  case (step y)
  have "sv_seq (mem w) < sv_seq (mem y)" by (rule wstep_seq_even [OF step(1) assms(2,3)])
  moreover have "sv_seq (mem y) \<le> sv_seq (mem w')"
    using wsteps_inv [OF step(2) wstep_inv [OF step(1) assms(2)]] by simp
  ultimately show ?thesis using assms(4) by simp
qed simp

text \<open>The states the reader's loads meet: any number of writer steps between two loads.\<close>

definition slot_trace :: "(nat \<Rightarrow> slot_world) \<Rightarrow> bool" where
  "slot_trace ws \<longleftrightarrow>
     (\<exists>v. even (sv_seq v) \<and> wstep\<^sup>*\<^sup>* (new_world v) (ws 0)) \<and> (\<forall>n. wstep\<^sup>*\<^sup>* (ws n) (ws (Suc n)))"

lemma trace_steps:
  assumes "slot_trace ws" shows "wstep\<^sup>*\<^sup>* (ws n) (ws (n + k))"
proof (induction k)
  case (Suc k)
  have "wstep\<^sup>*\<^sup>* (ws (n + k)) (ws (n + Suc k))" using assms by (simp add: slot_trace_def)
  with Suc show ?case by (rule rtranclp_trans)
qed simp

lemma trace_inv:
  assumes "slot_trace ws" shows "slot_inv (ws n)"
proof -
  have "slot_inv (ws 0)"
    using assms wsteps_inv [OF _ slot_inv_new] unfolding slot_trace_def by blast
  then show ?thesis using wsteps_inv [OF trace_steps [OF assms, of 0 n]] by simp
qed

lemma trace_seq_mono:
  assumes "slot_trace ws" shows "sv_seq (mem (ws n)) \<le> sv_seq (mem (ws (n + k)))"
  using wsteps_inv [OF trace_steps [OF assms] trace_inv [OF assms]] by simp

lemma trace_quiet:
  assumes tr: "slot_trace ws" and "even (sv_seq (mem (ws t)))"
    and same: "sv_seq (mem (ws (t + k))) = sv_seq (mem (ws t))" and "j \<le> k"
  shows "ws (t + j) = ws t"
proof (rule wsteps_quiet [OF trace_steps [OF tr] trace_inv [OF tr] assms(2)])
  have "sv_seq (mem (ws (t + j))) \<le> sv_seq (mem (ws (t + k)))"
    using trace_seq_mono [OF tr, of "t + j" "k - j"] assms(4) by simp
  then show "sv_seq (mem (ws (t + j))) = sv_seq (mem (ws t))"
    using trace_seq_mono [OF tr, of t j] same by simp
qed

lemma read_loop_Inr:
  "read_loop b tr t0 = Inr (v, t) \<Longrightarrow>
     even (sv_seq (tr t)) \<and> sv_seq (tr (t + 9)) = sv_seq (tr t) \<and> v = load_words tr (t + 1)"
  by (induction b arbitrary: t0) (auto split: if_splits)

lemma load_words_const:
  assumes "\<And>j. j \<le> 6 \<Longrightarrow> tr (t + j) = v" shows "load_words tr t = v"
  using assms [of 0] assms [of 1] assms [of 2] assms [of 3] assms [of 4] assms [of 5] assms [of 6]
  by (simp add: load_words_def)

lemma read_view:
  assumes "slot_trace ws" and "slot_read fail_fast (\<lambda>n. mem (ws n)) = Inr (view, t)" and "j \<le> 9"
  shows "mem (ws (t + j)) = view" and "view = last (completed (ws (t + j)))"
    and "pc (ws (t + j)) = Idle"
proof -
  let ?tr = "\<lambda>n. mem (ws n)"
  have r: "even (sv_seq (?tr t))" "sv_seq (?tr (t + 9)) = sv_seq (?tr t)"
    "view = load_words ?tr (t + 1)"
    using read_loop_Inr assms(2) unfolding slot_read_def by blast+
  have q: "ws (t + i) = ws t" if "i \<le> 9" for i by (rule trace_quiet [OF assms(1) r(1,2) that])
  have "load_words ?tr (t + 1) = mem (ws t)"
    by (rule load_words_const) (simp add: q [of "Suc _", simplified])
  then have v: "view = mem (ws t)" using r(3) by simp
  have idle: "pc (ws t) = Idle \<and> mem (ws t) = last (completed (ws t))"
    using trace_inv [OF assms(1), of t] r(1) by (auto simp: slot_inv_def split: writer.splits)
  show "mem (ws (t + j)) = view" "view = last (completed (ws (t + j)))" "pc (ws (t + j)) = Idle"
    using v idle by (simp_all add: q [OF assms(3)])
qed

text \<open>C22: A view that a reader returns is exactly what one complete write of the slot left
  there, and it is the newest complete write at every instant of the attempt that returned it:
  whatever the writers do between the reader's loads, and wherever they die, no torn mixture
  of two writes is ever returned.\<close>

theorem seqlock_untorn:
  assumes "slot_trace ws" and "slot_read fail_fast (\<lambda>n. mem (ws n)) = Inr (view, t)"
  shows "\<forall>j \<le> 9. mem (ws (t + j)) = view \<and> view = last (completed (ws (t + j))) \<and>
           pc (ws (t + j)) = Idle"
  using read_view [OF assms] by blast

text \<open>Two views of one slot: a write completed before the reader's second load.\<close>

definition demo_fields :: slot_fields where
  "demo_fields = \<lparr>f_inflight = 2, f_peak_sum = 5, f_rejected_total = 1, f_generation = 3,
                  f_pid = 77, f_heartbeat_ts = 10\<rparr>"

definition demo_written :: slot_world where
  "demo_written = \<lparr>mem = slot_of 2 demo_fields, pc = Idle,
                   completed = [zero_slot, slot_of 2 demo_fields]\<rparr>"

definition demo_trace :: "nat \<Rightarrow> slot_world" where
  "demo_trace n =
     (if n = 0 then (new_world zero_slot)\<lparr>mem := begin_write zero_slot, pc := Writing 1 demo_fields 0\<rparr>
      else demo_written)"

lemma write_to_end:
  "pc w = Writing m f k \<Longrightarrow> k \<le> 6 \<Longrightarrow>
     wstep\<^sup>*\<^sup>* w (w\<lparr>mem := end_write m (fold (store_field f) [k..<6] (mem w)), pc := Idle,
                  completed := completed w @ [slot_of (m + 1) f]\<rparr>)"
proof (induction "6 - k" arbitrary: k w)
  case 0
  then have "k = 6" by simp
  with 0 w_end [of w m f] show ?case by (auto intro!: r_into_rtranclp)
next
  case (Suc n)
  let ?w = "w\<lparr>mem := store_field f k (mem w), pc := Writing m f (Suc k)\<rparr>"
  have k: "k < 6" using Suc(2) by simp
  have "wstep w ?w" using Suc(3) k by (rule w_store)
  moreover have "wstep\<^sup>*\<^sup>* ?w (?w\<lparr>mem := end_write m (fold (store_field f) [Suc k..<6] (mem ?w)),
      pc := Idle, completed := completed ?w @ [slot_of (m + 1) f]\<rparr>)"
    by (rule Suc(1)) (use Suc(2) k in simp_all)
  ultimately show ?case using k by (simp add: upt_conv_Cons [OF k] converse_rtranclp_into_rtranclp)
qed

lemma write_fields_end: "end_write m (write_fields f v) = slot_of (m + 1) f"
  by (rule stored_6 [OF write_fields_stored])

lemma demo_slot_trace: "slot_trace demo_trace"
proof -
  have m: "write_marker zero_slot = 1" by (simp add: write_marker_def zero_slot_def)
  have "wstep (new_world zero_slot) (demo_trace 0)"
    using w_begin [of "new_world zero_slot" demo_fields]
    by (simp add: demo_trace_def new_world_def m)
  moreover have "wstep\<^sup>*\<^sup>* (demo_trace 0) (demo_trace 1)"
    using write_to_end [of "demo_trace 0" 1 demo_fields 0] write_fields_end [of 1 demo_fields]
    by (simp add: demo_trace_def demo_written_def new_world_def write_fields_def)
  moreover have "demo_trace (Suc n) = demo_trace (Suc 0)" for n by (simp add: demo_trace_def)
  ultimately have "wstep\<^sup>*\<^sup>* (demo_trace n) (demo_trace (Suc n))" for n
    by (cases n) (metis One_nat_def, metis rtranclp.rtrancl_refl)
  moreover have "even (sv_seq zero_slot)" by (simp add: zero_slot_def)
  ultimately show ?thesis
    using \<open>wstep (new_world zero_slot) (demo_trace 0)\<close> unfolding slot_trace_def by blast
qed

theorem seqlock_untorn_witness:
  "mem (demo_trace (1 + 4)) = slot_of 2 demo_fields \<and>
   slot_of 2 demo_fields = last (completed (demo_trace (1 + 4)))"
proof -
  have "slot_read True (\<lambda>n. mem (demo_trace n)) = Inr (slot_of 2 demo_fields, 1)"
    by (simp add: slot_read_def read_budget_def READ_SPIN_LIMIT_def demo_trace_def demo_written_def
        write_marker_def zero_slot_def load_words_def slot_of_def numeral_eq_Suc)
  moreover have "(4 :: nat) \<le> 9" by simp
  ultimately show ?thesis using seqlock_untorn [OF demo_slot_trace] by blast
qed

lemma read_loop_settles:
  assumes "\<And>n. N \<le> n \<Longrightarrow> tr n = v" and "even (sv_seq v)" and "N < t0 + b" and "0 < b"
  shows "\<exists>u t. read_loop b tr t0 = Inr (u, t)"
  using assms(3,4)
proof (induction b arbitrary: t0)
  case (Suc b)
  have "t0 < N" if "odd (sv_seq (tr t0)) \<or> sv_seq (tr (t0 + 9)) \<noteq> sv_seq (tr t0)"
    using that assms(1) [of t0] assms(1) [of "t0 + 9"] assms(2) by (cases "N \<le> t0") auto
  then show ?case using Suc.IH [of "t0 + 1"] Suc.IH [of "t0 + 10"] Suc.prems by fastforce
qed simp

lemma read_loop_odd: "(\<And>n. odd (sv_seq (tr n))) \<Longrightarrow> read_loop b tr t = Inl SeqlockUnstableError"
  by (induction b arbitrary: t) simp_all

lemma read_budget_pos [simp]: "0 < read_budget ff"
  by (simp add: read_budget_def READ_SPIN_LIMIT_def)

text \<open>What a process reads when nobody else is at the slot: the slot, or an error when a writer
  died in it.\<close>

lemma slot_read_quiet:
  "slot_read ff (\<lambda>_. v) = (if even (sv_seq v) then Inr (v, 0) else Inl SeqlockUnstableError)"
proof (cases "even (sv_seq v)")
  case True
  obtain b where "read_budget ff = Suc b" using gr0_implies_Suc [OF read_budget_pos] by blast
  with True show ?thesis by (simp add: slot_read_def load_words_const)
qed (simp add: slot_read_def read_loop_odd)

text \<open>A read always ends within its budget: it returns a view if the slot comes to
  rest, complete, before the budget's number of loads is spent, and it raises
  SeqlockUnstableError if every load finds a write in progress (a writer that died there).\<close>

theorem seqlock_settles:
  shows "even (sv_seq v) \<Longrightarrow> N < read_budget fail_fast \<Longrightarrow> \<forall>n\<ge>N. mem (ws n) = v \<Longrightarrow>
           \<exists>view t. slot_read fail_fast (\<lambda>n. mem (ws n)) = Inr (view, t)"
    and "\<forall>n. odd (sv_seq (mem (ws n))) \<Longrightarrow>
           slot_read fail_fast (\<lambda>n. mem (ws n)) = Inl SeqlockUnstableError"
proof -
  assume a: "even (sv_seq v)" "N < read_budget fail_fast" "\<forall>n\<ge>N. mem (ws n) = v"
  show "\<exists>view t. slot_read fail_fast (\<lambda>n. mem (ws n)) = Inr (view, t)"
    unfolding slot_read_def by (rule read_loop_settles [of N _ v]) (use a in simp_all)
next
  assume "\<forall>n. odd (sv_seq (mem (ws n)))"
  then show "slot_read fail_fast (\<lambda>n. mem (ws n)) = Inl SeqlockUnstableError"
    by (simp add: slot_read_def read_loop_odd)
qed

theorem seqlock_settles_witness:
  "(\<exists>view t. slot_read True (\<lambda>n. mem (demo_trace n)) = Inr (view, t)) \<and>
   slot_read False (\<lambda>n. mem (demo_trace 0)) = Inl SeqlockUnstableError"
proof
  show "\<exists>view t. slot_read True (\<lambda>n. mem (demo_trace n)) = Inr (view, t)"
    by (rule seqlock_settles(1) [of "mem demo_written" 1])
      (simp_all add: demo_trace_def demo_written_def slot_of_def read_budget_def READ_SPIN_LIMIT_def)
  show "slot_read False (\<lambda>n. mem (demo_trace 0)) = Inl SeqlockUnstableError"
    by (rule seqlock_settles(2) [of "\<lambda>_. demo_trace 0"]) (simp add: demo_trace_def)
qed

end
