(* ===== verification/Admission.thy ===== *)
theory Admission
  imports Seqlock
begin

section \<open>Admission control of the data planes\<close>

text \<open>
  Models \<open>SharedAdmission\<close>, \<open>AdmissionAggregateView\<close> and \<open>_aggregate_to_dict\<close> of
  \<open>sglang_omni_router/admission_shm.py\<close>, the slot fold of \<open>supervisor.py\<close> and the
  single-process \<open>AdmissionController\<close> and \<open>_ReleaseOnce\<close> of \<open>proxy.py\<close>.  The mapped file
  is a list of slots, the last one the retired slot.  One operation runs without another
  process writing in between (theory Seqlock covers the interleaving of one slot's words);
  a slot left odd by a dead writer stays odd.  The clock readings of an operation are its
  arguments, \<open>on_fenced\<close> is counted.
\<close>

type_synonym buf = "slot_view list"

text \<open>A fail-fast read of slot \<open>i\<close> while nobody writes it.\<close>

definition codec_read :: "buf \<Rightarrow> nat \<Rightarrow> slot_view res" where
  "codec_read buf i = bindE (slot_read True (\<lambda>_. buf ! i)) (\<lambda>r. Inr (fst r))"

lemma codec_read_eq:
  "codec_read buf i = (if even (sv_seq (buf ! i)) then Inr (buf ! i) else Inl SeqlockUnstableError)"
  by (simp add: codec_read_def slot_read_quiet)

subsection \<open>A data plane's handle\<close>

record shared_admission =
  sa_slots :: nat
  own_index :: nat
  sa_max_inflight :: int
  sa_generation :: int
  sa_pid :: int
  sa_inflight :: int
  sa_peak_sum :: int
  sa_rejected_total :: int
  sibling_unstable :: bool
  sibling_probed_at :: rat
  fenced_calls :: nat

definition own_fields :: "shared_admission \<Rightarrow> rat \<Rightarrow> slot_fields" where
  "own_fields a clock =
     \<lparr>f_inflight = sa_inflight a, f_peak_sum = sa_peak_sum a,
      f_rejected_total = sa_rejected_total a, f_generation = sa_generation a, f_pid = sa_pid a,
      f_heartbeat_ts = clock\<rparr>"

definition write_own :: "shared_admission \<Rightarrow> rat \<Rightarrow> buf \<Rightarrow> buf" where
  "write_own a clock buf =
     buf[own_index a := slot_write (own_fields a clock) (buf ! own_index a)]"

definition new_admission ::
  "nat \<Rightarrow> int \<Rightarrow> int \<Rightarrow> int \<Rightarrow> int \<Rightarrow> rat \<Rightarrow> buf \<Rightarrow> (shared_admission \<times> buf) res" where
  "new_admission slots own max_inflight generation pid clock buf =
     bindE (ensure (0 \<le> own \<and> own < int slots) ValueError) (\<lambda>_.
       let a = \<lparr>sa_slots = slots, own_index = nat own, sa_max_inflight = max_inflight,
                sa_generation = generation, sa_pid = pid, sa_inflight = 0, sa_peak_sum = 0,
                sa_rejected_total = 0, sibling_unstable = False, sibling_probed_at = 0,
                fenced_calls = 0\<rparr>
       in Inr (a, write_own a clock buf))"

definition still_owner :: "shared_admission \<Rightarrow> buf \<Rightarrow> bool res" where
  "still_owner a buf =
     bindE (codec_read buf (own_index a)) (\<lambda>view.
       Inr (sv_generation view = sa_generation a \<and> sv_pid view = sa_pid a))"

definition fenced :: "shared_admission \<Rightarrow> shared_admission" where
  "fenced a = a\<lparr>fenced_calls := fenced_calls a + 1\<rparr>"

definition total_inflight :: "shared_admission \<Rightarrow> buf \<Rightarrow> int res" where
  "total_inflight a buf =
     bindE (mapE (codec_read buf) [0..<sa_slots a]) (\<lambda>views. Inr (sum_list (map sv_inflight views)))"

text \<open>\<open>_UNSTABLE_REPROBE_SECS\<close>\<close>

definition UNSTABLE_REPROBE_SECS :: rat where "UNSTABLE_REPROBE_SECS = 5 / 100"

definition shed_from_cached_unstable :: "shared_admission \<Rightarrow> rat \<Rightarrow> bool" where
  "shed_from_cached_unstable a clock \<longleftrightarrow>
     sibling_unstable a \<and> clock - sibling_probed_at a < UNSTABLE_REPROBE_SECS"

definition mark_sibling_unstable :: "rat \<Rightarrow> shared_admission \<Rightarrow> shared_admission" where
  "mark_sibling_unstable clock a = a\<lparr>sibling_probed_at := clock, sibling_unstable := True\<rparr>"

definition mark_sibling_stable :: "shared_admission \<Rightarrow> shared_admission" where
  "mark_sibling_stable a = a\<lparr>sibling_unstable := False\<rparr>"

text \<open>\<open>self._rejected_total += 1; self._write_own(); return False\<close>\<close>

definition shed :: "shared_admission \<Rightarrow> rat \<Rightarrow> buf \<Rightarrow> bool \<times> shared_admission \<times> buf" where
  "shed a clock buf =
     (let a = a\<lparr>sa_rejected_total := sa_rejected_total a + 1\<rparr>
      in (False, a, write_own a clock buf))"

text \<open>\<open>c1\<close>, \<open>c2\<close> and \<open>c3\<close> are the readings of the clock for the cached shed, for the mark and for
  the slot's heartbeat.\<close>

definition sa_try_acquire ::
  "rat \<Rightarrow> rat \<Rightarrow> rat \<Rightarrow> shared_admission \<Rightarrow> buf \<Rightarrow> bool \<times> shared_admission \<times> buf" where
  "sa_try_acquire c1 c2 c3 a buf =
     (case still_owner a buf of
        Inl _ \<Rightarrow> (False, a, buf)
      | Inr False \<Rightarrow> (False, fenced a, buf)
      | Inr True \<Rightarrow>
          if shed_from_cached_unstable a c1 then shed a c3 buf
          else case total_inflight a buf of
              Inl _ \<Rightarrow> shed (mark_sibling_unstable c2 a) c3 buf
            | Inr total_now \<Rightarrow>
                let a = mark_sibling_stable a in
                if sa_max_inflight a \<le> total_now then shed a c3 buf
                else let observed = total_now + 1;
                         a = a\<lparr>sa_inflight := sa_inflight a + 1,
                               sa_peak_sum := (if sa_peak_sum a < observed then observed
                                               else sa_peak_sum a)\<rparr>
                     in (True, a, write_own a c3 buf))"

definition sa_release :: "rat \<Rightarrow> shared_admission \<Rightarrow> buf \<Rightarrow> shared_admission \<times> buf" where
  "sa_release clock a buf =
     (case still_owner a buf of
        Inl _ \<Rightarrow> (a, buf)
      | Inr False \<Rightarrow> (fenced a, buf)
      | Inr True \<Rightarrow>
          if sa_inflight a \<le> 0 then (a, buf)
          else let a = a\<lparr>sa_inflight := sa_inflight a - 1\<rparr> in (a, write_own a clock buf))"

definition sa_touch :: "rat \<Rightarrow> shared_admission \<Rightarrow> buf \<Rightarrow> buf res" where
  "sa_touch clock a buf =
     bindE (still_owner a buf) (\<lambda>own. Inr (if own then write_own a clock buf else buf))"

subsection \<open>Aggregates\<close>

record admission_totals =
  t_inflight :: int
  t_max_inflight :: int
  t_peak_inflight :: int
  t_rejected_total :: int

text \<open>\<open>max(..., default=0)\<close>.\<close>

definition max_default :: "int list \<Rightarrow> int" where
  "max_default xs = (case xs of [] \<Rightarrow> 0 | x # xs \<Rightarrow> fold max xs x)"

text \<open>
  The four attempts of \<open>_aggregate_to_dict\<close>, the first at instant \<open>t\<close>: \<open>tr n\<close> is the file at
  instant \<open>n\<close>, and every slot is read at an instant of its own (a read returns the slot as it
  was at one instant, by \<open>seqlock_untorn\<close>).
\<close>

fun aggregate_loop :: "nat \<Rightarrow> (nat \<Rightarrow> buf) \<Rightarrow> nat \<Rightarrow> nat \<Rightarrow> int \<Rightarrow> admission_totals res" where
  "aggregate_loop 0 tr t slots max_inflight = Inl SeqlockUnstableError"
| "aggregate_loop (Suc n) tr t slots max_inflight =
     bindE (codec_read (tr t) (retired_slot_index slots)) (\<lambda>version_before.
     bindE (mapE (\<lambda>i. codec_read (tr (t + 1 + i)) i) [0..<slots]) (\<lambda>views.
     bindE (codec_read (tr (t + 1 + slots)) (retired_slot_index slots)) (\<lambda>retired.
       if sv_seq retired = sv_seq version_before
       then Inr \<lparr>t_inflight = sum_list (map sv_inflight views),
                 t_max_inflight = max_inflight,
                 t_peak_inflight = max_default (map sv_peak_sum (views @ [retired])),
                 t_rejected_total =
                   sum_list (map sv_rejected_total views) + sv_rejected_total retired\<rparr>
       else aggregate_loop n tr (t + 2 + slots) slots max_inflight)))"

definition aggregate_to_dict :: "(nat \<Rightarrow> buf) \<Rightarrow> nat \<Rightarrow> int \<Rightarrow> admission_totals res" where
  "aggregate_to_dict tr slots max_inflight = aggregate_loop 4 tr 0 slots max_inflight"

record slot_report =
  r_index :: nat
  r_generation :: int
  r_pid :: int
  r_inflight :: int
  r_rejected_total :: int
  r_heartbeat_age :: "rat option"

text \<open>\<open>round(x, 3)\<close> of the age is left to the caller.\<close>

definition per_slot :: "rat \<Rightarrow> nat \<Rightarrow> buf \<Rightarrow> slot_report list res" where
  "per_slot current slots buf =
     mapE (\<lambda>i. bindE (codec_read buf i) (\<lambda>view.
       Inr \<lparr>r_index = i, r_generation = sv_generation view, r_pid = sv_pid view,
            r_inflight = sv_inflight view, r_rejected_total = sv_rejected_total view,
            r_heartbeat_age =
              (if 0 < sv_heartbeat_ts view then Some (current - sv_heartbeat_ts view) else None)\<rparr>))
       [0..<slots]"

subsection \<open>The supervisor's fold\<close>

definition retired_fields :: "slot_view \<Rightarrow> slot_view \<Rightarrow> rat \<Rightarrow> slot_fields" where
  "retired_fields accumulated view now =
     \<lparr>f_inflight = 0, f_peak_sum = max (sv_peak_sum accumulated) (sv_peak_sum view),
      f_rejected_total = sv_rejected_total accumulated + sv_rejected_total view,
      f_generation = 0, f_pid = 0, f_heartbeat_ts = now\<rparr>"

text \<open>The contents of the file after each of the stores a reader can meet.\<close>

definition fold_states :: "nat \<Rightarrow> rat \<Rightarrow> rat \<Rightarrow> nat \<Rightarrow> buf \<Rightarrow> buf list" where
  "fold_states slots now1 now2 i buf =
     (let r = retired_slot_index slots in
      case bindE (codec_read buf i) (\<lambda>view.
             bindE (codec_read buf r) (\<lambda>accumulated. Inr (view, accumulated))) of
        Inl _ \<Rightarrow> [buf[i := slot_reclaim now1 (buf ! i)]]
      | Inr (view, accumulated) \<Rightarrow>
          let marker = write_marker (buf ! r);
              b1 = buf[r := begin_write (buf ! r)];
              b2 = b1[r := write_fields (retired_fields accumulated view now1) (b1 ! r)];
              b3 = b2[i := slot_reclaim now2 (b2 ! i)];
              b4 = b3[r := end_write marker (b3 ! r)]
          in [b1, b2, b3, b4])"

definition fold_and_reclaim_slot :: "nat \<Rightarrow> rat \<Rightarrow> rat \<Rightarrow> nat \<Rightarrow> buf \<Rightarrow> buf" where
  "fold_and_reclaim_slot slots now1 now2 i buf = last (fold_states slots now1 now2 i buf)"

subsection \<open>The single-process controller\<close>

record controller =
  c_max_inflight :: int
  c_inflight :: int
  c_peak_inflight :: int
  c_rejected_total :: int

definition new_controller :: "int \<Rightarrow> controller" where
  "new_controller m =
     \<lparr>c_max_inflight = m, c_inflight = 0, c_peak_inflight = 0, c_rejected_total = 0\<rparr>"

definition c_try_acquire :: "controller \<Rightarrow> bool \<times> controller" where
  "c_try_acquire c =
     (if c_max_inflight c \<le> c_inflight c
      then (False, c\<lparr>c_rejected_total := c_rejected_total c + 1\<rparr>)
      else let n = c_inflight c + 1
           in (True, c\<lparr>c_inflight := n,
                      c_peak_inflight := (if c_peak_inflight c < n then n else c_peak_inflight c)\<rparr>))"

definition c_release :: "controller \<Rightarrow> controller res" where
  "c_release c =
     bindE (ensure (0 < c_inflight c) AssertionError) (\<lambda>_.
       Inr (c\<lparr>c_inflight := c_inflight c - 1\<rparr>))"

definition c_to_dict :: "controller \<Rightarrow> admission_totals" where
  "c_to_dict c =
     \<lparr>t_inflight = c_inflight c, t_max_inflight = c_max_inflight c,
      t_peak_inflight = c_peak_inflight c, t_rejected_total = c_rejected_total c\<rparr>"

text \<open>\<open>_ReleaseOnce.__call__\<close>: the flag and the controller.\<close>

definition release_once :: "bool \<times> controller \<Rightarrow> (bool \<times> controller) res" where
  "release_once s =
     (if fst s then Inr s
      else bindE (c_release (snd s)) (\<lambda>c. Inr (True, c)))"

end
