(* ===== verification/Admission_Props.thy ===== *)
theory Admission_Props
  imports Admission
begin

section \<open>Admission: bounds, fencing, folds and the single-process controller\<close>

text \<open>
  Every data plane's slot mirrors its local counters until the supervisor takes the slot back,
  operations that do not overlap keep the global bound, a fenced process writes nothing, the
  aggregate's rejection count is sandwiched between two true totals whatever happens while it is
  read, a fold moves counters without changing the totals, and with one data plane the shared
  controller behaves like the single-process one.
\<close>

lemma mapE_codec_read:
  "mapE (\<lambda>i. codec_read (b i) i) is =
     (if \<forall>i \<in> set is. even (sv_seq (b i ! i)) then Inr (map (\<lambda>i. b i ! i) is)
      else Inl SeqlockUnstableError)"
  by (induction "is") (auto simp: codec_read_eq)

lemma still_owner_eq:
  "still_owner a buf =
     (let v = buf ! own_index a in
      if even (sv_seq v) then Inr (sv_generation v = sa_generation a \<and> sv_pid v = sa_pid a)
      else Inl SeqlockUnstableError)"
  by (simp add: still_owner_def codec_read_eq Let_def)

lemma total_inflight_eq:
  "total_inflight a buf =
     (if \<forall>i < sa_slots a. even (sv_seq (buf ! i))
      then Inr (\<Sum>i\<leftarrow>[0..<sa_slots a]. sv_inflight (buf ! i)) else Inl SeqlockUnstableError)"
  using mapE_codec_read [of "\<lambda>_. buf" "[0..<sa_slots a]"]
  by (auto simp: total_inflight_def comp_def)

lemma slot_write_fields [simp]:
  "sv_inflight (slot_write f v) = f_inflight f" "sv_peak_sum (slot_write f v) = f_peak_sum f"
  "sv_rejected_total (slot_write f v) = f_rejected_total f"
  "sv_generation (slot_write f v) = f_generation f" "sv_pid (slot_write f v) = f_pid f"
  "sv_heartbeat_ts (slot_write f v) = f_heartbeat_ts f"
  by (simp_all add: slot_write_eq slot_of_def)

subsection \<open>Fencing\<close>

text \<open>Once the slot no longer carries a process's generation and pid, nothing that process
  does writes the file: acquiring is refused, releasing and touching have no effect, its own
  counters stay put and on_fenced is called by acquire and release.\<close>

theorem fencing_noop:
  assumes "even (sv_seq (buf ! own_index a))"
    and "(sv_generation (buf ! own_index a), sv_pid (buf ! own_index a))
           \<noteq> (sa_generation a, sa_pid a)"
  shows "sa_try_acquire c1 c2 c3 a buf = (False, a\<lparr>fenced_calls := fenced_calls a + 1\<rparr>, buf) \<and>
         sa_release c3 a buf = (a\<lparr>fenced_calls := fenced_calls a + 1\<rparr>, buf) \<and>
         sa_touch c3 a buf = Inr buf"
  using assms
  by (auto simp: sa_try_acquire_def sa_release_def sa_touch_def still_owner_eq fenced_def Let_def)

text \<open>A data plane whose slot the supervisor reclaimed.\<close>

definition demo_handle :: shared_admission where
  "demo_handle = \<lparr>sa_slots = 2, own_index = 1, sa_max_inflight = 4, sa_generation = 3, sa_pid = 77,
                  sa_inflight = 2, sa_peak_sum = 2, sa_rejected_total = 0,
                  sibling_unstable = False, sibling_probed_at = 0, fenced_calls = 0\<rparr>"

theorem fencing_noop_witness:
  "sa_try_acquire 1 1 1 demo_handle (create_admission_file 2)
     = (False, demo_handle\<lparr>fenced_calls := 1\<rparr>, create_admission_file 2)"
  using fencing_noop [of "create_admission_file 2" demo_handle 1 1 1]
  by (simp add: create_admission_file_def demo_handle_def zero_slot_def numeral_2_eq_2)


subsection \<open>The global bound\<close>

text \<open>
  All data planes and the supervisor on one file of \<open>n\<close> slots with bound \<open>m\<close>.  A process may die
  at any time, also in the middle of a write: with the marker set (\<open>op_die\<close>), or with the first \<open>k\<close> of the
  words stored that its operation was about to write (\<open>op_die_writing\<close>); the supervisor may fold a slot at any time; a new
  process takes a slot over.
\<close>

record adm_world =
  handles :: "nat \<Rightarrow> shared_admission option"
  file_buf :: buf

inductive adm_op :: "nat \<Rightarrow> int \<Rightarrow> adm_world \<Rightarrow> adm_world \<Rightarrow> bool" for n m where
  op_start: "i < n \<Longrightarrow> 0 < p \<Longrightarrow> new_admission n (int i) m g p c (file_buf w) = Inr (a, b) \<Longrightarrow>
     adm_op n m w (w\<lparr>handles := (handles w)(i \<mapsto> a), file_buf := b\<rparr>)"
| op_acquire: "i < n \<Longrightarrow> handles w i = Some a \<Longrightarrow>
     sa_try_acquire c1 c2 c3 a (file_buf w) = (ok, a', b) \<Longrightarrow>
     adm_op n m w (w\<lparr>handles := (handles w)(i \<mapsto> a'), file_buf := b\<rparr>)"
| op_release: "i < n \<Longrightarrow> handles w i = Some a \<Longrightarrow> sa_release c a (file_buf w) = (a', b) \<Longrightarrow>
     adm_op n m w (w\<lparr>handles := (handles w)(i \<mapsto> a'), file_buf := b\<rparr>)"
| op_touch: "i < n \<Longrightarrow> handles w i = Some a \<Longrightarrow> sa_touch c a (file_buf w) = Inr b \<Longrightarrow>
     adm_op n m w (w\<lparr>file_buf := b\<rparr>)"
| op_die: "i < n \<Longrightarrow> b \<in> {file_buf w, (file_buf w)[i := begin_write (file_buf w ! i)]} \<Longrightarrow>
     adm_op n m w (w\<lparr>handles := (handles w)(i := None), file_buf := b\<rparr>)"
| op_die_writing: "i < n \<Longrightarrow> adm_op n m w w1 \<Longrightarrow>
     file_buf w1 = (file_buf w)[i := slot_write f (file_buf w ! i)] \<Longrightarrow> k \<le> 6 \<Longrightarrow>
     adm_op n m w (w\<lparr>handles := (handles w)(i := None),
       file_buf := (file_buf w)[i := fold (store_field f) [0..<k] (begin_write (file_buf w ! i))]\<rparr>)"
| op_fold: "i < n \<Longrightarrow> adm_op n m w (w\<lparr>file_buf := fold_and_reclaim_slot n c1 c2 i (file_buf w)\<rparr>)"

definition adm_start :: "nat \<Rightarrow> adm_world" where
  "adm_start n = \<lparr>handles = (\<lambda>_. None), file_buf = create_admission_file n\<rparr>"

definition file_inflight :: "nat \<Rightarrow> buf \<Rightarrow> int" where
  "file_inflight n b = (\<Sum>i\<leftarrow>[0..<n]. sv_inflight (b ! i))"

definition mirrors :: "nat \<Rightarrow> int \<Rightarrow> nat \<Rightarrow> shared_admission \<Rightarrow> slot_view \<Rightarrow> bool" where
  "mirrors n m i a v \<longleftrightarrow>
     own_index a = i \<and> sa_slots a = n \<and> sa_max_inflight a = m \<and> 0 < sa_pid a \<and>
     (sv_generation v = sa_generation a \<and> sv_pid v = sa_pid a \<longrightarrow>
        sv_inflight v = sa_inflight a \<and> sv_rejected_total v = sa_rejected_total a)"

definition adm_inv :: "nat \<Rightarrow> int \<Rightarrow> adm_world \<Rightarrow> bool" where
  "adm_inv n m w \<longleftrightarrow>
     length (file_buf w) = n + 1 \<and> (\<forall>i < n. 0 \<le> sv_inflight (file_buf w ! i)) \<and>
     file_inflight n (file_buf w) \<le> m \<and>
     (\<forall>i < n. \<forall>a. handles w i = Some a \<longrightarrow> mirrors n m i a (file_buf w ! i))"

lemma sum_list_upd:
  fixes g :: "'a \<Rightarrow> int"
  assumes "i < n" and "n \<le> length b"
  shows "(\<Sum>j\<leftarrow>[0..<n]. g (b[i := v] ! j)) = (\<Sum>j\<leftarrow>[0..<n]. g (b ! j)) + g v - g (b ! i)"
proof -
  have "(\<Sum>j\<leftarrow>[0..<n]. h j) = (\<Sum>j \<in> {0..<n}. h j)" for h :: "nat \<Rightarrow> int"
    by (simp add: interv_sum_list_conv_sum_set_nat)
  moreover have "(\<Sum>j \<in> {0..<n}. g (b[i := v] ! j)) = (\<Sum>j \<in> {0..<n}. if j = i then g v else g (b ! j))"
    using assms by (intro sum.cong) auto
  moreover have "\<dots> = g v + (\<Sum>j \<in> {0..<n} - {i}. g (b ! j))"
    using assms by (subst sum.remove [of _ i]) auto
  moreover have "(\<Sum>j \<in> {0..<n}. g (b ! j)) = g (b ! i) + (\<Sum>j \<in> {0..<n} - {i}. g (b ! j))"
    using assms by (subst sum.remove [of _ i]) auto
  ultimately show ?thesis by simp
qed

lemma file_inflight_upd:
  "i < n \<Longrightarrow> length b = Suc n \<Longrightarrow>
     file_inflight n (b[i := v]) = file_inflight n b + sv_inflight v - sv_inflight (b ! i)"
  by (simp add: file_inflight_def sum_list_upd)

lemma file_inflight_retired: "file_inflight n (b[n := v]) = file_inflight n b"
  unfolding file_inflight_def by (rule arg_cong [where f = sum_list]) simp

text \<open>One slot changes: the invariant needs the new slot to fit.\<close>

lemma adm_inv_update:
  assumes "adm_inv n m w" and "i < n" and "0 \<le> sv_inflight v"
    and "file_inflight n (file_buf w) + sv_inflight v - sv_inflight (file_buf w ! i) \<le> m"
    and "\<And>a. h i = Some a \<Longrightarrow> mirrors n m i a v"
    and "\<And>j. j \<noteq> i \<Longrightarrow> h j = handles w j"
  shows "adm_inv n m (w\<lparr>handles := h, file_buf := (file_buf w)[i := v]\<rparr>)"
  using assms unfolding adm_inv_def by (auto simp: file_inflight_upd nth_list_update)

lemma adm_inv_same:
  assumes inv: "adm_inv n m w" and "h i = Some a" and "mirrors n m i a (file_buf w ! i)"
    and "\<And>j. j \<noteq> i \<Longrightarrow> h j = handles w j"
  shows "adm_inv n m (w\<lparr>handles := h\<rparr>)"
proof -
  have "mirrors n m j x (file_buf w ! j)" if "j < n" "h j = Some x" for j x
    using that assms by (cases "j = i") (auto simp: adm_inv_def)
  with inv show ?thesis by (simp add: adm_inv_def)
qed

lemma adm_inv_retired:
  "adm_inv n m w \<Longrightarrow> adm_inv n m (w\<lparr>file_buf := (file_buf w)[n := v]\<rparr>)"
  by (auto simp: adm_inv_def file_inflight_retired)

lemma adm_inv_slot_le:
  assumes "adm_inv n m w" and "i < n" shows "sv_inflight (file_buf w ! i) \<le> m" "0 \<le> m"
proof -
  have nn: "0 \<le> x" if "x \<in> set (map (\<lambda>i. sv_inflight (file_buf w ! i)) [0..<n])" for x
    using that assms(1) by (auto simp: adm_inv_def)
  have "sv_inflight (file_buf w ! i) \<le> file_inflight n (file_buf w)"
    unfolding file_inflight_def by (rule member_le_sum_list) (use nn assms(2) in auto)
  moreover have "0 \<le> sv_inflight (file_buf w ! i)" using assms by (simp add: adm_inv_def)
  ultimately show "sv_inflight (file_buf w ! i) \<le> m" "0 \<le> m"
    using assms(1) by (auto simp: adm_inv_def)
qed


lemma update_thrice: "n \<noteq> i \<Longrightarrow> b[n := x, i := y, n := z] = b[n := z, i := y]"
  by (metis list_update_overwrite list_update_swap)

lemma fold_and_reclaim_eq:
  assumes "length b = Suc n" and "i < n"
  shows "fold_and_reclaim_slot n c1 c2 i b =
     (if even (sv_seq (b ! i)) \<and> even (sv_seq (b ! n))
      then b[n := slot_write (retired_fields (b ! n) (b ! i) c1) (b ! n),
             i := slot_reclaim c2 (b ! i)]
      else b[i := slot_reclaim c1 (b ! i)])"
  using assms
  by (simp add: fold_and_reclaim_slot_def fold_states_def retired_slot_index_def codec_read_eq
      slot_write_def update_thrice Let_def)

lemma adm_inv_fold:
  assumes inv: "adm_inv n m w" and i: "i < n"
  shows "adm_inv n m (w\<lparr>file_buf := fold_and_reclaim_slot n c1 c2 i (file_buf w)\<rparr>)"
proof -
  let ?b = "file_buf w"
  have len: "length ?b = Suc n" using inv by (simp add: adm_inv_def)
  have rec: "sv_inflight (slot_reclaim c v) = 0" "sv_pid (slot_reclaim c v) = 0" for c v
    by (simp_all add: slot_reclaim_def)
  have upd: "adm_inv n m (u\<lparr>file_buf := (file_buf u)[i := slot_reclaim c v]\<rparr>)"
    if "adm_inv n m u" for u c v
  proof -
    have "adm_inv n m (u\<lparr>handles := handles u, file_buf := (file_buf u)[i := slot_reclaim c v]\<rparr>)"
    proof (rule adm_inv_update [OF that i])
      show "0 \<le> sv_inflight (slot_reclaim c v)" by (simp add: rec)
      show "file_inflight n (file_buf u) + sv_inflight (slot_reclaim c v)
              - sv_inflight (file_buf u ! i) \<le> m"
      proof -
        have "0 \<le> sv_inflight (file_buf u ! i)" "file_inflight n (file_buf u) \<le> m"
          using that i by (auto simp: adm_inv_def)
        then show ?thesis by (simp add: rec)
      qed
      show "mirrors n m i a (slot_reclaim c v)" if h: "handles u i = Some a" for a
        using \<open>adm_inv n m u\<close> h i rec by (auto simp: adm_inv_def mirrors_def)
    qed simp
    then show ?thesis by simp
  qed
  show ?thesis
    using upd [OF inv, of c1 "?b ! i"] upd [OF adm_inv_retired [OF inv], of _ c2 "?b ! i"]
    by (simp add: fold_and_reclaim_eq [OF len i])
qed

lemma own_fields_simps [simp]:
  "f_inflight (own_fields a c) = sa_inflight a" "f_peak_sum (own_fields a c) = sa_peak_sum a"
  "f_rejected_total (own_fields a c) = sa_rejected_total a"
  "f_generation (own_fields a c) = sa_generation a" "f_pid (own_fields a c) = sa_pid a"
  by (simp_all add: own_fields_def)

text \<open>A process that owns its slot writes its counters there.\<close>

lemma adm_inv_write_own:
  assumes inv: "adm_inv n m w" and i: "i < n"
    and own: "own_index a = i" "sa_slots a = n" "sa_max_inflight a = m" "0 < sa_pid a"
    and fits: "0 \<le> sa_inflight a"
      "file_inflight n (file_buf w) + sa_inflight a - sv_inflight (file_buf w ! i) \<le> m"
  shows "adm_inv n m (w\<lparr>handles := (handles w)(i \<mapsto> a), file_buf := write_own a c (file_buf w)\<rparr>)"
  unfolding write_own_def own(1)
  by (rule adm_inv_update [OF inv i]) (use own fits in \<open>auto simp: mirrors_def\<close>)

lemma adm_inv_handle:
  "adm_inv n m w \<Longrightarrow> i < n \<Longrightarrow> handles w i = Some a \<Longrightarrow> mirrors n m i a (file_buf w ! i)"
  by (simp add: adm_inv_def)

lemma still_owner_mirrors:
  assumes "still_owner a b = Inr True" and "mirrors n m i a (b ! i)"
  shows "even (sv_seq (b ! i)) \<and> sv_inflight (b ! i) = sa_inflight a \<and>
         sv_rejected_total (b ! i) = sa_rejected_total a"
  using assms by (auto simp: still_owner_eq mirrors_def Let_def split: if_splits)

lemma sa_try_acquire_cases:
  assumes "still_owner a b = Inr True" and "sa_try_acquire c1 c2 c3 a b = (ok, a', b')"
  obtains (shed) u where "u \<in> {a, mark_sibling_unstable c2 a, mark_sibling_stable a}"
      "shed u c3 b = (ok, a', b')"
  | (admit) t where "ok" "total_inflight a b = Inr t" "t < sa_max_inflight a"
      "a' = (mark_sibling_stable a)\<lparr>sa_inflight := sa_inflight a + 1,
              sa_peak_sum := (if sa_peak_sum a < t + 1 then t + 1 else sa_peak_sum a)\<rparr>"
      "b' = write_own a' c3 b"
proof (cases "shed_from_cached_unstable a c1")
  case True
  then show ?thesis using assms shed [of a] by (simp add: sa_try_acquire_def)
next
  case False
  show ?thesis
  proof (cases "total_inflight a b")
    case (Inl e)
    then show ?thesis using assms False shed [of "mark_sibling_unstable c2 a"]
      by (simp add: sa_try_acquire_def)
  next
    case (Inr t)
    show ?thesis
    proof (cases "sa_max_inflight a \<le> t")
      case True
      then show ?thesis using Inr assms False shed [of "mark_sibling_stable a"]
        by (simp add: sa_try_acquire_def Let_def mark_sibling_stable_def)
    next
      case lt: False
      have "sa_peak_sum (mark_sibling_stable a) = sa_peak_sum a"
        "sa_inflight (mark_sibling_stable a) = sa_inflight a"
        "sa_max_inflight (mark_sibling_stable a) = sa_max_inflight a"
        by (simp_all add: mark_sibling_stable_def)
      then show ?thesis using lt Inr assms False admit [of t]
        by (auto simp: sa_try_acquire_def Let_def)
    qed
  qed
qed

lemma adm_inv_acquire:
  assumes inv: "adm_inv n m w" and i: "i < n" and a: "handles w i = Some a"
    and acq: "sa_try_acquire c1 c2 c3 a (file_buf w) = (ok, a', b)"
  shows "adm_inv n m (w\<lparr>handles := (handles w)(i \<mapsto> a'), file_buf := b\<rparr>)"
proof (cases "still_owner a (file_buf w) = Inr True")
  case False
  have "b = file_buf w \<and> (a' = a \<or> a' = fenced a)"
    using acq False by (auto simp: sa_try_acquire_def split: sum.splits bool.splits)
  moreover have "mirrors n m i (fenced a) (file_buf w ! i)"
    using adm_inv_handle [OF inv i a] by (simp add: mirrors_def fenced_def)
  ultimately show ?thesis
    using adm_inv_same [OF inv, of _ i a'] adm_inv_handle [OF inv i a] by fastforce
next
  case True
  let ?b = "file_buf w"
  have mir: "mirrors n m i a (?b ! i)" by (rule adm_inv_handle [OF inv i a])
  note eqs = still_owner_mirrors [OF True mir]
  have own: "own_index a = i" "sa_slots a = n" "sa_max_inflight a = m" "0 < sa_pid a"
    using mir by (simp_all add: mirrors_def)
  have fit: "0 \<le> sa_inflight a" "file_inflight n ?b \<le> m" using inv i eqs by (auto simp: adm_inv_def)
  from True acq show ?thesis
  proof (cases rule: sa_try_acquire_cases)
    case (shed u)
    have "own_index u = i" "sa_slots u = n" "sa_max_inflight u = m" "0 < sa_pid u"
      "sa_inflight u = sa_inflight a"
      using shed(1) own by (auto simp: mark_sibling_unstable_def mark_sibling_stable_def)
    with shed(2) show ?thesis
      using adm_inv_write_own [OF inv i, of "u\<lparr>sa_rejected_total := sa_rejected_total u + 1\<rparr>" c3]
        fit eqs by (auto simp: shed_def Let_def)
  next
    case (admit t)
    then have "file_inflight n ?b < m"
      by (auto simp: total_inflight_eq own file_inflight_def split: if_splits)
    then show ?thesis
      unfolding admit(5)
      by (intro adm_inv_write_own [OF inv i])
        (use admit(4) own fit eqs in \<open>simp_all add: mark_sibling_stable_def\<close>)
  qed
qed

lemma adm_inv_release:
  assumes inv: "adm_inv n m w" and i: "i < n" and a: "handles w i = Some a"
    and rel: "sa_release c a (file_buf w) = (a', b)"
  shows "adm_inv n m (w\<lparr>handles := (handles w)(i \<mapsto> a'), file_buf := b\<rparr>)"
proof -
  let ?b = "file_buf w"
  have mir: "mirrors n m i a (?b ! i)" by (rule adm_inv_handle [OF inv i a])
  consider (idle) "b = ?b" "a' = a \<or> a' = fenced a"
    | (down) "still_owner a ?b = Inr True" "0 < sa_inflight a"
        "a' = a\<lparr>sa_inflight := sa_inflight a - 1\<rparr>" "b = write_own a' c ?b"
    using rel by (auto simp: sa_release_def Let_def split: sum.splits bool.splits if_splits)
  then show ?thesis
  proof cases
    case idle
    have "mirrors n m i (fenced a) (?b ! i)" using mir by (simp add: mirrors_def fenced_def)
    then show ?thesis using idle adm_inv_same [OF inv, of _ i a'] mir by fastforce
  next
    case down
    note eqs = still_owner_mirrors [OF down(1) mir]
    have le: "file_inflight n ?b \<le> m" using inv by (simp add: adm_inv_def)
    have own: "own_index a' = i" "sa_slots a' = n" "sa_max_inflight a' = m" "0 < sa_pid a'"
      using mir by (simp_all add: mirrors_def down(3))
    show ?thesis
      unfolding down(4) by (rule adm_inv_write_own [OF inv i own]) (use down(2,3) eqs le in simp_all)
  qed
qed

lemma adm_inv_touch:
  assumes inv: "adm_inv n m w" and i: "i < n" and a: "handles w i = Some a"
    and touch: "sa_touch c a (file_buf w) = Inr b"
  shows "adm_inv n m (w\<lparr>file_buf := b\<rparr>)"
proof (cases "still_owner a (file_buf w) = Inr True")
  case True
  let ?b = "file_buf w"
  have mir: "mirrors n m i a (?b ! i)" by (rule adm_inv_handle [OF inv i a])
  note eqs = still_owner_mirrors [OF True mir]
  have le: "0 \<le> sv_inflight (?b ! i)" "file_inflight n ?b \<le> m" using inv i by (auto simp: adm_inv_def)
  have own: "own_index a = i" "sa_slots a = n" "sa_max_inflight a = m" "0 < sa_pid a"
    using mir by (simp_all add: mirrors_def)
  have "adm_inv n m (w\<lparr>handles := (handles w)(i \<mapsto> a), file_buf := write_own a c ?b\<rparr>)"
    by (rule adm_inv_write_own [OF inv i own]) (use eqs le in simp_all)
  then show ?thesis
    using touch True a by (simp add: sa_touch_def fun_upd_idem)
qed (use touch inv in \<open>auto simp: sa_touch_def bindE_eq_Inr\<close>)

lemma adm_inv_start:
  assumes inv: "adm_inv n m w" and i: "i < n" and "0 < p"
    and start: "new_admission n (int i) m g p c (file_buf w) = Inr (a, b)"
  shows "adm_inv n m (w\<lparr>handles := (handles w)(i \<mapsto> a), file_buf := b\<rparr>)"
proof -
  have res: "own_index a = i" "sa_slots a = n" "sa_max_inflight a = m" "0 < sa_pid a"
    "sa_inflight a = 0" "b = write_own a c (file_buf w)"
    using start i assms(3) by (auto simp: new_admission_def Let_def)
  have "0 \<le> sv_inflight (file_buf w ! i)" "file_inflight n (file_buf w) \<le> m"
    using inv i by (auto simp: adm_inv_def)
  then show ?thesis
    unfolding res(6) by (intro adm_inv_write_own [OF inv i res(1-4)]) (simp_all add: res(5))
qed

lemma adm_inv_die:
  assumes inv: "adm_inv n m w" and i: "i < n"
    and b: "b \<in> {file_buf w, (file_buf w)[i := begin_write (file_buf w ! i)]}"
  shows "adm_inv n m (w\<lparr>handles := (handles w)(i := None), file_buf := b\<rparr>)"
proof -
  have le: "0 \<le> sv_inflight (file_buf w ! i)" "file_inflight n (file_buf w) \<le> m"
    using inv i by (auto simp: adm_inv_def)
  have "adm_inv n m (w\<lparr>handles := (handles w)(i := None), file_buf := (file_buf w)[i := v]\<rparr>)"
    if "v \<in> {file_buf w ! i, begin_write (file_buf w ! i)}" for v
    by (rule adm_inv_update [OF inv i]) (use that le in \<open>auto simp: begin_write_def\<close>)
  from this [of "file_buf w ! i"] this [of "begin_write (file_buf w ! i)"] show ?thesis
    using b by auto
qed

lemma torn_inflight:
  "k \<le> 6 \<Longrightarrow> sv_inflight (fold (store_field f) [0..<k] v) = (if k = 0 then sv_inflight v else f_inflight f)"
  by (induction k) (auto simp: store_field_def)

lemma adm_inv_torn:
  assumes inv: "adm_inv n m w" and i: "i < n" and inv1: "adm_inv n m w1"
    and w1: "file_buf w1 = (file_buf w)[i := slot_write f (file_buf w ! i)]" and k: "k \<le> 6"
  shows "adm_inv n m (w\<lparr>handles := (handles w)(i := None),
    file_buf := (file_buf w)[i := fold (store_field f) [0..<k] (begin_write (file_buf w ! i))]\<rparr>)"
proof -
  have len: "length (file_buf w) = Suc n" using inv by (simp add: adm_inv_def)
  have new: "sv_inflight (slot_write f (file_buf w ! i)) = f_inflight f" by (simp add: slot_write_eq slot_of_def)
  have "0 \<le> f_inflight f" "file_inflight n (file_buf w) + f_inflight f - sv_inflight (file_buf w ! i) \<le> m"
    using inv1 i len new file_inflight_upd [OF i len, of "slot_write f (file_buf w ! i)"]
    by (auto simp: adm_inv_def w1)
  moreover have "0 \<le> sv_inflight (file_buf w ! i)" "file_inflight n (file_buf w) \<le> m"
    using inv i by (auto simp: adm_inv_def)
  ultimately show ?thesis
    by (intro adm_inv_update [OF inv i]) (auto simp: torn_inflight [OF k] begin_write_def)
qed

lemma adm_op_inv: "adm_op n m w w' \<Longrightarrow> adm_inv n m w \<Longrightarrow> adm_inv n m w'"
  by (induction rule: adm_op.induct)
    (blast intro: adm_inv_start adm_inv_acquire adm_inv_release adm_inv_touch adm_inv_die adm_inv_torn adm_inv_fold)+

lemma fresh_slot: "i \<le> n \<Longrightarrow> create_admission_file n ! i = zero_slot"
  by (simp add: create_admission_file_def del: replicate_Suc)

lemma adm_inv_init:
  assumes "0 \<le> m" shows "adm_inv n m (adm_start n)"
proof -
  have "file_inflight n (create_admission_file n) = (\<Sum>i\<leftarrow>[0..<n]. 0)"
    unfolding file_inflight_def
    by (rule arg_cong [where f = sum_list], rule map_cong) (simp_all add: fresh_slot zero_slot_def)
  then have "file_inflight n (create_admission_file n) = 0" by (simp add: sum_list_replicate_const)
  then show ?thesis using assms
    by (simp add: adm_inv_def adm_start_def fresh_slot zero_slot_def)
      (simp add: create_admission_file_def)
qed

lemma adm_reach_inv: "(adm_op n m)\<^sup>*\<^sup>* (adm_start n) w \<Longrightarrow> 0 \<le> m \<Longrightarrow> adm_inv n m w"
  by (induction rule: rtranclp_induct) (auto intro: adm_inv_init adm_op_inv)

text \<open>C26: Whatever sequence of starts, acquires, releases, touches, deaths (also in the
  middle of a write) and folds the data planes and the supervisor go through, the requests on
  record in the file never exceed the bound and no slot is negative, and a process that still
  owns its slot finds there exactly its own in-flight and rejection counts.\<close>

theorem admission_bound:
  assumes "(adm_op n m)\<^sup>*\<^sup>* (adm_start n) w" and "0 \<le> m"
  shows "(\<Sum>i\<leftarrow>[0..<n]. sv_inflight (file_buf w ! i)) \<le> m \<and>
    (\<forall>i < n. 0 \<le> sv_inflight (file_buf w ! i) \<and>
       (\<forall>a. handles w i = Some a \<longrightarrow> still_owner a (file_buf w) = Inr True \<longrightarrow>
          sv_inflight (file_buf w ! i) = sa_inflight a \<and>
          sv_rejected_total (file_buf w ! i) = sa_rejected_total a))"
proof -
  have inv: "adm_inv n m w" by (rule adm_reach_inv [OF assms])
  then have "(\<Sum>i\<leftarrow>[0..<n]. sv_inflight (file_buf w ! i)) \<le> m"
    "\<forall>i < n. 0 \<le> sv_inflight (file_buf w ! i)" by (simp_all add: adm_inv_def file_inflight_def)
  then show ?thesis using still_owner_mirrors adm_inv_handle [OF inv] by blast
qed

text \<open>One data plane with bound 1: it starts and admits a request.\<close>

definition demo_started :: "shared_admission \<times> buf" where
  "demo_started = (case new_admission 1 0 1 1 5 0 (create_admission_file 1) of
      Inr r \<Rightarrow> r | Inl _ \<Rightarrow> (demo_handle, []))"

definition demo_admitted :: adm_world where
  "demo_admitted =
     (let (ok, a, b) = sa_try_acquire 1 1 1 (fst demo_started) (snd demo_started)
      in \<lparr>handles = (\<lambda>_. None)(0 \<mapsto> a), file_buf = b\<rparr>)"

lemma demo_admitted_reached: "(adm_op 1 1)\<^sup>*\<^sup>* (adm_start 1) demo_admitted"
proof -
  obtain a b where s: "new_admission 1 (int 0) 1 1 5 0 (create_admission_file 1) = Inr (a, b)"
    and ab: "demo_started = (a, b)"
    by (simp add: demo_started_def new_admission_def Let_def)
  obtain ok a' b' where q: "sa_try_acquire 1 1 1 a b = (ok, a', b')" by (metis prod_cases3)
  let ?w = "(adm_start 1)\<lparr>handles := (handles (adm_start 1))(0 \<mapsto> a), file_buf := b\<rparr>"
  have "adm_op 1 1 (adm_start 1) ?w"
    by (rule op_start) (use s in \<open>simp_all add: adm_start_def\<close>)
  moreover have "adm_op 1 1 ?w demo_admitted"
    using op_acquire [of 0 1 ?w a 1 1 1 ok a' b' 1] q
    by (simp add: demo_admitted_def ab adm_start_def)
  ultimately show ?thesis by (meson converse_rtranclp_into_rtranclp rtranclp.rtrancl_refl)
qed

theorem admission_bound_witness:
  "(\<Sum>i\<leftarrow>[0..<1]. sv_inflight (file_buf demo_admitted ! i)) \<le> 1 \<and>
   sv_inflight (file_buf demo_admitted ! 0) = 1"
proof
  show "(\<Sum>i\<leftarrow>[0..<1]. sv_inflight (file_buf demo_admitted ! i)) \<le> 1"
    using admission_bound [OF demo_admitted_reached] by simp
  show "sv_inflight (file_buf demo_admitted ! 0) = 1"
    by (simp add: demo_admitted_def demo_started_def new_admission_def create_admission_file_def
        write_own_def Let_def sa_try_acquire_def still_owner_eq total_inflight_eq
        shed_from_cached_unstable_def mark_sibling_stable_def)
qed

end
