(* ===== verification/Admission_Totals.thy ===== *)
theory Admission_Totals
  imports Admission_Props
begin

section \<open>Aggregated admission totals, folds and the single-process controller\<close>

text \<open>
  The aggregate read of \<open>_aggregate_to_dict\<close> runs while data planes write and the supervisor
  folds.  Its rejection count lies between two true totals of the file, a fold moves the counters
  of a dead data plane into the retired slot without changing the totals, and with a single data
  plane the shared controller refines the single-process \<open>AdmissionController\<close>.
\<close>

subsection \<open>Reading while others write\<close>

text \<open>
  What other processes do to the file while it is read: a data plane completes a write that does
  not lower its counters, any slot is opened for writing, and, while the retired slot is open,
  the supervisor stores its fields, reclaims a slot and closes it again.
\<close>

inductive file_step :: "nat \<Rightarrow> buf \<Rightarrow> buf \<Rightarrow> bool" for n where
  f_write: "i < n \<Longrightarrow> sv_rejected_total (b ! i) \<le> f_rejected_total f \<Longrightarrow>
     file_step n b (b[i := slot_write f (b ! i)])"
| f_open: "i \<le> n \<Longrightarrow> file_step n b (b[i := begin_write (b ! i)])"
| f_fields: "odd (sv_seq (b ! n)) \<Longrightarrow> file_step n b (b[n := write_fields f (b ! n)])"
| f_reclaim: "odd (sv_seq (b ! n)) \<Longrightarrow> i < n \<Longrightarrow>
     file_step n b (b[i := slot_reclaim c (b ! i)])"
| f_close: "odd (sv_seq (b ! n)) \<Longrightarrow> file_step n b (b[n := end_write (sv_seq (b ! n)) (b ! n)])"

definition file_trace :: "nat \<Rightarrow> (nat \<Rightarrow> buf) \<Rightarrow> bool" where
  "file_trace n tr \<longleftrightarrow> (\<forall>t. length (tr t) = n + 1) \<and> (\<forall>t. (file_step n)\<^sup>*\<^sup>* (tr t) (tr (t + 1)))"

text \<open>The rejections on record in a file.\<close>

definition file_rejected :: "nat \<Rightarrow> buf \<Rightarrow> int" where
  "file_rejected n b = (\<Sum>i\<leftarrow>[0..<n]. sv_rejected_total (b ! i)) + sv_rejected_total (b ! n)"

lemma sv_seq_write_fields [simp]: "sv_seq (write_fields f v) = sv_seq v"
  by (simp add: write_fields_def upt_rec)

lemma file_step_length: "file_step n b b' \<Longrightarrow> length b' = length b"
  by (induction rule: file_step.induct) simp_all

lemma file_step_seq:
  "file_step n b b' \<Longrightarrow> length b = n + 1 \<Longrightarrow> sv_seq (b ! n) \<le> sv_seq (b' ! n)"
  by (induction rule: file_step.induct) (auto simp: nth_list_update write_marker_bounds)

text \<open>While the retired slot keeps an even number, it is not touched and no counter falls.\<close>

lemma file_step_quiet:
  "file_step n b b' \<Longrightarrow> length b = n + 1 \<Longrightarrow> even (sv_seq (b ! n)) \<Longrightarrow>
     sv_seq (b' ! n) = sv_seq (b ! n) \<Longrightarrow>
     b' ! n = b ! n \<and> (\<forall>i < n. sv_rejected_total (b ! i) \<le> sv_rejected_total (b' ! i))"
proof (induction rule: file_step.induct)
  case (f_open i b)
  then show ?case using write_marker_bounds(2) [of "b ! n"]
    by (cases "i = n") (auto simp: nth_list_update begin_write_def)
qed (auto simp: nth_list_update)

lemma file_steps_mono:
  "(file_step n)\<^sup>*\<^sup>* b b' \<Longrightarrow> length b = n + 1 \<Longrightarrow>
     length b' = n + 1 \<and> sv_seq (b ! n) \<le> sv_seq (b' ! n)"
  by (induction rule: rtranclp_induct) (auto simp: file_step_length dest: file_step_seq)

lemma file_steps_quiet:
  assumes "(file_step n)\<^sup>*\<^sup>* b b'" and "length b = n + 1" and "even (sv_seq (b ! n))"
    and "sv_seq (b' ! n) = sv_seq (b ! n)"
  shows "b' ! n = b ! n \<and> (\<forall>i < n. sv_rejected_total (b ! i) \<le> sv_rejected_total (b' ! i))"
  using assms(1,4)
proof (induction rule: rtranclp_induct)
  case (step y z)
  have y: "length y = n + 1" "sv_seq (b ! n) \<le> sv_seq (y ! n)"
    using file_steps_mono [OF step(1) assms(2)] by auto
  moreover have "sv_seq (y ! n) \<le> sv_seq (z ! n)" by (rule file_step_seq [OF step(2) y(1)])
  ultimately have "sv_seq (y ! n) = sv_seq (b ! n)" "sv_seq (z ! n) = sv_seq (y ! n)"
    using step(4) by auto
  then have "y ! n = b ! n \<and> (\<forall>i < n. sv_rejected_total (b ! i) \<le> sv_rejected_total (y ! i))"
    "z ! n = y ! n \<and> (\<forall>i < n. sv_rejected_total (y ! i) \<le> sv_rejected_total (z ! i))"
    using step(3) file_step_quiet [OF step(2) y(1)] assms(3) by simp_all
  then show ?case by (metis order_trans)
qed simp

lemma file_trace_steps:
  assumes "file_trace n tr" shows "(file_step n)\<^sup>*\<^sup>* (tr t) (tr (t + k))"
proof (induction k)
  case (Suc k)
  have "(file_step n)\<^sup>*\<^sup>* (tr (t + k)) (tr (t + k + 1))" using assms by (simp add: file_trace_def)
  with Suc show ?case by (metis add_Suc_right Suc_eq_plus1 rtranclp_trans)
qed simp

lemma aggregate_loop_Inr:
  "aggregate_loop k tr t n m = Inr a \<Longrightarrow>
     \<exists>t. even (sv_seq (tr t ! n)) \<and> sv_seq (tr (t + 1 + n) ! n) = sv_seq (tr t ! n) \<and>
         t_rejected_total a =
           (\<Sum>i\<leftarrow>[0..<n]. sv_rejected_total (tr (t + 1 + i) ! i)) + sv_rejected_total (tr (t + 1 + n) ! n)"
proof (induction k arbitrary: t)
  case (Suc k)
  from Suc.prems show ?case
    unfolding aggregate_loop.simps mapE_codec_read retired_slot_index_def bindE_eq_Inr
    by (elim exE conjE) (auto simp: codec_read_eq comp_def split: if_splits dest: Suc.IH [simplified])
qed simp

text \<open>An aggregate read that returns while data planes keep counting and the supervisor
  folds dead slots reports a rejection count between the true totals of the file at two instants
  of the read at which no fold was in progress: a counter that moves to the retired slot is
  neither counted twice nor lost.\<close>

theorem aggregate_between:
  assumes tr: "file_trace n tr" and agg: "aggregate_to_dict tr n m = Inr a"
  shows "\<exists>t. even (sv_seq (tr t ! n)) \<and> tr (t + 1 + n) ! n = tr t ! n \<and>
             file_rejected n (tr t) \<le> t_rejected_total a \<and>
             t_rejected_total a \<le> file_rejected n (tr (t + 1 + n))"
proof -
  obtain t where even: "even (sv_seq (tr t ! n))"
    and same: "sv_seq (tr (t + 1 + n) ! n) = sv_seq (tr t ! n)"
    and a: "t_rejected_total a = (\<Sum>i\<leftarrow>[0..<n]. sv_rejected_total (tr (t + 1 + i) ! i))
              + sv_rejected_total (tr (t + 1 + n) ! n)"
    using aggregate_loop_Inr agg unfolding aggregate_to_dict_def by blast
  have len: "length (tr s) = n + 1" for s using tr by (simp add: file_trace_def)
  have seq: "sv_seq (tr (t + k) ! n) = sv_seq (tr t ! n)" if "k \<le> 1 + n" for k
  proof -
    have "sv_seq (tr t ! n) \<le> sv_seq (tr (t + k) ! n)"
      using file_steps_mono [OF file_trace_steps [OF tr, of t k] len] by simp
    moreover have "sv_seq (tr (t + k) ! n) \<le> sv_seq (tr (t + 1 + n) ! n)"
      using file_steps_mono [OF file_trace_steps [OF tr, of "t + k" "1 + n - k"] len] that
      by (simp add: add.assoc)
    ultimately show ?thesis using same by simp
  qed
  have up: "tr (t + k + j) ! n = tr (t + k) ! n \<and>
      (\<forall>i < n. sv_rejected_total (tr (t + k) ! i) \<le> sv_rejected_total (tr (t + k + j) ! i))"
    if "k + j \<le> 1 + n" for k j
    by (rule file_steps_quiet [OF file_trace_steps [OF tr] len])
      (use seq [of k] seq [of "k + j"] that even in \<open>simp_all add: add.assoc\<close>)
  have ret: "tr (t + 1 + n) ! n = tr t ! n" using up [of 0 "1 + n"] by (simp add: add.assoc)
  have lo: "(\<Sum>i\<leftarrow>[0..<n]. sv_rejected_total (tr t ! i))
          \<le> (\<Sum>i\<leftarrow>[0..<n]. sv_rejected_total (tr (t + 1 + i) ! i))"
    by (rule sum_list_mono) (use up [of 0 "1 + _"] in \<open>auto simp: add.assoc\<close>)
  have hi: "(\<Sum>i\<leftarrow>[0..<n]. sv_rejected_total (tr (t + 1 + i) ! i))
          \<le> (\<Sum>i\<leftarrow>[0..<n]. sv_rejected_total (tr (t + 1 + n) ! i))"
  proof (rule sum_list_mono)
    fix i assume "i \<in> set [0..<n]"
    then show "sv_rejected_total (tr (t + 1 + i) ! i) \<le> sv_rejected_total (tr (t + 1 + n) ! i)"
      using up [of "1 + i" "n - i"] by (simp add: add.assoc)
  qed
  show ?thesis
    using even ret lo hi a unfolding file_rejected_def by (intro exI [of _ t]) (auto simp: ret)
qed


text \<open>A data plane sheds a request while its only slot is being read.\<close>

definition demo_shed :: "nat \<Rightarrow> buf" where
  "demo_shed t =
     (let b = create_admission_file 1
      in if t = 0 then b else b[0 := slot_write (demo_fields\<lparr>f_rejected_total := 1\<rparr>) (b ! 0)])"

lemma demo_shed_trace: "file_trace 1 demo_shed"
proof -
  have "(file_step 1)\<^sup>*\<^sup>* (demo_shed t) (demo_shed (t + 1))" for t
  proof (cases "t = 0")
    case True
    have "file_step 1 (create_admission_file 1) (demo_shed 1)"
      unfolding demo_shed_def Let_def
      using f_write [of 0 1 "create_admission_file 1" "demo_fields\<lparr>f_rejected_total := 1\<rparr>"]
      by (simp add: fresh_slot zero_slot_def)
    with True show ?thesis by (simp add: demo_shed_def r_into_rtranclp)
  qed (simp add: demo_shed_def)
  then show ?thesis by (simp add: file_trace_def demo_shed_def create_admission_file_def Let_def)
qed

theorem aggregate_between_witness:
  "\<exists>a t. aggregate_to_dict demo_shed 1 5 = Inr a \<and> t_rejected_total a = 1 \<and>
         t_rejected_total a \<le> file_rejected 1 (demo_shed (t + 1 + 1))"
proof -
  have even: "even (sv_seq (demo_shed t ! i))" if "i \<le> 1" for t i
    using that by (simp add: demo_shed_def Let_def nth_list_update fresh_slot
        create_admission_file_def zero_slot_def nth_Cons')
  have ret: "demo_shed t ! 1 = zero_slot" for t
    by (simp add: demo_shed_def Let_def fresh_slot nth_list_update)
  have rej: "sv_rejected_total (demo_shed (Suc 0) ! 0) = 1"
    by (simp add: demo_shed_def create_admission_file_def Let_def)
  obtain a where a: "aggregate_to_dict demo_shed 1 5 = Inr a" "t_rejected_total a = 1"
    using even [of 0] even [of 1] ret rej
    by (simp add: aggregate_to_dict_def numeral_eq_Suc retired_slot_index_def codec_read_eq
        zero_slot_def)
  from aggregate_between [OF demo_shed_trace a(1)] a show ?thesis by blast
qed

subsection \<open>A fold moves counters, it does not change them\<close>

lemma max_default_Max: "xs \<noteq> [] \<Longrightarrow> max_default xs = Max (set xs)"
  by (cases xs, simp, simp only: max_default_def list.case Max.set_eq_fold)

lemma aggregate_four: "aggregate_to_dict tr n m = aggregate_loop (Suc 3) tr 0 n m"
  by (simp add: aggregate_to_dict_def)

lemma aggregate_quiet:
  "aggregate_to_dict (\<lambda>_. b) n m =
     (if \<forall>i \<le> n. even (sv_seq (b ! i))
      then Inr \<lparr>t_inflight = file_inflight n b, t_max_inflight = m,
                t_peak_inflight = Max (insert (sv_peak_sum (b ! n)) ((\<lambda>i. sv_peak_sum (b ! i)) ` {0..<n})),
                t_rejected_total = file_rejected n b\<rparr>
      else Inl SeqlockUnstableError)"
proof (cases "even (sv_seq (b ! n))")
  case True
  then have all: "(\<forall>i \<le> n. even (sv_seq (b ! i))) = (\<forall>i \<in> set [0..<n]. even (sv_seq (b ! i)))"
    by (auto simp: le_less)
  show ?thesis
    unfolding all aggregate_four aggregate_loop.simps
    using True
    by (simp add: retired_slot_index_def codec_read_eq mapE_codec_read [of "\<lambda>_. b", simplified codec_read_eq]
        comp_def file_inflight_def file_rejected_def max_default_Max image_image)
next
  case False
  then show ?thesis
    unfolding aggregate_four aggregate_loop.simps retired_slot_index_def
    by (auto simp: codec_read_eq)
qed


lemma Max_fold:
  fixes g :: "nat \<Rightarrow> int"
  assumes "finite A" and "i \<in> A" and "0 \<le> g i"
  shows "Max (insert (max r (g i)) ((\<lambda>j. if j = i then 0 else g j) ` A)) = Max (insert r (g ` A))"
proof (rule antisym)
  let ?new = "insert (max r (g i)) ((\<lambda>j. if j = i then 0 else g j) ` A)" and ?old = "insert r (g ` A)"
  have old: "x \<le> Max ?old" if "x \<in> ?old" for x by (rule Max_ge) (use assms(1) that in auto)
  have new: "x \<le> Max ?new" if "x \<in> ?new" for x by (rule Max_ge) (use assms(1) that in auto)
  have gi: "g i \<le> Max ?old" by (rule old) (use assms(2) in auto)
  show "Max ?new \<le> Max ?old"
  proof (rule Max.boundedI)
    fix x assume "x \<in> ?new"
    then consider "x = max r (g i)" | "x = 0" | "x \<in> ?old" by (auto split: if_splits)
    then show "x \<le> Max ?old" using old [of r] old [of x] gi assms(3) by cases auto
  qed (use assms(1) in auto)
  have m: "max r (g i) \<le> Max ?new" by (rule new) simp
  show "Max ?old \<le> Max ?new"
  proof (rule Max.boundedI)
    fix x assume "x \<in> ?old"
    then consider "x = r" | j where "j \<in> A" "x = g j" by auto
    then show "x \<le> Max ?new"
    proof cases
      case 2
      then show ?thesis using m new [of "g j"] by (cases "j = i") auto
    qed (use m in simp)
  qed (use assms(1) in auto)
qed

text \<open>When the supervisor folds the slot of a reaped data plane, every aggregate read
  meets either an error (while the transfer is open) or the same rejection count and the same
  peak as before, and afterwards the dead process's in-flight requests are gone from the sum and
  its slot can be claimed again.\<close>

theorem fold_preserves:
  assumes len: "length buf = n + 1" and i: "i < n" and quiet: "\<forall>j \<le> n. even (sv_seq (buf ! j))"
    and peak: "0 \<le> sv_peak_sum (buf ! i)"
    and before: "aggregate_to_dict (\<lambda>_. buf) n m = Inr a"
    and after: "aggregate_to_dict (\<lambda>_. fold_and_reclaim_slot n c1 c2 i buf) n m = r"
  shows "r = Inr (a\<lparr>t_inflight := t_inflight a - sv_inflight (buf ! i)\<rparr>) \<and>
    (\<forall>b \<in> set (butlast (fold_states n c1 c2 i buf)).
       aggregate_to_dict (\<lambda>_. b) n m = Inl SeqlockUnstableError) \<and>
    fold_and_reclaim_slot n c1 c2 i buf ! i = slot_reclaim c2 (buf ! i)"
proof (intro conjI ballI)
  let ?b = "fold_and_reclaim_slot n c1 c2 i buf"
  let ?v = "slot_reclaim c2 (buf ! i)" and ?f = "retired_fields (buf ! n) (buf ! i) c1"
  have b: "?b = buf[n := slot_write ?f (buf ! n), i := ?v]"
    using fold_and_reclaim_eq [of buf n i c1 c2] len i quiet by simp
  have rec: "sv_inflight ?v = 0" "sv_peak_sum ?v = 0" "sv_rejected_total ?v = 0" "even (sv_seq ?v)"
    by (simp_all add: slot_reclaim_def)
  have ret: "?b ! n = slot_write ?f (buf ! n)" and own: "?b ! i = ?v"
    using b len i by (simp_all add: nth_list_update)
  have other: "?b ! j = buf ! j" if "j \<noteq> i" "j < n" for j using b len that by simp
  have even: "\<forall>j \<le> n. even (sv_seq (?b ! j))"
    using ret own rec other quiet by (metis le_neq_implies_less slot_write_even)
  have peaks: "(\<lambda>j. sv_peak_sum (?b ! j)) ` {0..<n}
      = (\<lambda>j. if j = i then 0 else sv_peak_sum (buf ! j)) ` {0..<n}"
    by (rule image_cong) (auto simp: own rec other)
  have mx: "Max (insert (sv_peak_sum (?b ! n)) ((\<lambda>j. sv_peak_sum (?b ! j)) ` {0..<n}))
      = Max (insert (sv_peak_sum (buf ! n)) ((\<lambda>j. sv_peak_sum (buf ! j)) ` {0..<n}))"
    unfolding peaks ret using Max_fold [of "{0..<n}" i "\<lambda>j. sv_peak_sum (buf ! j)"] i peak
    by (simp add: retired_fields_def)
  have infl: "file_inflight n ?b = file_inflight n buf - sv_inflight (buf ! i)"
    using b len i rec by (simp add: file_inflight_upd file_inflight_retired)
  have "(\<Sum>j\<leftarrow>[0..<n]. sv_rejected_total (?b ! j))
      = (\<Sum>j\<leftarrow>[0..<n]. sv_rejected_total (buf[n := slot_write ?f (buf ! n)] ! j))
        - sv_rejected_total (buf ! i)"
    using sum_list_upd [of i n "buf[n := slot_write ?f (buf ! n)]" sv_rejected_total ?v] b len i rec
    by simp
  also have "(\<Sum>j\<leftarrow>[0..<n]. sv_rejected_total (buf[n := slot_write ?f (buf ! n)] ! j))
      = (\<Sum>j\<leftarrow>[0..<n]. sv_rejected_total (buf ! j))"
    by (rule arg_cong [where f = sum_list]) simp
  finally have rej: "file_rejected n ?b = file_rejected n buf"
    by (simp add: file_rejected_def ret retired_fields_def)
  show "r = Inr (a\<lparr>t_inflight := t_inflight a - sv_inflight (buf ! i)\<rparr>)"
    using before after [symmetric] quiet even
    by (auto simp: aggregate_quiet infl rej mx simp del: Max_insert)
  show "?b ! i = ?v" by (rule own)
  fix b assume "b \<in> set (butlast (fold_states n c1 c2 i buf))"
  then have "odd (sv_seq (b ! n))"
    using quiet i len by (auto simp: fold_states_def retired_slot_index_def codec_read_eq Let_def)
  then show "aggregate_to_dict (\<lambda>_. b) n m = Inl SeqlockUnstableError"
    by (auto simp: aggregate_quiet)
qed

text \<open>Two data planes; the second, with one rejection and a peak of 5, is folded.\<close>

definition demo_file :: buf where
  "demo_file = (create_admission_file 2)[1 := slot_of 2 demo_fields]"

theorem fold_preserves_witness:
  "\<exists>a. aggregate_to_dict (\<lambda>_. demo_file) 2 9 = Inr a \<and> t_rejected_total a = 1 \<and>
       aggregate_to_dict (\<lambda>_. fold_and_reclaim_slot 2 20 20 1 demo_file) 2 9
         = Inr (a\<lparr>t_inflight := 0\<rparr>)"
proof -
  have nth: "demo_file ! 0 = zero_slot" "demo_file ! 1 = slot_of 2 demo_fields" "demo_file ! 2 = zero_slot"
    by (simp_all add: demo_file_def fresh_slot create_admission_file_def)
  have quiet: "\<forall>j \<le> 2. even (sv_seq (demo_file ! j))"
    using nth by (auto simp: le_Suc_eq numeral_2_eq_2 zero_slot_def slot_of_def)
  then obtain a where a: "aggregate_to_dict (\<lambda>_. demo_file) 2 9 = Inr a"
    and t: "t_inflight a = file_inflight 2 demo_file" "t_rejected_total a = file_rejected 2 demo_file"
    by (simp add: aggregate_quiet)
  have "file_inflight 2 demo_file = 2" "file_rejected 2 demo_file = 1"
    using nth by (simp_all add: file_inflight_def file_rejected_def upt_rec zero_slot_def slot_of_def
        demo_fields_def)
  moreover have "sv_inflight (demo_file ! 1) = 2" "0 \<le> sv_peak_sum (demo_file ! 1)"
    using nth by (simp_all add: slot_of_def demo_fields_def)
  ultimately show ?thesis
    using fold_preserves [OF _ _ quiet _ a refl, of 1 20 20] t a
    by (simp add: demo_file_def create_admission_file_def)
qed


subsection \<open>With one data plane the shared controller is the single-process one\<close>

datatype adm_cmd = TryAcquire | Release

text \<open>What a client does to either controller, and the answers it gets; releasing a request that
  was never admitted makes the single-process controller fail its assertion.\<close>

fun run_controller :: "adm_cmd list \<Rightarrow> controller \<Rightarrow> (bool list \<times> controller) res" where
  "run_controller [] c = Inr ([], c)"
| "run_controller (TryAcquire # cmds) c =
     (let (ok, c') = c_try_acquire c
      in bindE (run_controller cmds c') (\<lambda>(oks, c). Inr (ok # oks, c)))"
| "run_controller (Release # cmds) c = bindE (c_release c) (run_controller cmds)"

fun run_shared ::
  "(nat \<Rightarrow> rat) \<Rightarrow> nat \<Rightarrow> adm_cmd list \<Rightarrow> shared_admission \<times> buf \<Rightarrow>
     bool list \<times> shared_admission \<times> buf" where
  "run_shared clk t [] s = ([], s)"
| "run_shared clk t (TryAcquire # cmds) s =
     (let (ok, s') = sa_try_acquire (clk t) (clk (t + 1)) (clk (t + 2)) (fst s) (snd s);
          (oks, s'') = run_shared clk (t + 3) cmds s'
      in (ok # oks, s''))"
| "run_shared clk t (Release # cmds) s =
     run_shared clk (t + 1) cmds (sa_release (clk t) (fst s) (snd s))"

definition abs_controller :: "shared_admission \<Rightarrow> controller" where
  "abs_controller a =
     \<lparr>c_max_inflight = sa_max_inflight a, c_inflight = sa_inflight a,
      c_peak_inflight = sa_peak_sum a, c_rejected_total = sa_rejected_total a\<rparr>"

definition alone :: "shared_admission \<times> buf \<Rightarrow> bool" where
  "alone s \<longleftrightarrow> own_index (fst s) = 0 \<and> sa_slots (fst s) = 1 \<and> \<not> sibling_unstable (fst s) \<and>
     length (snd s) = 2 \<and> 0 \<le> sa_peak_sum (fst s) \<and> snd s ! 1 = zero_slot \<and>
     (\<exists>q c. snd s ! 0 = slot_of (2 * q) (own_fields (fst s) c))"

lemma own_written: "\<exists>q c'. slot_write (own_fields a c) v = slot_of (2 * q) (own_fields a c')"
  unfolding slot_write_eq using write_marker_odd [of v] by (metis evenE odd_even_add odd_one)

lemma alone_reads:
  assumes "alone (a, b)"
  shows "still_owner a b = Inr True" and "total_inflight a b = Inr (sa_inflight a)"
  using assms
  by (auto simp: alone_def still_owner_eq total_inflight_eq slot_of_def own_fields_def Let_def)

lemma alone_write:
  assumes "alone (a, b)" and "own_index a' = 0" "sa_slots a' = 1" "\<not> sibling_unstable a'"
    "0 \<le> sa_peak_sum a'"
  shows "alone (a', write_own a' c b)"
proof -
  show ?thesis
    using assms own_written by (simp add: alone_def write_own_def nth_list_update)
qed

lemma alone_acquire:
  assumes "alone (a, b)" and "sa_try_acquire c1 c2 c3 a b = (ok, a', b')"
  shows "alone (a', b') \<and> c_try_acquire (abs_controller a) = (ok, abs_controller a')"
proof (cases "sa_max_inflight a \<le> sa_inflight a")
  case True
  let ?a = "a\<lparr>sibling_unstable := False, sa_rejected_total := sa_rejected_total a + 1\<rparr>"
  have "ok = False \<and> a' = ?a \<and> b' = write_own ?a c3 b"
    using assms True alone_reads [OF assms(1)]
    by (auto simp: sa_try_acquire_def shed_from_cached_unstable_def alone_def shed_def Let_def
        mark_sibling_stable_def)
  moreover have "alone (?a, write_own ?a c3 b)"
    by (rule alone_write [OF assms(1)]) (use assms(1) in \<open>simp_all add: alone_def\<close>)
  ultimately show ?thesis using True by (simp add: c_try_acquire_def abs_controller_def)
next
  case False
  let ?n = "sa_inflight a + 1"
  let ?a = "a\<lparr>sibling_unstable := False, sa_inflight := ?n,
              sa_peak_sum := (if sa_peak_sum a < ?n then ?n else sa_peak_sum a)\<rparr>"
  have "ok = True \<and> a' = ?a \<and> b' = write_own ?a c3 b"
    using assms False alone_reads [OF assms(1)]
    by (auto simp: sa_try_acquire_def shed_from_cached_unstable_def alone_def Let_def
        mark_sibling_stable_def)
  moreover have "alone (?a, write_own ?a c3 b)"
    by (rule alone_write [OF assms(1)]) (use assms(1) in \<open>simp_all add: alone_def\<close>)
  ultimately show ?thesis using False by (simp add: c_try_acquire_def abs_controller_def Let_def)
qed

lemma alone_release:
  assumes "alone (a, b)" and "c_release (abs_controller a) = Inr c"
  shows "alone (sa_release t a b) \<and> abs_controller (fst (sa_release t a b)) = c"
proof -
  let ?a = "a\<lparr>sa_inflight := sa_inflight a - 1\<rparr>"
  have "0 < sa_inflight a" and c: "c = abs_controller ?a"
    using assms(2) by (auto simp: c_release_def abs_controller_def bindE_eq_Inr)
  then have r: "sa_release t a b = (?a, write_own ?a t b)"
    using alone_reads [OF assms(1)] by (simp add: sa_release_def Let_def)
  have "alone (?a, write_own ?a t b)"
    by (rule alone_write [OF assms(1)]) (use assms(1) in \<open>simp_all add: alone_def\<close>)
  then show ?thesis by (simp add: r c)
qed

lemma run_shared_refines:
  assumes "alone s" and "run_controller cmds (abs_controller (fst s)) = Inr (oks, c)"
  shows "\<exists>s'. run_shared clk t cmds s = (oks, s') \<and> alone s' \<and> abs_controller (fst s') = c"
  using assms
proof (induction cmds arbitrary: s t oks)
  case (Cons cmd cmds)
  obtain a b where s: "s = (a, b)" by (cases s)
  show ?case
  proof (cases cmd)
    case TryAcquire
    obtain ok a' b' where q: "sa_try_acquire (clk t) (clk (t + 1)) (clk (t + 2)) a b = (ok, a', b')"
      by (metis prod_cases3)
    note step = alone_acquire [OF Cons.prems(1) [unfolded s] q]
    obtain oks' where "run_controller cmds (abs_controller a') = Inr (oks', c)" "oks = ok # oks'"
      using Cons.prems(2) step by (auto simp: TryAcquire s bindE_eq_Inr)
    with Cons.IH [of "(a', b')" oks' "t + 3"] step q show ?thesis
      by (auto simp: TryAcquire s)
  next
    case Release
    obtain c' where c': "c_release (abs_controller a) = Inr c'" "run_controller cmds c' = Inr (oks, c)"
      using Cons.prems(2) by (auto simp: Release s bindE_eq_Inr)
    note step = alone_release [OF Cons.prems(1) [unfolded s] c'(1), of "clk t"]
    with Cons.IH [of "sa_release (clk t) a b" oks "t + 1"] c'(2) show ?thesis
      by (simp add: Release s)
  qed
qed simp

lemma alone_start:
  assumes "new_admission 1 0 m g p c (create_admission_file 1) = Inr s"
  shows "alone s \<and> abs_controller (fst s) = new_controller m"
proof -
  show ?thesis
    using assms own_written
    by (auto simp: new_admission_def write_own_def alone_def abs_controller_def new_controller_def
        create_admission_file_def Let_def)
qed

text \<open>C27: With one data plane, SharedAdmission is a drop-in for AdmissionController: on every sequence of
  acquires and releases that AdmissionController survives, it gives the same answers, and the
  aggregate read from the file is AdmissionController's own report.\<close>

theorem drop_in:
  assumes "run_controller cmds (new_controller m) = Inr (oks, c)"
    and "new_admission 1 0 m g p clk0 (create_admission_file 1) = Inr s"
  shows "\<exists>s'. run_shared clk t cmds s = (oks, s') \<and>
              aggregate_to_dict (\<lambda>_. snd s') 1 m = Inr (c_to_dict c)"
proof -
  have s: "alone s" "abs_controller (fst s) = new_controller m"
    using alone_start [OF assms(2)] by simp_all
  obtain s' where s': "run_shared clk t cmds s = (oks, s')" "alone s'" "abs_controller (fst s') = c"
    using run_shared_refines [OF s(1)] assms(1) s(2) by metis
  have "c_max_inflight c' = c_max_inflight c0" if "run_controller cmds c0 = Inr (oks', c')" for oks' c' c0 cmds
    using that
  proof (induction cmds arbitrary: c0 oks')
    case (Cons cmd cmds)
    then show ?case
      by (cases cmd) (fastforce simp: c_try_acquire_def c_release_def bindE_eq_Inr Let_def
          split: if_splits prod.splits)+
  qed simp
  then have "c_max_inflight c = m" using assms(1) by (simp add: new_controller_def)
  moreover have "aggregate_to_dict (\<lambda>_. snd s') 1 m
      = Inr \<lparr>t_inflight = sa_inflight (fst s'), t_max_inflight = m,
             t_peak_inflight = sa_peak_sum (fst s'), t_rejected_total = sa_rejected_total (fst s')\<rparr>"
    using s'(2)
    by (auto simp: aggregate_quiet alone_def le_Suc_eq file_inflight_def file_rejected_def
        zero_slot_def slot_of_def own_fields_def)
  ultimately show ?thesis
    using s'(1,3) by (auto simp: c_to_dict_def abs_controller_def)
qed

theorem drop_in_witness:
  "\<exists>s' s. new_admission 1 0 1 7 70 0 (create_admission_file 1) = Inr s \<and>
     run_shared (\<lambda>_. 0) 0 [TryAcquire, TryAcquire, Release, TryAcquire] s
       = ([True, False, True], s')"
proof -
  obtain s where s: "new_admission 1 0 1 7 70 0 (create_admission_file 1) = Inr s"
    by (simp add: new_admission_def Let_def)
  have "run_controller [TryAcquire, TryAcquire, Release, TryAcquire] (new_controller 1)
      = Inr ([True, False, True], \<lparr>c_max_inflight = 1, c_inflight = 1, c_peak_inflight = 1,
                                  c_rejected_total = 1\<rparr>)"
    by (simp add: c_try_acquire_def c_release_def new_controller_def Let_def)
  from drop_in [OF this s] s show ?thesis by blast
qed

end
