(* ===== verification/Coordinator.thy ===== *)
theory Coordinator
  imports Prelude
begin

section \<open>The pipeline coordinator\<close>

text \<open>
  Models \<open>Coordinator\<close> of \<open>sglang_omni/pipeline/coordinator.py\<close>: stage replicas and their
  selection, the life of a request from submission to completion, failure or abort, the merge of
  several terminal stages and the fan-out of stream messages.  Every coroutine is cut at the
  \<open>await\<close>s that can suspend it (sending to a stage, broadcasting an abort, waiting for a future
  or a queue); what lies between two of them is one step.  \<open>put\<close> on the unbounded queues never
  suspends.  A future and a queue are the values the dictionaries hold; \<open>serial\<close> stands for the
  identity of a RequestInfo object and of a queue object.  Logging, event emission and the
  transport are not modelled.
\<close>

subsection \<open>Data\<close>

record replica =
  dp_rank :: int
  endpoint :: string
  inflight :: int
  capacity :: "int option"

definition is_full :: "replica \<Rightarrow> bool" where
  "is_full r = (case capacity r of None \<Rightarrow> False | Some c \<Rightarrow> c \<le> inflight r)"

datatype request_state = Pending | Running | Completed | Failed | Aborted

text \<open>A result: one stage's value, or the dictionary of several terminal stages.\<close>

datatype 'v outcome = Single 'v | Merged "(string, 'v) dict"

record 'v request_info =
  serial :: nat
  ri_state :: request_state
  current_stage :: "string option"
  terminal_stages :: "string set option"
  ri_result :: "'v outcome option"
  ri_error :: "string option"
  owner_endpoint :: "string option"
  owner_dp_rank :: "int option"

record 'v complete_message =
  from_stage :: string
  success :: bool
  cm_result :: 'v
  cm_error :: "string option"

datatype 'v event = CompleteEvent "'v complete_message" | StreamEvent string 'v

datatype 'v future = FPending | FResult "'v outcome" | FException py_error | FCancelled

record 'v stream_queue =
  queue_serial :: nat
  queue_items :: "'v event list"

record 'v coordinator =
  entry_stage :: string
  static_terminals :: "string set"
  partial_results :: "(string, (string, 'v) dict) dict"
  stages :: "(string, replica list) dict"
  rr_cursors :: "(string, nat) dict"
  requests :: "(string, 'v request_info) dict"
  completion_futures :: "(string, 'v future) dict"
  stream_queues :: "(string, 'v stream_queue) dict"
  abort_tasks :: "string set"
  running :: bool
  fatal_error :: "string option"
  next_serial :: nat

definition new_coordinator :: "string \<Rightarrow> string list option \<Rightarrow> 'v coordinator" where
  "new_coordinator entry terminals =
     \<lparr>entry_stage = entry,
      static_terminals = (case terminals of None \<Rightarrow> {} | Some ts \<Rightarrow> set ts),
      partial_results = [], stages = [], rr_cursors = [], requests = [],
      completion_futures = [], stream_queues = [], abort_tasks = {}, running = False,
      fatal_error = None, next_serial = 0\<rparr>"

subsection \<open>Stages and replicas\<close>

definition replicas :: "string \<Rightarrow> 'v coordinator \<Rightarrow> replica list" where
  "replicas name c = (case dict_get (stages c) name of None \<Rightarrow> [] | Some rs \<Rightarrow> rs)"

definition register_stage ::
  "string \<Rightarrow> string \<Rightarrow> int option \<Rightarrow> int option \<Rightarrow> 'v coordinator \<Rightarrow> 'v coordinator" where
  "register_stage name ep rank cap c =
     (let rs = replicas name c;
          r = \<lparr>dp_rank = (case rank of None \<Rightarrow> int (length rs) | Some k \<Rightarrow> k),
               endpoint = ep, inflight = 0, capacity = cap\<rparr>
      in c\<lparr>stages := dict_set (stages c) name (rs @ [r])\<rparr>)"

text \<open>The index of the first replica with the rank.\<close>

definition replica_for :: "string \<Rightarrow> int \<Rightarrow> 'v coordinator \<Rightarrow> nat option" where
  "replica_for name rank c =
     find (\<lambda>k. dp_rank (replicas name c ! k) = rank) [0..<length (replicas name c)]"

text \<open>The index of the chosen replica and the next cursor.\<close>

definition select_index :: "replica list \<Rightarrow> nat \<Rightarrow> nat \<times> nat" where
  "select_index rs cur =
     (let count = length rs; cursor = cur mod count in
      case find (\<lambda>offset. \<not> is_full (rs ! ((cursor + offset) mod count))) [0..<count] of
        Some offset \<Rightarrow> ((cursor + offset) mod count, (cursor + offset + 1) mod count)
      | None \<Rightarrow> (cursor, (cursor + 1) mod count))"

definition select_replica :: "string \<Rightarrow> 'v coordinator \<Rightarrow> nat \<times> 'v coordinator" where
  "select_replica name c =
     (let cur = (case dict_get (rr_cursors c) name of None \<Rightarrow> 0 | Some n \<Rightarrow> n);
          (k, cur') = select_index (replicas name c) cur
      in (k, c\<lparr>rr_cursors := dict_set (rr_cursors c) name cur'\<rparr>))"

text \<open>\<open>replica.inflight = f(replica.inflight)\<close> for the replica object at an index.\<close>

definition update_inflight :: "string \<Rightarrow> nat \<Rightarrow> (int \<Rightarrow> int) \<Rightarrow> 'v coordinator \<Rightarrow> 'v coordinator" where
  "update_inflight name k f c =
     (let rs = replicas name c
      in c\<lparr>stages := dict_set (stages c) name (rs[k := (rs ! k)\<lparr>inflight := f (inflight (rs ! k))\<rparr>])\<rparr>)"

text \<open>\<open>info.current_stage or self.entry_stage\<close>\<close>

definition stage_of :: "'v request_info \<Rightarrow> 'v coordinator \<Rightarrow> string" where
  "stage_of info c =
     (case current_stage info of
        None \<Rightarrow> entry_stage c
      | Some s \<Rightarrow> if s = '''' then entry_stage c else s)"

text \<open>The effect of \<open>_release_replica(info)\<close> on the replicas and on the object.\<close>

definition release_counts :: "'v request_info \<Rightarrow> 'v coordinator \<Rightarrow> 'v coordinator" where
  "release_counts info c =
     (case owner_dp_rank info of
        None \<Rightarrow> c
      | Some rank \<Rightarrow>
          (case replica_for (stage_of info c) rank c of
             None \<Rightarrow> c
           | Some k \<Rightarrow> update_inflight (stage_of info c) k (\<lambda>n. max 0 (n - 1)) c))"

definition released :: "'v request_info \<Rightarrow> 'v request_info" where
  "released info =
     (case owner_dp_rank info of
        None \<Rightarrow> info
      | Some _ \<Rightarrow> info\<lparr>owner_dp_rank := None, owner_endpoint := None\<rparr>)"

subsection \<open>Submission\<close>

definition request_id_is_reserved :: "string \<Rightarrow> 'v coordinator \<Rightarrow> bool" where
  "request_id_is_reserved rid c \<longleftrightarrow>
     dict_get (requests c) rid \<noteq> None \<or> dict_get (completion_futures c) rid \<noteq> None \<or>
     dict_get (stream_queues c) rid \<noteq> None \<or> rid \<in> abort_tasks c"

text \<open>What the resolver callback may return: None, a sequence of names, anything else (a string, a
  non-sequence, names that are not strings), or an exception.\<close>

datatype resolver_answer = NoAnswer | Names "string list" | BadAnswer | Raises py_error

definition resolve_terminal_stages ::
  "'v coordinator \<Rightarrow> resolver_answer option \<Rightarrow> string set res" where
  "resolve_terminal_stages c answer =
     (case answer of
        None \<Rightarrow> Inr (static_terminals c)
      | Some NoAnswer \<Rightarrow> Inr (static_terminals c)
      | Some BadAnswer \<Rightarrow> Inl ValueError
      | Some (Raises e) \<Rightarrow> Inl e
      | Some (Names ns) \<Rightarrow>
          bindE (ensure (ns \<noteq> []) ValueError) (\<lambda>_.
          bindE (ensure (set ns - static_terminals c = {}) ValueError) (\<lambda>_. Inr (set ns))))"

text \<open>The replica of a submission.\<close>

definition entry_replica :: "int option \<Rightarrow> 'v coordinator \<Rightarrow> (nat \<times> 'v coordinator) res" where
  "entry_replica rank c =
     (case rank of
        None \<Rightarrow> Inr (select_replica (entry_stage c) c)
      | Some r \<Rightarrow>
          (case replica_for (entry_stage c) r c of
             None \<Rightarrow> Inl ValueError
           | Some k \<Rightarrow> Inr (k, c)))"

text \<open>
  \<open>_submit_request\<close> up to the \<open>await\<close> of \<open>submit_to_stage\<close>: the state, and the endpoint the
  message goes to or the exception raised.  \<open>answer\<close> is the resolver's answer for the request,
  if there is a resolver; \<open>queue\<close> says whether the caller is \<open>stream\<close>.
\<close>

definition submit_begin ::
  "string \<Rightarrow> resolver_answer option \<Rightarrow> bool \<Rightarrow> int option \<Rightarrow> 'v coordinator \<Rightarrow>
     'v coordinator \<times> string res" where
  "submit_begin rid answer queue rank c =
     (if fatal_error c \<noteq> None then (c, Inl RuntimeError)
      else if request_id_is_reserved rid c then (c, Inl ValueError)
      else if replicas (entry_stage c) c = [] then (c, Inl ValueError)
      else case entry_replica rank c of
        Inl e \<Rightarrow> (c, Inl e)
      | Inr (k, c) \<Rightarrow>
          let r = replicas (entry_stage c) c ! k;
              c = update_inflight (entry_stage c) k (\<lambda>n. n + 1) c
          in case resolve_terminal_stages c answer of
               Inl e \<Rightarrow> (c, Inl e)
             | Inr ts \<Rightarrow>
                 let s = next_serial c;
                     info = \<lparr>serial = s, ri_state = Pending, current_stage = Some (entry_stage c),
                             terminal_stages = Some ts, ri_result = None, ri_error = None,
                             owner_endpoint = Some (endpoint r), owner_dp_rank = Some (dp_rank r)\<rparr>
                 in (c\<lparr>requests := dict_set (requests c) rid info,
                       completion_futures := dict_set (completion_futures c) rid FPending,
                       stream_queues :=
                         (if queue
                          then dict_set (stream_queues c) rid \<lparr>queue_serial = s, queue_items = []\<rparr>
                          else stream_queues c),
                       next_serial := s + 1\<rparr>,
                     Inr (endpoint r)))"

text \<open>After the \<open>await\<close>: the message was sent.\<close>

definition submit_sent :: "string \<Rightarrow> 'v coordinator \<Rightarrow> 'v coordinator" where
  "submit_sent rid c =
     (case dict_get (requests c) rid of
        None \<Rightarrow> c
      | Some info \<Rightarrow> c\<lparr>requests := dict_set (requests c) rid (info\<lparr>ri_state := Running\<rparr>)\<rparr>)"

text \<open>After the \<open>await\<close>: sending raised \<open>e\<close>; \<open>self._requests[request_id]\<close> may itself raise.\<close>

definition submit_failed :: "py_error \<Rightarrow> string \<Rightarrow> 'v coordinator \<Rightarrow> 'v coordinator \<times> py_error" where
  "submit_failed e rid c =
     (case dict_get (requests c) rid of
        None \<Rightarrow> (c, KeyError)
      | Some info \<Rightarrow>
          ((release_counts info c)\<lparr>requests := dict_set (requests c) rid (released info)\<rparr>, e))"

text \<open>\<open>submit\<close> resumes when its future is done; the \<open>finally\<close> drops the future.\<close>

definition submit_return :: "string \<Rightarrow> 'v coordinator \<Rightarrow> 'v coordinator \<times> 'v future" where
  "submit_return rid c =
     (c\<lparr>completion_futures := dict_pop (completion_futures c) rid\<rparr>,
      case dict_get (completion_futures c) rid of None \<Rightarrow> FException KeyError | Some f \<Rightarrow> f)"

subsection \<open>Settling a request\<close>

definition reject_completion_future :: "string \<Rightarrow> py_error \<Rightarrow> 'v coordinator \<Rightarrow> 'v coordinator" where
  "reject_completion_future rid e c =
     (case dict_get (completion_futures c) rid of
        Some FPending \<Rightarrow>
          c\<lparr>completion_futures := dict_set (completion_futures c) rid
              (if dict_get (stream_queues c) rid \<noteq> None then FCancelled else FException e)\<rparr>
      | _ \<Rightarrow> c)"

text \<open>\<open>if not future.done(): future.set_result(...)\<close>, if the future is there.\<close>

definition resolve_future :: "string \<Rightarrow> 'v outcome \<Rightarrow> 'v coordinator \<Rightarrow> 'v coordinator" where
  "resolve_future rid v c =
     (case dict_get (completion_futures c) rid of
        Some FPending \<Rightarrow>
          c\<lparr>completion_futures := dict_set (completion_futures c) rid (FResult v)\<rparr>
      | _ \<Rightarrow> c)"

definition queue_put :: "string \<Rightarrow> 'v event \<Rightarrow> 'v coordinator \<Rightarrow> 'v coordinator" where
  "queue_put rid ev c =
     (case dict_get (stream_queues c) rid of
        None \<Rightarrow> c
      | Some q \<Rightarrow>
          c\<lparr>stream_queues := dict_set (stream_queues c) rid
              (q\<lparr>queue_items := queue_items q @ [ev]\<rparr>)\<rparr>)"

definition pop_request :: "string \<Rightarrow> 'v coordinator \<Rightarrow> 'v coordinator" where
  "pop_request rid c = c\<lparr>requests := dict_pop (requests c) rid\<rparr>"

definition pop_partials :: "string \<Rightarrow> 'v coordinator \<Rightarrow> 'v coordinator" where
  "pop_partials rid c = c\<lparr>partial_results := dict_pop (partial_results c) rid\<rparr>"

definition coordinator_failure :: "'v \<Rightarrow> string \<Rightarrow> 'v event" where
  "coordinator_failure none message =
     CompleteEvent \<lparr>from_stage = ''coordinator'', success = False, cm_result = none,
                    cm_error = Some message\<rparr>"

subsection \<open>Aborts\<close>

text \<open>What \<open>abort\<close> does before it waits: \<open>None\<close> when it waits for an abort task.\<close>

definition abort_begin :: "string \<Rightarrow> 'v coordinator \<Rightarrow> 'v coordinator \<times> bool option" where
  "abort_begin rid c =
     (if rid \<in> abort_tasks c then (c, None)
      else case dict_get (requests c) rid of
        None \<Rightarrow> (c, Some False)
      | Some info \<Rightarrow>
          if ri_state info \<in> {Completed, Failed, Aborted} then (c, Some False)
          else (c\<lparr>abort_tasks := insert rid (abort_tasks c)\<rparr>, None))"

text \<open>\<open>_run_abort\<close> after its broadcast; \<open>none\<close> is the result field of a failure message.\<close>

definition run_abort :: "'v \<Rightarrow> string \<Rightarrow> 'v coordinator \<Rightarrow> 'v coordinator \<times> bool" where
  "run_abort none rid c =
     (case dict_get (requests c) rid of
        None \<Rightarrow> (c, False)
      | Some info \<Rightarrow>
          let c = reject_completion_future rid CancelledError c;
              c = queue_put rid (coordinator_failure none ''aborted'') c;
              c = release_counts info c
          in (pop_partials rid (pop_request rid c), True))"

text \<open>\<open>_on_abort_task_done\<close>, whether the task returned or its broadcast raised.\<close>

definition abort_task_done :: "string \<Rightarrow> 'v coordinator \<Rightarrow> 'v coordinator" where
  "abort_task_done rid c = c\<lparr>abort_tasks := abort_tasks c - {rid}\<rparr>"

subsection \<open>Completions\<close>

definition expected_terminal_stages :: "string \<Rightarrow> 'v coordinator \<Rightarrow> string set" where
  "expected_terminal_stages rid c =
     (case dict_get (requests c) rid of
        None \<Rightarrow> static_terminals c
      | Some info \<Rightarrow>
          (case terminal_stages info of None \<Rightarrow> static_terminals c | Some ts \<Rightarrow> ts))"

text \<open>A failure up to its broadcast: the request is marked; the handler keeps the object's
  identity.\<close>

definition completion_fail_begin ::
  "string \<Rightarrow> 'v complete_message \<Rightarrow> 'v coordinator \<Rightarrow> 'v coordinator \<times> nat option" where
  "completion_fail_begin rid msg c =
     (case dict_get (requests c) rid of
        None \<Rightarrow> (c, None)
      | Some info \<Rightarrow>
          (c\<lparr>requests := dict_set (requests c) rid
               (info\<lparr>ri_state := Failed, ri_error := cm_error msg\<rparr>)\<rparr>,
           Some (serial info)))"

text \<open>
  A failure after its broadcast.  The handler releases the object it holds: if a concurrent
  abort settled the request in between, that object was released and dropped already and only
  the entry now under the id is removed.
\<close>

definition completion_fail_end ::
  "nat \<Rightarrow> string \<Rightarrow> 'v complete_message \<Rightarrow> 'v coordinator \<Rightarrow> 'v coordinator" where
  "completion_fail_end s rid msg c =
     (let c = pop_partials rid c;
          c = reject_completion_future rid RuntimeError c;
          c = queue_put rid (CompleteEvent msg) c;
          c = (case dict_get (requests c) rid of
                 None \<Rightarrow> c
               | Some info \<Rightarrow> if serial info = s then release_counts info c else c)
      in pop_request rid c)"

text \<open>A successful completion, of a message whose \<open>success\<close> holds; it suspends nowhere.\<close>

definition completion_success :: "string \<Rightarrow> 'v complete_message \<Rightarrow> 'v coordinator \<Rightarrow> 'v coordinator" where
  "completion_success rid msg c =
     (case dict_get (requests c) rid of
        None \<Rightarrow> c
      | Some info \<Rightarrow>
          let expected = expected_terminal_stages rid c in
          if expected \<noteq> {} \<and> from_stage msg \<notin> expected then c
          else if card expected \<le> 1 then
            let c = resolve_future rid (Single (cm_result msg)) c;
                c = queue_put rid (CompleteEvent msg) c
            in pop_request rid (release_counts info c)
          else
            let old = (case dict_get (partial_results c) rid of None \<Rightarrow> [] | Some p \<Rightarrow> p);
                partials = dict_set old (from_stage msg) (cm_result msg);
                c = c\<lparr>partial_results := dict_set (partial_results c) rid partials\<rparr>;
                c = queue_put rid (CompleteEvent msg) c
            in if fst ` set partials \<subset> expected then c
               else let c = pop_partials rid c;
                        c = resolve_future rid (Merged partials) c
                    in pop_request rid (release_counts info c))"

text \<open>
  \<open>_handle_completion\<close> up to its only suspension, the broadcast of a failure: a message for an
  unknown request is ignored, a failure is handled at once, whatever has been collected.
\<close>

definition handle_completion ::
  "string \<Rightarrow> 'v complete_message \<Rightarrow> 'v coordinator \<Rightarrow> 'v coordinator \<times> nat option" where
  "handle_completion rid msg c =
     (case dict_get (requests c) rid of
        None \<Rightarrow> (c, None)
      | Some _ \<Rightarrow>
          if \<not> success msg then completion_fail_begin rid msg c
          else (completion_success rid msg c, None))"

definition handle_stream :: "string \<Rightarrow> string \<Rightarrow> 'v \<Rightarrow> 'v coordinator \<Rightarrow> 'v coordinator" where
  "handle_stream rid stage chunk c = queue_put rid (StreamEvent stage chunk) c"

subsection \<open>Streams\<close>

text \<open>What the consumer does with a message: it yields it, yields it and ends, or raises.\<close>

datatype stream_action = Yield | YieldLast | RaiseError

definition stream_step ::
  "string set \<Rightarrow> string set \<Rightarrow> 'v event \<Rightarrow> stream_action \<times> string set" where
  "stream_step expected completed ev =
     (case ev of
        StreamEvent _ _ \<Rightarrow> (Yield, completed)
      | CompleteEvent msg \<Rightarrow>
          if \<not> success msg then (RaiseError, completed)
          else let completed = insert (from_stage msg) completed
               in (if expected = {} \<or> expected \<subseteq> completed then YieldLast else Yield, completed))"

text \<open>The end of \<open>stream\<close>'s clean-up: the queue that is still its own is dropped with the future.\<close>

definition stream_cleanup :: "nat \<Rightarrow> string \<Rightarrow> 'v coordinator \<Rightarrow> 'v coordinator" where
  "stream_cleanup s rid c =
     (case dict_get (stream_queues c) rid of
        None \<Rightarrow> c
      | Some q \<Rightarrow>
          if queue_serial q = s
          then c\<lparr>stream_queues := dict_pop (stream_queues c) rid,
                completion_futures := dict_pop (completion_futures c) rid\<rparr>
          else c)"

subsection \<open>Other operations\<close>

text \<open>One turn of the loop of \<open>fail_pending_requests\<close>.\<close>

definition fail_request :: "'v \<Rightarrow> string \<Rightarrow> string \<times> 'v request_info \<Rightarrow> 'v coordinator \<Rightarrow> 'v coordinator" where
  "fail_request none message entry c =
     (let rid = fst entry;
          c = reject_completion_future rid RuntimeError c;
          c = queue_put rid (coordinator_failure none message) c
      in release_counts (snd entry) c)"

definition fail_pending_requests :: "'v \<Rightarrow> string \<Rightarrow> 'v coordinator \<Rightarrow> 'v coordinator" where
  "fail_pending_requests none message c =
     (let c = c\<lparr>running := False, fatal_error := Some message\<rparr>;
          c = fold (fail_request none message) (requests c) c
      in c\<lparr>requests := [], partial_results := []\<rparr>)"

text \<open>The stage and the endpoint an update goes to; \<open>is_dict\<close> is \<open>isinstance(data, dict)\<close>.\<close>

definition update_request ::
  "string \<Rightarrow> bool \<Rightarrow> string option \<Rightarrow> 'v coordinator \<Rightarrow> (string \<times> string) res" where
  "update_request rid is_dict stage_name c =
     (case dict_get (requests c) rid of
        None \<Rightarrow> Inl KeyError
      | Some info \<Rightarrow>
          bindE (ensure (ri_state info = Running) RuntimeError) (\<lambda>_.
          let target = (case stage_name of
                          None \<Rightarrow> stage_of info c
                        | Some s \<Rightarrow> if s = '''' then stage_of info c else s)
          in bindE
               (case (stage_name, owner_endpoint info) of
                  (None, Some ep) \<Rightarrow> Inr ep
                | _ \<Rightarrow> (case replicas target c of [] \<Rightarrow> Inl ValueError | r # _ \<Rightarrow> Inr (endpoint r)))
               (\<lambda>ep. bindE (ensure is_dict TypeError) (\<lambda>_. Inr (target, ep)))))"

definition get_request_info :: "string \<Rightarrow> 'v coordinator \<Rightarrow> 'v request_info option" where
  "get_request_info rid c = dict_get (requests c) rid"

record health_report =
  h_running :: bool
  h_stages :: "string list"
  h_entry_stage :: string
  h_total_requests :: nat
  h_pending_completions :: nat
  h_request_states :: "(request_state, nat) dict"

definition count_state :: "request_state \<Rightarrow> (request_state, nat) dict \<Rightarrow> (request_state, nat) dict" where
  "count_state s d = dict_set d s ((case dict_get d s of None \<Rightarrow> 0 | Some n \<Rightarrow> n) + 1)"

definition coordinator_health :: "'v coordinator \<Rightarrow> health_report" where
  "coordinator_health c =
     \<lparr>h_running = running c, h_stages = dict_keys (stages c), h_entry_stage = entry_stage c,
      h_total_requests = length (requests c),
      h_pending_completions = length (completion_futures c),
      h_request_states = fold (\<lambda>info. count_state (ri_state info)) (dict_vals (requests c)) []\<rparr>"

text \<open>\<open>run_coordinator\<close>: a coordinator with its stages registered, one entry per replica, and
  started.\<close>

definition run_coordinator ::
  "string \<Rightarrow> string list option \<Rightarrow> (string \<times> string \<times> int option \<times> int option) list \<Rightarrow> 'v coordinator" where
  "run_coordinator entry terminals regs =
     (fold (\<lambda>(name, ep, rank, cap). register_stage name ep rank cap) regs
        (new_coordinator entry terminals))\<lparr>running := True\<rparr>"

end
