(* ===== verification/Coordinator_Props.thy ===== *)
theory Coordinator_Props
  imports Coordinator
begin

section \<open>The coordinator's step relation and its invariants\<close>

text \<open>
  The steps the coordinator's tasks take between suspension points, interleaved in any order: the
  completion loop handles one message at a time (\<open>failing\<close> is the failure whose broadcast it
  awaits), submitters, streams and abort tasks run beside it.  The occupancy of every entry
  replica is exactly the number of live requests it owns, a pending future always has a live
  request that will settle it, and a settled future never changes.
\<close>

subsection \<open>What the operations do to each dictionary\<close>

named_theorems co_frame

lemma update_inflight_simps [simp, co_frame]:
  "requests (update_inflight name k f c) = requests c"
  "completion_futures (update_inflight name k f c) = completion_futures c"
  "stream_queues (update_inflight name k f c) = stream_queues c"
  "partial_results (update_inflight name k f c) = partial_results c"
  "entry_stage (update_inflight name k f c) = entry_stage c"
  "static_terminals (update_inflight name k f c) = static_terminals c"
  "abort_tasks (update_inflight name k f c) = abort_tasks c"
  "next_serial (update_inflight name k f c) = next_serial c"
  by (simp_all add: update_inflight_def Let_def)

lemma release_counts_simps [simp, co_frame]:
  "requests (release_counts i c) = requests c"
  "completion_futures (release_counts i c) = completion_futures c"
  "stream_queues (release_counts i c) = stream_queues c"
  "partial_results (release_counts i c) = partial_results c"
  "entry_stage (release_counts i c) = entry_stage c"
  "static_terminals (release_counts i c) = static_terminals c"
  "abort_tasks (release_counts i c) = abort_tasks c"
  by (simp_all add: release_counts_def split: option.splits)

lemma select_replica_simps:
  assumes "select_replica name c = (k, c')"
  shows "requests c' = requests c" "completion_futures c' = completion_futures c"
    "stages c' = stages c" "stream_queues c' = stream_queues c" "entry_stage c' = entry_stage c"
    "partial_results c' = partial_results c" "static_terminals c' = static_terminals c"
  using assms by (auto simp: select_replica_def Let_def split: prod.splits)

lemma reject_simps [simp, co_frame]:
  "requests (reject_completion_future rid e c) = requests c"
  "stages (reject_completion_future rid e c) = stages c"
  "stream_queues (reject_completion_future rid e c) = stream_queues c"
  "partial_results (reject_completion_future rid e c) = partial_results c"
  "entry_stage (reject_completion_future rid e c) = entry_stage c"
  "static_terminals (reject_completion_future rid e c) = static_terminals c"
  by (simp_all add: reject_completion_future_def split: option.splits future.splits)

lemma resolve_simps [simp, co_frame]:
  "requests (resolve_future rid v c) = requests c"
  "stages (resolve_future rid v c) = stages c"
  "stream_queues (resolve_future rid v c) = stream_queues c"
  "partial_results (resolve_future rid v c) = partial_results c"
  "entry_stage (resolve_future rid v c) = entry_stage c"
  "static_terminals (resolve_future rid v c) = static_terminals c"
  by (simp_all add: resolve_future_def split: option.splits future.splits)

lemma queue_put_simps [simp, co_frame]:
  "requests (queue_put rid ev c) = requests c"
  "stages (queue_put rid ev c) = stages c"
  "completion_futures (queue_put rid ev c) = completion_futures c"
  "partial_results (queue_put rid ev c) = partial_results c"
  "entry_stage (queue_put rid ev c) = entry_stage c"
  "static_terminals (queue_put rid ev c) = static_terminals c"
  by (simp_all add: queue_put_def split: option.splits)

lemma pop_simps [simp, co_frame]:
  "requests (pop_request rid c) = dict_pop (requests c) rid"
  "requests (pop_partials rid c) = requests c"
  "stages (pop_request rid c) = stages c" "stages (pop_partials rid c) = stages c"
  "completion_futures (pop_request rid c) = completion_futures c"
  "completion_futures (pop_partials rid c) = completion_futures c"
  "stream_queues (pop_request rid c) = stream_queues c"
  "stream_queues (pop_partials rid c) = stream_queues c"
  "partial_results (pop_request rid c) = partial_results c"
  "partial_results (pop_partials rid c) = dict_pop (partial_results c) rid"
  "entry_stage (pop_request rid c) = entry_stage c" "entry_stage (pop_partials rid c) = entry_stage c"
  "static_terminals (pop_request rid c) = static_terminals c"
  "static_terminals (pop_partials rid c) = static_terminals c"
  by (simp_all add: pop_request_def pop_partials_def)

lemma replicas_simps [simp]:
  "replicas name (reject_completion_future rid e c) = replicas name c"
  "replicas name (resolve_future rid v c) = replicas name c"
  "replicas name (queue_put rid ev c) = replicas name c"
  "replicas name (pop_request rid c) = replicas name c"
  "replicas name (pop_partials rid c) = replicas name c"
  "replicas name (c\<lparr>requests := a\<rparr>) = replicas name c"
  "replicas name (c\<lparr>completion_futures := f\<rparr>) = replicas name c"
  "replicas name (c\<lparr>stream_queues := q\<rparr>) = replicas name c"
  "replicas name (c\<lparr>abort_tasks := t\<rparr>) = replicas name c"
  "replicas name (c\<lparr>partial_results := p\<rparr>) = replicas name c"
  "replicas name (c\<lparr>rr_cursors := k\<rparr>) = replicas name c"
  "replicas name (c\<lparr>running := b, fatal_error := m\<rparr>) = replicas name c"
  "replicas name (c\<lparr>next_serial := n\<rparr>) = replicas name c"
  by (simp_all add: replicas_def)

text \<open>The futures after a settlement.\<close>

lemma reject_futures [simp]:
  "dict_get (completion_futures (reject_completion_future rid e c)) r =
     (if r = rid \<and> dict_get (completion_futures c) rid = Some FPending
      then Some (if dict_get (stream_queues c) rid \<noteq> None then FCancelled else FException e)
      else dict_get (completion_futures c) r)"
  by (auto simp: reject_completion_future_def split: option.splits future.splits)

lemma resolve_futures [simp]:
  "dict_get (completion_futures (resolve_future rid v c)) r =
     (if r = rid \<and> dict_get (completion_futures c) rid = Some FPending
      then Some (FResult v) else dict_get (completion_futures c) r)"
  by (auto simp: resolve_future_def split: option.splits future.splits)

subsection \<open>Steps\<close>

record 'v co_world =
  co :: "'v coordinator"
  failing :: "(nat \<times> string) option"

text \<open>
  \<open>none\<close> is the empty result.  The resolver answers acceptably, and no request is submitted under
  the id of a failure still being handled.
\<close>

inductive co_step :: "'v \<Rightarrow> 'v co_world \<Rightarrow> 'v co_world \<Rightarrow> bool" for none where
  s_submit: "submit_begin rid answer queue rank (co w) = (c, r) \<Longrightarrow>
     (\<exists>ts. resolve_terminal_stages (co w) answer = Inr ts) \<Longrightarrow> rid \<notin> snd ` set_option (failing w) \<Longrightarrow>
     co_step none w (w\<lparr>co := c\<rparr>)"
| s_sent: "co_step none w (w\<lparr>co := submit_sent rid (co w)\<rparr>)"
| s_unsent: "co_step none w (w\<lparr>co := fst (submit_failed e rid (co w))\<rparr>)"
| s_return: "co_step none w (w\<lparr>co := fst (submit_return rid (co w))\<rparr>)"
| s_abort: "co_step none w (w\<lparr>co := fst (abort_begin rid (co w))\<rparr>)"
| s_run_abort: "rid \<in> abort_tasks (co w) \<Longrightarrow>
     co_step none w (w\<lparr>co := fst (run_abort none rid (co w))\<rparr>)"
| s_abort_done: "co_step none w (w\<lparr>co := abort_task_done rid (co w)\<rparr>)"
| s_fail_begin: "failing w = None \<Longrightarrow> completion_fail_begin rid msg (co w) = (c, s) \<Longrightarrow>
     co_step none w (w\<lparr>co := c, failing := map_option (\<lambda>n. (n, rid)) s\<rparr>)"
| s_fail_end: "failing w = Some (n, rid) \<Longrightarrow>
     co_step none w (w\<lparr>co := completion_fail_end n rid msg (co w), failing := None\<rparr>)"
| s_fail_stuck: "co_step none w (w\<lparr>failing := None\<rparr>)"
| s_success: "failing w = None \<Longrightarrow>
     co_step none w (w\<lparr>co := completion_success rid msg (co w)\<rparr>)"
| s_stream: "failing w = None \<Longrightarrow>
     co_step none w (w\<lparr>co := handle_stream rid stage chunk (co w)\<rparr>)"
| s_cleanup: "co_step none w (w\<lparr>co := stream_cleanup n rid (co w)\<rparr>)"
| s_fail_all: "co_step none w (w\<lparr>co := fail_pending_requests none message (co w)\<rparr>)"

inductive_cases co_stepE: "co_step none w w'"

subsection \<open>Occupancy of the entry replicas\<close>

definition owned :: "int \<Rightarrow> (string, 'v request_info) dict \<Rightarrow> nat" where
  "owned r d = length (filter (\<lambda>(rid, info). owner_dp_rank info = Some r) d)"

definition ranks_distinct :: "'v coordinator \<Rightarrow> bool" where
  "ranks_distinct c \<longleftrightarrow> distinct (map dp_rank (replicas (entry_stage c) c))"

definition occupancy :: "'v coordinator \<Rightarrow> bool" where
  "occupancy c \<longleftrightarrow>
     dict_wf (requests c) \<and> ranks_distinct c \<and>
     (\<forall>info \<in> snd ` set (requests c). current_stage info = Some (entry_stage c) \<and>
        set_option (owner_dp_rank info) \<subseteq> dp_rank ` set (replicas (entry_stage c) c)) \<and>
     (\<forall>r \<in> set (replicas (entry_stage c) c). inflight r = int (owned (dp_rank r) (requests c)))"

lemma owned_set:
  assumes "dict_wf d"
  shows "int (owned r (dict_set d k v)) = int (owned r d)
     + (if owner_dp_rank v = Some r then 1 else 0)
     - (case dict_get d k of None \<Rightarrow> 0 | Some i \<Rightarrow> if owner_dp_rank i = Some r then 1 else 0)"
  using assms
proof (induction d)
  case (Cons p d)
  obtain k' v' where p: "p = (k', v')" by fastforce
  have "dict_get d k = None" if "k' = k"
    using Cons.prems that by (simp add: p dict_wf_def dict_get_None)
  moreover have "dict_wf d" using Cons.prems by (simp add: dict_wf_def)
  ultimately show ?case using Cons.IH by (auto simp: p owned_def)
qed (simp add: owned_def)

lemma dict_pop_absent: "k \<notin> fst ` set d \<Longrightarrow> dict_pop d k = d"
  unfolding dict_pop_def by (rule filter_True) force

lemma owned_pop:
  assumes "dict_wf d"
  shows "int (owned r (dict_pop d k)) = int (owned r d)
     - (case dict_get d k of None \<Rightarrow> 0 | Some i \<Rightarrow> if owner_dp_rank i = Some r then 1 else 0)"
  using assms
proof (induction d)
  case (Cons p d)
  obtain k' v' where p: "p = (k', v')" by fastforce
  have "dict_get d k = None \<and> dict_pop d k = d" if "k' = k"
    using Cons.prems that by (auto simp: p dict_wf_def dict_get_None dict_pop_absent)
  moreover have "dict_wf d" using Cons.prems by (simp add: dict_wf_def)
  ultimately show ?case using Cons.IH by (auto simp: p owned_def)
qed (simp add: owned_def)


lemma owned_get:
  assumes "dict_wf d" and "dict_get d k = Some i"
  shows "int (owned r (dict_pop d k)) = int (owned r d) - (if owner_dp_rank i = Some r then 1 else 0)"
    and "owner_dp_rank v = None \<Longrightarrow> int (owned r (dict_set d k v))
           = int (owned r d) - (if owner_dp_rank i = Some r then 1 else 0)"
    and "owner_dp_rank v = owner_dp_rank i \<Longrightarrow> owned r (dict_set d k v) = owned r d"
  using owned_pop [OF assms(1), of r k] owned_set [OF assms(1), of r k v] assms(2) by simp_all

lemma find_upt:
  "find P [0..<n] = Some k \<Longrightarrow> k < n \<and> P k" "find P [0..<n] = None \<Longrightarrow> k < n \<Longrightarrow> \<not> P k"
  by (auto simp: find_Some_iff find_None_iff)

lemma replica_for_Some:
  assumes "rank \<in> dp_rank ` set (replicas name c)"
  shows "\<exists>k. replica_for name rank c = Some k \<and> k < length (replicas name c) \<and>
             dp_rank (replicas name c ! k) = rank"
proof (cases "replica_for name rank c")
  case None
  obtain j where "j < length (replicas name c)" "dp_rank (replicas name c ! j) = rank"
    using assms by (auto simp: in_set_conv_nth)
  then show ?thesis using find_upt(2) [OF None [unfolded replica_for_def]] by blast
next
  case (Some k)
  with find_upt(1) [OF Some [unfolded replica_for_def]] show ?thesis by blast
qed

lemma replicas_update_inflight [simp]:
  "replicas name' (update_inflight name k f c) =
     (if name' = name
      then (replicas name c)[k := (replicas name c ! k)\<lparr>inflight := f (inflight (replicas name c ! k))\<rparr>]
      else replicas name' c)"
  by (simp add: replicas_def update_inflight_def Let_def)

definition counts_match :: "replica list \<Rightarrow> (string, 'v request_info) dict \<Rightarrow> bool" where
  "counts_match rs d \<longleftrightarrow> (\<forall>r \<in> set rs. inflight r = int (owned (dp_rank r) d))"

text \<open>One replica's count moves with the requests it owns.\<close>

lemma counts_match_update:
  assumes "counts_match rs d" and "distinct (map dp_rank rs)" and k: "k < length rs"
    and new: "f (inflight (rs ! k)) = int (owned (dp_rank (rs ! k)) d')"
    and same: "\<And>r. r \<noteq> dp_rank (rs ! k) \<Longrightarrow> owned r d' = owned r d"
  shows "counts_match (rs[k := (rs ! k)\<lparr>inflight := f (inflight (rs ! k))\<rparr>]) d'"
  unfolding counts_match_def
proof
  fix r assume "r \<in> set (rs[k := (rs ! k)\<lparr>inflight := f (inflight (rs ! k))\<rparr>])"
  then obtain j where j: "j < length rs"
    "r = (rs[k := (rs ! k)\<lparr>inflight := f (inflight (rs ! k))\<rparr>]) ! j"
    by (auto simp: in_set_conv_nth)
  show "inflight r = int (owned (dp_rank r) d')"
  proof (cases "j = k")
    case False
    then have "dp_rank (rs ! j) \<noteq> dp_rank (rs ! k)"
      using nth_eq_iff_index_eq [OF assms(2), of j k] j(1) k by simp
    then show ?thesis using assms(1) False j same [of "dp_rank (rs ! j)"] by (simp add: counts_match_def)
  qed (use j new in simp)
qed

lemma map_dp_rank_update [simp]:
  "map dp_rank (rs[k := (rs ! k)\<lparr>inflight := x\<rparr>]) = map dp_rank rs"
  by (cases "k < length rs") (simp_all add: map_update list_update_same_conv list_update_beyond)

definition entry_ok :: "'v coordinator \<Rightarrow> 'v request_info \<Rightarrow> bool" where
  "entry_ok c info \<longleftrightarrow> current_stage info = Some (entry_stage c) \<and>
     set_option (owner_dp_rank info) \<subseteq> dp_rank ` set (replicas (entry_stage c) c)"

lemma occupancy_alt:
  "occupancy c \<longleftrightarrow> dict_wf (requests c) \<and> ranks_distinct c \<and>
     (\<forall>info \<in> snd ` set (requests c). entry_ok c info) \<and>
     counts_match (replicas (entry_stage c) c) (requests c)"
  by (simp add: occupancy_def entry_ok_def counts_match_def)

text \<open>The entry stage's ranks, the key of everything that must stay as it is.\<close>

definition ranks :: "'v coordinator \<Rightarrow> int list" where
  "ranks c = map dp_rank (replicas (entry_stage c) c)"

lemma ranks_release [simp]: "ranks (release_counts i c) = ranks c"
  by (simp add: ranks_def release_counts_def split: option.splits)

lemma entry_ok_ranks:
  "ranks c' = ranks c \<Longrightarrow> entry_stage c' = entry_stage c \<Longrightarrow> entry_ok c' i = entry_ok c i"
  unfolding entry_ok_def ranks_def by (metis list.set_map)

text \<open>Releasing a live request: whatever dictionary no longer counts it matches again.\<close>

lemma release_counts_match:
  assumes match: "counts_match (replicas (entry_stage c) c) d" and dist: "ranks_distinct c"
    and ok: "entry_ok c info"
    and count: "\<And>r. int (owned r d') = int (owned r d) - (if owner_dp_rank info = Some r then 1 else 0)"
  shows "counts_match (replicas (entry_stage c) (release_counts info c)) d'"
proof -
  let ?rs = "replicas (entry_stage c) c"
  have stage: "stage_of info c = entry_stage c"
    and owner: "set_option (owner_dp_rank info) \<subseteq> dp_rank ` set ?rs"
    using ok by (simp_all add: entry_ok_def stage_of_def)
  show ?thesis
  proof (cases "owner_dp_rank info")
    case None
    then have "owned r d' = owned r d" for r using count [of r] by simp
    then show ?thesis using match None by (simp add: release_counts_def counts_match_def)
  next
    case (Some rank)
    then obtain k where k: "replica_for (entry_stage c) rank c = Some k" "k < length ?rs"
      "dp_rank (?rs ! k) = rank" using replica_for_Some owner by fastforce
    have one: "inflight (?rs ! k) = int (owned rank d)" using match k by (auto simp: counts_match_def)
    have same: "owned r d' = owned r d" if "r \<noteq> dp_rank (?rs ! k)" for r
      using count [of r] that Some k(3) by simp
    have "max 0 (inflight (?rs ! k) - 1) = int (owned (dp_rank (?rs ! k)) d')"
      using count [of rank] Some k(3) one by simp
    from counts_match_update [OF match dist [unfolded ranks_distinct_def] k(2),
        of "\<lambda>n. max 0 (n - 1)", OF this same]
    have "counts_match (?rs[k := (?rs ! k)\<lparr>inflight := max 0 (inflight (?rs ! k) - 1)\<rparr>]) d'"
      by simp
    then show ?thesis using Some k(1) stage by (simp add: release_counts_def)
  qed
qed

lemma occupancy_frame [simp]:
  "occupancy (reject_completion_future rid e c) = occupancy c"
  "occupancy (resolve_future rid v c) = occupancy c"
  "occupancy (queue_put rid ev c) = occupancy c"
  "occupancy (pop_partials rid c) = occupancy c"
  "occupancy (c\<lparr>completion_futures := f\<rparr>) = occupancy c"
  "occupancy (c\<lparr>stream_queues := q\<rparr>) = occupancy c"
  "occupancy (c\<lparr>abort_tasks := t\<rparr>) = occupancy c"
  "occupancy (c\<lparr>partial_results := p\<rparr>) = occupancy c"
  by (simp_all add: occupancy_def ranks_distinct_def)

lemma ranks_distinct_ranks: "ranks_distinct c = distinct (ranks c)"
  by (simp add: ranks_distinct_def ranks_def)

text \<open>The entry under an id is replaced or dropped.\<close>

lemma occupancy_entry:
  assumes occ: "occupancy c" and req: "requests c' = d'" and "dict_wf d'"
    and sub: "snd ` set d' \<subseteq> insert info (snd ` set (requests c))" and ok: "entry_ok c info"
    and "ranks c' = ranks c" and "entry_stage c' = entry_stage c"
    and "counts_match (replicas (entry_stage c) c') d'"
  shows "occupancy c'"
proof -
  have "\<forall>i \<in> snd ` set d'. entry_ok c i" using occ sub ok unfolding occupancy_alt by blast
  then show ?thesis
    using assms entry_ok_ranks [of c' c] unfolding occupancy_alt ranks_distinct_ranks by simp
qed

lemma occupancy_get:
  "occupancy c \<Longrightarrow> dict_get (requests c) rid = Some info \<Longrightarrow> entry_ok c info \<and> dict_wf (requests c)"
  using dict_get_in unfolding occupancy_alt by fastforce

lemma occupancy_drop:
  assumes occ: "occupancy c" and get: "dict_get (requests c) rid = Some info"
  shows "occupancy (pop_request rid (release_counts info c))"
proof (rule occupancy_entry [OF occ, of _ _ info])
  note ok = occupancy_get [OF occ get]
  show "dict_wf (dict_pop (requests c) rid)" "entry_ok c info" using ok by auto
  show "snd ` set (dict_pop (requests c) rid) \<subseteq> insert info (snd ` set (requests c))"
    by (auto simp: dict_pop_def)
  have "counts_match (replicas (entry_stage c) (release_counts info c)) (dict_pop (requests c) rid)"
    using occ ok by (intro release_counts_match [of c "requests c"] owned_get(1) [OF _ get])
      (simp_all add: occupancy_alt)
  then show "counts_match (replicas (entry_stage c) (pop_request rid (release_counts info c)))
      (dict_pop (requests c) rid)" by simp
  show "ranks (pop_request rid (release_counts info c)) = ranks c"
    using ranks_release [of info c] by (simp add: ranks_def)
qed simp_all

lemma set_subset_insert: "snd ` set (dict_set d k v) \<subseteq> insert v (snd ` set d)"
  using dict_set_subset [of d k v] by force

lemma occupancy_mark:
  assumes occ: "occupancy c" and get: "dict_get (requests c) rid = Some info"
    and same: "owner_dp_rank info' = owner_dp_rank info" "current_stage info' = current_stage info"
  shows "occupancy (c\<lparr>requests := dict_set (requests c) rid info'\<rparr>)"
proof (rule occupancy_entry [OF occ, of _ _ info'])
  note ok = occupancy_get [OF occ get]
  show "dict_wf (dict_set (requests c) rid info')" "entry_ok c info'"
    using ok same by (auto simp: entry_ok_def)
  have "owned r (dict_set (requests c) rid info') = owned r (requests c)" for r
    using owned_get(3) [OF _ get] ok same by simp
  then show "counts_match (replicas (entry_stage c) (c\<lparr>requests := dict_set (requests c) rid info'\<rparr>))
      (dict_set (requests c) rid info')" using occ by (simp add: occupancy_alt counts_match_def)
qed (simp_all add: ranks_def set_subset_insert)

lemma occupancy_unsent:
  assumes occ: "occupancy c" and get: "dict_get (requests c) rid = Some info"
  shows "occupancy ((release_counts info c)\<lparr>requests := dict_set (requests c) rid (released info)\<rparr>)"
proof (rule occupancy_entry [OF occ, of _ _ "released info"])
  note ok = occupancy_get [OF occ get]
  have rel: "owner_dp_rank (released info) = None" "current_stage (released info) = current_stage info"
    by (simp_all add: released_def split: option.splits)
  show "dict_wf (dict_set (requests c) rid (released info))" "entry_ok c (released info)"
    using ok rel by (auto simp: entry_ok_def)
  have "counts_match (replicas (entry_stage c) (release_counts info c))
          (dict_set (requests c) rid (released info))"
    using occ ok by (intro release_counts_match [of c "requests c"] owned_get(2) [OF _ get])
      (simp_all add: occupancy_alt rel)
  then show "counts_match (replicas (entry_stage c) ((release_counts info c)
      \<lparr>requests := dict_set (requests c) rid (released info)\<rparr>)) (dict_set (requests c) rid (released info))"
    by simp
  show "ranks ((release_counts info c)\<lparr>requests := dict_set (requests c) rid (released info)\<rparr>) = ranks c"
    using ranks_release [of info c] by (simp add: ranks_def)
qed (simp_all add: set_subset_insert)


subsection \<open>Replica selection\<close>

lemma select_index_less: "rs \<noteq> [] \<Longrightarrow> fst (select_index rs cur) < length rs"
  by (auto simp: select_index_def Let_def split: option.splits)

lemma select_index_free:
  assumes "k < length rs" and "\<not> is_full (rs ! k)"
  shows "\<not> is_full (rs ! fst (select_index rs cur))"
proof -
  let ?n = "length rs" and ?c = "cur mod length rs"
  let ?P = "\<lambda>offset. \<not> is_full (rs ! ((?c + offset) mod ?n))"
  have n: "0 < ?n" using assms(1) by linarith
  then have "?c < ?n" by simp
  note n = n this
  have "?c + (k + ?n - ?c) = k + ?n" using n by linarith
  then have "(?c + (k + ?n - ?c) mod ?n) mod ?n = k"
    using assms(1) by (simp add: mod_add_right_eq)
  then have "?P ((k + ?n - ?c) mod ?n)" using assms(2) by simp
  moreover have "(k + ?n - ?c) mod ?n < ?n" using n by simp
  ultimately have "find ?P [0..<?n] \<noteq> None" by (auto simp: find_None_iff)
  then obtain j where "find ?P [0..<?n] = Some j" by blast
  with find_upt(1) [OF this] show ?thesis by (simp add: select_index_def Let_def)
qed

lemma entry_replica_facts:
  assumes "entry_replica rank c = Inr (k, c')" and "replicas (entry_stage c) c \<noteq> []"
  shows "k < length (replicas (entry_stage c) c)" "stages c' = stages c" "requests c' = requests c"
    "entry_stage c' = entry_stage c" "completion_futures c' = completion_futures c"
    "stream_queues c' = stream_queues c" "partial_results c' = partial_results c"
    "static_terminals c' = static_terminals c"
proof -
  have "k < length (replicas (entry_stage c) c) \<and> stages c' = stages c \<and> requests c' = requests c \<and>
    entry_stage c' = entry_stage c \<and> completion_futures c' = completion_futures c \<and>
    stream_queues c' = stream_queues c \<and> partial_results c' = partial_results c \<and>
    static_terminals c' = static_terminals c"
  proof (cases rank)
    case None
    then have s: "select_replica (entry_stage c) c = (k, c')" using assms(1) by (simp add: entry_replica_def)
    have "k = fst (select_index (replicas (entry_stage c) c)
        (case dict_get (rr_cursors c) (entry_stage c) of None \<Rightarrow> 0 | Some n \<Rightarrow> n))"
      using s by (simp add: select_replica_def Let_def case_prod_unfold)
    then show ?thesis using select_index_less [OF assms(2)] select_replica_simps [OF s] by simp
  next
    case (Some r)
    then obtain i where "replica_for (entry_stage c) r c = Some i" "i = k" "c' = c"
      using assms(1) by (auto simp: entry_replica_def split: option.splits)
    then show ?thesis using find_upt(1) unfolding replica_for_def by blast
  qed
  then show "k < length (replicas (entry_stage c) c)" "stages c' = stages c" "requests c' = requests c"
    "entry_stage c' = entry_stage c" "completion_futures c' = completion_futures c"
    "stream_queues c' = stream_queues c" "partial_results c' = partial_results c"
    "static_terminals c' = static_terminals c" by simp_all
qed

text \<open>What a submission leaves: nothing changed but a cursor, or the new request.\<close>

definition submitted :: "string \<Rightarrow> string set \<Rightarrow> nat \<Rightarrow> bool \<Rightarrow> 'v coordinator \<Rightarrow> 'v coordinator \<Rightarrow> bool" where
  "submitted rid ts k queue c c' \<longleftrightarrow>
     (let rs = replicas (entry_stage c) c;
          info = \<lparr>serial = next_serial c, ri_state = Pending, current_stage = Some (entry_stage c),
                  terminal_stages = Some ts, ri_result = None, ri_error = None,
                  owner_endpoint = Some (endpoint (rs ! k)), owner_dp_rank = Some (dp_rank (rs ! k))\<rparr>
      in k < length rs \<and> requests c' = dict_set (requests c) rid info \<and>
         completion_futures c' = dict_set (completion_futures c) rid FPending \<and>
         replicas (entry_stage c) c' = rs[k := (rs ! k)\<lparr>inflight := inflight (rs ! k) + 1\<rparr>] \<and>
         entry_stage c' = entry_stage c \<and> partial_results c' = partial_results c)"

lemma next_serial_entry: "entry_replica rank c = Inr (k, c') \<Longrightarrow> next_serial c' = next_serial c"
  by (auto simp: entry_replica_def select_replica_def Let_def split: option.splits prod.splits)

lemma submit_cases:
  assumes "submit_begin rid answer queue rank c = (c', r)"
    and "resolve_terminal_stages c answer = Inr ts"
  obtains (refused) e where "r = Inl e" "c' = c"
  | (accepted) k where "\<not> request_id_is_reserved rid c" "submitted rid ts k queue c c'"
proof (cases "fatal_error c \<noteq> None \<or> request_id_is_reserved rid c \<or> replicas (entry_stage c) c = []
    \<or> (\<exists>e. entry_replica rank c = Inl e)")
  case True
  then show ?thesis using assms(1) refused by (auto simp: submit_begin_def split: if_splits)
next
  case False
  then obtain k c1 where e: "entry_replica rank c = Inr (k, c1)"
    by (cases "entry_replica rank c") auto
  note f = entry_replica_facts [OF e] next_serial_entry [OF e]
  have rep: "replicas n c1 = replicas n c" for n using False f by (simp add: replicas_def)
  have "resolve_terminal_stages (update_inflight (entry_stage c1) k (\<lambda>n. n + 1) c1) answer = Inr ts"
    using assms(2) f False by (simp add: resolve_terminal_stages_def split: option.splits resolver_answer.splits)
  then have "submitted rid ts k queue c c'"
    using assms(1) False e f rep
    by (cases queue) (auto simp: submit_begin_def submitted_def Let_def)
  then show ?thesis using accepted False by blast
qed

lemma occupancy_submitted:
  assumes occ: "occupancy c" and fresh: "\<not> request_id_is_reserved rid c"
    and sub: "submitted rid ts k queue c c'"
  shows "occupancy c'"
proof -
  let ?rs = "replicas (entry_stage c) c"
  obtain info where k: "k < length ?rs" and req: "requests c' = dict_set (requests c) rid info"
    and info: "owner_dp_rank info = Some (dp_rank (?rs ! k))" "current_stage info = Some (entry_stage c)"
    and rs': "replicas (entry_stage c) c' = ?rs[k := (?rs ! k)\<lparr>inflight := inflight (?rs ! k) + 1\<rparr>]"
    and entry: "entry_stage c' = entry_stage c"
    using sub by (auto simp: submitted_def Let_def)
  have wf: "dict_wf (requests c)" and dist: "distinct (map dp_rank ?rs)"
    and match: "counts_match ?rs (requests c)"
    using occ by (auto simp: occupancy_alt ranks_distinct_def)
  have none: "dict_get (requests c) rid = None" using fresh by (simp add: request_id_is_reserved_def)
  have count: "int (owned r (requests c')) = int (owned r (requests c))
      + (if dp_rank (?rs ! k) = r then 1 else 0)" for r
    using owned_set [OF wf, of r rid info] none info by (simp add: req)
  show ?thesis
  proof (rule occupancy_entry [OF occ req])
    show "dict_wf (dict_set (requests c) rid info)" using wf by auto
    show "entry_ok c info" using info k by (simp add: entry_ok_def)
    show "ranks c' = ranks c" by (simp add: ranks_def entry rs')
    have one: "inflight (?rs ! k) = int (owned (dp_rank (?rs ! k)) (requests c))"
      using match k by (simp add: counts_match_def)
    have same: "owned r (requests c') = owned r (requests c)" if "r \<noteq> dp_rank (?rs ! k)" for r
      using count [of r] that by simp
    have "inflight (?rs ! k) + 1 = int (owned (dp_rank (?rs ! k)) (requests c'))"
      using count [of "dp_rank (?rs ! k)"] one by simp
    from counts_match_update [OF match dist k, of "\<lambda>n. n + 1", OF this same]
    show "counts_match (replicas (entry_stage c) c') (dict_set (requests c) rid info)"
      by (simp add: rs' req [symmetric])
  qed (simp_all add: set_subset_insert entry)
qed


subsection \<open>The invariant\<close>

definition waiters :: "'v coordinator \<Rightarrow> bool" where
  "waiters c \<longleftrightarrow>
     (\<forall>rid. dict_get (completion_futures c) rid = Some FPending \<longrightarrow> dict_get (requests c) rid \<noteq> None)"

definition co_ok :: "'v coordinator \<Rightarrow> bool" where
  "co_ok c \<longleftrightarrow> occupancy c \<and> waiters c"

text \<open>Live requests keep their identity from \<open>c\<close> to \<open>c'\<close>, and settled futures their value.\<close>

definition keeps :: "'v coordinator \<Rightarrow> 'v coordinator \<Rightarrow> bool" where
  "keeps c c' \<longleftrightarrow>
     (\<forall>rid i'. dict_get (requests c') rid = Some i' \<longrightarrow>
        (\<exists>i. dict_get (requests c) rid = Some i \<and> serial i = serial i')) \<and>
     (\<forall>rid f. dict_get (completion_futures c) rid = Some f \<longrightarrow> f \<noteq> FPending \<longrightarrow>
        dict_get (completion_futures c') rid \<in> {Some f, None})"

lemma keeps_refl [simp]: "keeps c c"
  by (simp add: keeps_def)

lemma co_ok_sent: "co_ok c \<Longrightarrow> co_ok (submit_sent rid c) \<and> keeps c (submit_sent rid c)"
  by (auto simp: co_ok_def submit_sent_def waiters_def keeps_def split: option.splits
      intro!: occupancy_mark)

lemma co_ok_unsent:
  assumes "co_ok c"
  shows "co_ok (fst (submit_failed e rid c)) \<and> keeps c (fst (submit_failed e rid c))"
proof (cases "dict_get (requests c) rid")
  case (Some info)
  have "serial (released info) = serial info" by (simp add: released_def split: option.splits)
  then show ?thesis
    using assms occupancy_unsent [OF _ Some]
    by (simp add: submit_failed_def Some co_ok_def waiters_def keeps_def)
qed (simp add: submit_failed_def assms)

lemma co_ok_return:
  "co_ok c \<Longrightarrow> co_ok (fst (submit_return rid c)) \<and> keeps c (fst (submit_return rid c))"
  by (auto simp: co_ok_def submit_return_def waiters_def keeps_def)

lemma co_ok_abort:
  "co_ok c \<Longrightarrow> co_ok (fst (abort_begin rid c)) \<and> keeps c (fst (abort_begin rid c))"
  by (auto simp: co_ok_def abort_begin_def waiters_def keeps_def split: option.splits)

lemma co_ok_abort_done:
  "co_ok c \<Longrightarrow> co_ok (abort_task_done rid c) \<and> keeps c (abort_task_done rid c)"
  by (auto simp: co_ok_def abort_task_done_def waiters_def keeps_def)

lemma co_ok_cleanup:
  "co_ok c \<Longrightarrow> co_ok (stream_cleanup n rid c) \<and> keeps c (stream_cleanup n rid c)"
  by (auto simp: co_ok_def stream_cleanup_def waiters_def keeps_def split: option.splits)

lemma co_ok_stream:
  "co_ok c \<Longrightarrow> co_ok (handle_stream rid stage chunk c) \<and> keeps c (handle_stream rid stage chunk c)"
  by (auto simp: co_ok_def handle_stream_def waiters_def keeps_def)

text \<open>A settled request leaves: its future is rejected or resolved in the same step.\<close>

lemma co_ok_settle:
  assumes ok: "co_ok c" and get: "dict_get (requests c) rid = Some info"
    and occ: "occupancy c1" and req: "requests c1 = requests c"
    and fut: "dict_get (completion_futures c1) rid \<noteq> Some FPending"
    and other: "\<And>r f. dict_get (completion_futures c) r = Some f \<Longrightarrow> f \<noteq> FPending \<or> r \<noteq> rid \<Longrightarrow>
        dict_get (completion_futures c1) r = Some f"
    and none: "\<And>r. dict_get (completion_futures c) r = None \<Longrightarrow> dict_get (completion_futures c1) r = None"
  shows "co_ok (pop_request rid (release_counts info c1)) \<and>
         keeps c (pop_request rid (release_counts info c1))"
proof -
  have "occupancy (pop_request rid (release_counts info c1))"
    by (rule occupancy_drop [OF occ]) (simp add: req get)
  moreover have "dict_get (requests c) r \<noteq> None"
    if "dict_get (completion_futures c1) r = Some FPending" for r
    using that ok none [of r] other [of r] by (cases "dict_get (completion_futures c) r")
      (auto simp: co_ok_def waiters_def)
  ultimately show ?thesis
    using fut other by (auto simp: co_ok_def waiters_def keeps_def req)
qed

lemma co_ok_run_abort:
  assumes "co_ok c"
  shows "co_ok (fst (run_abort none rid c)) \<and> keeps c (fst (run_abort none rid c))"
proof (cases "dict_get (requests c) rid")
  case (Some info)
  let ?c = "queue_put rid (coordinator_failure none ''aborted'') (reject_completion_future rid CancelledError c)"
  have "co_ok (pop_request rid (release_counts info ?c)) \<and>
      keeps c (pop_request rid (release_counts info ?c))"
    by (rule co_ok_settle [OF assms Some]) (use assms in \<open>auto simp: co_ok_def split: if_splits\<close>)
  then show ?thesis
    by (simp add: run_abort_def Some Let_def co_ok_def waiters_def keeps_def)
qed (simp add: run_abort_def assms)

lemma co_ok_fail_begin:
  "co_ok c \<Longrightarrow> completion_fail_begin rid msg c = (c', s) \<Longrightarrow>
     co_ok c' \<and> keeps c c' \<and>
     (s = None \<and> c' = c \<or> (\<exists>i. s = Some (serial i) \<and> dict_get (requests c') rid = Some i))"
  by (auto simp: completion_fail_begin_def co_ok_def waiters_def keeps_def
      split: option.splits if_splits intro!: occupancy_mark)

lemma dict_pop_none: "dict_get d k = None \<Longrightarrow> dict_pop d k = d"
  by (simp add: dict_get_None dict_pop_absent)

lemma co_ok_fail_end:
  assumes "co_ok c" and "\<forall>i. dict_get (requests c) rid = Some i \<longrightarrow> serial i = n"
  shows "co_ok (completion_fail_end n rid msg c) \<and> keeps c (completion_fail_end n rid msg c)"
proof -
  let ?c = "queue_put rid (CompleteEvent msg) (reject_completion_future rid RuntimeError (pop_partials rid c))"
  show ?thesis
  proof (cases "dict_get (requests c) rid")
    case None
    then have "dict_get (completion_futures c) rid \<noteq> Some FPending"
      using assms(1) by (auto simp: co_ok_def waiters_def)
    then have "completion_futures ?c = completion_futures c"
      by (simp add: reject_completion_future_def split: option.splits future.splits)
    then show ?thesis
      using assms(1) None
      by (simp add: completion_fail_end_def Let_def co_ok_def waiters_def keeps_def occupancy_def
          dict_pop_none ranks_distinct_def)
  next
    case (Some info)
    have "co_ok (pop_request rid (release_counts info ?c)) \<and>
        keeps c (pop_request rid (release_counts info ?c))"
      by (rule co_ok_settle [OF assms(1) Some]) (use assms in \<open>auto simp: co_ok_def split: if_splits\<close>)
    then show ?thesis using Some assms(2) by (simp add: completion_fail_end_def Let_def)
  qed
qed

lemma co_ok_success:
  assumes "co_ok c"
  shows "co_ok (completion_success rid msg c) \<and> keeps c (completion_success rid msg c)"
proof (cases "dict_get (requests c) rid")
  case (Some info)
  let ?x = "expected_terminal_stages rid c"
  let ?p = "dict_set (case dict_get (partial_results c) rid of None \<Rightarrow> [] | Some p \<Rightarrow> p)
      (from_stage msg) (cm_result msg)"
  let ?one = "queue_put rid (CompleteEvent msg) (resolve_future rid (Single (cm_result msg)) c)"
  let ?more = "queue_put rid (CompleteEvent msg) (c\<lparr>partial_results := dict_set (partial_results c) rid ?p\<rparr>)"
  let ?all = "resolve_future rid (Merged ?p) (pop_partials rid ?more)"
  have settle: "co_ok (pop_request rid (release_counts info d)) \<and> keeps c (pop_request rid (release_counts info d))"
    if "d \<in> {?one, ?all}" for d
    by (rule co_ok_settle [OF assms Some]) (use assms that in \<open>auto simp: co_ok_def split: if_splits\<close>)
  have more: "co_ok ?more \<and> keeps c ?more" using assms by (simp add: co_ok_def waiters_def keeps_def)
  consider "?x \<noteq> {} \<and> from_stage msg \<notin> ?x"
    | "\<not> (?x \<noteq> {} \<and> from_stage msg \<notin> ?x)" "card ?x \<le> 1"
    | "\<not> (?x \<noteq> {} \<and> from_stage msg \<notin> ?x)" "\<not> card ?x \<le> 1" by blast
  then show ?thesis
  proof cases
    case 1
    then show ?thesis using assms by (simp add: completion_success_def Some Let_def)
  next
    case 2
    then have "completion_success rid msg c = pop_request rid (release_counts info ?one)"
      unfolding completion_success_def Some Let_def option.case by (simp only: if_False if_True)
    then show ?thesis using settle [of ?one] by simp
  next
    case 3
    then have "completion_success rid msg c = (if fst ` set ?p \<subset> ?x then ?more
        else pop_request rid (release_counts info ?all))"
      unfolding completion_success_def Some Let_def option.case by (simp only: if_False)
    then show ?thesis using settle [of ?all] more by simp
  qed
qed (simp add: completion_success_def assms)


lemma entry_ok_frame [simp]:
  "entry_ok (reject_completion_future rid e c) i = entry_ok c i"
  "entry_ok (queue_put rid ev c) i = entry_ok c i"
  "entry_ok (release_counts j c) i = entry_ok c i"
  by (simp_all add: entry_ok_def) (metis ranks_release ranks_def release_counts_simps(5) list.set_map)

lemma ranks_frame [simp]:
  "ranks (reject_completion_future rid e c) = ranks c" "ranks (queue_put rid ev c) = ranks c"
  by (simp_all add: ranks_def)

text \<open>The futures of the ids in \<open>ids\<close> are settled, no other changes.\<close>

definition settles :: "string set \<Rightarrow> 'v coordinator \<Rightarrow> 'v coordinator \<Rightarrow> bool" where
  "settles ids c c' \<longleftrightarrow>
     (\<forall>r. (dict_get (completion_futures c') r = Some FPending \<longrightarrow>
              dict_get (completion_futures c) r = Some FPending \<and> r \<notin> ids) \<and>
          (\<forall>f. dict_get (completion_futures c) r = Some f \<longrightarrow> f \<noteq> FPending \<longrightarrow>
              dict_get (completion_futures c') r = Some f))"

lemma settles_running:
  "settles ids (c\<lparr>running := b, fatal_error := m\<rparr>) c' = settles ids c c'"
proof -
  have "completion_futures (c\<lparr>running := b, fatal_error := m\<rparr>) = completion_futures c" by simp
  then show ?thesis by (simp only: settles_def)
qed

lemma settles_stay:
  "settles ids c c' \<Longrightarrow> dict_get (completion_futures c) r = Some f \<Longrightarrow> f \<noteq> FPending \<Longrightarrow>
     dict_get (completion_futures c') r = Some f"
  unfolding settles_def by blast

lemma settles_refl: "settles {} c c"
  by (simp add: settles_def)

lemma settles_trans: "settles a c c1 \<Longrightarrow> settles b c1 c2 \<Longrightarrow> settles (a \<union> b) c c2"
  unfolding settles_def by blast

lemma fail_request_settles: "settles {fst p} c (fail_request none message p c)"
  by (auto simp: settles_def fail_request_def Let_def)

lemma fold_fail_request:
  assumes "counts_match (replicas (entry_stage c) c) d" and "ranks_distinct c"
    and "\<forall>info \<in> snd ` set d. entry_ok c info"
    and "c' = fold (fail_request none message) d c"
  shows "(\<forall>r \<in> set (replicas (entry_stage c) c'). inflight r = 0) \<and> ranks c' = ranks c \<and>
         entry_stage c' = entry_stage c \<and> settles (fst ` set d) c c'"
  using assms
proof (induction d arbitrary: c)
  case (Cons p d)
  obtain rid info where p: "p = (rid, info)" by fastforce
  let ?c = "queue_put rid (coordinator_failure none message) (reject_completion_future rid RuntimeError c)"
  let ?c1 = "release_counts info ?c"
  have step: "fail_request none message p c = ?c1" by (simp add: p fail_request_def Let_def)
  have m: "counts_match (replicas (entry_stage ?c) ?c1) d"
    by (rule release_counts_match [of _ "(rid, info) # d"])
      (use Cons.prems(1-3) in \<open>simp_all add: p owned_def ranks_distinct_ranks\<close>)
  have ih: "(\<forall>r \<in> set (replicas (entry_stage ?c1) c'). inflight r = 0) \<and> ranks c' = ranks ?c1 \<and>
      entry_stage c' = entry_stage ?c1 \<and> settles (fst ` set d) ?c1 c'"
  proof (rule Cons.IH)
    show "counts_match (replicas (entry_stage ?c1) ?c1) d" using m by simp
    show "ranks_distinct ?c1" using Cons.prems(2) by (simp add: ranks_distinct_ranks)
    show "\<forall>info \<in> snd ` set d. entry_ok ?c1 info" using Cons.prems(3) by (simp add: p)
    show "c' = fold (fail_request none message) d ?c1" using Cons.prems(4) step by simp
  qed
  have "settles {rid} c ?c1" using fail_request_settles [of p c none message] step p by simp
  then have "settles ({rid} \<union> fst ` set d) c c'" using ih settles_trans by blast
  then show ?case using ih by (simp add: p)
next
  case Nil
  then show ?case by (simp add: counts_match_def owned_def settles_refl)
qed

lemma occupancy_cleared:
  assumes "ranks_distinct d" and "\<forall>r \<in> set (replicas (entry_stage d) d). inflight r = 0"
  shows "occupancy (d\<lparr>requests := [], partial_results := []\<rparr>)"
  unfolding occupancy_def
proof (intro conjI)
  let ?d = "d\<lparr>requests := [], partial_results := []\<rparr>"
  show "dict_wf (requests ?d)" by simp
  show "ranks_distinct ?d" using assms(1) by (simp add: ranks_distinct_def)
  show "\<forall>info \<in> snd ` set (requests ?d). current_stage info = Some (entry_stage ?d) \<and>
      set_option (owner_dp_rank info) \<subseteq> dp_rank ` set (replicas (entry_stage ?d) ?d)" by simp
  show "\<forall>r \<in> set (replicas (entry_stage ?d) ?d). inflight r = int (owned (dp_rank r) (requests ?d))"
    using assms(2) by (simp add: owned_def)
qed

lemma co_ok_fail_all:
  assumes "co_ok c"
  shows "co_ok (fail_pending_requests none message c) \<and> keeps c (fail_pending_requests none message c)"
proof -
  let ?c = "c\<lparr>running := False, fatal_error := Some message\<rparr>"
  define d where "d = fold (fail_request none message) (requests c) ?c"
  have c: "counts_match (replicas (entry_stage ?c) ?c) (requests c)" "ranks_distinct ?c"
    "\<forall>info \<in> snd ` set (requests c). entry_ok ?c info"
    using assms by (simp_all add: co_ok_def occupancy_alt ranks_distinct_def entry_ok_def)
  note f = fold_fail_request [OF c d_def]
  have same: "ranks ?c = ranks c" by (simp add: ranks_def)
  have new: "fail_pending_requests none message c = d\<lparr>requests := [], partial_results := []\<rparr>"
    by (simp add: fail_pending_requests_def Let_def d_def)
  have "ranks_distinct d" using f c(2) by (simp add: ranks_distinct_ranks)
  moreover have "\<forall>r \<in> set (replicas (entry_stage d) d). inflight r = 0" using f by simp
  ultimately have occ: "occupancy (fail_pending_requests none message c)"
    unfolding new by (rule occupancy_cleared)
  have set: "settles (fst ` set (requests c)) c d"
    using f by (simp add: settles_running)
  then have "dict_get (completion_futures d) r \<noteq> Some FPending" for r
    using assms unfolding settles_def co_ok_def waiters_def dict_get_None by blast
  then have w: "waiters (fail_pending_requests none message c)" by (simp add: new waiters_def)
  have "keeps c (fail_pending_requests none message c)"
    unfolding new keeps_def using settles_stay [OF set] by simp
  then show ?thesis using occ w by (simp add: co_ok_def)
qed

lemma co_ok_submit:
  assumes ok: "co_ok c" and sub: "submit_begin rid answer queue rank c = (c', r)"
    and ts: "resolve_terminal_stages c answer = Inr ts"
  shows "co_ok c' \<and> (\<forall>x i'. x \<noteq> rid \<longrightarrow> dict_get (requests c') x = Some i' \<longrightarrow>
            (\<exists>i. dict_get (requests c) x = Some i \<and> serial i = serial i')) \<and>
         (\<forall>x f. dict_get (completion_futures c) x = Some f \<longrightarrow> f \<noteq> FPending \<longrightarrow>
            dict_get (completion_futures c') x \<in> {Some f, None})"
  using sub ts
proof (cases rule: submit_cases)
  case (refused e)
  then show ?thesis using ok by auto
next
  case (accepted k)
  have occ: "occupancy c'"
    using occupancy_submitted [OF _ accepted] ok by (simp add: co_ok_def)
  obtain info where req: "requests c' = dict_set (requests c) rid info"
    and fut: "completion_futures c' = dict_set (completion_futures c) rid FPending"
    using accepted(2) by (auto simp: submitted_def Let_def)
  have "dict_get (completion_futures c) rid = None"
    using accepted(1) by (simp add: request_id_is_reserved_def)
  then show ?thesis using occ ok by (auto simp: co_ok_def waiters_def req fut)
qed

definition co_inv :: "'v co_world \<Rightarrow> bool" where
  "co_inv w \<longleftrightarrow> co_ok (co w) \<and>
     (\<forall>n rid i. failing w = Some (n, rid) \<longrightarrow> dict_get (requests (co w)) rid = Some i \<longrightarrow> serial i = n)"

definition settled_stay :: "'v co_world \<Rightarrow> 'v co_world \<Rightarrow> bool" where
  "settled_stay w w' \<longleftrightarrow>
     (\<forall>rid f. dict_get (completion_futures (co w)) rid = Some f \<longrightarrow> f \<noteq> FPending \<longrightarrow>
        dict_get (completion_futures (co w')) rid \<in> {Some f, None})"

lemma co_inv_keeps:
  assumes "co_inv w" and "co_ok c \<and> keeps (co w) c"
  shows "co_inv (w\<lparr>co := c\<rparr>) \<and> settled_stay w (w\<lparr>co := c\<rparr>)"
    and "co_inv (w\<lparr>co := c, failing := None\<rparr>) \<and> settled_stay w (w\<lparr>co := c, failing := None\<rparr>)"
  using assms by (auto simp: co_inv_def keeps_def settled_stay_def) fastforce+

lemma co_step_inv: "co_step none w w' \<Longrightarrow> co_inv w \<Longrightarrow> co_inv w' \<and> settled_stay w w'"
proof (induction rule: co_step.induct)
  case (s_submit rid answer queue rank w c r)
  then obtain ts where "resolve_terminal_stages (co w) answer = Inr ts" by blast
  note sub = co_ok_submit [OF _ s_submit(1) this]
  have ok: "co_ok (co w)" using s_submit(4) by (simp add: co_inv_def)
  have "serial i = n" if "failing w = Some (n, x)" "dict_get (requests c) x = Some i" for n x i
  proof -
    have "x \<noteq> rid" using s_submit(3) that(1) by auto
    with sub [OF ok] that obtain i0 where "dict_get (requests (co w)) x = Some i0" "serial i0 = serial i"
      by blast
    then show ?thesis using s_submit(4) that(1) by (auto simp: co_inv_def)
  qed
  then show ?case using sub [OF ok] by (simp add: co_inv_def settled_stay_def)
next
  case (s_fail_begin w rid msg c s)
  then have ok: "co_ok (co w)" by (simp add: co_inv_def)
  note b = co_ok_fail_begin [OF ok s_fail_begin(2)]
  have "settled_stay w (w\<lparr>co := c, failing := map_option (\<lambda>n. (n, rid)) s\<rparr>)"
    using b by (simp add: settled_stay_def keeps_def)
  then show ?case using b s_fail_begin(1) by (auto simp: co_inv_def)
next
  case (s_fail_end w n rid msg)
  then have "co_ok (completion_fail_end n rid msg (co w)) \<and> keeps (co w) (completion_fail_end n rid msg (co w))"
    by (intro co_ok_fail_end) (auto simp: co_inv_def)
  with s_fail_end(2) show ?case by (rule co_inv_keeps(2))
next
  case (s_fail_stuck w)
  then show ?case by (simp add: co_inv_def settled_stay_def)
qed (blast intro!: co_inv_keeps(1) co_ok_sent co_ok_unsent co_ok_return co_ok_abort co_ok_run_abort
    co_ok_abort_done co_ok_success co_ok_stream co_ok_cleanup co_ok_fail_all
    intro: co_inv_def [THEN iffD1, THEN conjunct1])+


subsection \<open>Reachable states\<close>

definition booted :: "string \<Rightarrow> string list option \<Rightarrow> (string \<times> string \<times> int option \<times> int option) list \<Rightarrow>
    'v co_world" where
  "booted entry terminals regs = \<lparr>co = run_coordinator entry terminals regs, failing = None\<rparr>"

lemma register_stage_fresh:
  assumes "requests c = [] \<and> completion_futures c = [] \<and>
     (\<forall>n. \<forall>r \<in> set (replicas n c). inflight r = 0)"
  shows "requests (register_stage name ep rank cap c) = [] \<and>
     completion_futures (register_stage name ep rank cap c) = [] \<and>
     (\<forall>n. \<forall>r \<in> set (replicas n (register_stage name ep rank cap c)). inflight r = 0)"
  using assms by (auto simp: register_stage_def replicas_def Let_def split: option.splits)

definition fresh :: "'v coordinator \<Rightarrow> bool" where
  "fresh c \<longleftrightarrow> requests c = [] \<and> completion_futures c = [] \<and>
     (\<forall>n. \<forall>r \<in> set (replicas n c). inflight r = 0)"

lemma fresh_register: "fresh c \<Longrightarrow> fresh (register_stage name ep rank cap c)"
  unfolding fresh_def by (rule register_stage_fresh)

lemma fresh_fold:
  "fresh c \<Longrightarrow> fresh (fold (\<lambda>(name, ep, rank, cap). register_stage name ep rank cap) regs c)"
  by (induction regs arbitrary: c) (auto simp: fresh_register)

lemma fresh_run: "fresh (run_coordinator entry terminals regs)"
proof -
  have "fresh (new_coordinator entry terminals)"
    by (simp add: fresh_def new_coordinator_def replicas_def)
  from fresh_fold [OF this, of regs] show ?thesis
    by (simp add: run_coordinator_def fresh_def replicas_def)
qed

lemma fresh_inv:
  assumes "fresh c" and "ranks_distinct c" shows "co_inv \<lparr>co = c, failing = None\<rparr>"
  using assms by (simp add: co_inv_def co_ok_def occupancy_def waiters_def owned_def fresh_def)

lemma booted_inv:
  fixes w :: "'v co_world"
  assumes "w = booted entry terminals regs" and "ranks_distinct (co w)"
  shows "co_inv w"
  using fresh_inv [OF fresh_run [of entry terminals regs]] assms by (simp add: booted_def)

lemma co_steps_inv:
  "(co_step none)\<^sup>*\<^sup>* w w' \<Longrightarrow> co_inv w \<Longrightarrow> co_inv w'"
  by (induction rule: rtranclp_induct) (auto dest: co_step_inv)

text \<open>C23: In every state the coordinator can reach, however submissions, completions,
  failures, aborts and a global failure interleave, the in-flight count of every entry replica is
  exactly the number of live requests that own it, and every live request's owner is a registered
  replica of the entry stage: no replica is over- or under-counted.  This is for runs in which the
  terminal-stage resolver's answers are accepted and no id is submitted again while a failure under
  that id is still being broadcast, as \<open>co_step\<close> has it; outside them the count is wrong
  (\<open>rejected_resolver_answer_leaks\<close>, \<open>late_failure_drops_successor\<close> in \<open>Coordinator_Merge\<close>).\<close>

theorem coordinator_occupancy:
  fixes w :: "'v co_world"
  assumes "(co_step none)\<^sup>*\<^sup>* (booted entry terminals regs) w"
    and "ranks_distinct (co (booted entry terminals regs :: 'v co_world))"
  shows "(\<forall>r \<in> set (replicas (entry_stage (co w)) (co w)).
            inflight r = int (length (filter (\<lambda>(rid, info). owner_dp_rank info = Some (dp_rank r))
                                        (requests (co w))))) \<and>
         (\<forall>rid info k. dict_get (requests (co w)) rid = Some info \<longrightarrow> owner_dp_rank info = Some k \<longrightarrow>
            k \<in> dp_rank ` set (replicas (entry_stage (co w)) (co w)))"
proof -
  have inv: "occupancy (co w)"
    using co_steps_inv [OF assms(1) booted_inv [OF refl assms(2)]] by (simp add: co_inv_def co_ok_def)
  then have "\<forall>r \<in> set (replicas (entry_stage (co w)) (co w)).
      inflight r = int (length (filter (\<lambda>(rid, info). owner_dp_rank info = Some (dp_rank r)) (requests (co w))))"
    by (simp add: occupancy_def owned_def)
  moreover have "k \<in> dp_rank ` set (replicas (entry_stage (co w)) (co w))"
    if "dict_get (requests (co w)) rid = Some info" "owner_dp_rank info = Some k" for rid info k
    using occupancy_get [OF inv that(1)] that(2) by (simp add: entry_ok_def)
  ultimately show ?thesis by blast
qed

text \<open>C24: In every reachable state a future that is still pending belongs to a live request, so
  its waiter will be answered when that request completes, fails or is aborted; and once a future
  is settled no later step changes its outcome.\<close>

theorem coordinator_settles:
  fixes w :: "'v co_world"
  assumes "(co_step none)\<^sup>*\<^sup>* (booted entry terminals regs) w"
    and "ranks_distinct (co (booted entry terminals regs :: 'v co_world))"
  shows "(dict_get (completion_futures (co w)) rid = Some FPending \<longrightarrow>
            dict_get (requests (co w)) rid \<noteq> None) \<and>
         (\<forall>f w'. dict_get (completion_futures (co w)) rid = Some f \<longrightarrow> f \<noteq> FPending \<longrightarrow>
            co_step none w w' \<longrightarrow> dict_get (completion_futures (co w')) rid \<in> {Some f, None})"
proof -
  have inv: "co_inv w" by (rule co_steps_inv [OF assms(1) booted_inv [OF refl assms(2)]])
  then have "dict_get (completion_futures (co w)) rid = Some FPending \<longrightarrow>
      dict_get (requests (co w)) rid \<noteq> None"
    by (simp add: co_inv_def co_ok_def waiters_def)
  moreover have "settled_stay w w'" if "co_step none w w'" for w' using co_step_inv [OF that inv] by simp
  ultimately show ?thesis unfolding settled_stay_def by blast
qed

text \<open>A stage with two replicas, one submission, and its completion.\<close>

definition demo_boot :: "nat co_world" where
  "demo_boot = booted ''a'' None [(''a'', ''e0'', None, None), (''a'', ''e1'', None, None)]"

definition demo_live :: "nat co_world" where
  "demo_live = demo_boot\<lparr>co := fst (submit_begin ''r'' None False None (co demo_boot))\<rparr>"

definition demo_done :: "nat co_world" where
  "demo_done = demo_live\<lparr>co := completion_success ''r''
     \<lparr>from_stage = ''z'', success = True, cm_result = 7, cm_error = None\<rparr> (co demo_live)\<rparr>"

lemmas demo_run = demo_boot_def booted_def run_coordinator_def register_stage_def new_coordinator_def
  replicas_def Let_def

lemma demo_boot_distinct: "ranks_distinct (co demo_boot)"
  by (simp add: demo_run ranks_distinct_def)

lemma demo_live_reached: "(co_step 0)\<^sup>*\<^sup>* demo_boot demo_live"
proof -
  obtain c r where "submit_begin ''r'' None False None (co demo_boot) = (c, r)" by fastforce
  moreover have "\<exists>ts. resolve_terminal_stages (co demo_boot) None = Inr ts"
    by (simp add: resolve_terminal_stages_def)
  ultimately have "co_step 0 demo_boot demo_live"
    using s_submit [of "''r''" None False None demo_boot c r 0]
    by (simp add: demo_live_def demo_boot_def booted_def)
  then show ?thesis by (rule r_into_rtranclp)
qed

lemma demo_step: "co_step 0 demo_live demo_done"
  unfolding demo_done_def by (rule s_success) (simp add: demo_live_def demo_boot_def booted_def)

lemma demo_live_replicas:
  "replicas (entry_stage (co demo_live)) (co demo_live) =
     [\<lparr>dp_rank = 0, endpoint = ''e0'', inflight = 1, capacity = None\<rparr>,
      \<lparr>dp_rank = 1, endpoint = ''e1'', inflight = 0, capacity = None\<rparr>]"
  by (simp add: demo_live_def demo_run submit_begin_def request_id_is_reserved_def entry_replica_def
      select_replica_def select_index_def is_full_def resolve_terminal_stages_def
      update_inflight_def upt_rec)

theorem coordinator_occupancy_witness:
  "length (filter (\<lambda>(rid, info). owner_dp_rank info = Some 0) (requests (co demo_live))) = 1 \<and>
   length (filter (\<lambda>(rid, info). owner_dp_rank info = Some 1) (requests (co demo_live))) = 0"
  using coordinator_occupancy [OF demo_live_reached [unfolded demo_boot_def]
      demo_boot_distinct [unfolded demo_boot_def], unfolded demo_live_replicas] by simp

lemma demo_done_future: "dict_get (completion_futures (co demo_done)) ''r'' = Some (FResult (Single 7))"
  by (simp add: demo_done_def demo_live_def demo_run submit_begin_def request_id_is_reserved_def
      entry_replica_def select_replica_def select_index_def is_full_def resolve_terminal_stages_def
      completion_success_def expected_terminal_stages_def update_inflight_def upt_rec)

theorem coordinator_settles_witness:
  "dict_get (completion_futures (co (demo_done\<lparr>co := abort_task_done ''r'' (co demo_done)\<rparr>))) ''r''
     \<in> {Some (FResult (Single 7)), None}"
proof -
  have reach: "(co_step 0)\<^sup>*\<^sup>* (booted ''a'' None [(''a'', ''e0'', None, None), (''a'', ''e1'', None, None)]) demo_done"
    using demo_live_reached demo_step unfolding demo_boot_def by (rule rtranclp.rtrancl_into_rtrancl)
  have "co_step 0 demo_done (demo_done\<lparr>co := abort_task_done ''r'' (co demo_done)\<rparr>)"
    by (rule s_abort_done)
  with coordinator_settles [OF reach demo_boot_distinct [unfolded demo_boot_def], of "''r''"]
    demo_done_future show ?thesis by blast
qed

end
