(* ===== verification/Coordinator_Merge.thy ===== *)
theory Coordinator_Merge
  imports Coordinator_Props
begin

section \<open>Merging terminal stages, selecting replicas, and what goes wrong\<close>

text \<open>
  A request with several terminal stages resolves exactly when the last of them has reported, to
  the dictionary of the latest result of every stage, whatever other requests do in
  between.  Replica selection never picks a full replica while another has room.  Three lemmas
  show behaviour the code does not intend.
\<close>

subsection \<open>Several terminal stages\<close>

definition collect :: "'v complete_message \<Rightarrow> (string, 'v) dict \<Rightarrow> (string, 'v) dict" where
  "collect m d = dict_set d (from_stage m) (cm_result m)"

definition collected :: "'v complete_message list \<Rightarrow> (string, 'v) dict" where
  "collected ms = fold collect ms []"

lemma collected_keys: "fst ` set (collected ms) = from_stage ` set ms"
proof -
  have "fst ` set (fold collect ms d) = fst ` set d \<union> from_stage ` set ms" for d
    by (induction ms arbitrary: d) (auto simp: collect_def dict_keys_set_set)
  from this [of "[]"] show ?thesis by (simp add: collected_def)
qed

lemma collected_snoc: "collected (ms @ [m]) = collect m (collected ms)"
  by (simp add: collected_def)

lemma collected_last:
  "dict_get (collected ms) s = (case rev (filter (\<lambda>m. from_stage m = s) ms) of [] \<Rightarrow> None | m # _ \<Rightarrow> Some (cm_result m))"
proof (induction ms rule: rev_induct)
  case (snoc m ms)
  then show ?case by (simp add: collected_snoc collect_def)
qed (simp add: collected_def)

text \<open>What the coordinator knows of one request, as far as its completion goes.\<close>

definition view_of ::
  "string \<Rightarrow> 'v coordinator \<Rightarrow> string set option option \<times> (string, 'v) dict option \<times> 'v future option" where
  "view_of rid c =
     (map_option terminal_stages (dict_get (requests c) rid), dict_get (partial_results c) rid,
      dict_get (completion_futures c) rid)"

text \<open>
  Everything else that may happen while the request is open: any operation of another request
  (submissions with any resolver answer, sends that work or fail, successful and failing
  completions, aborts, streams, clean-ups), the end of the request's own send, and chunks of its
  own stream.  Its own failure, abort and clean-up end it in another way, and so does the global
  failure.
\<close>

inductive elsewhere :: "'v \<Rightarrow> string \<Rightarrow> 'v coordinator \<Rightarrow> 'v coordinator \<Rightarrow> bool" for none rid where
  e_submit: "x \<noteq> rid \<Longrightarrow> elsewhere none rid c (fst (submit_begin x answer queue rank c))"
| e_sent: "elsewhere none rid c (submit_sent x c)"
| e_unsent: "x \<noteq> rid \<Longrightarrow> elsewhere none rid c (fst (submit_failed e x c))"
| e_return: "x \<noteq> rid \<Longrightarrow> elsewhere none rid c (fst (submit_return x c))"
| e_abort: "x \<noteq> rid \<Longrightarrow> elsewhere none rid c (fst (abort_begin x c))"
| e_run_abort: "x \<noteq> rid \<Longrightarrow> elsewhere none rid c (fst (run_abort none x c))"
| e_abort_done: "elsewhere none rid c (abort_task_done x c)"
| e_completion: "x \<noteq> rid \<Longrightarrow> elsewhere none rid c (fst (handle_completion x msg c))"
| e_fail_end: "x \<noteq> rid \<Longrightarrow> elsewhere none rid c (completion_fail_end n x msg c)"
| e_stream: "elsewhere none rid c (handle_stream x stage chunk c)"
| e_cleanup: "x \<noteq> rid \<Longrightarrow> elsewhere none rid c (stream_cleanup n x c)"

lemma submit_view:
  assumes "x \<noteq> rid"
  shows "view_of rid (fst (submit_begin x answer queue rank c)) = view_of rid c"
proof (cases "fatal_error c \<noteq> None \<or> request_id_is_reserved x c \<or> replicas (entry_stage c) c = []
    \<or> (\<exists>e. entry_replica rank c = Inl e)")
  case True
  then show ?thesis by (auto simp: submit_begin_def)
next
  case False
  then obtain k c1 where e: "entry_replica rank c = Inr (k, c1)" by (cases "entry_replica rank c") auto
  note f = entry_replica_facts [OF e]
  let ?c = "update_inflight (entry_stage c1) k (\<lambda>n. n + 1) c1"
  show ?thesis
  proof (cases "resolve_terminal_stages ?c answer")
    case (Inl err)
    with False e f show ?thesis by (simp add: submit_begin_def Let_def view_of_def)
  next
    case (Inr ts)
    with False e f assms show ?thesis by (simp add: submit_begin_def Let_def view_of_def)
  qed
qed

lemma success_view:
  assumes "x \<noteq> rid" shows "view_of rid (completion_success x m c) = view_of rid c"
  using assms by (simp add: view_of_def completion_success_def Let_def split: option.split)

lemma handle_view:
  assumes "x \<noteq> rid" shows "view_of rid (fst (handle_completion x m c)) = view_of rid c"
proof -
  have "view_of rid (fst (completion_fail_begin x m c)) = view_of rid c"
    using assms by (simp add: view_of_def completion_fail_begin_def split: option.split)
  then show ?thesis by (simp add: handle_completion_def success_view [OF assms] split: option.split)
qed

lemma elsewhere_view:
  assumes "elsewhere none rid c c'" shows "view_of rid c' = view_of rid c"
  using assms
proof (induction rule: elsewhere.induct)
  case (e_submit x c answer queue rank)
  then show ?case by (rule submit_view)
next
  case (e_completion x c msg)
  then show ?case by (rule handle_view)
qed (auto simp: view_of_def submit_sent_def submit_failed_def submit_return_def abort_begin_def
    run_abort_def abort_task_done_def completion_fail_end_def handle_stream_def stream_cleanup_def Let_def
    split: option.split)

text \<open>The successful completions \<open>ms\<close> of one request, with anything of the others in between.\<close>

inductive reported :: "'v \<Rightarrow> string \<Rightarrow> 'v coordinator \<Rightarrow> 'v complete_message list \<Rightarrow> 'v coordinator \<Rightarrow> bool"
  for none rid c where
  nothing_yet: "reported none rid c [] c"
| of_others: "reported none rid c ms c' \<Longrightarrow> elsewhere none rid c' c'' \<Longrightarrow> reported none rid c ms c''"
| of_its_own: "reported none rid c ms c' \<Longrightarrow> success m \<Longrightarrow>
     reported none rid c (ms @ [m]) (fst (handle_completion rid m c'))"

text \<open>The messages of the active terminal stages.\<close>

definition active :: "string set \<Rightarrow> 'v complete_message list \<Rightarrow> 'v complete_message list" where
  "active ts ms = filter (\<lambda>m. from_stage m \<in> ts) ms"

definition gathered :: "(string, 'v) dict option \<Rightarrow> (string, 'v) dict" where
  "gathered p = (case p of None \<Rightarrow> [] | Some q \<Rightarrow> q)"

lemma completion_steps:
  assumes view: "view_of rid c = (Some (Some ts), p, f)" and two: "2 \<le> card ts" and ok: "success m"
  defines "d \<equiv> collect m (gathered p)"
  shows "view_of rid (fst (handle_completion rid m c)) =
    (if from_stage m \<notin> ts then (Some (Some ts), p, f)
     else if fst ` set d \<subset> ts then (Some (Some ts), Some d, f)
     else (None, None, if f = Some FPending then Some (FResult (Merged d)) else f))"
proof -
  from view obtain info where g: "dict_get (requests c) rid = Some info" "terminal_stages info = Some ts"
    "dict_get (partial_results c) rid = p" "dict_get (completion_futures c) rid = f"
    by (auto simp: view_of_def)
  have x: "expected_terminal_stages rid c = ts" "ts \<noteq> {}" using two by (auto simp: expected_terminal_stages_def g)
  have h: "fst (handle_completion rid m c) = completion_success rid m c" using ok g by (simp add: handle_completion_def)
  have d: "dict_set (case p of None \<Rightarrow> [] | Some q \<Rightarrow> q) (from_stage m) (cm_result m) = d"
    by (simp add: d_def collect_def gathered_def)
  show ?thesis
  proof (cases "from_stage m \<in> ts")
    case False
    then show ?thesis unfolding h using x view by (simp add: completion_success_def g Let_def)
  next
    case True
    let ?c = "queue_put rid (CompleteEvent m) (c\<lparr>partial_results := dict_set (partial_results c) rid d\<rparr>)"
    have eq: "completion_success rid m c = (if fst ` set d \<subset> ts then ?c
        else pop_request rid (release_counts info (resolve_future rid (Merged d) (pop_partials rid ?c))))"
      using two True by (simp add: completion_success_def g x d Let_def)
    show ?thesis unfolding h eq using True by (simp add: view_of_def g)
  qed
qed

lemma gathered_keys: "fst ` set (collected (active ts ms)) = from_stage ` set ms \<inter> ts"
  by (auto simp: collected_keys active_def)

lemma reported_open:
  assumes "reported none rid c ms c'" and "view_of rid c = (Some (Some ts), None, Some FPending)"
    and two: "2 \<le> card ts" and "\<not> ts \<subseteq> from_stage ` set ms"
  shows "\<exists>p. view_of rid c' = (Some (Some ts), p, Some FPending) \<and> gathered p = collected (active ts ms)"
  using assms(1,4)
proof (induction rule: reported.induct)
  case nothing_yet
  then show ?case using assms(2) by (simp add: gathered_def collected_def active_def)
next
  case (of_others ms c' c'')
  then show ?case using elsewhere_view by metis
next
  case (of_its_own ms c' m)
  then obtain p where p: "view_of rid c' = (Some (Some ts), p, Some FPending)"
    "gathered p = collected (active ts ms)" by auto
  note s = completion_steps [OF p(1) two of_its_own(2)]
  show ?case
  proof (cases "from_stage m \<in> ts")
    case False
    then show ?thesis using s p by (simp add: active_def)
  next
    case True
    have snoc: "collect m (gathered p) = collected (active ts (ms @ [m]))"
      using True by (simp add: p(2) active_def collected_snoc)
    have "fst ` set (collect m (gathered p)) \<subset> ts"
      unfolding snoc gathered_keys using of_its_own(4) by auto
    with s True snoc show ?thesis by (simp add: gathered_def)
  qed
qed

text \<open>C25: A request with at least two active terminal stages stays open, its future pending, while one of
  them has not reported a success, and the completion that reports the last one resolves its
  future with the dictionary mapping every terminal stage to the result it reported last, and
  drops the request; later completions of the request are ignored.  Completions from stages that are not active
  for the request are ignored.  In between, other requests may be
  submitted (also refused), sent, completed, failed, aborted, streamed and cleaned up, and the request's own
  stream goes on; the request itself is not failed, aborted or given up by its caller.\<close>

theorem terminal_merge:
  assumes live: "dict_get (requests c) rid = Some info" "terminal_stages info = Some ts" "2 \<le> card ts"
    and fresh: "dict_get (partial_results c) rid = None"
      "dict_get (completion_futures c) rid = Some FPending"
    and run: "reported none rid c ms c'" and before: "\<not> ts \<subseteq> from_stage ` set ms" and ok: "success m"
    and after: "c'' = fst (handle_completion rid m c')"
  shows "dict_get (requests c') rid \<noteq> None \<and> dict_get (completion_futures c') rid = Some FPending \<and>
    (if ts \<subseteq> from_stage ` set (ms @ [m])
     then (\<exists>d. dict_get (completion_futures c'') rid = Some (FResult (Merged d)) \<and> fst ` set d = ts \<and>
             (\<forall>s\<in>ts. dict_get d s = Some (cm_result (last (filter (\<lambda>x. from_stage x = s) (ms @ [m])))))) \<and>
          dict_get (requests c'') rid = None \<and> handle_completion rid m' c'' = (c'', None)
     else dict_get (requests c'') rid \<noteq> None \<and> dict_get (completion_futures c'') rid = Some FPending)"
proof -
  have v0: "view_of rid c = (Some (Some ts), None, Some FPending)" using live fresh by (simp add: view_of_def)
  from reported_open [OF run v0 live(3) before] obtain p where
    v: "view_of rid c' = (Some (Some ts), p, Some FPending)" and p: "gathered p = collected (active ts ms)" by blast
  have first: "dict_get (requests c') rid \<noteq> None \<and> dict_get (completion_futures c') rid = Some FPending"
    using v by (auto simp: view_of_def)
  show ?thesis
  proof (cases "ts \<subseteq> from_stage ` set (ms @ [m])")
    case False
    from reported_open [OF of_its_own [OF run ok] v0 live(3) False] first False show ?thesis
      by (auto simp: view_of_def after)
  next
    case True
    define d where "d = collected (active ts (ms @ [m]))"
    from True before have m: "from_stage m \<in> ts" by auto
    have keys: "fst ` set d = ts" unfolding d_def gathered_keys using True by blast
    have "collect m (gathered p) = d" using m by (simp add: d_def p active_def collected_snoc)
    with completion_steps [OF v live(3) ok] m keys
    have w: "view_of rid c'' = (None, None, Some (FResult (Merged d)))" by (simp add: after)
    have "dict_get d s = Some (cm_result (last (filter (\<lambda>x. from_stage x = s) (ms @ [m]))))" if "s \<in> ts" for s
    proof -
      have f: "filter (\<lambda>x. from_stage x = s) (active ts (ms @ [m])) = filter (\<lambda>x. from_stage x = s) (ms @ [m])"
        using that unfolding active_def filter_filter by (intro filter_cong) auto
      have "filter (\<lambda>x. from_stage x = s) (ms @ [m]) \<noteq> []"
        using True that by (auto simp: filter_empty_conv)
      then show ?thesis unfolding d_def collected_last f
        by (cases "filter (\<lambda>x. from_stage x = s) (ms @ [m])" rule: rev_cases) auto
    qed
    moreover have "handle_completion rid m' c'' = (c'', None)"
      using w by (simp add: handle_completion_def view_of_def)
    ultimately show ?thesis using first True keys w by (auto simp: view_of_def)
  qed
qed

text \<open>Two terminal stages; the first reports twice.\<close>

definition ok_message :: "string \<Rightarrow> nat \<Rightarrow> nat complete_message" where
  "ok_message s v = \<lparr>from_stage = s, success = True, cm_result = v, cm_error = None\<rparr>"

definition demo_two :: "nat coordinator" where
  "demo_two = fst (submit_begin ''r'' None False None
     (run_coordinator ''in'' (Some [''t'', ''a'']) [(''in'', ''e0'', None, None)]))"

definition demo_sent :: "nat coordinator" where
  "demo_sent = fst (submit_begin ''s'' (Some BadAnswer) True None
     (fst (handle_completion ''r'' (ok_message ''t'' 1) (submit_sent ''r'' demo_two))))"

theorem terminal_merge_witness:
  "\<exists>d. dict_get (completion_futures (fst (handle_completion ''r'' (ok_message ''a'' 3)
       (fst (handle_completion ''r'' (ok_message ''t'' 2) demo_sent))))) ''r'' = Some (FResult (Merged d)) \<and>
     dict_get d ''t'' = Some 2 \<and> dict_get d ''a'' = Some 3"
proof -
  note defs = demo_two_def run_coordinator_def register_stage_def new_coordinator_def replicas_def
    submit_begin_def request_id_is_reserved_def entry_replica_def select_replica_def
    select_index_def is_full_def resolve_terminal_stages_def update_inflight_def
  obtain info where info: "dict_get (requests demo_two) ''r'' = Some info"
    "terminal_stages info = Some {''t'', ''a''}"
    by (simp add: defs Let_def upt_rec)
  have fresh: "dict_get (partial_results demo_two) ''r'' = None"
    "dict_get (completion_futures demo_two) ''r'' = Some FPending"
    by (simp_all add: defs Let_def upt_rec)
  have ok: "success (ok_message s v)" for s v by (simp add: ok_message_def)
  have "reported 0 ''r'' demo_two [ok_message ''t'' 1, ok_message ''t'' 2]
      (fst (handle_completion ''r'' (ok_message ''t'' 2) demo_sent))"
    using of_its_own [OF of_others [OF of_its_own [OF of_others [OF nothing_yet e_sent] ok] e_submit] ok,
        of "''s''" "''r''"]
    by (simp add: demo_sent_def)
  note merged = terminal_merge [OF info _ fresh this _ ok [of "''a''" 3] refl]
  have "2 \<le> card {''t'', ''a''}" "\<not> {''t'', ''a''} \<subseteq> from_stage ` set [ok_message ''t'' 1, ok_message ''t'' 2]"
    "{''t'', ''a''} \<subseteq> from_stage ` set ([ok_message ''t'' 1, ok_message ''t'' 2] @ [ok_message ''a'' 3])"
    by (simp_all add: ok_message_def)
  note merged [OF this(1,2), unfolded if_P [OF this(3)], THEN conjunct2, THEN conjunct2, THEN conjunct1]
  then obtain d where d: "dict_get (completion_futures (fst (handle_completion ''r'' (ok_message ''a'' 3)
       (fst (handle_completion ''r'' (ok_message ''t'' 2) demo_sent))))) ''r'' = Some (FResult (Merged d))"
    and all: "\<forall>s\<in>{''t'', ''a''}. dict_get d s = Some (cm_result (last (filter (\<lambda>x. from_stage x = s)
      ([ok_message ''t'' 1, ok_message ''t'' 2] @ [ok_message ''a'' 3]))))" by (elim exE conjE)
  from all have all: "dict_get d ''t'' = Some 2 \<and> dict_get d ''a'' = Some 3" by (simp add: ok_message_def)
  show ?thesis by (rule exI [of _ d]) (rule conjI [OF d all])
qed


subsection \<open>Behaviour the code does not intend\<close>

text \<open>
  \<open>_submit_request\<close> counts the request on its replica before it resolves the terminal stages: a
  resolver answer it rejects leaves the replica counted with no request to release it.
\<close>

lemma rejected_resolver_answer_leaks:
  defines "c \<equiv> run_coordinator ''in'' None [(''in'', ''e0'', None, Some 1)] :: nat coordinator"
  shows "submit_begin ''r'' (Some BadAnswer) False None c = (c', Inl ValueError) \<Longrightarrow>
           requests c' = [] \<and> map inflight (replicas ''in'' c') = [1] \<and>
           map is_full (replicas ''in'' c') = [True]"
  by (auto simp: c_def run_coordinator_def register_stage_def new_coordinator_def replicas_def
      submit_begin_def request_id_is_reserved_def entry_replica_def select_replica_def
      select_index_def is_full_def resolve_terminal_stages_def update_inflight_def Let_def upt_rec)

text \<open>
  When sending to the stage fails, \<open>_submit_request\<close> releases the replica and raises, but the
  request and its future stay: the id is reserved for good.
\<close>

lemma unsent_request_stays:
  assumes "dict_get (requests c) rid = Some info"
  shows "request_id_is_reserved rid (fst (submit_failed e rid c))"
    and "dict_get (completion_futures (fst (submit_failed e rid c))) rid
           = dict_get (completion_futures c) rid"
  using assms by (simp_all add: submit_failed_def request_id_is_reserved_def)

text \<open>
  A failure handler that resumes after its request was aborted and the id was submitted again
  drops the new request without releasing its replica.
\<close>

lemma late_failure_drops_successor:
  assumes "dict_get (requests c) rid = Some new_info" and "serial new_info \<noteq> n"
  shows "dict_get (requests (completion_fail_end n rid msg c)) rid = None"
    and "replicas name (completion_fail_end n rid msg c) = replicas name c"
  using assms by (simp_all add: completion_fail_end_def Let_def)

subsection \<open>Selection\<close>

text \<open>The chosen replica exists, and it has room whenever some replica has; the cursor moves past
  it.\<close>

lemma select_index_sound:
  assumes "rs \<noteq> []"
  shows "fst (select_index rs cur) < length rs"
    and "\<exists>r \<in> set rs. \<not> is_full r \<Longrightarrow> \<not> is_full (rs ! fst (select_index rs cur))"
    and "snd (select_index rs cur) = (fst (select_index rs cur) + 1) mod length rs"
proof -
  show "fst (select_index rs cur) < length rs" by (rule select_index_less [OF assms])
  show "\<exists>r \<in> set rs. \<not> is_full r \<Longrightarrow> \<not> is_full (rs ! fst (select_index rs cur))"
    using select_index_free by (metis in_set_conv_nth)
  show "snd (select_index rs cur) = (fst (select_index rs cur) + 1) mod length rs"
    by (auto simp: select_index_def Let_def mod_Suc_eq split: option.splits)
qed

end
