(* ===== verification/Coordinator_Admin.thy ===== *)
theory Coordinator_Admin
  imports Coordinator Py_Value "HOL-Library.Product_Lexorder" "HOL-Library.List_Lexorder"
    "HOL-Library.Char_ord"
begin

section \<open>Administrative operations of the coordinator\<close>

text \<open>
  Models the administrative half of \<open>sglang_omni/pipeline/coordinator.py\<close>, with the payloads of
  \<open>sglang_omni/proto/admin.py\<close>: resolving the target stages, collecting one reply per replica,
  merging the replies of a stage and aggregating the stages.  The transport and the timeout of
  \<open>admin\<close> are outside; what they decide is which replies arrive.
\<close>

subsection \<open>Payloads\<close>

fun truthy :: "pyval \<Rightarrow> bool" where
  "truthy PyNone = False"
| "truthy (PyBool b) = b"
| "truthy (PyInt n) = (n \<noteq> 0)"
| "truthy (PyFloat x) = (x \<noteq> PyFin 0)"
| "truthy (PyStr s) = (s \<noteq> [])"
| "truthy (PyList xs) = (xs \<noteq> [])"
| "truthy (PyDict d) = (d \<noteq> [])"
| "truthy (PyObj _) = True"

record admin_result =
  ar_op_id :: string
  ar_stage :: string
  ar_action :: string
  ar_success :: bool
  ar_message :: string
  ar_data :: "(string, pyval) dict"
  ar_error :: "string option"
  ar_rank :: "int option"
  ar_role :: "string option"
  ar_dp_rank :: "int option"

definition py_opt_str :: "string option \<Rightarrow> pyval" where
  "py_opt_str s = (case s of None \<Rightarrow> PyNone | Some x \<Rightarrow> PyStr x)"

definition py_opt_int :: "int option \<Rightarrow> pyval" where
  "py_opt_int n = (case n of None \<Rightarrow> PyNone | Some x \<Rightarrow> PyInt x)"

definition admin_result_to_dict :: "admin_result \<Rightarrow> (string, pyval) dict" where
  "admin_result_to_dict r =
     [(''op_id'', PyStr (ar_op_id r)), (''stage'', PyStr (ar_stage r)),
      (''action'', PyStr (ar_action r)), (''success'', PyBool (ar_success r)),
      (''message'', PyStr (ar_message r)), (''data'', PyDict (ar_data r)),
      (''error'', py_opt_str (ar_error r)), (''rank'', py_opt_int (ar_rank r)),
      (''role'', py_opt_str (ar_role r))]
     @ (case ar_dp_rank r of None \<Rightarrow> [] | Some k \<Rightarrow> [(''dp_rank'', PyInt k)])"

text \<open>The wire names of the actions.\<close>

definition is_update_action :: "string \<Rightarrow> bool" where
  "is_update_action action \<longleftrightarrow> action \<in>
     {''init_weights_update_group'', ''destroy_weights_update_group'', ''update_weights_from_disk'',
      ''update_weights_from_tensor'', ''update_weights_from_distributed''}"

subsection \<open>A pending operation\<close>

record admin_pending =
  expected_stages :: "string set"
  pending_action :: string
  pending_results :: "(string, admin_result list) dict"
  pending_replica_counts :: "(string, int) dict"
  pending_future :: "(string, admin_result list) dict option"

definition resolve_admin_stages :: "string list option \<Rightarrow> 'v coordinator \<Rightarrow> string list res" where
  "resolve_admin_stages targets c =
     (case targets of
        None \<Rightarrow> Inr (sort (dict_keys (stages c)))
      | Some ts \<Rightarrow>
          bindE (ensure (set ts - set (dict_keys (stages c)) = {}) ValueError) (\<lambda>_. Inr ts))"

text \<open>\<open>admin\<close> up to its first send: the pending operation and the stages addressed.\<close>

definition admin_begin ::
  "string \<Rightarrow> string list option \<Rightarrow> 'v coordinator \<Rightarrow> (admin_pending \<times> string list) res" where
  "admin_begin action targets c =
     bindE (ensure (running c) RuntimeError) (\<lambda>_.
     bindE (resolve_admin_stages targets c) (\<lambda>ts.
     bindE (ensure (ts \<noteq> []) ValueError) (\<lambda>_.
       Inr (\<lparr>expected_stages = set ts, pending_action = action, pending_results = [],
             pending_replica_counts =
               fold (\<lambda>s d. dict_set d s (int (length (replicas s c)))) ts [],
             pending_future = None\<rparr>, ts))))"

text \<open>The messages \<open>admin\<close> sends, in order.\<close>

definition admin_sends :: "string list \<Rightarrow> 'v coordinator \<Rightarrow> (string \<times> string) list" where
  "admin_sends ts c = concat (map (\<lambda>s. map (\<lambda>r. (s, endpoint r)) (replicas s c)) ts)"

definition add_result :: "admin_result \<Rightarrow> admin_pending \<Rightarrow> admin_pending" where
  "add_result r p =
     (let old = (case dict_get (pending_results p) (ar_stage r) of None \<Rightarrow> [] | Some rs \<Rightarrow> rs)
      in p\<lparr>pending_results := dict_set (pending_results p) (ar_stage r) (old @ [r]),
           pending_replica_counts :=
             (case dict_get (pending_replica_counts p) (ar_stage r) of
                None \<Rightarrow> pending_replica_counts p
              | Some n \<Rightarrow> dict_set (pending_replica_counts p) (ar_stage r) (max 0 (n - 1)))\<rparr>)"

definition all_reported :: "admin_pending \<Rightarrow> bool" where
  "all_reported p \<longleftrightarrow>
     expected_stages p \<subseteq> fst ` set (pending_results p) \<and>
     list_all (\<lambda>n. n \<le> 0) (dict_vals (pending_replica_counts p))"

definition handle_pending :: "admin_result \<Rightarrow> admin_pending \<Rightarrow> admin_pending" where
  "handle_pending r p =
     (let p = add_result r p
      in if all_reported p \<and> pending_future p = None
         then p\<lparr>pending_future := Some (pending_results p)\<rparr> else p)"

text \<open>The table of pending operations, by operation id.\<close>

definition handle_admin_result ::
  "admin_result \<Rightarrow> (string, admin_pending) dict \<Rightarrow> (string, admin_pending) dict" where
  "handle_admin_result r ops =
     (case dict_get ops (ar_op_id r) of
        None \<Rightarrow> ops
      | Some p \<Rightarrow> dict_set ops (ar_op_id r) (handle_pending r p))"

subsection \<open>Merging and aggregating\<close>

fun join :: "string \<Rightarrow> string list \<Rightarrow> string" where
  "join sep [] = ''''"
| "join sep [x] = x"
| "join sep (x # xs) = x @ sep @ join sep xs"

text \<open>\<open>[item.error for item in items if item.error]\<close>\<close>

definition errors_of :: "admin_result list \<Rightarrow> string list" where
  "errors_of items =
     concat (map (\<lambda>r. case ar_error r of None \<Rightarrow> [] | Some e \<Rightarrow> if e = '''' then [] else [e]) items)"

definition rank_key :: "admin_result \<Rightarrow> bool \<times> int" where
  "rank_key r = (case ar_dp_rank r of None \<Rightarrow> (True, 0) | Some k \<Rightarrow> (False, k))"

definition merge_stage_replica_results ::
  "string \<Rightarrow> string \<Rightarrow> string \<Rightarrow> admin_result list \<Rightarrow> admin_result" where
  "merge_stage_replica_results op_id action stage items =
     (if length items = 1 then hd items
      else let ordered = sort_key rank_key items;
               errors = errors_of ordered;
               ok = list_all ar_success ordered
           in \<lparr>ar_op_id = op_id, ar_stage = stage, ar_action = action, ar_success = ok,
               ar_message = (if ok then ar_message (hd ordered) else join ''; '' errors),
               ar_data = dict_set (ar_data (hd ordered)) ''replica_results''
                           (PyList (map (PyDict \<circ> admin_result_to_dict) ordered)),
               ar_error = (if ok then None
                           else if join ''; '' errors = '''' then ar_error (hd ordered)
                           else Some (join ''; '' errors)),
               ar_rank = ar_rank (hd ordered), ar_role = ar_role (hd ordered),
               ar_dp_rank = None\<rparr>)"

definition flagged :: "string \<Rightarrow> admin_result \<Rightarrow> bool" where
  "flagged key r = (case dict_get (ar_data r) key of None \<Rightarrow> False | Some v \<Rightarrow> truthy v)"

record admin_response =
  resp_op_id :: string
  resp_action :: string
  resp_success :: bool
  resp_message :: string
  resp_results :: "(string, pyval) dict list"

definition aggregate_admin_results ::
  "string \<Rightarrow> string \<Rightarrow> (string, admin_result list) dict \<Rightarrow> admin_response" where
  "aggregate_admin_results op_id action by_stage =
     (let results = map (\<lambda>(stage, items). merge_stage_replica_results op_id action stage items) by_stage;
          updated = filter (\<lambda>r. \<not> flagged ''skipped'' r \<and> \<not> flagged ''unsupported'' r) results;
          ok = (if is_update_action action then updated \<noteq> [] \<and> list_all ar_success updated
                else list_all ar_success results);
          errors = errors_of results
      in \<lparr>resp_op_id = op_id, resp_action = action, resp_success = ok,
          resp_message =
            (if ok then ''ok'' else if errors \<noteq> [] then join ''; '' errors
             else ''admin operation did not complete successfully''),
          resp_results = map admin_result_to_dict results\<rparr>)"

subsection \<open>When an operation completes\<close>

definition replies :: "string \<Rightarrow> admin_result list \<Rightarrow> nat" where
  "replies s rs = length (filter (\<lambda>r. ar_stage r = s) rs)"

text \<open>The bookkeeping of a pending operation after the replies \<open>rs\<close>, apart from the future.\<close>

definition booked :: "admin_pending \<Rightarrow> admin_result list \<Rightarrow> admin_pending \<Rightarrow> bool" where
  "booked p0 rs p \<longleftrightarrow>
     expected_stages p = expected_stages p0 \<and> pending_action p = pending_action p0 \<and>
     dict_wf (pending_replica_counts p) \<and>
     (\<forall>s. dict_get (pending_results p) s =
            (if replies s rs = 0 then None else Some (filter (\<lambda>r. ar_stage r = s) rs))) \<and>
     (\<forall>s. dict_get (pending_replica_counts p) s =
            map_option (\<lambda>n. max 0 (n - int (replies s rs))) (dict_get (pending_replica_counts p0) s))"

lemma replies_snoc: "replies s (rs @ [r]) = replies s rs + (if ar_stage r = s then 1 else 0)"
  by (simp add: replies_def)

lemma booked_add:
  assumes "booked p0 rs p" shows "booked p0 (rs @ [r]) (add_result r p)"
proof -
  have old: "(case dict_get (pending_results p) (ar_stage r) of None \<Rightarrow> [] | Some x \<Rightarrow> x)
      = filter (\<lambda>x. ar_stage x = ar_stage r) rs"
    using assms by (auto simp: booked_def replies_def filter_empty_conv)
  have counts: "dict_get (pending_replica_counts (add_result r p)) s =
      map_option (\<lambda>n. max 0 (n - int (replies s (rs @ [r])))) (dict_get (pending_replica_counts p0) s)" for s
    using assms by (cases "dict_get (pending_replica_counts p0) (ar_stage r)")
      (auto simp: booked_def add_result_def Let_def replies_snoc split: option.splits)
  have results: "dict_get (pending_results (add_result r p)) s =
      (if replies s (rs @ [r]) = 0 then None else Some (filter (\<lambda>x. ar_stage x = s) (rs @ [r])))" for s
    using assms by (auto simp: booked_def add_result_def Let_def replies_snoc old)
      (simp_all add: replies_def)
  show ?thesis
    using assms counts results
    by (simp add: booked_def add_result_def Let_def dict_wf_set split: option.split)
qed

lemma booked_future [simp]: "booked p0 rs (p\<lparr>pending_future := f\<rparr>) = booked p0 rs p"
  by (simp add: booked_def)

lemma all_reported_booked:
  assumes book: "booked p0 rs p" and wf: "dict_wf (pending_replica_counts p0)"
    and keys: "fst ` set (pending_replica_counts p0) = expected_stages p0"
    and pos: "\<And>s n. dict_get (pending_replica_counts p0) s = Some n \<Longrightarrow> 0 < n"
  shows "all_reported p \<longleftrightarrow>
     (\<forall>s n. dict_get (pending_replica_counts p0) s = Some n \<longrightarrow> n \<le> int (replies s rs))"
proof -
  have wfp: "dict_wf (pending_replica_counts p)" using book by (simp add: booked_def)
  have vals: "list_all (\<lambda>n. n \<le> 0) (dict_vals (pending_replica_counts p)) \<longleftrightarrow>
      (\<forall>s n. dict_get (pending_replica_counts p) s = Some n \<longrightarrow> n \<le> 0)"
    using dict_get_wf [OF wfp] by (auto simp: list_all_iff dict_vals_def)
  have "(\<forall>n. dict_get (pending_replica_counts p) s = Some n \<longrightarrow> n \<le> 0) \<longleftrightarrow>
      (\<forall>n. dict_get (pending_replica_counts p0) s = Some n \<longrightarrow> n \<le> int (replies s rs))" for s
    using book by (cases "dict_get (pending_replica_counts p0) s") (simp_all add: booked_def)
  then have counts: "(\<forall>s n. dict_get (pending_replica_counts p) s = Some n \<longrightarrow> n \<le> 0) \<longleftrightarrow>
      (\<forall>s n. dict_get (pending_replica_counts p0) s = Some n \<longrightarrow> n \<le> int (replies s rs))"
    by blast
  have "s \<in> fst ` set (pending_results p)"
    if "\<forall>s n. dict_get (pending_replica_counts p0) s = Some n \<longrightarrow> n \<le> int (replies s rs)"
      "s \<in> expected_stages p0" for s
  proof -
    note here = that
    obtain n where n: "dict_get (pending_replica_counts p0) s = Some n"
      using here(2) keys dict_get_dom by metis
    then have "0 < replies s rs" using here(1) pos by fastforce
    then have "dict_get (pending_results p) s \<noteq> None" using book by (simp add: booked_def)
    then show ?thesis by (simp add: dict_get_None)
  qed
  then show ?thesis
    using vals counts book unfolding all_reported_def booked_def by blast
qed

lemma handle_pending_run:
  assumes wf: "dict_wf (pending_replica_counts p0)"
    and keys: "fst ` set (pending_replica_counts p0) = expected_stages p0"
    and pos: "\<forall>n \<in> snd ` set (pending_replica_counts p0). 0 < n"
    and fresh: "pending_results p0 = []" "pending_future p0 = None" and some: "expected_stages p0 \<noteq> {}"
  shows "booked p0 rs (fold handle_pending rs p0) \<and>
     (pending_future (fold handle_pending rs p0) \<noteq> None \<longleftrightarrow>
        (\<forall>s n. dict_get (pending_replica_counts p0) s = Some n \<longrightarrow> n \<le> int (replies s rs)))"
proof (induction rs rule: rev_induct)
  case Nil
  obtain s where "s \<in> expected_stages p0" using some by blast
  then obtain n where n: "dict_get (pending_replica_counts p0) s = Some n"
    using keys dict_get_dom by metis
  have pos': "0 < n" if "dict_get (pending_replica_counts p0) s = Some n" for s n
    using pos dict_get_in [OF that] by force
  have "booked p0 [] p0"
    using wf pos' fresh(1) by (auto simp: booked_def replies_def map_option_case split: option.split)
  moreover have "\<exists>s n. dict_get (pending_replica_counts p0) s = Some n \<and> \<not> n \<le> int (replies s [])"
    using n pos' [OF n] by (auto simp: replies_def intro!: exI [of _ s] exI [of _ n])
  ultimately show ?case using fresh(2) by auto
next
  case (snoc r rs)
  let ?p = "fold handle_pending rs p0"
  let ?done = "\<lambda>rs. \<forall>s n. dict_get (pending_replica_counts p0) s = Some n \<longrightarrow> n \<le> int (replies s rs)"
  have pos': "0 < n" if "dict_get (pending_replica_counts p0) s = Some n" for s n
    using pos dict_get_in [OF that] by force
  have book: "booked p0 (rs @ [r]) (add_result r ?p)" by (rule booked_add) (use snoc in simp)
  have all: "all_reported (add_result r ?p) \<longleftrightarrow> ?done (rs @ [r])"
    by (rule all_reported_booked [OF book wf keys]) (rule pos')
  have fut: "pending_future (add_result r ?p) = pending_future ?p"
    by (simp add: add_result_def Let_def)
  have mono: "?done rs \<Longrightarrow> ?done (rs @ [r])" by (fastforce simp: replies_snoc)
  have new: "fold handle_pending (rs @ [r]) p0 = handle_pending r ?p" by simp
  have h: "booked p0 (rs @ [r]) (handle_pending r ?p)"
    using book by (simp add: handle_pending_def Let_def)
  have "pending_future (handle_pending r ?p) \<noteq> None \<longleftrightarrow>
      all_reported (add_result r ?p) \<or> pending_future ?p \<noteq> None"
    by (auto simp: handle_pending_def Let_def fut)
  then show ?case using h all snoc mono unfolding new by blast
qed


text \<open>What \<open>admin\<close> puts into the table.\<close>

lemma fold_counts:
  "dict_wf d \<Longrightarrow>
     dict_wf (fold (\<lambda>s d. dict_set d s (g s)) ts d) \<and>
     fst ` set (fold (\<lambda>s d. dict_set d s (g s)) ts d) = fst ` set d \<union> set ts \<and>
     (\<forall>s. dict_get (fold (\<lambda>s d. dict_set d s (g s)) ts d) s = (if s \<in> set ts then Some (g s) else dict_get d s))"
  by (induction ts arbitrary: d) (auto simp: dict_keys_set_set)

lemma admin_begin_facts:
  assumes "admin_begin action targets c = Inr (p, ts)"
  shows "running c" "ts \<noteq> []" "set ts \<subseteq> set (dict_keys (stages c))"
    "expected_stages p = set ts" "pending_results p = []" "pending_future p = None"
    "dict_wf (pending_replica_counts p)" "fst ` set (pending_replica_counts p) = set ts"
    "dict_get (pending_replica_counts p) s = (if s \<in> set ts then Some (int (length (replicas s c))) else None)"
proof -
  let ?d = "fold (\<lambda>s d. dict_set d s (int (length (replicas s c)))) ts []"
  have r: "running c" "ts \<noteq> []" "resolve_admin_stages targets c = Inr ts"
    "p = \<lparr>expected_stages = set ts, pending_action = action, pending_results = [],
          pending_replica_counts = ?d, pending_future = None\<rparr>"
    using assms by (auto simp: admin_begin_def bindE_eq_Inr)
  note d = fold_counts [of "[]" "\<lambda>s. int (length (replicas s c))" ts, simplified]
  show "running c" "ts \<noteq> []" "expected_stages p = set ts" "pending_results p = []"
    "pending_future p = None" "dict_wf (pending_replica_counts p)"
    "fst ` set (pending_replica_counts p) = set ts"
    "dict_get (pending_replica_counts p) s = (if s \<in> set ts then Some (int (length (replicas s c))) else None)"
    using r d by auto
  show "set ts \<subseteq> set (dict_keys (stages c))"
    using r(3) by (auto simp: resolve_admin_stages_def bindE_eq_Inr split: option.splits)
qed

text \<open>C28: An administrative operation completes exactly when every target stage has sent as many
  replies as it has replicas, and its result then holds, per stage, that stage's replies in the
  order they arrived.\<close>

theorem admin_completes:
  assumes begin_op: "admin_begin action targets c = Inr (p, ts)"
    and live: "\<forall>s \<in> set ts. replicas s c \<noteq> []"
  shows "(pending_future (fold handle_pending rs p) \<noteq> None \<longleftrightarrow>
            (\<forall>s \<in> set ts. length (replicas s c) \<le> length (filter (\<lambda>r. ar_stage r = s) rs))) \<and>
         (\<forall>d. pending_future (fold handle_pending rs p) = None \<longrightarrow>
            pending_future (fold handle_pending (rs @ [r]) p) = Some d \<longrightarrow>
            dict_get d s = (let mine = filter (\<lambda>r. ar_stage r = s) (rs @ [r])
                            in if mine = [] then None else Some mine))"
proof (intro conjI allI impI)
  note f = admin_begin_facts [OF begin_op]
  have pos: "\<forall>n \<in> snd ` set (pending_replica_counts p). 0 < n"
  proof
    fix n assume "n \<in> snd ` set (pending_replica_counts p)"
    then obtain s where "(s, n) \<in> set (pending_replica_counts p)" by force
    then have "dict_get (pending_replica_counts p) s = Some n" using dict_get_wf [OF f(7)] by simp
    then show "0 < n" using f(9) [of s] live by (auto split: if_splits)
  qed
  have run: "booked p xs (fold handle_pending xs p) \<and> (pending_future (fold handle_pending xs p) \<noteq> None \<longleftrightarrow>
      (\<forall>s n. dict_get (pending_replica_counts p) s = Some n \<longrightarrow> n \<le> int (replies s xs)))" for xs
    by (rule handle_pending_run) (use f pos in auto)
  then show "pending_future (fold handle_pending rs p) \<noteq> None \<longleftrightarrow>
      (\<forall>s \<in> set ts. length (replicas s c) \<le> length (filter (\<lambda>r. ar_stage r = s) rs))"
    using f(9) by (auto simp: replies_def)
  fix d assume none: "pending_future (fold handle_pending rs p) = None"
    and some: "pending_future (fold handle_pending (rs @ [r]) p) = Some d"
  then have "d = pending_results (fold handle_pending (rs @ [r]) p)"
    by (auto simp: handle_pending_def Let_def split: if_splits)
      (simp add: add_result_def Let_def)
  then show "dict_get d s = (let mine = filter (\<lambda>r. ar_stage r = s) (rs @ [r])
      in if mine = [] then None else Some mine)"
    using run [of "rs @ [r]"] by (auto simp: booked_def replies_def Let_def)
qed

definition demo_reply :: "string \<Rightarrow> int option \<Rightarrow> bool \<Rightarrow> admin_result" where
  "demo_reply s k ok =
     \<lparr>ar_op_id = ''op'', ar_stage = s, ar_action = ''model_info'', ar_success = ok, ar_message = '''',
      ar_data = [], ar_error = (if ok then None else Some ''e''), ar_rank = None, ar_role = None,
      ar_dp_rank = k\<rparr>"

definition demo_stages :: "nat coordinator" where
  "demo_stages = run_coordinator ''a'' None
     [(''a'', ''e0'', None, None), (''a'', ''e1'', None, None), (''b'', ''e2'', None, None)]"

theorem admin_completes_witness:
  "\<exists>p. admin_begin ''model_info'' (Some [''a'', ''b'']) demo_stages = Inr (p, [''a'', ''b'']) \<and>
       pending_future (fold handle_pending
         [demo_reply ''a'' (Some 1) True, demo_reply ''b'' None True] p) = None \<and>
       pending_future (fold handle_pending [demo_reply ''a'' (Some 1) True, demo_reply ''b'' None True,
         demo_reply ''a'' (Some 0) True] p) \<noteq> None"
proof -
  have reps: "replicas ''a'' demo_stages \<noteq> []" "replicas ''b'' demo_stages \<noteq> []"
    "length (replicas ''a'' demo_stages) = 2" "length (replicas ''b'' demo_stages) = 1"
    by (simp_all add: demo_stages_def run_coordinator_def register_stage_def new_coordinator_def
        replicas_def Let_def)
  obtain p where p: "admin_begin ''model_info'' (Some [''a'', ''b'']) demo_stages = Inr (p, [''a'', ''b''])"
    by (simp add: admin_begin_def resolve_admin_stages_def demo_stages_def run_coordinator_def
        register_stage_def new_coordinator_def replicas_def dict_keys_def Let_def ensure_def)
  note c = conjunct1 [OF admin_completes [OF p]]
  show ?thesis
    using p reps c [of "[demo_reply ''a'' (Some 1) True, demo_reply ''b'' None True]"]
      c [of "[demo_reply ''a'' (Some 1) True, demo_reply ''b'' None True, demo_reply ''a'' (Some 0) True]"]
    by (simp add: demo_reply_def)
qed


subsection \<open>The verdict\<close>

lemma merged_success:
  "items \<noteq> [] \<Longrightarrow>
     ar_success (merge_stage_replica_results op action stage items) \<longleftrightarrow> (\<forall>r \<in> set items. ar_success r)"
  by (cases "length items = 1")
    (auto simp: merge_stage_replica_results_def Let_def list_all_iff length_Suc_conv)

text \<open>Outside weight updates an operation succeeds exactly when every replica of every stage did.\<close>

lemma admin_verdict:
  assumes "\<not> is_update_action action" and "\<forall>(stage, items) \<in> set by_stage. items \<noteq> []"
  shows "resp_success (aggregate_admin_results op action by_stage) \<longleftrightarrow>
     (\<forall>(stage, items) \<in> set by_stage. \<forall>r \<in> set items. ar_success r)"
  using assms merged_success
  by (fastforce simp: aggregate_admin_results_def Let_def list_all_iff)

text \<open>
  A weight update succeeds only if some stage took part, and every replica of every stage whose
  merged reply is not flagged as skipped or unsupported succeeded.
\<close>

lemma update_verdict:
  assumes "is_update_action action" and "\<forall>(stage, items) \<in> set by_stage. items \<noteq> []"
    and "resp_success (aggregate_admin_results op action by_stage)"
    and "(stage, items) \<in> set by_stage"
    and "\<not> flagged ''skipped'' (merge_stage_replica_results op action stage items)"
    and "\<not> flagged ''unsupported'' (merge_stage_replica_results op action stage items)"
    and "r \<in> set items"
  shows "ar_success r"
proof -
  have "ar_success (merge_stage_replica_results op action stage items)"
    using assms(1,3-6) by (force simp: aggregate_admin_results_def Let_def list_all_iff)
  then show ?thesis using merged_success assms(2,4,7) by fastforce
qed

text \<open>
  The flags of a replicated stage are those of its lowest-ranked replica alone: when that replica
  skipped a weight update, another replica's failure does not make the operation fail.
\<close>

lemma skipped_replica_hides_failure:
  defines "skip \<equiv> (demo_reply ''a'' (Some 0) True)\<lparr>ar_data := [(''skipped'', PyBool True)]\<rparr>"
  shows "resp_success (aggregate_admin_results ''op'' ''update_weights_from_disk''
     [(''a'', [skip, demo_reply ''a'' (Some 1) False]), (''b'', [demo_reply ''b'' None True])])"
  by (simp add: aggregate_admin_results_def merge_stage_replica_results_def Let_def rank_key_def
      skip_def demo_reply_def flagged_def is_update_action_def errors_of_def)

end
