(* ===== verification/Update_Journal.thy ===== *)
theory Update_Journal
  imports Prelude "HOL-Library.List_Lexorder" "HOL-Library.Char_ord"
begin

section \<open>The weight-update journal\<close>

text \<open>
  Models \<open>sglang_omni_router/update_journal.py\<close>.  The state is the file system under the journal:
  the entry a reader sees, the contents a host crash may leave there (a rename or an unlink is
  durable only once its directory is synced), and, for every directory on the path, outermost
  first, whether its own entry in its parent is durable.  Each call takes a \<^emph>\<open>fault plan\<close> that says
  which of its system calls fail; a process that dies in the middle of a call leaves the disk
  as the plan that fails at that point does.  Hosts are POSIX; the contents written to the
  temporary file are on disk before it is renamed, as the source has it.
\<close>

subsection \<open>The disk\<close>

text \<open>
  What JSON parsing of a file yields: \<open>Garbage\<close> is anything that is not an object;
  \<open>doc_path\<close> is \<open>data["path"]\<close> where that is a string, \<open>doc_ids\<close> is \<open>data["worker_ids"]\<close> where that
  is a list of strings.
\<close>

datatype journal_content =
    Garbage
  | Document (doc_path: "string option") (doc_ids: "string list option")

record journal_fs =
  jf_entry :: "journal_content option"
  jf_surviving :: "journal_content option set"
  jf_depth :: nat
  jf_dirs :: "bool list"

text \<open>
  A fault plan; \<open>mkdir_fault = Some k\<close> lets \<open>makedirs\<close> make \<open>k\<close> of the missing directories, and
  \<open>parent_fault = Some k\<close> lets \<open>k\<close> of the syncs of their parents succeed.
\<close>

record journal_io =
  read_ok :: bool
  mkdir_fault :: "nat option"
  parent_fault :: "nat option"
  write_ok :: bool
  replace_ok :: bool
  unlink_ok :: bool
  dir_sync_ok :: bool

definition dir_exists :: "nat \<Rightarrow> journal_fs \<Rightarrow> bool" where
  "dir_exists d fs \<longleftrightarrow> d \<le> length (jf_dirs fs)"

text \<open>
  What a crash of the host may leave: the path loses the directories from some one on whose own
  entry was not durable, and the journal with them; otherwise the entry is one of those that
  survive.
\<close>

definition host_crash :: "journal_fs \<Rightarrow> journal_fs set" where
  "host_crash fs =
     (\<lambda>k. fs\<lparr>jf_entry := None, jf_surviving := {None}, jf_dirs := replicate k True\<rparr>)
        ` {k. k < length (jf_dirs fs) \<and> \<not> jf_dirs fs ! k}
     \<union> (\<lambda>e. fs\<lparr>jf_entry := e, jf_surviving := {e}, jf_dirs := map (\<lambda>_. True) (jf_dirs fs)\<rparr>)
        ` jf_surviving fs"

subsection \<open>Directories\<close>

text \<open>\<open>_fsync_directory\<close> of the directory that holds the journal.\<close>

definition fsync_dir :: "journal_io \<Rightarrow> journal_fs \<Rightarrow> unit res \<times> journal_fs" where
  "fsync_dir io fs =
     (if dir_sync_ok io then (Inr (), fs\<lparr>jf_surviving := {jf_entry fs}\<rparr>)
      else (Inl JournalUnwritableError, fs))"

text \<open>\<open>_make_private_dir\<close> of the first \<open>d\<close> directories: what it created, innermost first.\<close>

definition make_private_dir :: "nat \<Rightarrow> journal_io \<Rightarrow> journal_fs \<Rightarrow> nat list res \<times> journal_fs" where
  "make_private_dir d io fs =
     (if dir_exists d fs then (Inr [], fs)
      else let missing = d - length (jf_dirs fs);
               n = (case mkdir_fault io of None \<Rightarrow> missing | Some k \<Rightarrow> min k missing);
               fs' = fs\<lparr>jf_dirs := jf_dirs fs @ replicate n False\<rparr>
           in if n < missing then (Inl OSError, fs')
              else (Inr (rev [length (jf_dirs fs) ..< d]), fs'))"

text \<open>The loop that syncs the parent of each created directory, with the syncs left.\<close>

fun sync_parents :: "nat option \<Rightarrow> nat list \<Rightarrow> journal_fs \<Rightarrow> unit res \<times> journal_fs" where
  "sync_parents left [] fs = (Inr (), fs)"
| "sync_parents left (i # is) fs =
     (if left = Some 0 then (Inl JournalUnwritableError, fs)
      else sync_parents (map_option (\<lambda>n. n - 1) left) is (fs\<lparr>jf_dirs := (jf_dirs fs)[i := True]\<rparr>))"

text \<open>The first statements of \<open>_write\<close> and of \<open>ensure_state_dir\<close>.\<close>

definition prepare_dir :: "nat \<Rightarrow> journal_io \<Rightarrow> journal_fs \<Rightarrow> unit res \<times> journal_fs" where
  "prepare_dir d io fs =
     (case make_private_dir d io fs of
        (Inl e, fs1) \<Rightarrow> (Inl JournalUnwritableError, fs1)
      | (Inr created, fs1) \<Rightarrow> sync_parents (parent_fault io) (rev created) fs1)"

subsection \<open>Reading\<close>

definition read_document ::
    "journal_io \<Rightarrow> journal_fs \<Rightarrow> (string option \<times> string list option) option res" where
  "read_document io fs =
     (if \<not> read_ok io then Inl JournalUnreadableError
      else case jf_entry fs of
             None \<Rightarrow> Inr None
           | Some Garbage \<Rightarrow> Inl JournalUnreadableError
           | Some (Document p ids) \<Rightarrow> Inr (Some (p, ids)))"

definition journal_pending :: "journal_io \<Rightarrow> journal_fs \<Rightarrow> string list res" where
  "journal_pending io fs =
     bindE (read_document io fs) (\<lambda>data.
       case data of
         None \<Rightarrow> Inr []
       | Some (_, None) \<Rightarrow> Inl JournalUnreadableError
       | Some (_, Some ids) \<Rightarrow> Inr ids)"

definition journal_has_pending :: "journal_io \<Rightarrow> journal_fs \<Rightarrow> bool" where
  "journal_has_pending io fs =
     (case journal_pending io fs of Inl _ \<Rightarrow> True | Inr ids \<Rightarrow> ids \<noteq> [])"

subsection \<open>Writing\<close>

definition journal_write :: "journal_io \<Rightarrow> journal_content \<Rightarrow> journal_fs \<Rightarrow> unit res \<times> journal_fs" where
  "journal_write io data fs =
     (case prepare_dir (jf_depth fs) io fs of
        (Inl e, fs1) \<Rightarrow> (Inl e, fs1)
      | (Inr _, fs1) \<Rightarrow>
          if \<not> write_ok io \<or> \<not> replace_ok io then (Inl JournalUnwritableError, fs1)
          else fsync_dir io (fs1\<lparr>jf_entry := Some data,
                                 jf_surviving := insert (Some data) (jf_surviving fs1)\<rparr>))"

definition journal_clear :: "journal_io \<Rightarrow> journal_fs \<Rightarrow> unit res \<times> journal_fs" where
  "journal_clear io fs =
     (if \<not> unlink_ok io then (Inl JournalUnwritableError, fs)
      else if jf_entry fs = None
      then if dir_exists (jf_depth fs) fs then fsync_dir io fs else (Inr (), fs)
      else fsync_dir io (fs\<lparr>jf_entry := None, jf_surviving := insert None (jf_surviving fs)\<rparr>))"

definition journal_begin ::
    "journal_io \<Rightarrow> string \<Rightarrow> string list \<Rightarrow> journal_fs \<Rightarrow> unit res \<times> journal_fs" where
  "journal_begin io path ids fs = journal_write io (Document (Some path) (Some (sort ids))) fs"

definition journal_keep :: "journal_io \<Rightarrow> string list \<Rightarrow> journal_fs \<Rightarrow> unit res \<times> journal_fs" where
  "journal_keep io ids fs =
     (if ids = [] then journal_clear io fs
      else let path = (case read_document io fs of Inr (Some (Some p, _)) \<Rightarrow> Some p | _ \<Rightarrow> None)
           in journal_write io (Document path (Some (sort ids))) fs)"

text \<open>\<open>discard\<close>; the first plan is that of its own read, the second that of \<open>keep\<close>.\<close>

definition journal_discard ::
    "journal_io \<Rightarrow> journal_io \<Rightarrow> string \<Rightarrow> journal_fs \<Rightarrow> bool \<times> journal_fs" where
  "journal_discard rd io wid fs =
     (case journal_pending rd fs of
        Inl _ \<Rightarrow> (False, fs)
      | Inr ids \<Rightarrow>
          (case journal_keep io (filter (\<lambda>i. i \<noteq> wid) ids) fs of
             (Inl _, fs') \<Rightarrow> (False, fs')
           | (Inr _, fs') \<Rightarrow> (True, fs')))"

subsection \<open>Startup, and the stand-in without a directory\<close>

text \<open>
  \<open>ensure_state_dir\<close> of the first \<open>d\<close> directories; the probe file is written (\<open>write_ok\<close>) and
  unlinked, and only a failure other than its absence is an error.
\<close>

definition ensure_state_dir :: "nat \<Rightarrow> journal_io \<Rightarrow> journal_fs \<Rightarrow> unit res \<times> journal_fs" where
  "ensure_state_dir d io fs =
     (case prepare_dir d io fs of
        (Inl e, fs1) \<Rightarrow> (Inl e, fs1)
      | (Inr _, fs1) \<Rightarrow>
          if write_ok io \<and> unlink_ok io then (Inr (), fs1) else (Inl JournalUnwritableError, fs1))"

text \<open>\<open>build_journal\<close>: whether the endpoint gets its journal or the stand-in \<open>UnavailableJournal\<close>.\<close>

definition build_journal :: "bool \<Rightarrow> nat \<Rightarrow> journal_io \<Rightarrow> journal_fs \<Rightarrow> bool \<times> journal_fs" where
  "build_journal explicit d io fs =
     (if explicit then (True, fs)
      else case ensure_state_dir d io fs of
             (Inl _, fs') \<Rightarrow> (False, fs')
           | (Inr _, fs') \<Rightarrow> (True, fs'))"

text \<open>
  The operations on \<open>app.state.update_journal\<close>: \<open>up\<close> says which of the two classes it is.
\<close>

definition j_pending :: "bool \<Rightarrow> journal_io \<Rightarrow> journal_fs \<Rightarrow> string list res" where
  "j_pending up io fs = (if up then journal_pending io fs else Inr [])"

definition j_has_pending :: "bool \<Rightarrow> journal_io \<Rightarrow> journal_fs \<Rightarrow> bool" where
  "j_has_pending up io fs = (up \<and> journal_has_pending io fs)"

definition j_begin ::
    "bool \<Rightarrow> journal_io \<Rightarrow> string \<Rightarrow> string list \<Rightarrow> journal_fs \<Rightarrow> unit res \<times> journal_fs" where
  "j_begin up io path ids fs =
     (if up then journal_begin io path ids fs else (Inl JournalUnwritableError, fs))"

definition j_keep :: "bool \<Rightarrow> journal_io \<Rightarrow> string list \<Rightarrow> journal_fs \<Rightarrow> unit res \<times> journal_fs" where
  "j_keep up io ids fs =
     (if up then journal_keep io ids fs else (Inl JournalUnwritableError, fs))"

definition j_discard ::
    "bool \<Rightarrow> journal_io \<Rightarrow> journal_io \<Rightarrow> string \<Rightarrow> journal_fs \<Rightarrow> bool \<times> journal_fs" where
  "j_discard up rd io wid fs = (if up then journal_discard rd io wid fs else (True, fs))"

definition j_clear :: "bool \<Rightarrow> journal_io \<Rightarrow> journal_fs \<Rightarrow> unit res \<times> journal_fs" where
  "j_clear up io fs = (if up then journal_clear io fs else (Inr (), fs))"

end
