(* ===== verification/Voice_Routing.thy ===== *)
theory Voice_Routing
  imports Router_Worker Py_Value
begin

section \<open>Routing uploaded voices to their owner\<close>

text \<open>
  Models \<open>sglang_omni_router/voice_routing.py\<close>: the router's view of which voices were uploaded to
  the one worker that owns them, kept by counting mutations in flight, marking the view dirty when
  a mutation may have changed the registry, and refreshing it from the owner.  A refresh is cut at
  its only await, the request to the owner; what the owner answers, and the class of an error it
  fails with, are arguments.
\<close>

subsection \<open>Names\<close>

definition DEFAULT_VOICE_NAME :: string where
  "DEFAULT_VOICE_NAME = ''default''"

fun normalize_voice_name :: "pyval \<Rightarrow> string option" where
  "normalize_voice_name (PyStr s) =
     (let n = map lower_char (py_strip s) in if n = [] then None else Some n)"
| "normalize_voice_name _ = None"

datatype voice_operation = Upload | Delete

record voice_mutation =
  vm_operation :: voice_operation
  vm_name :: string

definition create_mutation :: "voice_operation \<Rightarrow> pyval \<Rightarrow> voice_mutation option" where
  "create_mutation op v =
     map_option (\<lambda>n. \<lparr>vm_operation = op, vm_name = n\<rparr>) (normalize_voice_name v)"

text \<open>\<open>_uploaded_voice_names\<close>: the names in the owner's answer, from either of its two fields.\<close>

definition item_name :: "pyval \<Rightarrow> string res" where
  "item_name v = (case normalize_voice_name v of None \<Rightarrow> Inl ValueError | Some n \<Rightarrow> Inr n)"

definition entry_name :: "pyval \<Rightarrow> string res" where
  "entry_name v =
     (case v of
        PyDict d \<Rightarrow> item_name (case map_of d ''name'' of None \<Rightarrow> PyNone | Some x \<Rightarrow> x)
      | _ \<Rightarrow> Inl ValueError)"

definition uploaded_voice_names :: "pyval \<Rightarrow> string set res" where
  "uploaded_voice_names payload =
     (case payload of
        PyDict d \<Rightarrow>
          (case map_of d ''uploaded_voice_names'' of
             Some (PyList items) \<Rightarrow> bindE (mapE item_name items) (\<lambda>ns. Inr (set ns))
           | None \<Rightarrow>
               (case map_of d ''uploaded_voices'' of
                  Some (PyList items) \<Rightarrow> bindE (mapE entry_name items) (\<lambda>ns. Inr (set ns))
                | _ \<Rightarrow> Inl ValueError)
           | Some PyNone \<Rightarrow>
               (case map_of d ''uploaded_voices'' of
                  Some (PyList items) \<Rightarrow> bindE (mapE entry_name items) (\<lambda>ns. Inr (set ns))
                | _ \<Rightarrow> Inl ValueError)
           | Some _ \<Rightarrow> Inl ValueError)
      | _ \<Rightarrow> Inl ValueError)"

subsection \<open>The owner\<close>

definition can_own_uploaded_voices :: "string list \<Rightarrow> bool" where
  "can_own_uploaded_voices caps \<longleftrightarrow> {''speech'', ''audio_input''} \<subseteq> set caps"

fun first_index :: "('a \<Rightarrow> bool) \<Rightarrow> 'a list \<Rightarrow> nat option" where
  "first_index P [] = None"
| "first_index P (x # xs) = (if P x then Some 0 else map_option Suc (first_index P xs))"

definition voice_owner :: "worker list \<Rightarrow> string option \<Rightarrow> nat option" where
  "voice_owner ws url =
     (case url of None \<Rightarrow> None | Some u \<Rightarrow> first_index (\<lambda>w. worker_url w = u) ws)"

definition ensure_owner :: "worker list \<Rightarrow> string option \<Rightarrow> nat option \<times> string option" where
  "ensure_owner ws url =
     (case voice_owner ws url of
        Some i \<Rightarrow> (Some i, url)
      | None \<Rightarrow>
          if url \<noteq> None then (None, url)
          else case first_index (\<lambda>w. is_routable w \<and> can_own_uploaded_voices (cfg_capabilities (w_config w))) ws of
                 None \<Rightarrow> (None, None)
               | Some i \<Rightarrow> (Some i, Some (worker_url (ws ! i))))"

subsection \<open>The state\<close>

text \<open>\<open>vs_refresh\<close> is whether the event \<open>_refresh_requested\<close> is set.\<close>

record voice_state =
  vs_owner_url :: "string option"
  vs_uploaded :: "string set"
  vs_active :: bool
  vs_hydrated :: bool
  vs_dirty :: bool
  vs_reconciling :: bool
  vs_inflight :: int
  vs_error :: "string option"
  vs_generation :: int
  vs_refresh :: bool

definition new_voice_state :: "string option \<Rightarrow> voice_state" where
  "new_voice_state url =
     \<lparr>vs_owner_url = url, vs_uploaded = {}, vs_active = False, vs_hydrated = False, vs_dirty = False,
      vs_reconciling = False, vs_inflight = 0, vs_error = None, vs_generation = 0, vs_refresh = False\<rparr>"

definition request_refresh :: "voice_state \<Rightarrow> voice_state" where
  "request_refresh v =
     (if vs_active v \<and> \<not> vs_reconciling v then v\<lparr>vs_refresh := True\<rparr> else v)"

definition activate :: "voice_state \<Rightarrow> voice_state" where
  "activate v = (if vs_active v then v else request_refresh (v\<lparr>vs_active := True\<rparr>))"

definition mark_uncertain :: "voice_state \<Rightarrow> voice_state" where
  "mark_uncertain v =
     v\<lparr>vs_active := True, vs_dirty := True, vs_error := Some ''mutation outcome is uncertain'',
       vs_refresh := True\<rparr>"

definition begin_mutation :: "voice_state \<Rightarrow> voice_state" where
  "begin_mutation v =
     v\<lparr>vs_active := True, vs_inflight := vs_inflight v + 1, vs_generation := vs_generation v + 1\<rparr>"

definition mark_mutation_dispatched :: "voice_state \<Rightarrow> voice_state res" where
  "mark_mutation_dispatched v =
     (if vs_inflight v > 0 then Inr (v\<lparr>vs_dirty := True\<rparr>) else Inl AssertionError)"

definition end_mutation :: "voice_state \<Rightarrow> voice_state res" where
  "end_mutation v =
     (if vs_inflight v > 0
      then let n = vs_inflight v - 1
           in Inr (v\<lparr>vs_inflight := n, vs_refresh := (vs_refresh v \<or> n = 0)\<rparr>)
      else Inl AssertionError)"

definition apply_mutation :: "voice_mutation \<Rightarrow> voice_state \<Rightarrow> voice_state res" where
  "apply_mutation m v =
     (if vs_inflight v > 0
      then Inr (v\<lparr>vs_uploaded := (case vm_operation m of
                                    Upload \<Rightarrow> insert (vm_name m) (vs_uploaded v)
                                  | Delete \<Rightarrow> vs_uploaded v - {vm_name m})\<rparr>)
      else Inl AssertionError)"

text \<open>What the health endpoint reports as \<open>registry_state\<close>.\<close>

definition registry_state :: "worker list \<Rightarrow> voice_state \<Rightarrow> string" where
  "registry_state ws v =
     (if voice_owner ws (vs_owner_url v) = None then ''unassigned''
      else if \<not> vs_active v then ''inactive''
      else if vs_inflight v \<noteq> 0 then ''mutating''
      else if vs_reconciling v then if vs_hydrated v then ''refreshing'' else ''hydrating''
      else if \<not> vs_hydrated v then if vs_error v \<noteq> None then ''degraded'' else ''pending''
      else if vs_dirty v then ''degraded''
      else if vs_error v \<noteq> None then ''stale''
      else ''ready'')"

subsection \<open>Does a request need the owner?\<close>

definition voice_names :: "string list \<Rightarrow> string set" where
  "voice_names vs =
     set (List.map_filter (\<lambda>n. normalize_voice_name (PyStr n)) vs) - {DEFAULT_VOICE_NAME}"

definition requires_owner ::
    "worker list \<Rightarrow> string list \<Rightarrow> bool \<Rightarrow> voice_state \<Rightarrow> bool \<times> voice_state" where
  "requires_owner ws vs over_limit v0 =
     (case ensure_owner ws (vs_owner_url v0) of (owner, url) \<Rightarrow>
        let v1 = v0\<lparr>vs_owner_url := url\<rparr> in
        if owner = None then (False, v1)
        else if over_limit then (True, v1)
        else let names = voice_names vs in
             if names = {} then (False, v1)
             else let v2 = activate v1 in
                  if \<not> vs_hydrated v2 \<or> vs_dirty v2 \<or> vs_inflight v2 > 0
                  then (True, request_refresh v2)
                  else (names \<inter> vs_uploaded v2 \<noteq> {}, v2))"

subsection \<open>Reconciliation\<close>

text \<open>
  \<open>_reconcile_once\<close> up to its await: either it is over, answering whether to retry, or it fetches
  with the generation it remembers.
\<close>

datatype reconcile = Over bool | Fetch int

definition reconcile_begin :: "worker list \<Rightarrow> voice_state \<Rightarrow> reconcile \<times> voice_state" where
  "reconcile_begin ws v =
     (if vs_inflight v > 0 then (Over False, v)
      else case voice_owner ws (vs_owner_url v) of
             None \<Rightarrow> (Over (\<not> vs_hydrated v \<or> vs_dirty v), v)
           | Some i \<Rightarrow>
               if \<not> is_routable (ws ! i) then (Over (\<not> vs_hydrated v \<or> vs_dirty v), v)
               else (Fetch (vs_generation v), v\<lparr>vs_reconciling := True\<rparr>))"

text \<open>After the await, with the names the owner answered or the error that was caught.\<close>

definition reconcile_end :: "int \<Rightarrow> string + string set \<Rightarrow> voice_state \<Rightarrow> bool \<times> voice_state" where
  "reconcile_end gen answer v =
     (case answer of
        Inl e \<Rightarrow> (True, v\<lparr>vs_error := Some e, vs_reconciling := False\<rparr>)
      | Inr names \<Rightarrow>
          if vs_generation v \<noteq> gen \<or> vs_inflight v > 0 then (True, v\<lparr>vs_reconciling := False\<rparr>)
          else (False, v\<lparr>vs_uploaded := names, vs_hydrated := True, vs_dirty := False,
                          vs_error := None, vs_reconciling := False\<rparr>))"

text \<open>
  The loop of \<open>_run_reconciliation\<close>: waiting for the event, waiting with the retry timer armed, or
  fetching with the generation it remembers and what the owner answered.
\<close>

datatype refresher = Waiting | Retrying | Fetching int "string set option"

definition loop_of :: "reconcile \<Rightarrow> refresher" where
  "loop_of r = (case r of Over True \<Rightarrow> Retrying | Over False \<Rightarrow> Waiting | Fetch g \<Rightarrow> Fetching g None)"

end
