(* ===== verification/Weight_Update.thy ===== *)
theory Weight_Update
  imports Update_Journal Router_Channel Voice_Routing
begin

section \<open>Weight updates across crashes\<close>

text \<open>
  Models the part of \<open>sglang_omni_router/app.py\<close> that changes the worker registry and runs weight
  updates: registering, updating and deleting a worker, the journaled update transaction, the
  resolution of a left-over journal, and recovery at startup.  Handlers run between two awaits of
  the event loop; whatever else a handler awaits in between is a step of its own.  What HTTP,
  pydantic's validation (\<open>mk_config\<close>), the bearer check (\<open>pr_auth\<close>) and the data planes answer
  is an argument.  A worker object is its index in the registry, which does not change while an
  update runs.
\<close>

record running_update =
  ru_path :: string
  ru_targets :: "nat list"
  ru_previous :: "(string, bool) dict"
  ru_sent :: bool

text \<open>
  \<open>voice\<close> is \<open>None\<close> where no \<open>VoiceRoutingState\<close> is configured and else its \<open>_owner_url\<close>;
  \<open>running\<close> is the transaction that holds the admin update lock.  \<open>uncertain\<close> is not state of the
  program: it is the set of ids of the workers whose weights nobody knows, those an update was
  sent to and that neither completed everywhere nor were verified by an operator since.
\<close>

record wu_world =
  pool :: "worker list"
  disk :: journal_fs
  journal_up :: bool
  voice :: "string option option"
  running :: "running_update option"
  uncertain :: "string set"

subsection \<open>The uploaded-voice owner\<close>

text \<open>The owner as the handlers ask for it, \<open>voice_routing.ensure_owner() if voice_routing is not None\<close>.\<close>

definition registry_owner :: "wu_world \<Rightarrow> nat option \<times> wu_world" where
  "registry_owner s =
     (case voice s of
        None \<Rightarrow> (None, s)
      | Some url \<Rightarrow> (case ensure_owner (pool s) url of (i, url') \<Rightarrow> (i, s\<lparr>voice := Some url'\<rparr>)))"

subsection \<open>Startup\<close>

definition disable_all :: "worker list \<Rightarrow> worker list" where
  "disable_all ws = map (set_disabled True) ws"

text \<open>\<open>recover_worker_pool_from_journal\<close>.\<close>

definition disable_id :: "worker list \<Rightarrow> string \<Rightarrow> worker list" where
  "disable_id ws wid =
     (case find_worker ws wid of None \<Rightarrow> ws | Some i \<Rightarrow> ws[i := set_disabled True (ws ! i)])"

definition recover_worker_pool_from_journal ::
    "bool \<Rightarrow> journal_io \<Rightarrow> journal_fs \<Rightarrow> worker list \<Rightarrow> worker list" where
  "recover_worker_pool_from_journal up io fs ws =
     (case j_pending up io fs of
        Inl _ \<Rightarrow> disable_all ws
      | Inr ids \<Rightarrow> foldl disable_id ws ids)"

text \<open>
  A router process comes up on whatever disk it finds: \<open>create_app\<close> and its lifespan, the
  workers \<open>ws\<close> being those of the configuration or of the restored snapshot.
\<close>

definition router_start ::
    "bool \<Rightarrow> nat \<Rightarrow> journal_io \<Rightarrow> journal_io \<Rightarrow> worker list \<Rightarrow> string option option \<Rightarrow> wu_world \<Rightarrow> wu_world" where
  "router_start explicit d io rd ws v s =
     (case build_journal explicit d io (disk s) of
        (up, fs) \<Rightarrow>
          \<lparr>pool = recover_worker_pool_from_journal up rd fs ws, disk = fs, journal_up = up, voice = v,
           running = None, uncertain = uncertain s\<rparr>)"

subsection \<open>Registering, updating and deleting a worker\<close>

definition worker_id_is_journaled :: "journal_io \<Rightarrow> wu_world \<Rightarrow> string \<Rightarrow> bool" where
  "worker_id_is_journaled io s wid =
     (case j_pending (journal_up s) io (disk s) of Inl _ \<Rightarrow> True | Inr ids \<Rightarrow> wid \<in> set ids)"

text \<open>\<open>create_worker\<close> once it holds the lock; \<open>w\<close> is the probed worker.\<close>

definition create_worker :: "journal_io \<Rightarrow> worker \<Rightarrow> wu_world \<Rightarrow> int \<times> wu_world" where
  "create_worker io w s =
     (if \<exists>v \<in> set (pool s). worker_url v = worker_url w then (409, s)
      else let w' = (if worker_id_is_journaled io s (worker_id w) then set_disabled True w else w)
           in (200, s\<lparr>pool := pool s @ [w']\<rparr>))"

record put_request =
  pr_model :: "string option option"
  pr_capabilities :: "string list option"
  pr_is_dead :: "bool option"
  pr_disabled :: "bool option"
  pr_auth :: "int option"

text \<open>\<open>key\<close> says whether an admin key is configured; \<open>pr_auth\<close> is the status the bearer check
  refuses the request with, \<open>None\<close> when it passes.\<close>

definition discard_needs_admin_auth :: "bool \<Rightarrow> journal_io \<Rightarrow> wu_world \<Rightarrow> string \<Rightarrow> bool" where
  "discard_needs_admin_auth key io s wid = (key \<and> worker_id_is_journaled io s wid)"

definition next_config ::
    "(string \<Rightarrow> string option \<Rightarrow> string list \<Rightarrow> worker_config res) \<Rightarrow> put_request \<Rightarrow> worker \<Rightarrow> worker_config res" where
  "next_config mk_config req w =
     (if pr_capabilities req \<noteq> None \<or> pr_model req \<noteq> None
      then mk_config (worker_url w)
             (case pr_model req of Some m \<Rightarrow> m | None \<Rightarrow> worker_model w)
             (case pr_capabilities req of Some c \<Rightarrow> c | None \<Rightarrow> cfg_capabilities (w_config w))
      else Inr (w_config w))"

text \<open>
  \<open>_apply_worker_update\<close>.  Past the journal (\<open>put_commit\<close>): the voice owner keeps its
  capabilities, then the configuration, the operator's flag and the dead mark.  The second
  answer is the worker to probe again.
\<close>

definition put_flags :: "put_request \<Rightarrow> worker \<Rightarrow> worker" where
  "put_flags req w =
     (let w1 = (case pr_disabled req of None \<Rightarrow> w | Some b \<Rightarrow> set_disabled b w)
      in case pr_is_dead req of
           None \<Rightarrow> w1
         | Some True \<Rightarrow> mark_dead None w1
         | Some False \<Rightarrow> clear_dead w1)"

definition put_commit ::
    "nat \<Rightarrow> worker_config \<Rightarrow> put_request \<Rightarrow> wu_world \<Rightarrow> (int \<times> nat option) \<times> wu_world" where
  "put_commit i cfg req s =
     (case registry_owner s of (owner, s1) \<Rightarrow>
        if owner = Some i \<and> \<not> can_own_uploaded_voices (cfg_capabilities cfg) then ((409, None), s1)
        else case replace_config (pool s1 ! i) cfg of
          Inl _ \<Rightarrow> ((500, None), s1)
        | Inr w \<Rightarrow> ((200, if pr_is_dead req = Some False then Some i else None),
                    s1\<lparr>pool := (pool s1)[i := put_flags req w]\<rparr>))"

definition apply_worker_update ::
    "(string \<Rightarrow> string option \<Rightarrow> string list \<Rightarrow> worker_config res) \<Rightarrow> bool \<Rightarrow> journal_io \<Rightarrow> journal_io \<Rightarrow>
     journal_io \<Rightarrow> string \<Rightarrow> put_request \<Rightarrow> wu_world \<Rightarrow> (int \<times> nat option) \<times> wu_world" where
  "apply_worker_update mk_config key io_auth io_read io_keep wid req s =
     (case find_worker (pool s) wid of
        None \<Rightarrow> ((404, None), s)
      | Some i \<Rightarrow>
          let w = pool s ! i; enable = (pr_disabled req = Some False) in
          if enable \<and> discard_needs_admin_auth key io_auth s (worker_id w) \<and> pr_auth req \<noteq> None
          then ((the (pr_auth req), None), s)
          else case next_config mk_config req w of
            Inl _ \<Rightarrow> ((400, None), s)
          | Inr cfg \<Rightarrow>
              if enable
              then case j_discard (journal_up s) io_read io_keep (worker_id w) (disk s) of
                     (False, fs) \<Rightarrow> ((503, None), s\<lparr>disk := fs\<rparr>)
                   | (True, fs) \<Rightarrow> put_commit i cfg req (s\<lparr>disk := fs\<rparr>)
              else put_commit i cfg req s)"

definition apply_worker_delete :: "string \<Rightarrow> wu_world \<Rightarrow> int \<times> wu_world" where
  "apply_worker_delete wid s =
     (case find_worker (pool s) wid of
        None \<Rightarrow> (404, s)
      | Some i \<Rightarrow>
          (case registry_owner s of (owner, s1) \<Rightarrow>
             if owner = Some i then (409, s1)
             else (200, s1\<lparr>pool := take i (pool s1) @ drop (Suc i) (pool s1)\<rparr>)))"

subsection \<open>The update transaction\<close>

text \<open>The refusals of \<open>_broadcast_admin_request\<close> that depend on the live workers.\<close>

definition target_workers :: "worker list \<Rightarrow> nat list" where
  "target_workers ws = filter (\<lambda>i. \<not> is_dead (ws ! i)) [0 ..< length ws]"

definition target_refusal :: "string \<Rightarrow> worker list \<Rightarrow> int option" where
  "target_refusal path ws =
     (if target_workers ws = [] then Some 503
      else if path = ''/init_weights_update_group'' \<and> length (target_workers ws) > 1 then Some 422
      else None)"

text \<open>\<open>for worker in workers: ...\<close> over the worker objects \<open>ts\<close>.\<close>

definition for_workers :: "(worker \<Rightarrow> worker) \<Rightarrow> nat list \<Rightarrow> worker list \<Rightarrow> worker list" where
  "for_workers f ts ws = foldl (\<lambda>ws i. ws[i := f (ws ! i)]) ws ts"

definition ids_of :: "worker list \<Rightarrow> nat list \<Rightarrow> string list" where
  "ids_of ws ts = map (\<lambda>i. worker_id (ws ! i)) ts"

text \<open>
  Under the lock, up to the ACK barrier: refusals, the journal entry, and the targets disabled.
  The answer is the status of a refused update.
\<close>

definition update_begin ::
    "journal_io \<Rightarrow> journal_io \<Rightarrow> string \<Rightarrow> wu_world \<Rightarrow> int option \<times> wu_world" where
  "update_begin rd io path s =
     (if j_has_pending (journal_up s) rd (disk s) then (Some 409, s)
      else case target_refusal path (pool s) of
        Some st \<Rightarrow> (Some st, s)
      | None \<Rightarrow>
          let ts = target_workers (pool s);
              prev = map (\<lambda>i. (worker_id (pool s ! i), disabled (pool s ! i))) ts
          in case j_begin (journal_up s) io path (ids_of (pool s) ts) (disk s) of
               (Inl _, fs) \<Rightarrow> (Some 503, s\<lparr>disk := fs\<rparr>)
             | (Inr _, fs) \<Rightarrow>
                 (None, s\<lparr>disk := fs, pool := for_workers (set_disabled True) ts (pool s),
                          running := Some \<lparr>ru_path = path, ru_targets = ts, ru_previous = prev,
                                           ru_sent = False\<rparr>\<rparr>))"

text \<open>The barrier has passed: the request goes out, and from here on the weights are uncertain.\<close>

definition update_send :: "running_update \<Rightarrow> wu_world \<Rightarrow> wu_world" where
  "update_send u s =
     s\<lparr>running := Some (u\<lparr>ru_sent := True\<rparr>),
       uncertain := uncertain s \<union> set (ids_of (pool s) (ru_targets u))\<rparr>"

text \<open>
  \<open>results\<close> as the source has it: \<open>None\<close> when the handler was cancelled or an exception passed,
  \<open>[]\<close> when the barrier refused, else the success of every target.
\<close>

definition outcome_safe :: "bool list option \<Rightarrow> bool" where
  "outcome_safe results = (case results of None \<Rightarrow> False | Some rs \<Rightarrow> list_all (\<lambda>b. b) rs)"

definition restore_admin_disabled_state ::
    "running_update \<Rightarrow> bool \<Rightarrow> worker list \<Rightarrow> worker list" where
  "restore_admin_disabled_state u safe ws =
     (if \<not> safe then for_workers (set_disabled True) (ru_targets u) ws
      else for_workers (\<lambda>w. case dict_get (ru_previous u) (worker_id w) of
                              None \<Rightarrow> w | Some b \<Rightarrow> set_disabled b w) (ru_targets u) ws)"

text \<open>The \<open>finally\<close> block; the answer says whether the journal could be resolved.\<close>

definition update_finish ::
    "journal_io \<Rightarrow> bool list option \<Rightarrow> running_update \<Rightarrow> wu_world \<Rightarrow> bool \<times> wu_world" where
  "update_finish io results u s =
     (let safe = outcome_safe results;
          ids = ids_of (pool s) (ru_targets u);
          ws = restore_admin_disabled_state u safe (pool s)
      in case (if safe then j_clear (journal_up s) io (disk s)
               else j_keep (journal_up s) io ids (disk s)) of
           (r, fs) \<Rightarrow>
             (\<not> isl r,
              s\<lparr>pool := ws, disk := fs, running := None,
                uncertain := (if safe then uncertain s - set ids else uncertain s)\<rparr>))"

text \<open>\<open>resolve_weight_update_journal\<close>, the status and the ids it reports as resolved.\<close>

definition resolve_weight_update_journal ::
    "bool \<Rightarrow> journal_io \<Rightarrow> journal_io \<Rightarrow> wu_world \<Rightarrow> (int \<times> string list) \<times> wu_world" where
  "resolve_weight_update_journal acknowledge rd io s =
     (if \<not> acknowledge then ((422, []), s)
      else let ids = (case j_pending (journal_up s) rd (disk s) of Inl _ \<Rightarrow> [] | Inr ids \<Rightarrow> ids)
           in case j_clear (journal_up s) io (disk s) of
                (Inl _, fs) \<Rightarrow> ((503, []), s\<lparr>disk := fs\<rparr>)
              | (Inr _, fs) \<Rightarrow> ((200, ids), s\<lparr>disk := fs\<rparr>))"

subsection \<open>The system\<close>

text \<open>
  What the operator's action says about the weights: enabling a worker past the bearer check, or
  with no key to check, asserts that its weights were verified; so does acknowledging the
  resolution of the journal, for every worker.
\<close>

definition put_verifies :: "bool \<Rightarrow> journal_io \<Rightarrow> string \<Rightarrow> put_request \<Rightarrow> wu_world \<Rightarrow> string set" where
  "put_verifies key io wid req s =
     (case find_worker (pool s) wid of
        None \<Rightarrow> {}
      | Some i \<Rightarrow>
          if pr_disabled req = Some False
             \<and> (\<not> key \<or> discard_needs_admin_auth key io s (worker_id (pool s ! i)) \<and> pr_auth req = None)
          then {worker_id (pool s ! i)} else {})"

text \<open>
  The steps.  \<open>op_ok\<close> restricts the fault plans of the journal operations and \<open>start_ok\<close> those of
  a process start; reads may fail at any time.  A registry request is answered 409 while an update
  runs, so its steps need \<open>running s = None\<close>.  In \<open>background\<close> probes, requests, failure reports
  and dead marks change what they like of the workers but their configuration and \<open>disabled\<close>.
  A process start may come at any time, a crash of the host before it, and the journal file may
  be damaged.
\<close>

inductive wu_step ::
    "(journal_io \<Rightarrow> bool) \<Rightarrow> (journal_io \<Rightarrow> bool) \<Rightarrow>
     (string \<Rightarrow> string option \<Rightarrow> string list \<Rightarrow> worker_config res) \<Rightarrow> bool \<Rightarrow> wu_world \<Rightarrow> wu_world \<Rightarrow> bool"
  for op_ok start_ok mk_config key
where
  create: "running s = None \<Longrightarrow> create_worker rd w s = (st, s')
    \<Longrightarrow> wu_step op_ok start_ok mk_config key s s'"
| put: "running s = None \<Longrightarrow> op_ok io
    \<Longrightarrow> apply_worker_update mk_config key rd rd' io wid req s = (ans, s')
    \<Longrightarrow> wu_step op_ok start_ok mk_config key s
          (s'\<lparr>uncertain := uncertain s' - put_verifies key rd wid req s\<rparr>)"
| delete: "running s = None \<Longrightarrow> apply_worker_delete wid s = (st, s')
    \<Longrightarrow> wu_step op_ok start_ok mk_config key s s'"
| resolve: "running s = None \<Longrightarrow> op_ok io \<Longrightarrow> resolve_weight_update_journal ack rd io s = (ans, s')
    \<Longrightarrow> wu_step op_ok start_ok mk_config key s
          (s'\<lparr>uncertain := (if ack then {} else uncertain s')\<rparr>)"
| begin_update: "running s = None \<Longrightarrow> op_ok io \<Longrightarrow> update_begin rd io path s = (ans, s')
    \<Longrightarrow> wu_step op_ok start_ok mk_config key s s'"
| send: "running s = Some u \<Longrightarrow> \<not> ru_sent u
    \<Longrightarrow> wu_step op_ok start_ok mk_config key s (update_send u s)"
| finish: "running s = Some u \<Longrightarrow> op_ok io
    \<Longrightarrow> case results of None \<Rightarrow> True | Some [] \<Rightarrow> \<not> ru_sent u
       | Some rs \<Rightarrow> ru_sent u \<and> length rs = length (ru_targets u)
    \<Longrightarrow> update_finish io results u s = (ans, s')
    \<Longrightarrow> wu_step op_ok start_ok mk_config key s s'"
| background: "list_all2 (\<lambda>w w'. w_config w' = w_config w \<and> disabled w' = disabled w) (pool s) ws
    \<Longrightarrow> wu_step op_ok start_ok mk_config key s (s\<lparr>pool := ws\<rparr>)"
| restart: "start_ok io \<Longrightarrow> d \<le> jf_depth (disk s) \<Longrightarrow> distinct (map worker_url ws)
    \<Longrightarrow> wu_step op_ok start_ok mk_config key s (router_start explicit d io rd ws v s)"
| host_reboot: "fs \<in> host_crash (disk s) \<Longrightarrow> start_ok io \<Longrightarrow> d \<le> jf_depth fs
    \<Longrightarrow> distinct (map worker_url ws)
    \<Longrightarrow> wu_step op_ok start_ok mk_config key s (router_start explicit d io rd ws v (s\<lparr>disk := fs\<rparr>))"
| damage: "jf_entry (disk s) \<noteq> None
    \<Longrightarrow> wu_step op_ok start_ok mk_config key s
          (s\<lparr>disk := (disk s)\<lparr>jf_entry := Some Garbage, jf_surviving := {Some Garbage}\<rparr>\<rparr>)"

text \<open>
  Where runs begin: no worker has uncertain weights, no update runs, and the disk and the
  registry are well formed.
\<close>

definition wu_init :: "wu_world \<Rightarrow> bool" where
  "wu_init s \<longleftrightarrow> uncertain s = {} \<and> running s = None \<and> journal_up s
     \<and> distinct (map worker_url (pool s))
     \<and> jf_entry (disk s) \<in> jf_surviving (disk s) \<and> False \<notin> set (jf_dirs (disk s))
     \<and> length (jf_dirs (disk s)) \<le> jf_depth (disk s)
     \<and> (length (jf_dirs (disk s)) < jf_depth (disk s) \<longrightarrow> jf_surviving (disk s) = {None})"

end
