(* ===== verification/Update_Journal_Props.thy ===== *)
theory Update_Journal_Props
  imports Update_Journal
begin

section \<open>What the journal promises\<close>

text \<open>
  The contract the weight update relies on is the locale \<open>blocking_record\<close>: while the journal
  answers for a set of workers, whatever read succeeds lists them all, and no crash of the host
  changes that.  The journal is an interpretation as long as the system calls on the directory
  path itself do not fail (\<open>path_ok\<close>); reads, writes, renames, unlinks and syncs of the
  directory may.  \<open>first_write_loses_journal\<close> shows the condition is needed.
\<close>

subsection \<open>The interface\<close>

locale blocking_record =
  fixes answers_for :: "'w set \<Rightarrow> 'j \<Rightarrow> bool"
    and pending :: "'io \<Rightarrow> 'j \<Rightarrow> 'e + 'w list"
    and crash :: "'j \<Rightarrow> 'j set"
  assumes read_lists: "answers_for U j \<Longrightarrow> pending io j = Inr ws \<Longrightarrow> U \<subseteq> set ws"
    and crash_keeps: "answers_for U j \<Longrightarrow> j' \<in> crash j \<Longrightarrow> answers_for U j'"
begin

lemma unlisted:
  assumes "answers_for U j" "pending io j = Inr ws" "w \<notin> set ws"
  shows "w \<notin> U"
  using read_lists [OF assms(1,2)] assms(3) by blast

lemma nothing_listed:
  assumes "answers_for U j" "pending io j = Inr []"
  shows "U = {}"
  using read_lists [OF assms] by simp

end

subsection \<open>The invariant of the disk\<close>

definition path_ok :: "journal_io \<Rightarrow> bool" where
  "path_ok io \<longleftrightarrow> mkdir_fault io = None \<and> parent_fault io = None"

definition disk_wf :: "journal_fs \<Rightarrow> bool" where
  "disk_wf fs \<longleftrightarrow> jf_entry fs \<in> jf_surviving fs \<and> length (jf_dirs fs) \<le> jf_depth fs
     \<and> (length (jf_dirs fs) < jf_depth fs \<longrightarrow> jf_surviving fs = {None})"

fun content_covers :: "string set \<Rightarrow> journal_content option \<Rightarrow> bool" where
  "content_covers U None = (U = {})"
| "content_covers U (Some Garbage) = True"
| "content_covers U (Some (Document p None)) = True"
| "content_covers U (Some (Document p (Some ids))) = (U \<subseteq> set ids)"

definition answers_for :: "string set \<Rightarrow> journal_fs \<Rightarrow> bool" where
  "answers_for U fs \<longleftrightarrow> disk_wf fs \<and> False \<notin> set (jf_dirs fs)
     \<and> (\<forall>c \<in> jf_surviving fs. content_covers U c)"

lemma content_covers_mono: "content_covers U c \<Longrightarrow> V \<subseteq> U \<Longrightarrow> content_covers V c"
  by (induction U c rule: content_covers.induct) auto

lemma content_covers_empty [simp]: "content_covers {} c"
  by (induction "{} :: string set" c rule: content_covers.induct) auto

lemma answers_for_mono: "answers_for U fs \<Longrightarrow> V \<subseteq> U \<Longrightarrow> answers_for V fs"
  unfolding answers_for_def using content_covers_mono by blast

lemma journal_pending_Inr:
  "journal_pending io fs = Inr ids \<longleftrightarrow> read_ok io
     \<and> (jf_entry fs = None \<and> ids = [] \<or> (\<exists>p. jf_entry fs = Some (Document p (Some ids))))"
proof (cases "jf_entry fs")
  case (Some c)
  then show ?thesis
    by (cases c; cases "doc_ids c") (auto simp: journal_pending_def read_document_def)
qed (auto simp: journal_pending_def read_document_def)

lemma host_crash_durable:
  assumes "False \<notin> set (jf_dirs fs)"
  shows "host_crash fs = (\<lambda>e. fs\<lparr>jf_entry := e, jf_surviving := {e}\<rparr>) ` jf_surviving fs"
proof -
  have none: "{k. k < length (jf_dirs fs) \<and> \<not> jf_dirs fs ! k} = {}"
  proof -
    have "jf_dirs fs ! k" if "k < length (jf_dirs fs)" for k
      proof (rule ccontr)
      assume "\<not> jf_dirs fs ! k"
      with nth_mem [OF that] assms show False by simp
    qed
    then show ?thesis by blast
  qed
  have "map (\<lambda>_. True) (jf_dirs fs) = jf_dirs fs"
  proof (rule map_idI)
    show "True = b" if "b \<in> set (jf_dirs fs)" for b using assms that by (cases b) simp_all
  qed
  then show ?thesis by (simp add: host_crash_def none)
qed

interpretation journal: blocking_record answers_for journal_pending host_crash
proof
  fix U fs io ids
  assume a: "answers_for U fs" and r: "journal_pending io fs = Inr ids"
  from a have "content_covers U (jf_entry fs)" by (simp add: answers_for_def disk_wf_def)
  then show "U \<subseteq> set ids" using r by (auto simp: journal_pending_Inr)
next
  fix U fs fs'
  assume "answers_for U fs" "fs' \<in> host_crash fs"
  then show "answers_for U fs'"
    by (auto simp: host_crash_durable answers_for_def disk_wf_def)
qed

subsection \<open>Every operation keeps it\<close>

lemma sync_parents_None:
  "sync_parents None is fs = (Inr (), fs\<lparr>jf_dirs := foldl (\<lambda>ds i. ds[i := True]) (jf_dirs fs) is\<rparr>)"
  by (induction "is" arbitrary: fs) simp_all

lemma foldl_mark:
  "n + k \<le> length ds \<Longrightarrow> foldl (\<lambda>ds i. ds[i := True]) ds [n ..< n + k]
     = take n ds @ replicate k True @ drop (n + k) ds"
proof (induction k)
  case (Suc k)
  then have "drop (n + k) ds = ds ! (n + k) # drop (Suc (n + k)) ds"
    by (simp add: Cons_nth_drop_Suc)
  with Suc show ?case by (simp add: list_update_append flip: append_assoc replicate_append_same)
qed simp

lemma prepare_dir_ok:
  assumes "path_ok io" "False \<notin> set (jf_dirs fs)"
  shows "prepare_dir d io fs
    = (Inr (), fs\<lparr>jf_dirs := replicate (max d (length (jf_dirs fs))) True\<rparr>)"
proof -
  let ?n = "length (jf_dirs fs)"
  have all: "jf_dirs fs = replicate ?n True"
    using assms(2) by (metis replicate_eqI)
  show ?thesis
  proof (cases "d \<le> ?n")
    case True
    with assms all show ?thesis
      by (cases fs) (simp add: prepare_dir_def make_private_dir_def dir_exists_def path_ok_def
          max_absorb2 flip: all)
  next
    case False
    then have d: "d = ?n + (d - ?n)" by simp
    have "foldl (\<lambda>ds i. ds[i := True]) (jf_dirs fs @ replicate (d - ?n) False) [?n ..< ?n + (d - ?n)]
        = jf_dirs fs @ replicate (d - ?n) True"
      by (subst foldl_mark) simp_all
    also have "\<dots> = replicate d True"
      using all False by (metis d replicate_add)
    finally show ?thesis using assms False d
      by (simp add: prepare_dir_def make_private_dir_def dir_exists_def path_ok_def Let_def
          sync_parents_None max_absorb1)
  qed
qed

lemma fsync_dir_keeps:
  assumes "answers_for U fs" "fsync_dir io fs = (r, fs')"
  shows "answers_for U fs'" "r = Inr () \<Longrightarrow> jf_surviving fs' = {jf_entry fs}"
    "jf_entry fs' = jf_entry fs" "jf_dirs fs' = jf_dirs fs" "jf_depth fs' = jf_depth fs"
  using assms by (auto simp: fsync_dir_def answers_for_def disk_wf_def split: if_splits)

lemma prepare_dir_keeps:
  assumes "answers_for U fs" "path_ok io" "d \<le> jf_depth fs"
  shows "\<exists>fs'. prepare_dir d io fs = (Inr (), fs') \<and> answers_for U fs'
    \<and> jf_entry fs' = jf_entry fs \<and> jf_depth fs' = jf_depth fs \<and> d \<le> length (jf_dirs fs')"
  using assms by (auto simp: prepare_dir_ok answers_for_def disk_wf_def)

lemma journal_write_keeps:
  assumes a: "answers_for U fs" and io: "path_ok io" and new: "content_covers U (Some data)"
    and w: "journal_write io data fs = (r, fs')"
  shows "answers_for U fs' \<and> (r = Inr () \<longrightarrow> jf_surviving fs' = {Some data} \<and> jf_entry fs' = Some data)"
proof -
  from a have "jf_depth fs \<le> jf_depth fs" by simp
  from prepare_dir_keeps [OF a io this] obtain fs1 where
    p: "prepare_dir (jf_depth fs) io fs = (Inr (), fs1)" and a1: "answers_for U fs1"
    and d: "jf_depth fs1 = jf_depth fs" "jf_depth fs \<le> length (jf_dirs fs1)" by blast
  let ?fs2 = "fs1\<lparr>jf_entry := Some data, jf_surviving := insert (Some data) (jf_surviving fs1)\<rparr>"
  show ?thesis
  proof (cases "write_ok io \<and> replace_ok io")
    case True
    have "answers_for U ?fs2" using a1 new d by (auto simp: answers_for_def disk_wf_def)
    moreover have "fsync_dir io ?fs2 = (r, fs')" using w p True by (simp add: journal_write_def)
    ultimately show ?thesis using fsync_dir_keeps [of U ?fs2 io r fs'] by auto
  next
    case False
    then show ?thesis using w p a1 by (auto simp: journal_write_def split: if_splits)
  qed
qed

lemma journal_clear_keeps:
  assumes "answers_for {} fs" "journal_clear io fs = (r, fs')"
  shows "answers_for {} fs'"
proof -
  have "answers_for {} (fs\<lparr>jf_entry := None, jf_surviving := insert None (jf_surviving fs)\<rparr>)"
    using assms(1) by (auto simp: answers_for_def disk_wf_def)
  then show ?thesis
    using assms fsync_dir_keeps(1) by (auto simp: journal_clear_def split: if_splits)
qed

lemma journal_begin_keeps:
  assumes "answers_for {} fs" "path_ok io" "journal_begin io path ids fs = (r, fs')"
  shows "answers_for {} fs' \<and> (r = Inr () \<longrightarrow> answers_for (set ids) fs')"
proof -
  have *: "answers_for {} fs' \<and> (r = Inr () \<longrightarrow>
      jf_surviving fs' = {Some (Document (Some path) (Some (sort ids)))})"
    using journal_write_keeps [of "{}" fs io] assms by (auto simp: journal_begin_def)
  then show ?thesis by (auto simp: answers_for_def)
qed

lemma journal_keep_keeps:
  assumes a: "answers_for U fs" and io: "path_ok io" and sub: "U \<subseteq> set ids"
    and k: "journal_keep io ids fs = (r, fs')"
  shows "answers_for U fs'"
proof (cases "ids = []")
  case True
  then show ?thesis using a sub k journal_clear_keeps by (auto simp: journal_keep_def)
next
  case False
  then obtain p where "journal_write io (Document p (Some (sort ids))) fs = (r, fs')"
    using k by (auto simp: journal_keep_def Let_def)
  moreover have "content_covers U (Some (Document p (Some (sort ids))))" using sub by simp
  ultimately show ?thesis using journal_write_keeps [OF a io] by blast
qed

lemma journal_discard_keeps:
  assumes a: "answers_for U fs" and io: "path_ok io"
    and d: "journal_discard rd io wid fs = (b, fs')"
  shows "answers_for (U - {wid}) fs'"
proof -
  have a': "answers_for (U - {wid}) fs" using answers_for_mono [OF a] by blast
  show ?thesis
  proof (cases "journal_pending rd fs")
    case (Inr ids)
    have "U - {wid} \<subseteq> set (filter (\<lambda>i. i \<noteq> wid) ids)"
      using journal.read_lists [OF a Inr] by auto
    from journal_keep_keeps [OF a' io this] show ?thesis
      using d Inr by (auto simp: journal_discard_def split: prod.splits sum.splits)
  qed (use a' d in \<open>auto simp: journal_discard_def\<close>)
qed

lemma build_journal_keeps:
  assumes "answers_for U fs" "path_ok io" "d \<le> jf_depth fs" "build_journal e d io fs = (up, fs')"
  shows "answers_for U fs' \<and> (write_ok io \<and> unlink_ok io \<longrightarrow> up) \<and> jf_depth fs' = jf_depth fs"
  using prepare_dir_keeps [OF assms(1-3)] assms(1,4)
  by (auto simp: build_journal_def ensure_state_dir_def split: if_splits)

subsection \<open>The record outlives every crash\<close>

lemma crash_of_settled:
  assumes "False \<notin> set (jf_dirs fs)" "jf_surviving fs = {jf_entry fs}" "fs' \<in> host_crash fs"
  shows "fs' = fs"
  using assms by (auto simp: host_crash_durable)

text \<open>
  C30: What a successful \<open>begin\<close> recorded is what every later read gives back,
  sorted, whatever crashes of the host come between: on a disk whose directories are durable,
  and when the calls on the directory path do not fail.
\<close>
theorem journal_roundtrip:
  assumes disk: "disk_wf fs" "False \<notin> set (jf_dirs fs)" and io: "path_ok io"
    and b: "journal_begin io path ids fs = (Inr (), fs')"
    and crashes: "(\<lambda>j j'. j' \<in> host_crash j)\<^sup>*\<^sup>* fs' fs''" and rd: "read_ok rd"
  shows "journal_pending rd fs'' = Inr (sort ids)"
proof -
  have "answers_for {} fs" using disk by (simp add: answers_for_def)
  then have *: "answers_for {} fs'" "jf_surviving fs' = {jf_entry fs'}"
      "jf_entry fs' = Some (Document (Some path) (Some (sort ids)))"
    using journal_write_keeps [of "{}" fs io] io b by (auto simp: journal_begin_def)
  from crashes have "fs'' = fs'"
    by (induction rule: rtranclp_induct) (use *(1,2) crash_of_settled in \<open>auto simp: answers_for_def\<close>)
  then show ?thesis using *(3) rd by (auto simp: journal_pending_Inr)
qed

definition fresh_disk :: journal_fs where
  "fresh_disk = \<lparr>jf_entry = None, jf_surviving = {None}, jf_depth = 2, jf_dirs = [True]\<rparr>"

definition no_fault :: journal_io where
  "no_fault = \<lparr>read_ok = True, mkdir_fault = None, parent_fault = None, write_ok = True,
     replace_ok = True, unlink_ok = True, dir_sync_ok = True\<rparr>"

lemma no_fault_path_ok [simp]: "path_ok no_fault"
  by (simp add: path_ok_def no_fault_def)

lemmas journal_eval = journal_begin_def journal_write_def prepare_dir_def make_private_dir_def
  dir_exists_def fsync_dir_def no_fault_def fresh_disk_def upt_rec numeral_2_eq_2

lemma sort_two: "sort [''b'', ''a''] = [''a'', ''b'']"
  by code_simp

theorem journal_roundtrip_witness:
  "journal_pending no_fault (snd (journal_begin no_fault ''/update'' [''b'', ''a''] fresh_disk))
     = Inr [''a'', ''b'']"
proof -
  let ?r = "journal_begin no_fault ''/update'' [''b'', ''a''] fresh_disk"
  have r: "?r = (Inr (), snd ?r)" by (simp add: journal_eval)
  have d: "disk_wf fresh_disk" "False \<notin> set (jf_dirs fresh_disk)"
    by (simp_all add: disk_wf_def fresh_disk_def)
  have rd: "read_ok no_fault" by (simp add: no_fault_def)
  from journal_roundtrip [OF d no_fault_path_ok r rtranclp.rtrancl_refl rd] show ?thesis
    by (simp only: sort_two)
qed

text \<open>
  The retry after a failed first write: the directory is there, so \<open>_make_private_dir\<close> reports
  nothing created and nothing syncs the parent.  The second \<open>begin\<close> succeeds, and a crash of the
  host may still leave no journal at all.
\<close>
lemma first_write_loses_journal:
  fixes io defines "io \<equiv> no_fault\<lparr>parent_fault := Some 0\<rparr>"
  shows "\<exists>fs1 fs2. journal_begin io ''/update'' [''a''] fresh_disk = (Inl JournalUnwritableError, fs1)
     \<and> journal_begin no_fault ''/update'' [''a''] fs1 = (Inr (), fs2)
     \<and> (\<exists>fs3 \<in> host_crash fs2. journal_pending no_fault fs3 = Inr [])"
proof (intro exI conjI)
  let ?fs1 = "fresh_disk\<lparr>jf_dirs := [True, False]\<rparr>"
  let ?c = "Some (Document (Some ''/update'') (Some [''a'']))"
  let ?fs2 = "?fs1\<lparr>jf_entry := ?c, jf_surviving := {?c}\<rparr>"
  show "journal_begin io ''/update'' [''a''] fresh_disk = (Inl JournalUnwritableError, ?fs1)"
    by (simp add: journal_eval io_def)
  show "journal_begin no_fault ''/update'' [''a''] ?fs1 = (Inr (), ?fs2)"
    by (simp add: journal_eval)
  have "?fs2\<lparr>jf_entry := None, jf_surviving := {None}, jf_dirs := replicate 1 True\<rparr> \<in> host_crash ?fs2"
    unfolding host_crash_def by (intro UnI1 imageI) (simp add: fresh_disk_def)
  then show "\<exists>fs3 \<in> host_crash ?fs2. journal_pending no_fault fs3 = Inr []"
    by (rule bexI [rotated]) (simp add: journal_pending_Inr no_fault_def)
qed

end
