(* ===== verification/Weight_Update_Props.thy ===== *)
theory Weight_Update_Props
  imports Weight_Update Update_Journal_Props Router_Channel_Props
begin

section \<open>No worker with uncertain weights is routed to\<close>

text \<open>
  The invariant of the weight-update system: the journal answers for every worker with
  uncertain weights, each of which is disabled wherever it is registered; while an update runs its
  targets are disabled and journaled.  It holds across crashes of the process and of the host as
  long as the calls on the path of the journal's directory do not fail; the last lemmas are the
  runs without that condition, and two more observations on the handlers.
\<close>

subsection \<open>Workers by their URL\<close>

lemma worker_fields [simp]:
  "worker_url (set_disabled b w) = worker_url w" "worker_id (set_disabled b w) = worker_id w"
  "w_config (set_disabled b w) = w_config w" "disabled (set_disabled b w) = b"
  "worker_url (mark_dead e w) = worker_url w" "disabled (mark_dead e w) = disabled w"
  "worker_url (clear_dead w) = worker_url w" "disabled (clear_dead w) = disabled w"
  by (simp_all add: set_disabled_def mark_dead_def clear_dead_def worker_url_def worker_id_def Let_def)

lemma worker_id_eq: "worker_id v = worker_id w \<longleftrightarrow> worker_url v = worker_url w"
  by (simp add: worker_id_def worker_id_injective)

lemma find_worker_hit:
  assumes "find_worker ws wid = Some i"
  shows "i < length ws"
  using assms by (induction ws arbitrary: i) (auto split: if_splits)

lemma find_worker_unique:
  assumes "distinct (map worker_url ws)" "w \<in> set ws"
  shows "\<exists>i < length ws. find_worker ws (worker_id w) = Some i \<and> ws ! i = w"
proof -
  from worker_lookup [OF assms(2)] obtain i where
    i: "i < length ws" "find_worker ws (worker_id w) = Some i" "worker_url (ws ! i) = worker_url w"
    by blast
  from assms(2) obtain j where j: "j < length ws" "ws ! j = w" by (auto simp: in_set_conv_nth)
  with i assms(1) have "i = j" by (auto simp: distinct_conv_nth)
  with i j show ?thesis by blast
qed

lemma same_id_same_index:
  assumes "distinct (map worker_url ws)" "i < length ws" "j < length ws"
    "worker_id (ws ! i) = worker_id (ws ! j)"
  shows "i = j"
  using assms by (auto simp: distinct_conv_nth worker_id_eq)

text \<open>Workers of \<open>U\<close> that are registered are disabled.\<close>

definition held :: "string set \<Rightarrow> worker list \<Rightarrow> bool" where
  "held U ws \<longleftrightarrow> (\<forall>w \<in> set ws. worker_id w \<in> U \<longrightarrow> disabled w)"

lemma held_mono: "held U ws \<Longrightarrow> V \<subseteq> U \<Longrightarrow> held V ws"
  by (auto simp: held_def)

lemma held_empty [simp]: "held {} ws"
  by (simp add: held_def)

lemma held_update:
  assumes "held U ws" "worker_id w \<in> U \<longrightarrow> disabled w"
  shows "held U (ws[i := w])"
  using assms set_update_subset_insert [of ws i w] by (auto simp: held_def)

lemma held_by_index:
  assumes d: "distinct (map worker_url ws)" and ts: "\<forall>i \<in> set ts. i < length ws \<and> disabled (ws ! i)"
  shows "held (set (ids_of ws ts)) ws"
  unfolding held_def
proof (intro ballI impI)
  fix w assume "w \<in> set ws" "worker_id w \<in> set (ids_of ws ts)"
  then obtain j i where "j < length ws" "w = ws ! j" "i \<in> set ts" "worker_id w = worker_id (ws ! i)"
    by (auto simp: ids_of_def in_set_conv_nth)
  with same_id_same_index [OF d, of j i] ts show "disabled w" by auto
qed

subsection \<open>Loops over the targets\<close>

lemma for_workers_length [simp]: "length (for_workers f ts ws) = length ws"
  by (induction ts arbitrary: ws) (simp_all add: for_workers_def)

lemma for_workers_map:
  assumes "\<And>w. g (f w) = g w"
  shows "map g (for_workers f ts ws) = map g ws"
proof (induction ts arbitrary: ws)
  case (Cons i ts)
  have "map g (ws[i := f (ws ! i)]) = map g ws"
    by (metis assms list_update_beyond list_update_id map_update not_le nth_map)
  then show ?case using Cons [of "ws[i := f (ws ! i)]"] by (simp add: for_workers_def)
qed (simp add: for_workers_def)

lemma for_workers_nth:
  assumes "distinct ts" "i < length ws"
  shows "for_workers f ts ws ! i = (if i \<in> set ts then f (ws ! i) else ws ! i)"
  using assms
proof (induction ts arbitrary: ws)
  case (Cons t ts)
  then have "i \<in> set ts \<Longrightarrow> t \<noteq> i" by auto
  with Cons show ?case using Cons.IH [of "ws[t := f (ws ! t)]"]
    by (cases "t = i") (simp_all add: for_workers_def)
qed (simp add: for_workers_def)

lemma ids_of_cong:
  assumes "map worker_url ws = map worker_url vs" "\<forall>i \<in> set ts. i < length vs"
  shows "ids_of ws ts = ids_of vs ts"
proof -
  have len: "length ws = length vs" using assms(1) by (metis length_map)
  have "worker_url (ws ! i) = worker_url (vs ! i)" if "i \<in> set ts" for i
    using that assms len by (metis nth_map)
  then show ?thesis by (simp add: ids_of_def worker_id_def)
qed

lemma target_workers_facts:
  "distinct (target_workers ws)" "i \<in> set (target_workers ws) \<Longrightarrow> i < length ws"
  by (auto simp: target_workers_def)

subsection \<open>Recovery\<close>

lemma disable_id_url: "map worker_url (disable_id ws wid) = map worker_url ws"
  by (auto simp: disable_id_def map_update split: option.splits)
    (metis list_update_id map_update worker_fields(1))

lemma disable_ids_url: "map worker_url (foldl disable_id ws ids) = map worker_url ws"
  by (induction ids arbitrary: ws) (simp_all add: disable_id_url)

lemma disable_id_held: "held U ws \<Longrightarrow> held U (disable_id ws wid)"
  by (auto simp: disable_id_def intro: held_update split: option.splits)

lemma disable_id_holds:
  assumes d: "distinct (map worker_url ws)"
  shows "held {wid} (disable_id ws wid)"
  unfolding held_def
proof (intro ballI impI)
  fix v assume v: "v \<in> set (disable_id ws wid)" "worker_id v \<in> {wid}"
  have d': "distinct (map worker_url (disable_id ws wid))" using d by (simp add: disable_id_url)
  obtain j where j: "j < length ws" "disable_id ws wid ! j = v"
    using v(1) disable_id_url [of ws wid] by (metis in_set_conv_nth length_map)
  have "worker_id (ws ! j) = wid"
    using j v(2) disable_id_url [of ws wid] unfolding worker_id_def
    by (metis (no_types, lifting) length_map nth_map singletonD worker_id_def)
  then obtain i where i: "i < length ws" "find_worker ws wid = Some i" "ws ! i = ws ! j"
    using find_worker_unique [OF d, of "ws ! j"] j(1) by auto
  then have "i = j" using same_id_same_index [OF d i(1) j(1)] by simp
  then show "disabled v" using i j by (auto simp: disable_id_def)
qed

lemma recovered_url:
  "map worker_url (recover_worker_pool_from_journal up io fs ws) = map worker_url ws"
  by (auto simp: recover_worker_pool_from_journal_def disable_all_def disable_ids_url split: sum.splits)

lemma disable_ids_hold:
  assumes "distinct (map worker_url ws)"
  shows "held (set ids) (foldl disable_id ws ids)"
  using assms
proof (induction ids rule: rev_induct)
  case (snoc i ids)
  have d: "distinct (map worker_url (foldl disable_id ws ids))"
    using snoc.prems by (simp add: disable_ids_url)
  have "held (set ids) (disable_id (foldl disable_id ws ids) i)"
    using snoc by (intro disable_id_held) simp
  with disable_id_holds [OF d, of i] show ?case by (auto simp: held_def)
qed (simp add: held_def)

lemma recovery_holds:
  assumes d: "distinct (map worker_url ws)" and a: "answers_for U fs"
  shows "held U (recover_worker_pool_from_journal True io fs ws)"
proof (cases "journal_pending io fs")
  case (Inr ids)
  from journal.read_lists [OF a Inr] disable_ids_hold [OF d, of ids] show ?thesis
    by (auto simp: recover_worker_pool_from_journal_def j_pending_def Inr intro: held_mono)
next
  case (Inl e)
  then show ?thesis
    by (auto simp: recover_worker_pool_from_journal_def j_pending_def disable_all_def held_def)
qed
subsection \<open>The invariant\<close>

definition update_inv :: "wu_world \<Rightarrow> bool" where
  "update_inv s \<longleftrightarrow>
     (case running s of
        None \<Rightarrow> True
      | Some u \<Rightarrow>
          (\<forall>i \<in> set (ru_targets u). i < length (pool s) \<and> disabled (pool s ! i))
          \<and> answers_for (set (ids_of (pool s) (ru_targets u))) (disk s)
          \<and> distinct (ru_targets u)
          \<and> uncertain s \<subseteq> (if ru_sent u then set (ids_of (pool s) (ru_targets u)) else {}))"

definition wu_inv :: "wu_world \<Rightarrow> bool" where
  "wu_inv s \<longleftrightarrow> distinct (map worker_url (pool s)) \<and> journal_up s
     \<and> answers_for (uncertain s) (disk s) \<and> held (uncertain s) (pool s) \<and> update_inv s"

lemma wu_inv_idle:
  assumes "running s = None"
  shows "wu_inv s \<longleftrightarrow> distinct (map worker_url (pool s)) \<and> journal_up s
     \<and> answers_for (uncertain s) (disk s) \<and> held (uncertain s) (pool s)"
  using assms by (simp add: wu_inv_def update_inv_def)

lemma wu_inv_init: "wu_init s \<Longrightarrow> wu_inv s"
  by (auto simp: wu_init_def wu_inv_def update_inv_def answers_for_def disk_wf_def)

lemma registry_owner_frame:
  "pool (snd (registry_owner s)) = pool s" "disk (snd (registry_owner s)) = disk s"
  "journal_up (snd (registry_owner s)) = journal_up s" "running (snd (registry_owner s)) = running s"
  "uncertain (snd (registry_owner s)) = uncertain s"
  by (simp_all add: registry_owner_def split: option.splits prod.splits)

lemma not_journaled:
  assumes "wu_inv s" "\<not> worker_id_is_journaled io s wid"
  shows "wid \<notin> uncertain s"
  using assms journal.unlisted [of "uncertain s" "disk s" io]
  by (auto simp: wu_inv_def worker_id_is_journaled_def j_pending_def split: sum.splits)

lemma create_inv:
  assumes inv: "wu_inv s" and idle: "running s = None" and c: "create_worker io w s = (st, s')"
  shows "wu_inv s'"
proof (cases "\<exists>v \<in> set (pool s). worker_url v = worker_url w")
  case True
  then show ?thesis using c inv by (simp add: create_worker_def)
next
  case False
  define w' where "w' = (if worker_id_is_journaled io s (worker_id w) then set_disabled True w else w)"
  have s': "s' = s\<lparr>pool := pool s @ [w']\<rparr>" using c False by (simp add: create_worker_def w'_def)
  have "worker_url w' \<notin> worker_url ` set (pool s)" using False by (auto simp: w'_def)
  moreover have "worker_id w' \<in> uncertain s \<longrightarrow> disabled w'"
    using not_journaled [OF inv] by (auto simp: w'_def)
  ultimately show ?thesis using inv idle by (auto simp: s' wu_inv_idle held_def)
qed

lemma distinct_without:
  "distinct xs \<Longrightarrow> distinct (take i xs @ drop (Suc i) xs)"
  using set_take_disj_set_drop_if_distinct [of xs i "Suc i"] by simp

lemma set_without: "set (take i xs @ drop (Suc i) xs) \<subseteq> set xs"
  by (auto dest: in_set_takeD in_set_dropD)

lemma delete_inv:
  assumes inv: "wu_inv s" and idle: "running s = None" and d: "apply_worker_delete wid s = (st, s')"
  shows "wu_inv s'"
proof -
  have "pool s' = pool s \<or> (\<exists>i. pool s' = take i (pool s) @ drop (Suc i) (pool s))"
    and frame: "disk s' = disk s" "journal_up s' = journal_up s" "running s' = running s"
      "uncertain s' = uncertain s"
  proof -
    obtain own s1 where o: "registry_owner s = (own, s1)" by (cases "registry_owner s")
    from registry_owner_frame [of s] o have f: "pool s1 = pool s" "disk s1 = disk s"
      "journal_up s1 = journal_up s" "running s1 = running s" "uncertain s1 = uncertain s" by simp_all
    from d consider "s' = s" | "s' = s1" | i where "s' = s1\<lparr>pool := take i (pool s) @ drop (Suc i) (pool s)\<rparr>"
      by (simp add: apply_worker_delete_def o f split: option.splits if_splits) auto
    then have "(pool s' = pool s \<or> (\<exists>i. pool s' = take i (pool s) @ drop (Suc i) (pool s)))
        \<and> disk s' = disk s \<and> journal_up s' = journal_up s \<and> running s' = running s
        \<and> uncertain s' = uncertain s"
      by cases (auto simp: f)
    then show "pool s' = pool s \<or> (\<exists>i. pool s' = take i (pool s) @ drop (Suc i) (pool s))"
      "disk s' = disk s" "journal_up s' = journal_up s" "running s' = running s"
      "uncertain s' = uncertain s" by simp_all
  qed
  then have "distinct (map worker_url (pool s')) \<and> set (pool s') \<subseteq> set (pool s)"
  proof (elim disjE exE)
    fix i assume p: "pool s' = take i (pool s) @ drop (Suc i) (pool s)"
    have "distinct (map worker_url (pool s'))"
      using distinct_without [of "map worker_url (pool s)" i] inv
      by (simp add: p wu_inv_def take_map drop_map)
    with set_without [of i "pool s"] p show ?thesis by simp
  qed (use inv in \<open>simp add: wu_inv_def\<close>)
  then show ?thesis using inv idle frame by (auto simp: wu_inv_idle held_def)
qed

lemma held_minus_update:
  assumes d: "distinct (map worker_url ws)" and h: "held U ws" and i: "i < length ws"
    and url: "worker_url w = worker_url (ws ! i)"
  shows "held (U - {worker_id (ws ! i)}) (ws[i := w])"
proof (rule held_update)
  show "held (U - {worker_id (ws ! i)}) ws" using h by (rule held_mono) blast
  show "worker_id w \<in> U - {worker_id (ws ! i)} \<longrightarrow> disabled w" using url by (simp add: worker_id_def)
qed

lemma put_flags_facts [simp]:
  "worker_url (put_flags req w) = worker_url w"
  "disabled (put_flags req w) = (case pr_disabled req of None \<Rightarrow> disabled w | Some b \<Rightarrow> b)"
  by (simp_all add: put_flags_def split: option.splits bool.splits)

text \<open>What a PUT may do to the registry, and what it leaves alone.\<close>

definition put_pool :: "put_request \<Rightarrow> nat \<Rightarrow> worker list \<Rightarrow> worker list \<Rightarrow> bool" where
  "put_pool req i ws ws' \<longleftrightarrow> ws' = ws
     \<or> (\<exists>w. worker_url w = worker_url (ws ! i)
          \<and> disabled w = (case pr_disabled req of None \<Rightarrow> disabled (ws ! i) | Some b \<Rightarrow> b)
          \<and> ws' = ws[i := w])"

definition same_control :: "wu_world \<Rightarrow> wu_world \<Rightarrow> bool" where
  "same_control s s' \<longleftrightarrow> journal_up s' = journal_up s \<and> running s' = running s
     \<and> uncertain s' = uncertain s"

lemma put_commit_effect:
  assumes "put_commit i cfg req s = (ans, s')"
  shows "same_control s s' \<and> disk s' = disk s \<and> put_pool req i (pool s) (pool s')"
proof -
  obtain own s1 where o: "registry_owner s = (own, s1)" by (cases "registry_owner s")
  have f: "pool s1 = pool s" "disk s1 = disk s" "same_control s s1"
    using registry_owner_frame [of s] o by (simp_all add: same_control_def)
  show ?thesis
  proof (cases "own = Some i \<and> \<not> can_own_uploaded_voices (cfg_capabilities cfg)")
    case True
    then show ?thesis using assms f by (simp add: put_commit_def o put_pool_def)
  next
    case False
    show ?thesis
    proof (cases "replace_config (pool s ! i) cfg")
      case (Inl e)
      then show ?thesis using assms f False by (simp add: put_commit_def o put_pool_def)
    next
      case (Inr w)
      then have "worker_url w = worker_url (pool s ! i)" "disabled w = disabled (pool s ! i)"
        by (auto simp: replace_config_def worker_url_def split: if_splits)
      then have "put_pool req i (pool s) ((pool s)[i := put_flags req w])"
        unfolding put_pool_def by (intro disjI2 exI [of _ "put_flags req w"])
          (simp split: option.split)
      moreover have "s' = s1\<lparr>pool := (pool s)[i := put_flags req w]\<rparr>"
        using assms False Inr f by (simp add: put_commit_def o)
      ultimately show ?thesis using f by (simp add: same_control_def)
    qed
  qed
qed

lemma put_effect:
  assumes p: "apply_worker_update mk_config key rd rd' io wid req s = (ans, s')"
    and i: "find_worker (pool s) wid = Some i"
  defines "wi \<equiv> worker_id (pool s ! i)"
  shows "same_control s s' \<and>
    (pool s' = pool s \<and> disk s' = disk s
     \<or> pr_disabled req \<noteq> Some False \<and> disk s' = disk s \<and> put_pool req i (pool s) (pool s')
     \<or> pr_disabled req = Some False \<and> (discard_needs_admin_auth key rd s wi \<longrightarrow> pr_auth req = None)
       \<and> disk s' = snd (j_discard (journal_up s) rd' io wi (disk s))
       \<and> put_pool req i (pool s) (pool s'))"
proof (cases "pr_disabled req = Some False \<and> discard_needs_admin_auth key rd s wi \<and> pr_auth req \<noteq> None")
  case True
  then show ?thesis using p i
    by (simp add: apply_worker_update_def Let_def same_control_def flip: wi_def)
next
  case auth: False
  show ?thesis
  proof (cases "next_config mk_config req (pool s ! i)")
    case (Inl e)
    then have "s' = s" using p i auth by (auto simp: apply_worker_update_def Let_def wi_def)
    then show ?thesis by (simp add: same_control_def)
  next
    case cfg: (Inr cfg)
    show ?thesis
    proof (cases "pr_disabled req = Some False")
      case False
      then have "put_commit i cfg req s = (ans, s')"
        using p i cfg by (simp add: apply_worker_update_def Let_def)
      from put_commit_effect [OF this] False show ?thesis by simp
    next
      case True
      obtain b fs where d: "j_discard (journal_up s) rd' io wi (disk s) = (b, fs)" by fastforce
      show ?thesis
      proof (cases b)
        case False
        then have "s' = s\<lparr>disk := fs\<rparr>"
          using p i cfg auth True d by (auto simp: apply_worker_update_def Let_def wi_def)
        then show ?thesis using d auth True by (auto simp: same_control_def put_pool_def)
      next
        case bT: True
        then have "put_commit i cfg req (s\<lparr>disk := fs\<rparr>) = (ans, s')"
          using p i cfg auth True d by (auto simp: apply_worker_update_def Let_def wi_def)
        from put_commit_effect [OF this] show ?thesis
          using d auth True by (simp add: same_control_def)
      qed
    qed
  qed
qed

lemma put_pool_urls: "put_pool req i ws ws' \<Longrightarrow> map worker_url ws' = map worker_url ws"
  unfolding put_pool_def by (metis list_update_id map_update)

lemma put_pool_kept:
  assumes "put_pool req i ws ws'" "held U ws" "pr_disabled req \<noteq> Some False" "i < length ws"
  shows "held U ws'"
  using assms(1) unfolding put_pool_def
proof (elim disjE exE conjE)
  fix w assume w: "worker_url w = worker_url (ws ! i)" "ws' = ws[i := w]"
    "disabled w = (case pr_disabled req of None \<Rightarrow> disabled (ws ! i) | Some b \<Rightarrow> b)"
  have "worker_id w \<in> U \<longrightarrow> disabled w"
    using w assms by (auto simp: held_def worker_id_def split: option.splits)
  from held_update [OF assms(2) this] w show ?thesis by simp
qed (simp add: assms)

lemma put_pool_enabled:
  assumes p: "put_pool req i ws ws'" and h: "held U ws" and i: "i < length ws"
  shows "held (U - {worker_id (ws ! i)}) ws'"
  using p unfolding put_pool_def
proof (elim disjE exE conjE)
  assume "ws' = ws"
  then show ?thesis using held_mono [OF h] by blast
next
  fix w assume w: "worker_url w = worker_url (ws ! i)" "ws' = ws[i := w]"
  have "held (U - {worker_id (ws ! i)}) ws" using h by (rule held_mono) blast
  moreover have "worker_id w \<in> U - {worker_id (ws ! i)} \<longrightarrow> disabled w"
    using w by (simp add: worker_id_def)
  ultimately show ?thesis using w held_update by blast
qed

lemma put_inv:
  assumes inv: "wu_inv s" and idle: "running s = None" and io: "path_ok io"
    and p: "apply_worker_update mk_config key rd rd' io wid req s = (ans, s')"
  shows "wu_inv (s'\<lparr>uncertain := uncertain s' - put_verifies key rd wid req s\<rparr>)"
proof (cases "find_worker (pool s) wid")
  case None
  then show ?thesis using p inv by (simp add: apply_worker_update_def put_verifies_def)
next
  case (Some i)
  define wi where "wi = worker_id (pool s ! i)"
  let ?U = "uncertain s" and ?V = "put_verifies key rd wid req s"
  have a: "answers_for ?U (disk s)" and h: "held ?U (pool s)" and up: "journal_up s"
    and d: "distinct (map worker_url (pool s))" using inv by (auto simp: wu_inv_def)
  have len: "i < length (pool s)" using find_worker_hit [OF Some] .
  from put_effect [OF p Some, folded wi_def] have sc: "same_control s s'" and
    eff: "pool s' = pool s \<and> disk s' = disk s
     \<or> pr_disabled req \<noteq> Some False \<and> disk s' = disk s \<and> put_pool req i (pool s) (pool s')
     \<or> pr_disabled req = Some False \<and> (discard_needs_admin_auth key rd s wi \<longrightarrow> pr_auth req = None)
       \<and> disk s' = snd (j_discard (journal_up s) rd' io wi (disk s))
       \<and> put_pool req i (pool s) (pool s')" by blast+
  have "answers_for (?U - ?V) (disk s') \<and> held (?U - ?V) (pool s')
      \<and> distinct (map worker_url (pool s'))"
    using eff
  proof (elim disjE conjE)
    assume "pool s' = pool s" "disk s' = disk s"
    then show ?thesis using d answers_for_mono [OF a] held_mono [OF h] by simp
  next
    assume "pr_disabled req \<noteq> Some False" "disk s' = disk s" and pp: "put_pool req i (pool s) (pool s')"
    then show ?thesis
      using Some a d put_pool_kept [OF pp h] len put_pool_urls [OF pp] by (simp add: put_verifies_def)
  next
    assume en: "pr_disabled req = Some False"
      and auth: "discard_needs_admin_auth key rd s wi \<longrightarrow> pr_auth req = None"
      and disk: "disk s' = snd (j_discard (journal_up s) rd' io wi (disk s))"
      and pp: "put_pool req i (pool s) (pool s')"
    have V: "?U - ?V = ?U - {wi}"
    proof (cases "key \<and> \<not> discard_needs_admin_auth key rd s wi")
      case True
      then have "wi \<notin> ?U" using not_journaled [OF inv, of rd wi] by (simp add: discard_needs_admin_auth_def)
      with True Some show ?thesis by (simp add: put_verifies_def flip: wi_def)
    next
      case False
      with auth en Some show ?thesis by (auto simp: put_verifies_def simp flip: wi_def)
    qed
    have "answers_for (?U - {wi}) (disk s')"
    proof -
      obtain b fs where j: "journal_discard rd' io wi (disk s) = (b, fs)" by fastforce
      from journal_discard_keeps [OF a io this] disk up show ?thesis by (simp add: j_discard_def j)
    qed
    then show ?thesis
      using V put_pool_enabled [OF pp h len] put_pool_urls [OF pp] d by (simp flip: wi_def)
  qed
  then show ?thesis using sc idle up by (simp add: wu_inv_idle same_control_def)
qed

lemma same_urls_ids:
  assumes "map worker_url ws' = map worker_url ws" "\<forall>i \<in> set ts. i < length ws"
  shows "ids_of ws' ts = ids_of ws ts"
  by (rule ids_of_cong [OF assms])

lemma for_workers_urls:
  assumes "\<And>w. worker_url (f w) = worker_url w"
  shows "map worker_url (for_workers f ts ws) = map worker_url ws"
  by (rule for_workers_map) (rule assms)

lemma disabled_targets:
  assumes "distinct ts" "\<forall>i \<in> set ts. i < length ws"
  shows "\<forall>i \<in> set ts. i < length (for_workers (set_disabled True) ts ws)
    \<and> disabled (for_workers (set_disabled True) ts ws ! i)"
  using assms by (simp add: for_workers_nth)

lemma no_pending:
  assumes "wu_inv s" "\<not> j_has_pending (journal_up s) rd (disk s)"
  shows "uncertain s = {}"
proof -
  have "journal_pending rd (disk s) = Inr []"
    using assms by (auto simp: wu_inv_def j_has_pending_def journal_has_pending_def split: sum.splits)
  then show ?thesis using assms(1) journal.nothing_listed by (auto simp: wu_inv_def)
qed

lemma begin_inv:
  assumes inv: "wu_inv s" and idle: "running s = None" and io: "path_ok io"
    and b: "update_begin rd io path s = (ans, s')"
  shows "wu_inv s'"
proof (cases "j_has_pending (journal_up s) rd (disk s) \<or> target_refusal path (pool s) \<noteq> None")
  case True
  then show ?thesis using b inv by (auto simp: update_begin_def split: if_splits)
next
  case go: False
  let ?ts = "target_workers (pool s)"
  have U: "uncertain s = {}" using no_pending [OF inv] go by blast
  have d: "distinct (map worker_url (pool s))" and up: "journal_up s" and a: "answers_for {} (disk s)"
    using inv U by (auto simp: wu_inv_def)
  obtain r fs where j: "journal_begin io path (ids_of (pool s) ?ts) (disk s) = (r, fs)" by fastforce
  from journal_begin_keeps [OF a io j] have fs: "answers_for {} fs"
    and fsT: "r = Inr () \<Longrightarrow> answers_for (set (ids_of (pool s) ?ts)) fs" by blast+
  show ?thesis
  proof (cases r)
    case (Inl e)
    then have "s' = s\<lparr>disk := fs\<rparr>" using b go j up by (simp add: update_begin_def j_begin_def Let_def)
    then show ?thesis using idle U d up fs by (simp add: wu_inv_idle)
  next
    case (Inr u)
    let ?ws = "for_workers (set_disabled True) ?ts (pool s)"
    have s': "\<exists>prev. s' = s\<lparr>disk := fs, pool := ?ws, running := Some \<lparr>ru_path = path,
        ru_targets = ?ts, ru_previous = prev, ru_sent = False\<rparr>\<rparr>"
      using b go j up Inr by (auto simp: update_begin_def j_begin_def Let_def)
    have urls: "map worker_url ?ws = map worker_url (pool s)" by (rule for_workers_urls) simp
    have lt: "\<forall>i \<in> set ?ts. i < length (pool s)" using target_workers_facts(2) by blast
    have "ids_of ?ws ?ts = ids_of (pool s) ?ts" by (rule same_urls_ids [OF urls lt])
    moreover have "u = ()" by simp
    ultimately show ?thesis
      using s' urls d up U fs fsT Inr disabled_targets [OF target_workers_facts(1) lt]
        target_workers_facts(1)
      by (auto simp: wu_inv_def update_inv_def)
  qed
qed

lemma send_inv:
  assumes "wu_inv s" "running s = Some u" "\<not> ru_sent u"
  shows "wu_inv (update_send u s)"
proof -
  have "uncertain s = {}" and t: "\<forall>i \<in> set (ru_targets u). i < length (pool s) \<and> disabled (pool s ! i)"
    and d: "distinct (map worker_url (pool s))"
    using assms by (auto simp: wu_inv_def update_inv_def)
  with held_by_index [OF d t] assms show ?thesis
    by (auto simp: wu_inv_def update_inv_def update_send_def)
qed

lemma restore_urls:
  "map worker_url (restore_admin_disabled_state u safe ws) = map worker_url ws"
proof -
  have "map worker_url (for_workers (\<lambda>w. case dict_get (ru_previous u) (worker_id w) of
      None \<Rightarrow> w | Some b \<Rightarrow> set_disabled b w) ts ws) = map worker_url ws" for ts
    by (rule for_workers_urls) (simp split: option.split)
  then show ?thesis
    using for_workers_urls [of "set_disabled True"] by (simp add: restore_admin_disabled_state_def)
qed

lemma finish_inv:
  assumes inv: "wu_inv s" and u: "running s = Some u" and io: "path_ok io"
    and f: "update_finish io results u s = (ans, s')"
  shows "wu_inv s'"
proof -
  let ?T = "set (ids_of (pool s) (ru_targets u))"
  let ?ws = "restore_admin_disabled_state u (outcome_safe results) (pool s)"
  have d: "distinct (map worker_url (pool s))" and up: "journal_up s"
    and a: "answers_for (uncertain s) (disk s)" and h: "held (uncertain s) (pool s)"
    and t: "\<forall>i \<in> set (ru_targets u). i < length (pool s) \<and> disabled (pool s ! i)"
    and dt: "distinct (ru_targets u)" and sub: "uncertain s \<subseteq> ?T"
    using inv u by (auto simp: wu_inv_def update_inv_def split: if_splits)
  have d': "distinct (map worker_url ?ws)" using d by (simp add: restore_urls)
  show ?thesis
  proof (cases "outcome_safe results")
    case True
    obtain r fs where j: "journal_clear io (disk s) = (r, fs)" by fastforce
    have "answers_for {} fs" using journal_clear_keeps [OF answers_for_mono [OF a] j] by blast
    moreover have "s' = s\<lparr>pool := ?ws, disk := fs, running := None, uncertain := uncertain s - ?T\<rparr>"
      using f True j up by (simp add: update_finish_def j_clear_def Let_def)
    moreover have "uncertain s - ?T = {}" using sub by blast
    ultimately show ?thesis using d' up by (simp add: wu_inv_idle)
  next
    case False
    obtain r fs where j: "journal_keep io (ids_of (pool s) (ru_targets u)) (disk s) = (r, fs)"
      by fastforce
    have "answers_for (uncertain s) fs" using journal_keep_keeps [OF a io sub j] .
    moreover have s': "s' = s\<lparr>pool := ?ws, disk := fs, running := None\<rparr>"
      using f False j up by (simp add: update_finish_def j_keep_def Let_def)
    moreover have "held ?T ?ws"
    proof -
      have lt: "\<forall>i \<in> set (ru_targets u). i < length (pool s)" using t by blast
      have ws: "?ws = for_workers (set_disabled True) (ru_targets u) (pool s)"
        using False by (simp add: restore_admin_disabled_state_def)
      have "held (set (ids_of ?ws (ru_targets u))) ?ws"
        using disabled_targets [OF dt lt] by (intro held_by_index [OF d']) (simp only: ws)
      then show ?thesis by (simp only: same_urls_ids [OF restore_urls lt])
    qed
    ultimately show ?thesis using d' up held_mono [OF _ sub] by (simp add: wu_inv_idle)
  qed
qed

lemma resolve_inv:
  assumes inv: "wu_inv s" and idle: "running s = None"
    and r: "resolve_weight_update_journal ack rd io s = (ans, s')"
  shows "wu_inv (s'\<lparr>uncertain := (if ack then {} else uncertain s')\<rparr>)"
proof (cases ack)
  case False
  then show ?thesis using r inv by (simp add: resolve_weight_update_journal_def)
next
  case True
  obtain q fs where j: "journal_clear io (disk s) = (q, fs)" by fastforce
  have up: "journal_up s" and d: "distinct (map worker_url (pool s))"
    and "answers_for {} (disk s)" using inv answers_for_mono by (auto simp: wu_inv_def)
  from journal_clear_keeps [OF this(3) j] have a: "answers_for {} fs" .
  have "\<exists>ids. s' = s\<lparr>disk := fs\<rparr>"
    using r True j up by (cases q) (simp_all add: resolve_weight_update_journal_def j_clear_def Let_def)
  then show ?thesis using True idle up d a by (auto simp: wu_inv_idle)
qed

lemma background_inv:
  assumes inv: "wu_inv s"
    and b: "list_all2 (\<lambda>w w'. w_config w' = w_config w \<and> disabled w' = disabled w) (pool s) ws"
  shows "wu_inv (s\<lparr>pool := ws\<rparr>)"
proof -
  have len: "length ws = length (pool s)" using b by (simp add: list_all2_lengthD)
  have nth: "worker_url (ws ! i) = worker_url (pool s ! i) \<and> disabled (ws ! i) = disabled (pool s ! i)"
    if "i < length (pool s)" for i
    using list_all2_nthD [OF b that] by (simp add: worker_url_def)
  have urls: "map worker_url ws = map worker_url (pool s)"
    using nth by (intro nth_equalityI) (simp_all add: len)
  have held: "held U (pool s) \<Longrightarrow> held U ws" for U
  proof -
    assume h: "held U (pool s)"
    show "held U ws" unfolding held_def
    proof (intro ballI impI)
      fix w assume "w \<in> set ws" "worker_id w \<in> U"
      then obtain i where i: "i < length (pool s)" "w = ws ! i" by (auto simp: in_set_conv_nth len)
      with \<open>worker_id w \<in> U\<close> have "worker_id (pool s ! i) \<in> U"
        using nth [OF i(1)] by (simp add: worker_id_def)
      with h i(1) have "disabled (pool s ! i)" by (simp add: held_def)
      then show "disabled w" using nth [OF i(1)] i(2) by simp
    qed
  qed
  have ids: "ids_of ws ts = ids_of (pool s) ts" if "\<forall>i \<in> set ts. i < length (pool s)" for ts
    by (rule same_urls_ids [OF urls that])
  show ?thesis
  proof (cases "running s")
    case None
    then show ?thesis using inv urls held by (simp add: wu_inv_idle)
  next
    case (Some u)
    then have t: "\<forall>i \<in> set (ru_targets u). i < length (pool s)" using inv
      by (auto simp: wu_inv_def update_inv_def)
    then have "\<forall>i \<in> set (ru_targets u). i < length ws \<and> disabled (ws ! i)" using inv Some nth len
      by (auto simp: wu_inv_def update_inv_def)
    with Some inv urls held ids [OF t] show ?thesis
      by (auto simp: wu_inv_def update_inv_def split: if_splits)
  qed
qed

text \<open>A start that can use its state directory.\<close>

definition start_ok :: "journal_io \<Rightarrow> bool" where
  "start_ok io \<longleftrightarrow> path_ok io \<and> write_ok io \<and> unlink_ok io"

lemma start_inv:
  assumes a: "answers_for (uncertain s) (disk s)" and io: "start_ok io"
    and d: "d \<le> jf_depth (disk s)" "distinct (map worker_url ws)"
  shows "wu_inv (router_start explicit d io rd ws v s)"
proof -
  obtain up fs where b: "build_journal explicit d io (disk s) = (up, fs)" by fastforce
  have "path_ok io" using io by (simp add: start_ok_def)
  from build_journal_keeps [OF a this d(1) b] io have up: up and "answers_for (uncertain s) fs"
    by (simp_all add: start_ok_def)
  with recovery_holds [OF d(2) this(2), of rd] d(2) b show ?thesis
    by (simp add: router_start_def wu_inv_idle recovered_url)
qed

lemma damage_inv:
  assumes inv: "wu_inv s" and e: "jf_entry (disk s) \<noteq> None"
  shows "wu_inv (s\<lparr>disk := (disk s)\<lparr>jf_entry := Some Garbage, jf_surviving := {Some Garbage}\<rparr>\<rparr>)"
proof -
  have "answers_for U (disk s) \<Longrightarrow>
      answers_for U ((disk s)\<lparr>jf_entry := Some Garbage, jf_surviving := {Some Garbage}\<rparr>)" for U
    using e by (auto simp: answers_for_def disk_wf_def)
  then show ?thesis using inv by (auto simp: wu_inv_def update_inv_def split: option.splits if_splits)
qed

lemma wu_step_inv:
  assumes "wu_step path_ok start_ok mk_config key s s'" "wu_inv s"
  shows "wu_inv s'"
  using assms
proof (cases rule: wu_step.cases)
  case (restart io d ws explicit rd v)
  then show ?thesis using assms(2) start_inv by (auto simp: wu_inv_def)
next
  case (host_reboot fs io d ws explicit rd v)
  have "answers_for (uncertain s) fs"
    using journal.crash_keeps host_reboot(2) assms(2) by (auto simp: wu_inv_def)
  then show ?thesis using host_reboot start_inv [of "s\<lparr>disk := fs\<rparr>"] by simp
next
  case (create rd w st)
  then show ?thesis using create_inv assms(2) by blast
next
  case (put io rd rd' wid req ans t)
  then show ?thesis using put_inv [OF assms(2)] by blast
next
  case (delete wid st)
  then show ?thesis using delete_inv assms(2) by blast
next
  case (resolve io ack rd ans t)
  then show ?thesis using resolve_inv [OF assms(2)] by blast
next
  case (begin_update io rd path ans)
  then show ?thesis using begin_inv [OF assms(2)] by blast
next
  case (send u)
  then show ?thesis using send_inv assms(2) by blast
next
  case (finish u io results ans)
  then show ?thesis using finish_inv [OF assms(2)] by blast
next
  case (background ws)
  then show ?thesis using background_inv assms(2) by blast
next
  case damage
  then show ?thesis using damage_inv assms(2) by blast
qed

subsection \<open>The properties\<close>

lemma wu_reach_inv:
  assumes "(wu_step path_ok start_ok mk_config key)\<^sup>*\<^sup>* s0 s" "wu_init s0"
  shows "wu_inv s"
  using assms by (induction rule: rtranclp_induct) (auto intro: wu_inv_init wu_step_inv)

text \<open>
  C21: No worker whose weights are uncertain is routable: in every
  reachable state of registry requests, weight updates, crashes of the process at any point,
  crashes of the host, failing reads, writes, renames and syncs of the journal file and a damaged journal file, a
  registered worker that an unfinished update was sent to, and that no operator verified since,
  is disabled.  Two kinds of failure are excluded: making the directories of the journal's path and
  syncing their parents does not fail (\<open>path_ok\<close>; \<open>first_write_loses_journal\<close> is what happens
  otherwise), and a starting router can write to and unlink in its state directory (\<open>start_ok\<close>;
  \<open>unusable_directory_enables_pool\<close>).
\<close>
theorem uncertain_never_routable:
  assumes run: "(wu_step path_ok start_ok mk_config key)\<^sup>*\<^sup>* s0 s" and init: "wu_init s0"
    and w: "w \<in> set (pool s)" "worker_id w \<in> uncertain s"
  shows "\<not> is_routable w"
  using wu_reach_inv [OF run init] w by (auto simp: wu_inv_def held_def is_routable_def)

text \<open>
  While any worker's weights are uncertain and no update runs,
  every further update is refused with 409 and changes nothing, whether or not the journal can be
  read.
\<close>
theorem unresolved_blocks_updates:
  assumes run: "(wu_step path_ok start_ok mk_config key)\<^sup>*\<^sup>* s0 s" and init: "wu_init s0"
    and U: "uncertain s \<noteq> {}"
  shows "update_begin rd io path s = (Some 409, s)"
  using no_pending [OF wu_reach_inv [OF run init]] U by (auto simp: update_begin_def)

lemma map_of_previous:
  assumes "distinct (map worker_url ws)" "distinct ts" "\<forall>i \<in> set ts. i < length ws" "i \<in> set ts"
  shows "dict_get (map (\<lambda>i. (worker_id (ws ! i), g i)) ts) (worker_id (ws ! i)) = Some (g i)"
proof -
  have "inj_on (\<lambda>i. worker_id (ws ! i)) (set ts)"
    using assms same_id_same_index by (auto intro!: inj_onI)
  then have "distinct (map fst (map (\<lambda>i. (worker_id (ws ! i), g i)) ts))"
    using assms(2) by (simp add: distinct_map comp_def)
  then show ?thesis unfolding dict_get_def using assms(4) by (intro map_of_is_SomeI) auto
qed

text \<open>
  C29: An update that ran to an end leaves every worker's \<open>disabled\<close> flag as it was
  before the update when nothing was sent or every target succeeded, and otherwise, also when the
  handler was cancelled, every live worker disabled and the others as they were; probes and
  requests may have changed the workers in between.
\<close>
theorem update_outcome:
  assumes d: "distinct (map worker_url (pool s))"
    and b: "update_begin rd io path s = (None, s1)" and u: "running s1 = Some u"
    and bg: "list_all2 (\<lambda>w w'. w_config w' = w_config w \<and> disabled w' = disabled w) (pool s1) ws"
    and f: "update_finish io' results u' (s1\<lparr>pool := ws\<rparr>) = (ok, s2)"
    and u': "ru_targets u' = ru_targets u" "ru_previous u' = ru_previous u"
  shows "map disabled (pool s2) = map (\<lambda>w. disabled w \<or> \<not> outcome_safe results \<and> \<not> is_dead w) (pool s)"
proof -
  let ?ts = "target_workers (pool s)"
  have lt: "\<forall>i \<in> set ?ts. i < length (pool s)" using target_workers_facts(2) by blast
  have u_eq: "ru_targets u = ?ts"
    "ru_previous u = map (\<lambda>i. (worker_id (pool s ! i), disabled (pool s ! i))) ?ts"
    and p1: "pool s1 = for_workers (set_disabled True) ?ts (pool s)"
    using b u by (auto simp: update_begin_def Let_def split: if_splits option.splits prod.splits sum.splits)
  have len: "length ws = length (pool s)" using bg p1 by (auto dest: list_all2_lengthD)
  have nth: "worker_id (ws ! i) = worker_id (pool s ! i)
      \<and> disabled (ws ! i) = (disabled (pool s ! i) \<or> i \<in> set ?ts)" if "i < length (pool s)" for i
  proof -
    have "pool s1 ! i = (if i \<in> set ?ts then set_disabled True (pool s ! i) else pool s ! i)"
      unfolding p1 by (rule for_workers_nth [OF target_workers_facts(1) that])
    moreover have "w_config (ws ! i) = w_config (pool s1 ! i)" "disabled (ws ! i) = disabled (pool s1 ! i)"
      using list_all2_nthD2 [OF bg, of i] that len by auto
    ultimately show ?thesis by (auto simp: worker_id_def worker_url_def)
  qed
  have dead: "i \<in> set ?ts \<longleftrightarrow> \<not> is_dead (pool s ! i)" if "i < length (pool s)" for i
    using that by (simp add: target_workers_def)
  have s2: "pool s2 = restore_admin_disabled_state u' (outcome_safe results) ws"
    using f by (auto simp: update_finish_def Let_def split: prod.splits)
  show ?thesis
  proof (rule nth_equalityI)
    show "length (map disabled (pool s2))
        = length (map (\<lambda>w. disabled w \<or> \<not> outcome_safe results \<and> \<not> is_dead w) (pool s))"
      using len by (simp add: s2 restore_admin_disabled_state_def)
    fix i assume "i < length (map disabled (pool s2))"
    then have i: "i < length (pool s)" "i < length ws"
      using len by (simp_all add: s2 restore_admin_disabled_state_def split: if_splits)
    show "map disabled (pool s2) ! i
        = map (\<lambda>w. disabled w \<or> \<not> outcome_safe results \<and> \<not> is_dead w) (pool s) ! i"
    proof (cases "outcome_safe results")
      case True
      then have "pool s2 ! i = (if i \<in> set ?ts
          then (case dict_get (ru_previous u) (worker_id (ws ! i)) of None \<Rightarrow> ws ! i
                | Some b \<Rightarrow> set_disabled b (ws ! i)) else ws ! i)"
        using for_workers_nth [OF target_workers_facts(1) i(2)] u' u_eq(1)
        by (simp add: s2 restore_admin_disabled_state_def)
      then show ?thesis using nth [OF i(1)] i len True u_eq(2)
          map_of_previous [OF d target_workers_facts(1) lt, of i "\<lambda>i. disabled (pool s ! i)"]
        by (cases "i \<in> set ?ts") (simp_all add: s2 restore_admin_disabled_state_def)
    next
      case False
      then have "pool s2 ! i = (if i \<in> set ?ts then set_disabled True (ws ! i) else ws ! i)"
        using for_workers_nth [OF target_workers_facts(1) i(2)] u' u_eq(1)
        by (simp add: s2 restore_admin_disabled_state_def)
      then show ?thesis using nth [OF i(1)] i len False dead [OF i(1)]
        by (cases "i \<in> set ?ts") (simp_all add: s2 restore_admin_disabled_state_def)
    qed
  qed
qed

subsection \<open>A run: the process dies after the broadcast\<close>

definition live_worker :: worker where
  "live_worker = demo_worker\<lparr>w_state := Healthy\<rparr>"

definition demo_start :: wu_world where
  "demo_start = \<lparr>pool = [live_worker], disk = fresh_disk, journal_up = True, voice = None,
     running = None, uncertain = {}\<rparr>"

definition demo_update :: running_update where
  "demo_update = \<lparr>ru_path = ''/pause_generation'', ru_targets = [0],
     ru_previous = [(worker_id live_worker, False)], ru_sent = False\<rparr>"

definition demo_entry :: "journal_content option" where
  "demo_entry = Some (Document (Some ''/pause_generation'') (Some [worker_id live_worker]))"

definition demo_disk :: journal_fs where
  "demo_disk = \<lparr>jf_entry = demo_entry, jf_surviving = {demo_entry}, jf_depth = 2, jf_dirs = [True, True]\<rparr>"

definition demo_begun :: wu_world where
  "demo_begun = demo_start\<lparr>disk := demo_disk, pool := [set_disabled True live_worker],
     running := Some demo_update\<rparr>"

definition demo_sent :: wu_world where
  "demo_sent = update_send demo_update demo_begun"

definition demo_recovered :: wu_world where
  "demo_recovered = router_start False 1 no_fault no_fault [live_worker] None demo_sent"

lemma live_worker_facts [simp]:
  "disabled live_worker = False" "is_dead live_worker = False" "is_routable live_worker"
  by (simp_all add: live_worker_def demo_worker_def new_worker_def is_dead_def is_routable_def is_healthy_def)

lemma demo_targets: "target_workers [live_worker] = [0]"
  by (simp add: target_workers_def)

lemma demo_update_begun:
  "update_begin no_fault no_fault ''/pause_generation'' demo_start = (None, demo_begun)"
proof -
  have "\<not> j_has_pending True no_fault fresh_disk"
    by (simp add: j_has_pending_def journal_has_pending_def journal_pending_def read_document_def
        no_fault_def fresh_disk_def)
  moreover have "j_begin True no_fault ''/pause_generation'' (ids_of [live_worker] [0]) fresh_disk
      = (Inr (), demo_disk)"
    by (simp add: j_begin_def journal_eval ids_of_def demo_disk_def demo_entry_def)
  ultimately show ?thesis
    by (simp add: update_begin_def demo_start_def target_refusal_def demo_targets demo_begun_def
        demo_update_def for_workers_def Let_def)
qed

lemma demo_init: "wu_init demo_start"
  by (simp add: wu_init_def demo_start_def fresh_disk_def)

lemma demo_run: "(wu_step path_ok start_ok mk_config key)\<^sup>*\<^sup>* demo_start demo_recovered"
proof -
  have 1: "wu_step path_ok start_ok mk_config key demo_start demo_begun"
  proof (rule wu_step.begin_update)
    show "running demo_start = None" by (simp add: demo_start_def)
    show "path_ok no_fault" by simp
  qed (rule demo_update_begun)
  have 2: "wu_step path_ok start_ok mk_config key demo_begun demo_sent"
    unfolding demo_sent_def
    by (rule wu_step.send) (simp_all add: demo_begun_def demo_update_def)
  have 3: "wu_step path_ok start_ok mk_config key demo_sent demo_recovered"
    unfolding demo_recovered_def
  proof (rule wu_step.restart)
    show "start_ok no_fault" by (simp add: start_ok_def) (simp add: no_fault_def)
    show "1 \<le> jf_depth (disk demo_sent)"
      by (simp add: demo_sent_def update_send_def demo_begun_def demo_disk_def)
  qed simp
  from 1 2 3 show ?thesis by (meson converse_rtranclp_into_rtranclp rtranclp.rtrancl_refl)
qed

lemma demo_sent_fields:
  "disk demo_sent = demo_disk" "uncertain demo_sent = {worker_id live_worker}"
  by (simp_all add: demo_sent_def update_send_def demo_begun_def demo_start_def demo_update_def ids_of_def)

lemma demo_build: "build_journal False (Suc 0) no_fault demo_disk = (True, demo_disk)"
  by (simp add: build_journal_def ensure_state_dir_def prepare_dir_def make_private_dir_def
      dir_exists_def demo_disk_def) (simp add: no_fault_def)

lemma demo_recovered_eq:
  "pool demo_recovered = [set_disabled True live_worker]" "uncertain demo_recovered = {worker_id live_worker}"
proof -
  have "find_worker [live_worker] (worker_id live_worker) = Some 0" by simp
  moreover have "journal_pending no_fault demo_disk = Inr [worker_id live_worker]"
    by (simp add: journal_pending_Inr demo_disk_def demo_entry_def) (simp add: no_fault_def)
  ultimately show "pool demo_recovered = [set_disabled True live_worker]"
    by (simp add: demo_recovered_def router_start_def demo_sent_fields demo_build
        recover_worker_pool_from_journal_def j_pending_def disable_id_def)
  show "uncertain demo_recovered = {worker_id live_worker}"
    by (simp add: demo_recovered_def router_start_def demo_sent_fields demo_build)
qed

theorem uncertain_never_routable_witness:
  "is_routable live_worker \<and> \<not> is_routable (pool demo_recovered ! 0)"
proof -
  have "set_disabled True live_worker \<in> set (pool demo_recovered)"
    "worker_id (set_disabled True live_worker) \<in> uncertain demo_recovered"
    by (simp_all add: demo_recovered_eq)
  from uncertain_never_routable [OF demo_run demo_init this] show ?thesis
    by (simp add: demo_recovered_eq)
qed

theorem unresolved_blocks_updates_witness:
  "update_begin no_fault no_fault ''/pause_generation'' demo_recovered = (Some 409, demo_recovered)"
  by (rule unresolved_blocks_updates [OF demo_run demo_init]) (simp add: demo_recovered_eq)

theorem update_outcome_witness:
  "map disabled (pool (snd (update_finish no_fault (Some [True]) demo_update demo_begun))) = [False]
   \<and> map disabled (pool (snd (update_finish no_fault (Some [False]) demo_update demo_begun))) = [True]"
proof -
  have d: "distinct (map worker_url (pool demo_start))" by (simp add: demo_start_def)
  have u: "running demo_begun = Some demo_update" by (simp add: demo_begun_def)
  have bg: "list_all2 (\<lambda>w w'. w_config w' = w_config w \<and> disabled w' = disabled w) (pool demo_begun) (pool demo_begun)"
    by (simp add: list_all2_same)
  have f: "update_finish no_fault r demo_update (demo_begun\<lparr>pool := pool demo_begun\<rparr>)
      = (fst (update_finish no_fault r demo_update demo_begun),
         snd (update_finish no_fault r demo_update demo_begun))" for r by simp
  from update_outcome [OF d demo_update_begun u bg f refl refl, of "Some [True]"]
    update_outcome [OF d demo_update_begun u bg f refl refl, of "Some [False]"]
  show ?thesis by (simp add: demo_start_def outcome_safe_def)
qed

subsection \<open>What the conditions are for\<close>

text \<open>
  A start whose state directory cannot be probed (here: the file system became read-only) gets the
  stand-in, which reports no transaction: the journal is on the disk and readable, and a worker it
  names comes back enabled.
\<close>
lemma unusable_directory_enables_pool:
  fixes s' defines "s' \<equiv> router_start False 1 (no_fault\<lparr>write_ok := False\<rparr>) no_fault [live_worker] None demo_sent"
  shows "journal_pending no_fault (disk s') = Inr [worker_id live_worker]
    \<and> worker_id live_worker \<in> uncertain s' \<and> pool s' = [live_worker] \<and> is_routable live_worker"
proof -
  have "build_journal False (Suc 0) (no_fault\<lparr>write_ok := False\<rparr>) demo_disk = (False, demo_disk)"
    by (simp add: build_journal_def ensure_state_dir_def prepare_dir_def make_private_dir_def
        dir_exists_def demo_disk_def)
  then show ?thesis
    by (simp add: s'_def router_start_def demo_sent_fields recover_worker_pool_from_journal_def
        j_pending_def journal_pending_Inr) (simp add: demo_disk_def demo_entry_def no_fault_def)
qed

text \<open>
  The voice-owner check of a PUT comes after the journal entry was discarded: the request is
  refused with 409, the worker stays as it was, and the journal no longer names it.
\<close>
lemma refused_put_discards_journal:
  fixes s defines "s \<equiv> demo_recovered\<lparr>voice := Some (Some (worker_url live_worker))\<rparr>"
    and "mk \<equiv> (\<lambda>u m c. Inr \<lparr>cfg_url = u, cfg_model = m, cfg_capabilities = c\<rparr>)"
    and "req \<equiv> \<lparr>pr_model = None, pr_capabilities = Some [''chat''], pr_is_dead = None,
      pr_disabled = Some False, pr_auth = None\<rparr>"
  shows "\<exists>s'. apply_worker_update mk True no_fault no_fault no_fault (worker_id live_worker) req s
      = ((409, None), s') \<and> pool s' = pool s
    \<and> journal_pending no_fault (disk s) = Inr [worker_id live_worker]
    \<and> journal_pending no_fault (disk s') = Inr []"
proof -
  let ?w = "set_disabled True live_worker"
  let ?fs = "demo_disk\<lparr>jf_entry := None, jf_surviving := {None}\<rparr>"
  have s: "pool s = [?w]" "disk s = demo_disk" "journal_up s" "voice s = Some (Some (worker_url live_worker))"
    using demo_recovered_eq by (simp_all add: s_def demo_recovered_def router_start_def demo_sent_fields demo_build)
  have pend: "journal_pending no_fault demo_disk = Inr [worker_id live_worker]"
    by (simp add: journal_pending_Inr demo_disk_def demo_entry_def) (simp add: no_fault_def)
  have disc: "j_discard True no_fault no_fault (worker_id live_worker) demo_disk = (True, ?fs)"
    by (simp add: j_discard_def journal_discard_def pend journal_keep_def journal_clear_def fsync_dir_def)
      (simp add: demo_disk_def demo_entry_def no_fault_def)
  have own: "registry_owner (s\<lparr>disk := ?fs\<rparr>) = (Some 0, s\<lparr>disk := ?fs\<rparr>)"
    by (simp add: registry_owner_def ensure_owner_def voice_owner_def s)
  have "apply_worker_update mk True no_fault no_fault no_fault (worker_id live_worker) req s
      = ((409, None), s\<lparr>disk := ?fs\<rparr>)"
    using disc own
    by (simp add: apply_worker_update_def s mk_def req_def next_config_def put_commit_def Let_def
        can_own_uploaded_voices_def)
  moreover have "journal_pending no_fault ?fs = Inr []"
    by (simp add: journal_pending_Inr) (simp add: no_fault_def)
  ultimately show ?thesis using s pend by simp
qed

end
