(* ===== verification/Voice_Routing_Props.thy ===== *)
theory Voice_Routing_Props
  imports Voice_Routing
begin

section \<open>The view of the owner's registry\<close>

text \<open>
  Mutations in flight, the owner that applies them whenever it likes while they are, the refresh
  task and routed requests as steps.  A voice in the owner's registry is never routed past its
  owner, the health endpoint says ready only of an exact view, and a view that is not clean always
  has a refresh coming, so that the task alone recovers it.  The assumption is that a mutation takes effect before the router's
  request for it is over; \<open>late_commit_missed\<close> shows what happens otherwise.
\<close>

subsection \<open>The system\<close>

text \<open>
  A mutation request: counted but not sent, sent, and marked (its response has arrived or its
  outcome is uncertain).
\<close>

datatype mutation_phase = Begun | OnWire | Marked

record voice_world =
  vw_state :: voice_state
  vw_registry :: "string set"
  vw_tasks :: "mutation_phase list"
  vw_loop :: refresher

inductive voice_step :: "voice_world \<Rightarrow> voice_world \<Rightarrow> bool" where
  route: "requires_owner ws vs over (vw_state s) = (b, v)
    \<Longrightarrow> voice_step s (s\<lparr>vw_state := v\<rparr>)"
| control: "voice_step s (s\<lparr>vw_state := activate (vw_state s)\<rparr>)"
| refresh: "voice_step s (s\<lparr>vw_state := request_refresh (vw_state s)\<rparr>)"
| begin_request: "voice_step s
    (s\<lparr>vw_state := begin_mutation (vw_state s), vw_tasks := vw_tasks s @ [Begun]\<rparr>)"
| send: "vw_tasks s = xs @ Begun # ys \<Longrightarrow> voice_step s (s\<lparr>vw_tasks := xs @ OnWire # ys\<rparr>)"
| takes_effect: "OnWire \<in> set (vw_tasks s) \<or> Marked \<in> set (vw_tasks s)
    \<Longrightarrow> voice_step s (s\<lparr>vw_registry := R\<rparr>)"
| dispatched: "vw_tasks s = xs @ OnWire # ys \<Longrightarrow> mark_mutation_dispatched (vw_state s) = Inr v
    \<Longrightarrow> voice_step s (s\<lparr>vw_state := v, vw_tasks := xs @ Marked # ys\<rparr>)"
| gave_up: "vw_tasks s = xs @ t # ys \<Longrightarrow> t \<noteq> Begun
    \<Longrightarrow> voice_step s (s\<lparr>vw_state := mark_uncertain (vw_state s), vw_tasks := xs @ Marked # ys\<rparr>)"
| committed: "Marked \<in> set (vw_tasks s) \<Longrightarrow> apply_mutation m (vw_state s) = Inr v
    \<Longrightarrow> voice_step s (s\<lparr>vw_state := v\<rparr>)"
| ended: "vw_tasks s = xs @ t # ys \<Longrightarrow> t \<noteq> OnWire \<Longrightarrow> end_mutation (vw_state s) = Inr v
    \<Longrightarrow> voice_step s (s\<lparr>vw_state := v, vw_tasks := xs @ ys\<rparr>)"
| wake: "vw_loop s = Waiting \<or> vw_loop s = Retrying \<Longrightarrow> vs_refresh (vw_state s)
    \<Longrightarrow> reconcile_begin ws ((vw_state s)\<lparr>vs_refresh := False\<rparr>) = (r, v)
    \<Longrightarrow> voice_step s (s\<lparr>vw_state := v, vw_loop := loop_of r\<rparr>)"
| timer: "vw_loop s = Retrying
    \<Longrightarrow> voice_step s (s\<lparr>vw_state := (vw_state s)\<lparr>vs_refresh := True\<rparr>\<rparr>)"
| answered: "vw_loop s = Fetching g None
    \<Longrightarrow> voice_step s (s\<lparr>vw_loop := Fetching g (Some (vw_registry s))\<rparr>)"
| fetched: "vw_loop s = Fetching g (Some names) \<Longrightarrow> reconcile_end g (Inr names) (vw_state s) = (b, v)
    \<Longrightarrow> voice_step s (s\<lparr>vw_state := v, vw_loop := loop_of (Over b)\<rparr>)"
| failed: "vw_loop s = Fetching g x \<Longrightarrow> reconcile_end g (Inl e) (vw_state s) = (b, v)
    \<Longrightarrow> voice_step s (s\<lparr>vw_state := v, vw_loop := loop_of (Over b)\<rparr>)"

definition voice_init :: "string option \<Rightarrow> string set \<Rightarrow> voice_world" where
  "voice_init url R = \<lparr>vw_state = new_voice_state url, vw_registry = R, vw_tasks = [], vw_loop = Waiting\<rparr>"

subsection \<open>The invariant\<close>

definition view_exact :: "voice_world \<Rightarrow> bool" where
  "view_exact s \<longleftrightarrow> (vs_hydrated (vw_state s) \<and> \<not> vs_dirty (vw_state s) \<and> OnWire \<notin> set (vw_tasks s)
     \<longrightarrow> vs_uploaded (vw_state s) = vw_registry s)"

definition fetch_ok :: "voice_world \<Rightarrow> bool" where
  "fetch_ok s \<longleftrightarrow>
     (case vw_loop s of
        Fetching g r \<Rightarrow> vs_reconciling (vw_state s) \<and> g \<le> vs_generation (vw_state s)
          \<and> (g = vs_generation (vw_state s)
             \<longrightarrow> vw_tasks s = [] \<and> (r = None \<or> r = Some (vw_registry s)))
      | _ \<Rightarrow> \<not> vs_reconciling (vw_state s))"

definition refresh_coming :: "voice_world \<Rightarrow> bool" where
  "refresh_coming s \<longleftrightarrow>
     (vs_active (vw_state s) \<and> (\<not> vs_hydrated (vw_state s) \<or> vs_dirty (vw_state s))
      \<longrightarrow> vs_refresh (vw_state s) \<or> vw_loop s \<noteq> Waiting \<or> vw_tasks s \<noteq> [])"

definition voice_inv :: "voice_world \<Rightarrow> bool" where
  "voice_inv s \<longleftrightarrow> vs_inflight (vw_state s) = int (length (vw_tasks s))
     \<and> (Marked \<in> set (vw_tasks s) \<longrightarrow> vs_dirty (vw_state s))
     \<and> view_exact s \<and> fetch_ok s \<and> refresh_coming s"

lemmas voice_inv_defs = voice_inv_def view_exact_def fetch_ok_def refresh_coming_def

lemmas voice_op_defs = activate_def request_refresh_def begin_mutation_def mark_uncertain_def

text \<open>Routing a request touches the owner's URL and asks for a refresh, nothing else.\<close>

lemma requires_owner_shape:
  assumes "requires_owner ws vs over v = (b, v')"
  shows "\<exists>url. v' = v\<lparr>vs_owner_url := url\<rparr> \<or> v' = activate (v\<lparr>vs_owner_url := url\<rparr>)
    \<or> v' = request_refresh (activate (v\<lparr>vs_owner_url := url\<rparr>))"
  using assms by (auto simp: requires_owner_def Let_def split: prod.splits if_splits)

lemma voice_inv_owner: "voice_inv (s\<lparr>vw_state := (vw_state s)\<lparr>vs_owner_url := url\<rparr>\<rparr>) = voice_inv s"
  by (cases "vw_loop s") (simp_all add: voice_inv_defs)

lemma voice_inv_activate:
  "voice_inv s \<Longrightarrow> voice_inv (s\<lparr>vw_state := activate (vw_state s)\<rparr>)"
  by (auto simp: voice_inv_defs voice_op_defs split: refresher.splits)

lemma voice_inv_request:
  "voice_inv s \<Longrightarrow> voice_inv (s\<lparr>vw_state := request_refresh (vw_state s)\<rparr>)"
  by (auto simp: voice_inv_defs voice_op_defs split: refresher.splits)

lemma voice_inv_route:
  assumes inv: "voice_inv s" and r: "requires_owner ws vs over (vw_state s) = (b, v)"
  shows "voice_inv (s\<lparr>vw_state := v\<rparr>)"
proof -
  from requires_owner_shape [OF r] obtain url where
    v: "v = (vw_state s)\<lparr>vs_owner_url := url\<rparr> \<or> v = activate ((vw_state s)\<lparr>vs_owner_url := url\<rparr>)
      \<or> v = request_refresh (activate ((vw_state s)\<lparr>vs_owner_url := url\<rparr>))" by blast
  let ?s = "s\<lparr>vw_state := (vw_state s)\<lparr>vs_owner_url := url\<rparr>\<rparr>"
  have 0: "voice_inv ?s" using inv by (simp add: voice_inv_owner)
  note 1 = voice_inv_activate [OF 0]
  note 2 = voice_inv_request [OF 1]
  from v 0 1 2 show ?thesis by auto
qed

lemma voice_inv_tasks:
  assumes "voice_inv s"
  shows "voice_inv (s\<lparr>vw_state := begin_mutation (vw_state s), vw_tasks := vw_tasks s @ [Begun]\<rparr>)"
    "vw_tasks s = xs @ Begun # ys \<Longrightarrow> voice_inv (s\<lparr>vw_tasks := xs @ OnWire # ys\<rparr>)"
    "OnWire \<in> set (vw_tasks s) \<or> Marked \<in> set (vw_tasks s) \<Longrightarrow> voice_inv (s\<lparr>vw_registry := R\<rparr>)"
    "vw_tasks s = xs @ OnWire # ys \<Longrightarrow> mark_mutation_dispatched (vw_state s) = Inr v
      \<Longrightarrow> voice_inv (s\<lparr>vw_state := v, vw_tasks := xs @ Marked # ys\<rparr>)"
    "vw_tasks s = xs @ t # ys
      \<Longrightarrow> voice_inv (s\<lparr>vw_state := mark_uncertain (vw_state s), vw_tasks := xs @ Marked # ys\<rparr>)"
    "Marked \<in> set (vw_tasks s) \<Longrightarrow> apply_mutation m (vw_state s) = Inr v
      \<Longrightarrow> voice_inv (s\<lparr>vw_state := v\<rparr>)"
    "vw_tasks s = xs @ t # ys \<Longrightarrow> t \<noteq> OnWire \<Longrightarrow> end_mutation (vw_state s) = Inr v
      \<Longrightarrow> voice_inv (s\<lparr>vw_state := v, vw_tasks := xs @ ys\<rparr>)"
proof -
  note inv = assms [unfolded voice_inv_defs]
  show "voice_inv (s\<lparr>vw_state := begin_mutation (vw_state s), vw_tasks := vw_tasks s @ [Begun]\<rparr>)"
    using inv by (auto simp: voice_inv_defs voice_op_defs split: refresher.splits)
  show "voice_inv (s\<lparr>vw_tasks := xs @ OnWire # ys\<rparr>)" if "vw_tasks s = xs @ Begun # ys"
    using inv that by (auto simp: voice_inv_defs split: refresher.splits)
  show "voice_inv (s\<lparr>vw_registry := R\<rparr>)" if "OnWire \<in> set (vw_tasks s) \<or> Marked \<in> set (vw_tasks s)"
  proof -
    have "vw_tasks s \<noteq> []" using that by auto
    moreover have "OnWire \<in> set (vw_tasks s) \<or> vs_dirty (vw_state s)" using inv that by blast
    ultimately show ?thesis using inv
      by (cases "vw_loop s"; simp add: voice_inv_defs disj_imp; blast)
  qed
  show "voice_inv (s\<lparr>vw_state := v, vw_tasks := xs @ Marked # ys\<rparr>)"
    if "vw_tasks s = xs @ OnWire # ys" "mark_mutation_dispatched (vw_state s) = Inr v"
    using inv that by (auto simp: voice_inv_defs mark_mutation_dispatched_def split: refresher.splits if_splits)
  show "voice_inv (s\<lparr>vw_state := mark_uncertain (vw_state s), vw_tasks := xs @ Marked # ys\<rparr>)"
    if "vw_tasks s = xs @ t # ys"
    using inv that by (auto simp: voice_inv_defs voice_op_defs split: refresher.splits)
  show "voice_inv (s\<lparr>vw_state := v\<rparr>)"
    if "Marked \<in> set (vw_tasks s)" "apply_mutation m (vw_state s) = Inr v"
  proof -
    note here = that
    obtain X where v: "v = (vw_state s)\<lparr>vs_uploaded := X\<rparr>"
      using here(2) by (auto simp: apply_mutation_def split: if_splits)
    have "vs_dirty (vw_state s)" using inv here(1) by blast
    then show ?thesis using inv unfolding v by (cases "vw_loop s"; simp add: voice_inv_defs)
  qed
  show "voice_inv (s\<lparr>vw_state := v, vw_tasks := xs @ ys\<rparr>)"
    if "vw_tasks s = xs @ t # ys" "t \<noteq> OnWire" "end_mutation (vw_state s) = Inr v"
  proof -
    note here = that
    let ?n = "vs_inflight (vw_state s) - 1"
    have v: "v = (vw_state s)\<lparr>vs_inflight := ?n, vs_refresh := (vs_refresh (vw_state s) \<or> ?n = 0)\<rparr>"
      using here(3) by (simp add: end_mutation_def Let_def split: if_splits)
    have t: "OnWire \<in> set (xs @ ys) \<longleftrightarrow> OnWire \<in> set (vw_tasks s)"
      "Marked \<in> set (xs @ ys) \<Longrightarrow> Marked \<in> set (vw_tasks s)" "vw_tasks s \<noteq> []"
      "?n = int (length (xs @ ys))" using here(1,2) inv by auto
    have "?n = 0 \<longleftrightarrow> xs @ ys = []" unfolding t(4) by (cases "xs @ ys") auto
    with t inv show ?thesis unfolding v by (cases "vw_loop s"; simp add: voice_inv_defs; blast)
  qed
qed

lemma voice_inv_wake:
  assumes inv: "voice_inv s" and idle: "vw_loop s = Waiting \<or> vw_loop s = Retrying"
    and r: "reconcile_begin ws ((vw_state s)\<lparr>vs_refresh := False\<rparr>) = (r, v)"
  shows "voice_inv (s\<lparr>vw_state := v, vw_loop := loop_of r\<rparr>)"
proof -
  have nr: "\<not> vs_reconciling (vw_state s)" using inv idle by (auto simp: voice_inv_def fetch_ok_def)
  consider "vs_inflight (vw_state s) > 0" "r = Over False" "v = (vw_state s)\<lparr>vs_refresh := False\<rparr>"
    | "r = Over (\<not> vs_hydrated (vw_state s) \<or> vs_dirty (vw_state s))"
      "v = (vw_state s)\<lparr>vs_refresh := False\<rparr>"
    | "vs_inflight (vw_state s) \<le> 0" "r = Fetch (vs_generation (vw_state s))"
      "v = (vw_state s)\<lparr>vs_refresh := False, vs_reconciling := True\<rparr>"
    using r by (auto simp: reconcile_begin_def split: if_splits option.splits)
  then show ?thesis
  proof cases
    case 1
    then have "vw_tasks s \<noteq> []" using inv by (auto simp: voice_inv_def)
    with 1 nr inv show ?thesis by (simp add: voice_inv_defs loop_of_def)
  next
    case 2
    with nr inv show ?thesis
      by (cases "\<not> vs_hydrated (vw_state s) \<or> vs_dirty (vw_state s)")
        (simp_all add: voice_inv_defs loop_of_def)
  next
    case 3
    then have "vw_tasks s = []" using inv by (auto simp: voice_inv_def)
    with 3 nr inv show ?thesis by (simp add: voice_inv_defs loop_of_def)
  qed
qed

lemma voice_inv_fetched:
  assumes inv: "voice_inv s" and loop: "vw_loop s = Fetching g (Some names)"
    and r: "reconcile_end g (Inr names) (vw_state s) = (b, v)"
  shows "voice_inv (s\<lparr>vw_state := v, vw_loop := loop_of (Over b)\<rparr>)"
proof (cases "vs_generation (vw_state s) \<noteq> g \<or> vs_inflight (vw_state s) > 0")
  case True
  then have "b" "v = (vw_state s)\<lparr>vs_reconciling := False\<rparr>" using r by (auto simp: reconcile_end_def)
  with inv show ?thesis by (simp add: voice_inv_defs loop_of_def)
next
  case False
  then have "vw_tasks s = []" "names = vw_registry s" using inv loop by (auto simp: voice_inv_defs)
  moreover have "\<not> b" "v = (vw_state s)\<lparr>vs_uploaded := names, vs_hydrated := True, vs_dirty := False,
      vs_error := None, vs_reconciling := False\<rparr>"
    using r False by (auto simp: reconcile_end_def)
  ultimately show ?thesis using inv by (simp add: voice_inv_defs loop_of_def)
qed

lemma voice_step_inv:
  assumes "voice_step s s'" "voice_inv s"
  shows "voice_inv s'"
  using assms(1)
proof (cases rule: voice_step.cases)
  case (failed g x e b v)
  have "b" "v = (vw_state s)\<lparr>vs_error := Some e, vs_reconciling := False\<rparr>"
    using failed(3) by (simp_all add: reconcile_end_def)
  then show ?thesis using assms(2) unfolding failed(1) by (simp add: voice_inv_defs loop_of_def)
next
  case (answered g)
  then show ?thesis using assms(2) by (simp add: voice_inv_defs)
next
  case timer
  then show ?thesis using assms(2) by (simp add: voice_inv_defs)
next
  case (route ws vs over b v)
  then show ?thesis using voice_inv_route [OF assms(2)] by blast
next
  case (gave_up xs t ys)
  then show ?thesis using voice_inv_tasks(5) [OF assms(2)] by blast
next
  case (ended xs t ys v)
  then show ?thesis using voice_inv_tasks(7) [OF assms(2)] by blast
next
  case (wake ws r v)
  then show ?thesis using voice_inv_wake [OF assms(2)] by blast
next
  case (fetched g names b v)
  then show ?thesis using voice_inv_fetched [OF assms(2)] by blast
next
  case (committed m v)
  then show ?thesis using voice_inv_tasks(6) [OF assms(2)] by blast
next
  case (dispatched xs ys v)
  then show ?thesis using voice_inv_tasks(4) [OF assms(2)] by blast
next
  case (takes_effect R)
  then show ?thesis using voice_inv_tasks(3) [OF assms(2)] by blast
next
  case (send xs ys)
  then show ?thesis using voice_inv_tasks(2) [OF assms(2)] by blast
next
  case begin_request
  then show ?thesis using voice_inv_tasks(1) [OF assms(2)] by blast
next
  case control
  then show ?thesis using voice_inv_activate [OF assms(2)] by blast
next
  case refresh
  then show ?thesis using voice_inv_request [OF assms(2)] by blast
qed

lemma voice_reach_inv:
  assumes "voice_step\<^sup>*\<^sup>* (voice_init url R) s"
  shows "voice_inv s"
  using assms
proof (induction rule: rtranclp_induct)
  case base
  show ?case by (simp add: voice_inv_defs voice_init_def new_voice_state_def)
next
  case (step s s')
  then show ?case using voice_step_inv by blast
qed

subsection \<open>The properties\<close>

lemma requires_owner_unclean:
  assumes "fst (ensure_owner ws (vs_owner_url v)) \<noteq> None" "voice_names vs \<noteq> {}"
    and "\<not> vs_hydrated v \<or> vs_dirty v \<or> vs_inflight v > 0"
  shows "fst (requires_owner ws vs over v)"
  using assms
  by (auto simp: requires_owner_def Let_def activate_def request_refresh_def split: prod.splits)

lemma requires_owner_clean:
  assumes "fst (ensure_owner ws (vs_owner_url v)) \<noteq> None"
    and "vs_hydrated v" "\<not> vs_dirty v" "vs_inflight v = 0"
  shows "fst (requires_owner ws vs over v) \<longleftrightarrow> over \<or> voice_names vs \<inter> vs_uploaded v \<noteq> {}"
  using assms
  by (auto simp: requires_owner_def Let_def activate_def request_refresh_def split: prod.splits)

text \<open>
  C31: A request that names a voice which is in the owner's registry is
  sent to the owner when there is one or one can be assigned, in every reachable state: whatever
  mutations are in flight, uncertain or half applied, and wherever the refresh task stands,
  provided every mutation takes effect at the owner while the router still counts its request
  (\<open>takes_effect\<close>; \<open>late_commit_missed\<close> below is the case of a mutation that takes effect later).
\<close>
theorem uploaded_voice_owner:
  assumes run: "voice_step\<^sup>*\<^sup>* (voice_init url R) s"
    and owner: "fst (ensure_owner ws (vs_owner_url (vw_state s))) \<noteq> None"
    and named: "voice_names vs \<inter> vw_registry s \<noteq> {}"
  shows "fst (requires_owner ws vs over (vw_state s))"
proof (cases "\<not> vs_hydrated (vw_state s) \<or> vs_dirty (vw_state s) \<or> vs_inflight (vw_state s) > 0")
  case True
  then show ?thesis using requires_owner_unclean [OF owner] named by blast
next
  case False
  with voice_reach_inv [OF run] have "vw_tasks s = []" "vs_uploaded (vw_state s) = vw_registry s"
    "vs_inflight (vw_state s) = 0" by (auto simp: voice_inv_def view_exact_def)
  then show ?thesis using requires_owner_clean [OF owner] False named by simp
qed

text \<open>
  When the health endpoint reports the registry as ready, the router's view
  is the owner's registry, and a request goes to the owner exactly if its body was too large to
  inspect or it names a voice of that registry.
\<close>
theorem ready_is_exact:
  assumes run: "voice_step\<^sup>*\<^sup>* (voice_init url R) s"
    and ready: "registry_state ws (vw_state s) = ''ready''"
  shows "vs_uploaded (vw_state s) = vw_registry s
    \<and> (fst (requires_owner ws vs over (vw_state s)) \<longleftrightarrow> over \<or> voice_names vs \<inter> vw_registry s \<noteq> {})"
proof -
  have st: "voice_owner ws (vs_owner_url (vw_state s)) \<noteq> None" "vs_hydrated (vw_state s)"
    "\<not> vs_dirty (vw_state s)" "vs_inflight (vw_state s) = 0"
    using ready by (auto simp: registry_state_def split: if_splits)
  with voice_reach_inv [OF run] have "vs_uploaded (vw_state s) = vw_registry s"
    by (auto simp: voice_inv_def view_exact_def)
  moreover have "fst (ensure_owner ws (vs_owner_url (vw_state s))) \<noteq> None"
    using st by (auto simp: ensure_owner_def)
  ultimately show ?thesis using requires_owner_clean st by simp
qed

subsection \<open>Every view recovers\<close>

definition view_clean :: "voice_world \<Rightarrow> bool" where
  "view_clean s \<longleftrightarrow> vs_hydrated (vw_state s) \<and> \<not> vs_dirty (vw_state s)
     \<and> vs_uploaded (vw_state s) = vw_registry s"

text \<open>
  The refresh task alone: it waits for its event or for its retry timer, fetches, and the owner
  answers or the fetch fails.  No request sets the event here; whether it is set when the task needs it is up to
  the operations before.
\<close>

inductive voice_task :: "worker list \<Rightarrow> voice_world \<Rightarrow> voice_world \<Rightarrow> bool" for ws where
  task_wake: "vw_loop s = Waiting \<or> vw_loop s = Retrying \<Longrightarrow> vs_refresh (vw_state s)
    \<Longrightarrow> reconcile_begin ws ((vw_state s)\<lparr>vs_refresh := False\<rparr>) = (r, v)
    \<Longrightarrow> voice_task ws s (s\<lparr>vw_state := v, vw_loop := loop_of r\<rparr>)"
| task_timer: "vw_loop s = Retrying
    \<Longrightarrow> voice_task ws s (s\<lparr>vw_state := (vw_state s)\<lparr>vs_refresh := True\<rparr>\<rparr>)"
| task_answered: "vw_loop s = Fetching g None
    \<Longrightarrow> voice_task ws s (s\<lparr>vw_loop := Fetching g (Some (vw_registry s))\<rparr>)"
| task_fetched: "vw_loop s = Fetching g (Some names) \<Longrightarrow> reconcile_end g (Inr names) (vw_state s) = (b, v)
    \<Longrightarrow> voice_task ws s (s\<lparr>vw_state := v, vw_loop := loop_of (Over b)\<rparr>)"
| task_failed: "vw_loop s = Fetching g x \<Longrightarrow> reconcile_end g (Inl e) (vw_state s) = (b, v)
    \<Longrightarrow> voice_task ws s (s\<lparr>vw_state := v, vw_loop := loop_of (Over b)\<rparr>)"

lemma task_step: "voice_task ws s s' \<Longrightarrow> voice_step s s'"
  by (induction rule: voice_task.induct) (auto intro: voice_step.intros)

lemma task_steps: "(voice_task ws)\<^sup>*\<^sup>* s s' \<Longrightarrow> voice_step\<^sup>*\<^sup>* s s'"
  by (rule mono_rtranclp [rule_format, OF task_step])

lemma task_step_keeps:
  assumes "voice_task ws s s'"
  shows "vs_active (vw_state s') = vs_active (vw_state s) \<and> vw_tasks s' = vw_tasks s \<and>
    vw_registry s' = vw_registry s \<and> vs_owner_url (vw_state s') = vs_owner_url (vw_state s)"
  using assms
  by (cases rule: voice_task.cases)
    (auto simp: reconcile_begin_def reconcile_end_def split: if_splits option.splits)

lemma task_keeps:
  assumes "(voice_task ws)\<^sup>*\<^sup>* s s'"
  shows "vs_active (vw_state s') = vs_active (vw_state s) \<and> vw_tasks s' = vw_tasks s \<and>
    vw_registry s' = vw_registry s \<and> vs_owner_url (vw_state s') = vs_owner_url (vw_state s)"
  using assms by (induction rule: rtranclp_induct) (auto dest: task_step_keeps)

text \<open>One undisturbed round: the event is set, the owner is routable and no mutation is in flight.\<close>

lemma round_cleans:
  assumes idle: "vw_loop s = Waiting \<or> vw_loop s = Retrying" and ev: "vs_refresh (vw_state s)"
    and quiet: "vs_inflight (vw_state s) = 0"
    and own: "voice_owner ws (vs_owner_url (vw_state s)) = Some i" "is_routable (ws ! i)"
  shows "\<exists>s'. (voice_task ws)\<^sup>*\<^sup>* s s' \<and> view_clean s'"
proof -
  define g where "g = vs_generation (vw_state s)"
  define v1 where "v1 = (vw_state s)\<lparr>vs_refresh := False, vs_reconciling := True\<rparr>"
  define v2 where "v2 = v1\<lparr>vs_uploaded := vw_registry s, vs_hydrated := True, vs_dirty := False,
      vs_error := None, vs_reconciling := False\<rparr>"
  let ?s1 = "s\<lparr>vw_state := v1, vw_loop := loop_of (Fetch g)\<rparr>"
  let ?s2 = "?s1\<lparr>vw_loop := Fetching g (Some (vw_registry ?s1))\<rparr>"
  let ?s3 = "?s2\<lparr>vw_state := v2, vw_loop := loop_of (Over False)\<rparr>"
  have 1: "voice_task ws s ?s1"
    by (rule voice_task.task_wake [OF idle ev])
      (simp add: reconcile_begin_def quiet own g_def v1_def)
  have 2: "voice_task ws ?s1 ?s2" by (rule voice_task.task_answered) (simp add: loop_of_def)
  have 3: "voice_task ws ?s2 ?s3"
    by (rule voice_task.task_fetched [of _ g "vw_registry s"])
      (simp_all add: reconcile_end_def v1_def v2_def g_def quiet)
  have "(voice_task ws)\<^sup>*\<^sup>* s ?s3"
    using 1 2 3 by (meson converse_rtranclp_into_rtranclp rtranclp.rtrancl_refl)
  moreover have "view_clean ?s3" by (simp add: view_clean_def v2_def)
  ultimately show ?thesis by blast
qed

lemma retry_cleans:
  assumes "vw_loop s = Retrying" "vs_inflight (vw_state s) = 0"
    "voice_owner ws (vs_owner_url (vw_state s)) = Some i" "is_routable (ws ! i)"
  shows "\<exists>s'. (voice_task ws)\<^sup>*\<^sup>* s s' \<and> view_clean s'"
proof -
  let ?s = "s\<lparr>vw_state := (vw_state s)\<lparr>vs_refresh := True\<rparr>\<rparr>"
  have "voice_task ws s ?s" by (rule voice_task.task_timer) (rule assms)
  moreover have "\<exists>s'. (voice_task ws)\<^sup>*\<^sup>* ?s s' \<and> view_clean s'"
    by (rule round_cleans) (use assms in simp_all)
  ultimately show ?thesis by (auto intro: converse_rtranclp_into_rtranclp)
qed

lemma fetch_ends:
  assumes "vw_loop s = Fetching g r" "vs_inflight (vw_state s) = 0"
  shows "\<exists>s'. (voice_task ws)\<^sup>*\<^sup>* s s' \<and> vw_loop s' = Retrying
    \<and> vs_inflight (vw_state s') = 0 \<and> vs_owner_url (vw_state s') = vs_owner_url (vw_state s)"
proof -
  let ?v = "(vw_state s)\<lparr>vs_error := Some ''e'', vs_reconciling := False\<rparr>"
  let ?s = "s\<lparr>vw_state := ?v, vw_loop := loop_of (Over True)\<rparr>"
  have "voice_task ws s ?s" by (rule voice_task.task_failed [OF assms(1)]) (simp add: reconcile_end_def)
  then show ?thesis using assms(2) by (intro exI [of _ ?s]) (auto simp: loop_of_def)
qed

lemma task_recovers:
  assumes inv: "voice_inv s" and active: "vs_active (vw_state s)" and quiet: "vw_tasks s = []"
    and own: "voice_owner ws (vs_owner_url (vw_state s)) = Some i" "is_routable (ws ! i)"
  shows "\<exists>s'. (voice_task ws)\<^sup>*\<^sup>* s s' \<and> view_clean s'"
proof -
  have n: "vs_inflight (vw_state s) = 0" using inv quiet by (simp add: voice_inv_def)
  show ?thesis
  proof (cases "vw_loop s")
    case Retrying
    from retry_cleans [OF this n own] show ?thesis .
  next
    case (Fetching g r)
    from fetch_ends [OF this n] obtain s1 where s1: "(voice_task ws)\<^sup>*\<^sup>* s s1"
      "vw_loop s1 = Retrying" "vs_inflight (vw_state s1) = 0"
      "vs_owner_url (vw_state s1) = vs_owner_url (vw_state s)" by blast
    have "voice_owner ws (vs_owner_url (vw_state s1)) = Some i" using own s1(4) by simp
    from retry_cleans [OF s1(2,3) this own(2)] obtain s2 where
      "(voice_task ws)\<^sup>*\<^sup>* s1 s2" "view_clean s2" by blast
    with s1(1) show ?thesis by (blast intro: rtranclp_trans)
  next
    case Waiting
    show ?thesis
    proof (cases "vs_hydrated (vw_state s) \<and> \<not> vs_dirty (vw_state s)")
      case True
      then have "view_clean s"
        using inv quiet by (simp add: voice_inv_def view_exact_def view_clean_def)
      then show ?thesis by blast
    next
      case False
      then have "vs_refresh (vw_state s)"
        using inv active quiet Waiting by (simp add: voice_inv_def refresh_coming_def)
      from round_cleans [OF _ this n own] Waiting show ?thesis by blast
    qed
  qed
qed

text \<open>
  C32: Take a reachable state in which the view is active, no mutation is in flight and the
  owner is routable.  However far the refresh task gets from there, with fetches that fail or are answered,
  steps of the task alone (its event as the operations left it, its timer, its fetch, the answer of
  the owner) lead to the exact view of an unchanged registry: no operation has lost the refresh the view needs,
  and no failed fetch leaves the task waiting for a refresh nobody requests.
\<close>
theorem refresh_recovers:
  assumes run: "voice_step\<^sup>*\<^sup>* (voice_init url R) s"
    and active: "vs_active (vw_state s)" and quiet: "vw_tasks s = []"
    and own: "voice_owner ws (vs_owner_url (vw_state s)) = Some i" "is_routable (ws ! i)"
    and on: "(voice_task ws)\<^sup>*\<^sup>* s s1"
  shows "\<exists>s'. (voice_task ws)\<^sup>*\<^sup>* s1 s' \<and> vw_registry s' = vw_registry s \<and> view_clean s'"
proof -
  note keeps = task_keeps [OF on]
  have "voice_inv s1" by (rule voice_reach_inv [OF rtranclp_trans [OF run task_steps [OF on]]])
  from task_recovers [OF this] keeps active quiet own obtain s' where
    "(voice_task ws)\<^sup>*\<^sup>* s1 s'" "view_clean s'" by metis
  with task_keeps [OF this(1)] keeps show ?thesis by (intro exI [of _ s']) simp
qed

subsection \<open>Concrete runs\<close>

definition owner_worker :: worker where
  "owner_worker = (new_worker \<lparr>cfg_url = ''u'', cfg_model = None,
     cfg_capabilities = [''speech'', ''audio_input'']\<rparr> ''i'')\<lparr>w_state := Healthy\<rparr>"

lemma owner_worker_facts [simp]:
  "worker_url owner_worker = ''u''" "is_routable owner_worker"
  by (simp_all add: owner_worker_def new_worker_def worker_url_def is_routable_def is_healthy_def)

definition pending_world :: voice_world where
  "pending_world = (voice_init (Some ''u'') {''ann''})
     \<lparr>vw_state := activate (new_voice_state (Some ''u''))\<rparr>"

lemma pending_reached: "voice_step\<^sup>*\<^sup>* (voice_init (Some ''u'') {''ann''}) pending_world"
  using voice_step.control [of "voice_init (Some ''u'') {''ann''}"]
  by (simp add: pending_world_def voice_init_def r_into_rtranclp)

lemma demo_names: "voice_names ['' Ann ''] = {''ann''}"
  by code_simp

theorem uploaded_voice_owner_witness:
  "fst (requires_owner [owner_worker] ['' Ann ''] False (vw_state pending_world))"
proof (rule uploaded_voice_owner [OF pending_reached])
  show "fst (ensure_owner [owner_worker] (vs_owner_url (vw_state pending_world))) \<noteq> None"
    by (simp add: pending_world_def activate_def request_refresh_def new_voice_state_def
        ensure_owner_def voice_owner_def)
  show "voice_names ['' Ann ''] \<inter> vw_registry pending_world \<noteq> {}"
    by (simp add: demo_names pending_world_def voice_init_def)
qed

text \<open>A first fetch that fails.\<close>

definition failed_world :: voice_world where
  "failed_world = pending_world\<lparr>vw_state := (vw_state pending_world)\<lparr>vs_error := Some ''e'', vs_refresh := False\<rparr>, vw_loop := Retrying\<rparr>"

lemma failed_reached: "(voice_task [owner_worker])\<^sup>*\<^sup>* pending_world failed_world"
proof -
  let ?v1 = "(vw_state pending_world)\<lparr>vs_refresh := False, vs_reconciling := True\<rparr>"
  let ?s1 = "pending_world\<lparr>vw_state := ?v1, vw_loop := loop_of (Fetch 0)\<rparr>"
  note evals = pending_world_def failed_world_def voice_init_def activate_def request_refresh_def new_voice_state_def
    voice_owner_def loop_of_def
  have "voice_task [owner_worker] pending_world ?s1"
    by (rule voice_task.task_wake) (simp_all add: evals reconcile_begin_def)
  moreover have "voice_task [owner_worker] ?s1 (?s1\<lparr>vw_state := vw_state failed_world, vw_loop := loop_of (Over True)\<rparr>)"
    by (rule voice_task.task_failed [of _ 0 None]) (simp_all add: evals reconcile_end_def)
  moreover have "?s1\<lparr>vw_state := vw_state failed_world, vw_loop := loop_of (Over True)\<rparr> = failed_world"
    by (simp add: evals)
  ultimately show ?thesis by (metis rtranclp.rtrancl_into_rtrancl rtranclp.rtrancl_refl)
qed

theorem refresh_recovers_witness:
  "\<exists>s'. (voice_task [owner_worker])\<^sup>*\<^sup>* failed_world s' \<and> vw_registry s' = {''ann''} \<and> view_clean s'"
proof -
  have "vw_registry pending_world = {''ann''}" by (simp add: pending_world_def voice_init_def)
  moreover have "vs_active (vw_state pending_world)" "vw_tasks pending_world = []"
    "voice_owner [owner_worker] (vs_owner_url (vw_state pending_world)) = Some 0"
    "is_routable ([owner_worker] ! 0)"
    by (simp_all add: pending_world_def voice_init_def activate_def request_refresh_def
        new_voice_state_def voice_owner_def)
  note refresh_recovers [OF pending_reached this failed_reached]
  ultimately show ?thesis by simp
qed

definition ready_world :: voice_world where
  "ready_world = \<lparr>vw_state = \<lparr>vs_owner_url = Some ''u'', vs_uploaded = {''ann''}, vs_active = True,
      vs_hydrated = True, vs_dirty = False, vs_reconciling = False, vs_inflight = 0, vs_error = None,
      vs_generation = 0, vs_refresh = False\<rparr>,
     vw_registry = {''ann''}, vw_tasks = [], vw_loop = Waiting\<rparr>"

lemma ready_reached: "voice_step\<^sup>*\<^sup>* (voice_init (Some ''u'') {''ann''}) ready_world"
proof -
  let ?v1 = "(vw_state pending_world)\<lparr>vs_refresh := False, vs_reconciling := True\<rparr>"
  let ?s1 = "pending_world\<lparr>vw_state := ?v1, vw_loop := loop_of (Fetch 0)\<rparr>"
  let ?s2 = "?s1\<lparr>vw_loop := Fetching 0 (Some (vw_registry ?s1))\<rparr>"
  note evals = pending_world_def voice_init_def activate_def request_refresh_def new_voice_state_def
    voice_owner_def loop_of_def ready_world_def
  have 1: "voice_step pending_world ?s1"
    by (rule voice_step.wake [of _ "[owner_worker]"]) (simp_all add: evals reconcile_begin_def)
  have 2: "voice_step ?s1 ?s2" by (rule voice_step.answered) (simp add: loop_of_def)
  have "voice_step ?s2 (?s2\<lparr>vw_state := vw_state ready_world, vw_loop := loop_of (Over False)\<rparr>)"
    by (rule voice_step.fetched [of _ 0 "{''ann''}"]) (simp_all add: evals reconcile_end_def)
  moreover have "?s2\<lparr>vw_state := vw_state ready_world, vw_loop := loop_of (Over False)\<rparr> = ready_world"
    by (simp add: evals)
  ultimately have 3: "voice_step ?s2 ready_world" by simp
  from pending_reached 1 2 3 show ?thesis by (meson rtranclp.rtrancl_into_rtrancl)
qed

theorem ready_is_exact_witness:
  "fst (requires_owner [owner_worker] ['' Ann ''] False (vw_state ready_world))
   \<and> \<not> fst (requires_owner [owner_worker] [''bob''] False (vw_state ready_world))"
proof -
  have r: "registry_state [owner_worker] (vw_state ready_world) = ''ready''"
    by (simp add: registry_state_def ready_world_def voice_owner_def)
  have "voice_names [''bob''] = {''bob''}" by code_simp
  with ready_is_exact [OF ready_reached r, of "['' Ann '']" False]
    ready_is_exact [OF ready_reached r, of "[''bob'']" False]
  show ?thesis by (simp add: demo_names) (simp add: ready_world_def)
qed

text \<open>
  The assumption at work.  A client uploads a voice and disconnects: the router marks the outcome
  uncertain, ends the mutation and refreshes at once; the owner answers before it has stored the
  voice.  From then on the view is clean and reported ready, and a request for the voice is not
  held for its owner although the registry has it.
\<close>
lemma late_commit_missed:
  fixes s defines "s \<equiv> ready_world\<lparr>vw_state := (vw_state ready_world)\<lparr>vs_uploaded := {}\<rparr>, vw_registry := {}\<rparr>"
  shows "\<exists>v1 v2 v3. end_mutation (mark_uncertain (begin_mutation (vw_state s))) = Inr v1
    \<and> reconcile_begin [owner_worker] (v1\<lparr>vs_refresh := False\<rparr>) = (Fetch 1, v2)
    \<and> reconcile_end 1 (Inr {}) v2 = (False, v3)
    \<and> registry_state [owner_worker] v3 = ''ready''
    \<and> \<not> fst (requires_owner [owner_worker] ['' Ann ''] False v3)"
  by (simp add: s_def ready_world_def begin_mutation_def mark_uncertain_def end_mutation_def Let_def
      reconcile_begin_def reconcile_end_def registry_state_def voice_owner_def requires_owner_def
      ensure_owner_def demo_names activate_def)

end
