(* ===== verification/Stage_Cache.thy ===== *)
theory Stage_Cache
  imports Py_Value
begin

section \<open>Caches of stage outputs and speaker artifacts\<close>

text \<open>
  Models \<open>sglang_omni/scheduling/stage_cache.py\<close> and \<open>speaker_cache.py\<close>.  An \<open>OrderedDict\<close> is an
  association list, least recently used first.  A tensor is its number of elements, the size of
  one, its device and whether it is attached to a graph; where the source compares objects with
  \<open>is\<close>, an entry carries the identity of the stored object, which its caller supplies.  Every
  operation holds the cache's lock throughout, except that \<open>remove_if\<close> chooses the keys in one
  critical section and deletes them in a second one, \<open>drop_keys\<close>, which takes any keys in any state.
  A stored value is not Python's None.
\<close>

subsection \<open>Values\<close>

datatype cache_value =
    Tensor nat nat string bool
  | Bytes nat
  | Mapping "(string \<times> cache_value) list"
  | Sequence "cache_value list"
  | Opaque nat

text \<open>\<open>_detach_value\<close> and \<open>_value_size_bytes\<close>.\<close>

fun detach_value :: "string option \<Rightarrow> cache_value \<Rightarrow> cache_value" where
  "detach_value dev (Tensor n e d a) = Tensor n e (case dev of None \<Rightarrow> d | Some d' \<Rightarrow> d') False"
| "detach_value dev (Mapping kvs) = Mapping (map (\<lambda>(k, v). (k, detach_value dev v)) kvs)"
| "detach_value dev (Sequence vs) = Sequence (map (detach_value dev) vs)"
| "detach_value dev v = v"

fun value_size_bytes :: "cache_value \<Rightarrow> int" where
  "value_size_bytes (Tensor n e d a) = int (n * e)"
| "value_size_bytes (Bytes n) = int n"
| "value_size_bytes (Mapping kvs) = sum_list (map (\<lambda>(k, v). value_size_bytes v) kvs)"
| "value_size_bytes (Sequence vs) = sum_list (map value_size_bytes vs)"
| "value_size_bytes (Opaque n) = 0"

subsection \<open>The LRU cache\<close>

record cache_entry =
  ce_data :: cache_value
  ce_object :: nat
  ce_size :: int

record stage_cache =
  sc_entries :: "(string \<times> cache_entry) list"
  sc_max_size :: "int option"
  sc_max_bytes :: "int option"
  sc_device :: "string option"
  sc_current_bytes :: int
  sc_evictions :: int

definition new_stage_cache :: "int option \<Rightarrow> int option \<Rightarrow> string option \<Rightarrow> stage_cache res" where
  "new_stage_cache max_size max_bytes dev =
     (if (case max_size of None \<Rightarrow> False | Some n \<Rightarrow> n < 0)
         \<or> (case max_bytes of None \<Rightarrow> False | Some n \<Rightarrow> n < 0)
      then Inl ValueError
      else Inr \<lparr>sc_entries = [], sc_max_size = max_size, sc_max_bytes = max_bytes, sc_device = dev,
                sc_current_bytes = 0, sc_evictions = 0\<rparr>)"

definition move_to_end :: "string \<Rightarrow> (string \<times> 'e) list \<Rightarrow> (string \<times> 'e) list" where
  "move_to_end k es =
     (case map_of es k of None \<Rightarrow> es | Some e \<Rightarrow> filter (\<lambda>(k', _). k' \<noteq> k) es @ [(k, e)])"

definition cache_get :: "string option \<Rightarrow> stage_cache \<Rightarrow> (cache_value \<times> nat) option \<times> stage_cache" where
  "cache_get key c =
     (case key of
        None \<Rightarrow> (None, c)
      | Some k \<Rightarrow>
          (case map_of (sc_entries c) k of
             None \<Rightarrow> (None, c)
           | Some e \<Rightarrow> (Some (ce_data e, ce_object e), c\<lparr>sc_entries := move_to_end k (sc_entries c)\<rparr>)))"

text \<open>\<open>popitem(last=False)\<close> and the two loops of \<open>_evict_over_budget\<close>.\<close>

definition over_size :: "int option \<Rightarrow> 'e list \<Rightarrow> bool" where
  "over_size m es \<longleftrightarrow> (case m of None \<Rightarrow> False | Some n \<Rightarrow> int (length es) > n)"

definition over_bytes :: "int option \<Rightarrow> int \<Rightarrow> bool" where
  "over_bytes m b \<longleftrightarrow> (case m of None \<Rightarrow> False | Some n \<Rightarrow> b > n)"

fun evict_size ::
    "int option \<Rightarrow> (string \<times> cache_entry) list \<Rightarrow> int \<Rightarrow> int \<Rightarrow> (string \<times> cache_entry) list \<times> int \<times> int" where
  "evict_size m [] b n = ([], b, n)"
| "evict_size m ((k, e) # es) b n =
     (if over_size m ((k, e) # es) then evict_size m es (b - ce_size e) (n + 1) else ((k, e) # es, b, n))"

fun evict_bytes ::
    "int option \<Rightarrow> (string \<times> cache_entry) list \<Rightarrow> int \<Rightarrow> int \<Rightarrow> (string \<times> cache_entry) list \<times> int \<times> int" where
  "evict_bytes m [] b n = (if over_bytes m b then ([], 0, n) else ([], b, n))"
| "evict_bytes m ((k, e) # es) b n =
     (if over_bytes m b then evict_bytes m es (b - ce_size e) (n + 1) else ((k, e) # es, b, n))"

definition evict_over_budget :: "stage_cache \<Rightarrow> stage_cache" where
  "evict_over_budget c =
     (case evict_size (sc_max_size c) (sc_entries c) (sc_current_bytes c) (sc_evictions c) of
        (es, b, n) \<Rightarrow>
          (case evict_bytes (sc_max_bytes c) es b n of
             (es', b', n') \<Rightarrow> c\<lparr>sc_entries := es', sc_current_bytes := b', sc_evictions := n'\<rparr>))"

text \<open>\<open>pop(key, None)\<close> with the subtraction of its size.\<close>

definition cache_drop :: "string \<Rightarrow> stage_cache \<Rightarrow> stage_cache" where
  "cache_drop k c =
     (case map_of (sc_entries c) k of
        None \<Rightarrow> c
      | Some e \<Rightarrow> c\<lparr>sc_entries := filter (\<lambda>(k', _). k' \<noteq> k) (sc_entries c),
                    sc_current_bytes := sc_current_bytes c - ce_size e\<rparr>)"

definition cache_put ::
    "(cache_value \<Rightarrow> int) \<Rightarrow> string option \<Rightarrow> cache_value \<Rightarrow> nat \<Rightarrow> stage_cache \<Rightarrow> stage_cache" where
  "cache_put size_fn key data obj c =
     (case key of
        None \<Rightarrow> c
      | Some k \<Rightarrow>
          let size = size_fn data; c1 = cache_drop k c in
          if over_bytes (sc_max_bytes c1) size then c1
          else evict_over_budget
                 (c1\<lparr>sc_entries := sc_entries c1
                       @ [(k, \<lparr>ce_data = detach_value (sc_device c1) data, ce_object = obj, ce_size = size\<rparr>)],
                     sc_current_bytes := sc_current_bytes c1 + size\<rparr>))"

definition cache_clear :: "stage_cache \<Rightarrow> stage_cache" where
  "cache_clear c = c\<lparr>sc_entries := [], sc_current_bytes := 0\<rparr>"

definition cache_remove_if_same :: "string option \<Rightarrow> nat \<Rightarrow> stage_cache \<Rightarrow> bool \<times> stage_cache" where
  "cache_remove_if_same key obj c =
     (case key of
        None \<Rightarrow> (False, c)
      | Some k \<Rightarrow>
          (case map_of (sc_entries c) k of
             None \<Rightarrow> (False, c)
           | Some e \<Rightarrow> if ce_object e \<noteq> obj then (False, c) else (True, cache_drop k c)))"

text \<open>The second pass of \<open>remove_if\<close> over the keys the predicate chose.\<close>

fun drop_keys :: "string list \<Rightarrow> int \<Rightarrow> stage_cache \<Rightarrow> int \<times> stage_cache" where
  "drop_keys [] n c = (n, c)"
| "drop_keys (k # ks) n c =
     (if map_of (sc_entries c) k = None then drop_keys ks n c else drop_keys ks (n + 1) (cache_drop k c))"

definition cache_remove_if :: "(string \<Rightarrow> bool) \<Rightarrow> stage_cache \<Rightarrow> int \<times> stage_cache" where
  "cache_remove_if P c = drop_keys (filter P (map fst (sc_entries c))) 0 c"

subsection \<open>The speaker-artifact cache\<close>

record speaker_key =
  sk_model_type :: string
  sk_voice_name :: string
  sk_voice_version :: int
  sk_artifact_kind :: string

definition KEY_SEPARATOR :: char where
  "KEY_SEPARATOR = CHR 0x1F"

definition show_int :: "int \<Rightarrow> string" where
  "show_int n = (if n < 0 then ''-'' @ show_nat (nat (- n)) else show_nat (nat n))"

definition encode_key :: "speaker_key \<Rightarrow> string" where
  "encode_key k =
     sk_model_type k @ [KEY_SEPARATOR] @ sk_voice_name k @ [KEY_SEPARATOR]
       @ show_int (sk_voice_version k) @ [KEY_SEPARATOR] @ sk_artifact_kind k"

text \<open>\<open>str.split(sep, maxsplit)\<close> for a one-character separator.\<close>

fun py_split :: "char \<Rightarrow> nat \<Rightarrow> string \<Rightarrow> string list" where
  "py_split sep 0 s = [s]"
| "py_split sep (Suc n) s =
     (case dropWhile (\<lambda>c. c \<noteq> sep) s of
        [] \<Rightarrow> [s]
      | _ # rest \<Rightarrow> takeWhile (\<lambda>c. c \<noteq> sep) s # py_split sep n rest)"

definition encoded_key_voice_name :: "string \<Rightarrow> string" where
  "encoded_key_voice_name s =
     (let parts = py_split KEY_SEPARATOR 3 s in if length parts = 4 then parts ! 1 else '''')"

record speaker_cache =
  sp_cache :: stage_cache
  sp_hits :: int
  sp_misses :: int
  sp_invalidations :: int

definition new_speaker_cache :: "int \<Rightarrow> speaker_cache res" where
  "new_speaker_cache max_bytes =
     (if max_bytes \<le> 0 then Inl ValueError
      else bindE (new_stage_cache None (Some max_bytes) None) (\<lambda>c.
        Inr \<lparr>sp_cache = c, sp_hits = 0, sp_misses = 0, sp_invalidations = 0\<rparr>))"

definition speaker_get :: "speaker_key \<Rightarrow> speaker_cache \<Rightarrow> (cache_value \<times> nat) option \<times> speaker_cache" where
  "speaker_get key s =
     (case cache_get (Some (encode_key key)) (sp_cache s) of
        (None, c) \<Rightarrow> (None, s\<lparr>sp_cache := c, sp_misses := sp_misses s + 1\<rparr>)
      | (Some v, c) \<Rightarrow> (Some v, s\<lparr>sp_cache := c, sp_hits := sp_hits s + 1\<rparr>))"

definition speaker_put ::
    "(cache_value \<Rightarrow> int) \<Rightarrow> speaker_key \<Rightarrow> cache_value \<Rightarrow> nat \<Rightarrow> speaker_cache \<Rightarrow> speaker_cache" where
  "speaker_put size_fn key v obj s =
     s\<lparr>sp_cache := cache_put size_fn (Some (encode_key key)) v obj (sp_cache s)\<rparr>"

definition clear_voice :: "string \<Rightarrow> speaker_cache \<Rightarrow> speaker_cache" where
  "clear_voice voice s =
     (case cache_remove_if (\<lambda>k. map lower_char (encoded_key_voice_name k) = map lower_char voice)
             (sp_cache s) of
        (n, c) \<Rightarrow> s\<lparr>sp_cache := c, sp_invalidations := sp_invalidations s + n\<rparr>)"

definition speaker_clear :: "speaker_cache \<Rightarrow> speaker_cache" where
  "speaker_clear s = s\<lparr>sp_cache := cache_clear (sp_cache s)\<rparr>"

record speaker_stats =
  st_entries :: nat
  st_memory_bytes :: int
  st_hits :: int
  st_misses :: int
  st_evictions :: int
  st_invalidations :: int

definition speaker_stats_of :: "speaker_cache \<Rightarrow> speaker_stats" where
  "speaker_stats_of s =
     \<lparr>st_entries = length (sc_entries (sp_cache s)), st_memory_bytes = sc_current_bytes (sp_cache s),
      st_hits = sp_hits s, st_misses = sp_misses s, st_evictions = sc_evictions (sp_cache s),
      st_invalidations = sp_invalidations s\<rparr>"

end
