(* ===== verification/Stage_Cache_Props.thy ===== *)
theory Stage_Cache_Props
  imports Stage_Cache
begin

section \<open>The caches keep to their budgets\<close>

text \<open>
  Whatever operations ran, the byte count of a cache is that of its entries and both limits hold;
  a put evicts the least recently used entries and no more of them than it must; and the
  speaker cache, a client of the contract \<open>keyed_store\<close>, invalidates exactly the artifacts of
  a voice.
\<close>

subsection \<open>Entries and their sizes\<close>

definition total_size :: "(string \<times> cache_entry) list \<Rightarrow> int" where
  "total_size es = sum_list (map (ce_size \<circ> snd) es)"

lemma total_size_simps [simp]:
  "total_size [] = 0" "total_size (p # es) = ce_size (snd p) + total_size es"
  "total_size (es @ fs) = total_size es + total_size fs"
  by (simp_all add: total_size_def)

definition sizes_ok :: "(string \<times> cache_entry) list \<Rightarrow> bool" where
  "sizes_ok es \<longleftrightarrow> distinct (map fst es) \<and> (\<forall>p \<in> set es. 0 \<le> ce_size (snd p))"

lemma sizes_ok_drop: "sizes_ok es \<Longrightarrow> sizes_ok (drop j es)"
  by (auto simp: sizes_ok_def drop_map [symmetric] dest: in_set_dropD)

lemma total_size_nonneg: "sizes_ok es \<Longrightarrow> 0 \<le> total_size es"
  unfolding total_size_def by (rule sum_list_nonneg) (auto simp: sizes_ok_def)

abbreviation without :: "string \<Rightarrow> (string \<times> 'e) list \<Rightarrow> (string \<times> 'e) list" where
  "without k es \<equiv> filter (\<lambda>(k', _). k' \<noteq> k) es"

lemma without_absent: "k \<notin> fst ` set es \<Longrightarrow> without k es = es"
  by (induction es) auto

lemma total_size_without:
  "distinct (map fst es) \<Longrightarrow> map_of es k = Some e \<Longrightarrow> total_size (without k es) = total_size es - ce_size e"
  by (induction es) (auto simp: without_absent)

lemma distinct_without_key: "distinct (map fst es) \<Longrightarrow> distinct (map fst (without k es))"
  by (induction es) auto

lemma without_not_in [simp]: "k \<notin> fst ` set (without k es)"
  by auto

lemma map_of_without: "map_of (without k es) k' = (if k' = k then None else map_of es k')"
  by (induction es) auto

subsection \<open>The invariant\<close>

definition cache_wf :: "stage_cache \<Rightarrow> bool" where
  "cache_wf c \<longleftrightarrow> sizes_ok (sc_entries c) \<and> sc_current_bytes c = total_size (sc_entries c)
     \<and> \<not> over_size (sc_max_size c) (sc_entries c) \<and> \<not> over_bytes (sc_max_bytes c) (sc_current_bytes c)
     \<and> (case sc_max_bytes c of None \<Rightarrow> True | Some n \<Rightarrow> 0 \<le> n)"

text \<open>Each loop drops a prefix, and stops at the first point where its limit holds.\<close>

lemma evict_size_prefix:
  "\<exists>j \<le> length es. evict_size m es b n = (drop j es, b - total_size (take j es), n + int j)
     \<and> (\<forall>i < j. over_size m (drop i es)) \<and> (drop j es = [] \<or> \<not> over_size m (drop j es))"
proof (induction es arbitrary: b n)
  case (Cons p es)
  obtain k e where p: "p = (k, e)" by (cases p)
  show ?case
  proof (cases "over_size m (p # es)")
    case True
    from Cons.IH [of "b - ce_size e" "n + 1"] obtain j where
      j: "j \<le> length es" "evict_size m es (b - ce_size e) (n + 1)
        = (drop j es, b - ce_size e - total_size (take j es), n + 1 + int j)"
      "\<forall>i < j. over_size m (drop i es)" "drop j es = [] \<or> \<not> over_size m (drop j es)" by blast
    have "\<forall>i < Suc j. over_size m (drop i (p # es))"
      using j(3) True by (simp add: All_less_Suc2)
    then show ?thesis using j True by (intro exI [of _ "Suc j"]) (simp add: p)
  qed (simp add: p exI [of _ 0])
qed (simp add: exI [of _ 0])

lemma evict_bytes_prefix:
  assumes "b = total_size es" "\<not> over_bytes m 0"
  shows "\<exists>j \<le> length es. evict_bytes m es b n = (drop j es, total_size (drop j es), n + int j)
     \<and> (\<forall>i < j. over_bytes m (total_size (drop i es))) \<and> \<not> over_bytes m (total_size (drop j es))"
  using assms
proof (induction es arbitrary: b n)
  case (Cons p es)
  obtain k e where p: "p = (k, e)" by (cases p)
  show ?case
  proof (cases "over_bytes m b")
    case True
    from Cons.IH [of "b - ce_size e" "n + 1"] Cons.prems obtain j where
      j: "j \<le> length es" "evict_bytes m es (b - ce_size e) (n + 1)
        = (drop j es, total_size (drop j es), n + 1 + int j)"
      "\<forall>i < j. over_bytes m (total_size (drop i es))" "\<not> over_bytes m (total_size (drop j es))"
      by (auto simp: p)
    have "\<forall>i < Suc j. over_bytes m (total_size (drop i (p # es)))"
      using j(3) True Cons.prems(1) by (simp add: All_less_Suc2)
    then show ?thesis using j True by (intro exI [of _ "Suc j"]) (simp add: p)
  next
    case False
    then show ?thesis using Cons.prems by (intro exI [of _ 0]) (simp add: p)
  qed
qed (simp add: exI [of _ 0])

lemma over_size_mono: "\<not> over_size m es \<Longrightarrow> \<not> over_size m (drop j es)"
  by (auto simp: over_size_def split: option.splits)

text \<open>Together: the shortest prefix after which both limits hold.\<close>

lemma evict_over_budget_prefix:
  assumes b: "sc_current_bytes c = total_size (sc_entries c)" and m: "\<not> over_bytes (sc_max_bytes c) 0"
    and s: "\<not> over_size (sc_max_size c) ([] :: (string \<times> cache_entry) list)"
  shows "\<exists>j \<le> length (sc_entries c). evict_over_budget c
      = c\<lparr>sc_entries := drop j (sc_entries c), sc_current_bytes := total_size (drop j (sc_entries c)),
          sc_evictions := sc_evictions c + int j\<rparr>
    \<and> (\<forall>i < j. over_size (sc_max_size c) (drop i (sc_entries c))
          \<or> over_bytes (sc_max_bytes c) (total_size (drop i (sc_entries c))))
    \<and> \<not> over_size (sc_max_size c) (drop j (sc_entries c))
    \<and> \<not> over_bytes (sc_max_bytes c) (total_size (drop j (sc_entries c)))"
proof -
  let ?es = "sc_entries c"
  from evict_size_prefix [of ?es "sc_max_size c" "sc_current_bytes c" "sc_evictions c"] obtain j1 where
    1: "j1 \<le> length ?es" "evict_size (sc_max_size c) ?es (sc_current_bytes c) (sc_evictions c)
      = (drop j1 ?es, sc_current_bytes c - total_size (take j1 ?es), sc_evictions c + int j1)"
    "\<forall>i < j1. over_size (sc_max_size c) (drop i ?es)"
    "drop j1 ?es = [] \<or> \<not> over_size (sc_max_size c) (drop j1 ?es)" by blast
  have tot: "sc_current_bytes c - total_size (take j1 ?es) = total_size (drop j1 ?es)"
    unfolding b by (metis add_diff_cancel_left' append_take_drop_id total_size_simps(3))
  from evict_bytes_prefix [OF refl m, of "drop j1 ?es" "sc_evictions c + int j1"] obtain j2 where
    2: "j2 \<le> length (drop j1 ?es)" "evict_bytes (sc_max_bytes c) (drop j1 ?es) (total_size (drop j1 ?es))
        (sc_evictions c + int j1)
      = (drop j2 (drop j1 ?es), total_size (drop j2 (drop j1 ?es)), sc_evictions c + int j1 + int j2)"
    "\<forall>i < j2. over_bytes (sc_max_bytes c) (total_size (drop i (drop j1 ?es)))"
    "\<not> over_bytes (sc_max_bytes c) (total_size (drop j2 (drop j1 ?es)))" by blast
  have before: "over_size (sc_max_size c) (drop i ?es) \<or> over_bytes (sc_max_bytes c) (total_size (drop i ?es))"
    if "i < j2 + j1" for i
  proof (cases "i < j1")
    case False
    with that 2(3) show ?thesis by (auto simp: drop_drop dest: spec [of _ "i - j1"])
  qed (use 1(3) in blast)
  have "\<not> over_size (sc_max_size c) (drop j1 ?es)" using 1(4) s by auto
  from over_size_mono [OF this, of j2] 1(1,2) 2(1,2,4) tot before show ?thesis
    by (intro exI [of _ "j2 + j1"]) (simp add: evict_over_budget_def drop_drop)
qed

subsection \<open>Every operation keeps it\<close>

lemma cache_wfD:
  assumes "cache_wf c"
  shows "sizes_ok (sc_entries c)" "sc_current_bytes c = total_size (sc_entries c)"
    "\<not> over_size (sc_max_size c) (sc_entries c)" "\<not> over_bytes (sc_max_bytes c) (total_size (sc_entries c))"
    "case sc_max_bytes c of None \<Rightarrow> True | Some n \<Rightarrow> 0 \<le> n" "\<not> over_bytes (sc_max_bytes c) (sc_current_bytes c)"
  using assms unfolding cache_wf_def by auto

lemma cache_wf_limits:
  assumes "cache_wf c"
  shows "\<not> over_bytes (sc_max_bytes c) 0" "\<not> over_size (sc_max_size c) ([] :: (string \<times> cache_entry) list)"
  using assms by (auto simp: cache_wf_def over_bytes_def over_size_def split: option.splits)

lemma over_bytes_mono: "\<not> over_bytes m b \<Longrightarrow> b' \<le> b \<Longrightarrow> \<not> over_bytes m b'"
  by (auto simp: over_bytes_def split: option.splits)

lemma sizes_ok_without: "sizes_ok es \<Longrightarrow> sizes_ok (without k es)"
  by (auto simp: sizes_ok_def distinct_without_key)

lemma over_size_filter: "\<not> over_size m es \<Longrightarrow> \<not> over_size m (filter P es)"
proof -
  assume "\<not> over_size m es"
  moreover have "int (length es) \<le> n \<Longrightarrow> int (length (filter P es)) \<le> n" for n
    using length_filter_le [of P es] by linarith
  ultimately show ?thesis by (auto simp: over_size_def not_less split: option.splits)
qed

lemma cache_wf_drop:
  assumes wf: "cache_wf c"
  shows "cache_wf (cache_drop k c)"
proof (cases "map_of (sc_entries c) k")
  case (Some e)
  then have "ce_size e \<ge> 0" and t: "total_size (without k (sc_entries c)) = total_size (sc_entries c) - ce_size e"
    using wf total_size_without by (auto simp: cache_wf_def sizes_ok_def dest!: map_of_SomeD)
  moreover have "sizes_ok (without k (sc_entries c))" "\<not> over_size (sc_max_size c) (without k (sc_entries c))"
    "\<not> over_bytes (sc_max_bytes c) (total_size (sc_entries c) - ce_size e)"
    using sizes_ok_without [OF cache_wfD(1) [OF wf]] over_size_filter [OF cache_wfD(3) [OF wf]]
      over_bytes_mono [OF cache_wfD(4) [OF wf], of "total_size (sc_entries c) - ce_size e"]
      \<open>ce_size e \<ge> 0\<close> by auto
  ultimately show ?thesis using cache_wfD [OF wf] Some by (simp add: cache_wf_def cache_drop_def t)
qed (simp add: cache_drop_def wf)

lemma cache_drop_facts:
  assumes "cache_wf c"
  shows "sc_entries (cache_drop k c) = without k (sc_entries c)"
    "sc_max_size (cache_drop k c) = sc_max_size c" "sc_max_bytes (cache_drop k c) = sc_max_bytes c"
    "sc_evictions (cache_drop k c) = sc_evictions c" "sc_device (cache_drop k c) = sc_device c"
  using assms
  by (auto simp: cache_drop_def map_of_eq_None_iff without_absent split: option.splits)

text \<open>What a put stores, and what it must give up for it.\<close>

definition put_entry ::
    "(cache_value \<Rightarrow> int) \<Rightarrow> string \<Rightarrow> cache_value \<Rightarrow> nat \<Rightarrow> stage_cache \<Rightarrow> string \<times> cache_entry" where
  "put_entry size_fn k data obj c =
     (k, \<lparr>ce_data = detach_value (sc_device c) data, ce_object = obj, ce_size = size_fn data\<rparr>)"

lemma cache_put_shape:
  fixes k obj
  assumes wf: "cache_wf c" and pos: "0 \<le> size_fn data"
    and fits: "\<not> over_bytes (sc_max_bytes c) (size_fn data)"
  defines "es \<equiv> without k (sc_entries c) @ [put_entry size_fn k data obj c]"
  shows "\<exists>j \<le> length es. cache_put size_fn (Some k) data obj c
      = c\<lparr>sc_entries := drop j es, sc_current_bytes := total_size (drop j es),
          sc_evictions := sc_evictions c + int j\<rparr>
    \<and> (\<forall>i < j. over_size (sc_max_size c) (drop i es)
          \<or> over_bytes (sc_max_bytes c) (total_size (drop i es)))
    \<and> \<not> over_size (sc_max_size c) (drop j es) \<and> \<not> over_bytes (sc_max_bytes c) (total_size (drop j es))"
proof -
  note f = cache_drop_facts [OF wf, of k]
  let ?c1 = "cache_drop k c"
  have wf1: "cache_wf ?c1" by (rule cache_wf_drop [OF wf])
  define c2 where "c2 = ?c1\<lparr>sc_entries := es, sc_current_bytes := total_size es\<rparr>"
  have put: "cache_put size_fn (Some k) data obj c = evict_over_budget c2"
    using fits wf1 by (simp add: cache_put_def Let_def f c2_def es_def put_entry_def cache_wf_def)
  have "sc_current_bytes c2 = total_size (sc_entries c2)" by (simp add: c2_def)
  moreover have "\<not> over_bytes (sc_max_bytes c2) 0"
    "\<not> over_size (sc_max_size c2) ([] :: (string \<times> cache_entry) list)"
    using cache_wf_limits [OF wf] by (simp_all add: c2_def f)
  ultimately obtain j where "j \<le> length es" "evict_over_budget c2
      = c2\<lparr>sc_entries := drop j es, sc_current_bytes := total_size (drop j es),
          sc_evictions := sc_evictions c + int j\<rparr>"
    "\<forall>i < j. over_size (sc_max_size c) (drop i es) \<or> over_bytes (sc_max_bytes c) (total_size (drop i es))"
    "\<not> over_size (sc_max_size c) (drop j es)" "\<not> over_bytes (sc_max_bytes c) (total_size (drop j es))"
    using evict_over_budget_prefix [of c2] by (auto simp: c2_def f)
  moreover have "c2\<lparr>sc_entries := drop j es, sc_current_bytes := total_size (drop j es),
        sc_evictions := sc_evictions c + int j\<rparr>
      = c\<lparr>sc_entries := drop j es, sc_current_bytes := total_size (drop j es),
          sc_evictions := sc_evictions c + int j\<rparr>" for j
    by (simp add: c2_def cache_drop_def split: option.splits)
  ultimately show ?thesis unfolding put by metis
qed

lemma sizes_ok_put:
  assumes "sizes_ok es" "0 \<le> size_fn data"
  shows "sizes_ok (without k es @ [put_entry size_fn k data obj c])"
  using sizes_ok_without [OF assms(1), of k] assms(2) by (auto simp: sizes_ok_def put_entry_def)

lemma cache_wf_put:
  assumes wf: "cache_wf c" and pos: "0 \<le> size_fn data"
  shows "cache_wf (cache_put size_fn key data obj c)"
proof (cases key)
  case (Some k)
  show ?thesis
  proof (cases "over_bytes (sc_max_bytes c) (size_fn data)")
    case True
    then have "cache_put size_fn key data obj c = cache_drop k c"
      using cache_drop_facts [OF wf, of k] by (simp add: cache_put_def Some Let_def)
    then show ?thesis using cache_wf_drop [OF wf] by simp
  next
    case False
    let ?es = "without k (sc_entries c) @ [put_entry size_fn k data obj c]"
    have ok: "sizes_ok ?es" using sizes_ok_put wf pos by (simp add: cache_wf_def)
    from cache_put_shape [where size_fn = size_fn and data = data, OF wf pos False, of k obj] obtain j where
      put: "cache_put size_fn (Some k) data obj c
        = c\<lparr>sc_entries := drop j ?es, sc_current_bytes := total_size (drop j ?es),
            sc_evictions := sc_evictions c + int j\<rparr>"
      and lim: "\<not> over_size (sc_max_size c) (drop j ?es)"
        "\<not> over_bytes (sc_max_bytes c) (total_size (drop j ?es))" by blast
    show ?thesis unfolding Some put using wf sizes_ok_drop [OF ok] lim by (simp add: cache_wf_def)
  qed
qed (simp add: cache_put_def wf)

lemma cache_wf_get: "cache_wf c \<Longrightarrow> cache_wf (snd (cache_get key c))"
proof (cases key)
  case (Some k)
  assume wf: "cache_wf c"
  show ?thesis
  proof (cases "map_of (sc_entries c) k")
    case hit: (Some e)
    let ?es = "without k (sc_entries c) @ [(k, e)]"
    have mem: "(k, e) \<in> set (sc_entries c)" using hit by (rule map_of_SomeD)
    have d: "distinct (map fst (sc_entries c))" using wf by (simp add: cache_wf_def sizes_ok_def)
    have tot: "total_size ?es = total_size (sc_entries c)"
      using total_size_without [OF d hit] by simp
    have "length (without k (sc_entries c)) < length (sc_entries c)"
      by (rule length_filter_less [OF mem]) simp
    then have "\<not> over_size (sc_max_size c) ?es"
      using wf by (auto simp: cache_wf_def over_size_def split: option.splits)
    moreover have "sizes_ok ?es" using wf mem sizes_ok_without [of "sc_entries c" k]
      by (auto simp: cache_wf_def sizes_ok_def)
    ultimately show ?thesis using cache_wfD [OF wf] tot hit
      by (simp add: Some cache_get_def move_to_end_def cache_wf_def)
  qed (simp add: Some cache_get_def wf)
qed (simp add: cache_get_def)

lemma cache_wf_clear: "cache_wf c \<Longrightarrow> cache_wf (cache_clear c)"
  using cache_wf_limits [of c] cache_wfD(5) [of c] unfolding cache_clear_def
  by (subst cache_wf_def) (simp add: sizes_ok_def)

lemma cache_wf_same: "cache_wf c \<Longrightarrow> cache_wf (snd (cache_remove_if_same key obj c))"
  by (simp add: cache_remove_if_same_def cache_wf_drop split: option.splits)

lemma cache_wf_drop_keys: "cache_wf c \<Longrightarrow> cache_wf (snd (drop_keys ks n c))"
  by (induction ks arbitrary: n c) (simp_all add: cache_wf_drop)

lemma cache_wf_remove_if: "cache_wf c \<Longrightarrow> cache_wf (snd (cache_remove_if P c))"
  by (simp add: cache_remove_if_def cache_wf_drop_keys)

subsection \<open>Runs\<close>

datatype cache_op =
    CacheGet "string option"
  | CachePut "string option" cache_value nat
  | CacheClear
  | CacheRemoveSame "string option" nat
  | CacheRemoveIf "string \<Rightarrow> bool"

fun cache_step :: "(cache_value \<Rightarrow> int) \<Rightarrow> cache_op \<Rightarrow> stage_cache \<Rightarrow> stage_cache" where
  "cache_step sz (CacheGet key) c = snd (cache_get key c)"
| "cache_step sz (CachePut key v obj) c = cache_put sz key v obj c"
| "cache_step sz CacheClear c = cache_clear c"
| "cache_step sz (CacheRemoveSame key obj) c = snd (cache_remove_if_same key obj c)"
| "cache_step sz (CacheRemoveIf P) c = snd (cache_remove_if P c)"

lemma cache_wf_step: "cache_wf c \<Longrightarrow> (\<And>v. 0 \<le> sz v) \<Longrightarrow> cache_wf (cache_step sz op c)"
  by (cases op) (simp_all add: cache_wf_get cache_wf_put cache_wf_clear cache_wf_same cache_wf_remove_if)

lemma cache_wf_run: "cache_wf c \<Longrightarrow> (\<And>v. 0 \<le> sz v) \<Longrightarrow> cache_wf (fold (cache_step sz) ops c)"
  by (induction ops arbitrary: c) (simp_all add: cache_wf_step)

lemma cache_wf_new: "new_stage_cache ms mb dev = Inr c \<Longrightarrow> cache_wf c"
  by (auto simp: new_stage_cache_def cache_wf_def sizes_ok_def over_size_def over_bytes_def
      split: option.splits if_splits)

lemma limits_step:
  assumes "cache_wf c" "\<And>v. 0 \<le> sz v"
  shows "sc_max_size (cache_step sz op c) = sc_max_size c \<and> sc_max_bytes (cache_step sz op c) = sc_max_bytes c"
proof -
  have drop: "sc_max_size (cache_drop k c) = sc_max_size c \<and> sc_max_bytes (cache_drop k c) = sc_max_bytes c"
    for k c by (simp add: cache_drop_def split: option.splits)
  have keys: "sc_max_size (snd (drop_keys ks n c)) = sc_max_size c
      \<and> sc_max_bytes (snd (drop_keys ks n c)) = sc_max_bytes c" for ks n c
    by (induction ks arbitrary: n c) (simp_all add: drop)
  show ?thesis
  proof (cases op)
    case (CachePut key v obj)
    show ?thesis
    proof (cases key)
      case (Some k)
      show ?thesis
      proof (cases "over_bytes (sc_max_bytes c) (sz v)")
        case True
        then show ?thesis using CachePut Some drop by (simp add: cache_put_def Let_def)
      next
        case False
        from cache_put_shape [where size_fn = sz and data = v, OF assms(1) assms(2) False, of k obj] show ?thesis
          using CachePut Some by auto
      qed
    qed (simp add: CachePut cache_put_def)
  qed (simp_all add: cache_get_def cache_clear_def cache_remove_if_same_def cache_remove_if_def keys drop
      split: option.splits)
qed

lemma limits_run:
  assumes "cache_wf c" "\<And>v. 0 \<le> sz v"
  shows "sc_max_size (fold (cache_step sz) ops c) = sc_max_size c
    \<and> sc_max_bytes (fold (cache_step sz) ops c) = sc_max_bytes c"
  using assms by (induction ops arbitrary: c) (simp_all add: limits_step cache_wf_step)

text \<open>
  C33: After any operations on a new cache its byte count is the total of
  its entries' sizes, no key occurs twice, and neither limit is exceeded.
\<close>
theorem cache_within_budget:
  assumes new: "new_stage_cache ms mb dev = Inr c0" and sz: "\<And>v. 0 \<le> sz v"
    and c: "c = fold (cache_step sz) ops c0"
  shows "sc_current_bytes c = (\<Sum>p\<leftarrow>sc_entries c. ce_size (snd p)) \<and> distinct (map fst (sc_entries c))
    \<and> (case ms of None \<Rightarrow> True | Some n \<Rightarrow> int (length (sc_entries c)) \<le> n)
    \<and> (case mb of None \<Rightarrow> True | Some n \<Rightarrow> sc_current_bytes c \<le> n)"
proof -
  have wf0: "cache_wf c0" by (rule cache_wf_new [OF new])
  have lim: "sc_max_size c = ms" "sc_max_bytes c = mb"
    using limits_run [of c0 sz ops, OF wf0 sz] new
    by (auto simp: c new_stage_cache_def split: if_splits)
  have "cache_wf c" unfolding c by (rule cache_wf_run [OF wf0 sz])
  from cache_wfD [OF this] lim show ?thesis
    by (auto simp: total_size_def comp_def sizes_ok_def over_size_def over_bytes_def split: option.splits)
qed

subsection \<open>Removal by key, as an interface\<close>

locale keyed_store =
  fixes invar :: "'s \<Rightarrow> bool"
    and look :: "'s \<Rightarrow> string \<Rightarrow> 'v option"
    and remove_if :: "(string \<Rightarrow> bool) \<Rightarrow> 's \<Rightarrow> int \<times> 's"
  assumes remove_if_look: "invar s \<Longrightarrow> look (snd (remove_if P s)) k = (if P k then None else look s k)"
    and remove_if_invar: "invar s \<Longrightarrow> invar (snd (remove_if P s))"
begin

lemma invalidated: "invar s \<Longrightarrow> P k \<Longrightarrow> look (snd (remove_if P s)) k = None"
  by (simp add: remove_if_look)

lemma spared: "invar s \<Longrightarrow> \<not> P k \<Longrightarrow> look (snd (remove_if P s)) k = look s k"
  by (simp add: remove_if_look)

lemma removal_idempotent:
  "invar s \<Longrightarrow> look (snd (remove_if P (snd (remove_if P s)))) = look (snd (remove_if P s))"
  by (rule ext) (simp add: remove_if_look remove_if_invar)

end

lemma drop_keys_entries:
  assumes "cache_wf c"
  shows "sc_entries (snd (drop_keys ks n c)) = filter (\<lambda>p. fst p \<notin> set ks) (sc_entries c)"
  using assms
proof (induction ks arbitrary: n c)
  case (Cons k ks)
  have same: "sc_entries (cache_drop k c) = without k (sc_entries c)"
    by (rule cache_drop_facts(1) [OF Cons.prems])
  show ?case
  proof (cases "map_of (sc_entries c) k")
    case None
    then have "\<forall>p \<in> set (sc_entries c). fst p \<noteq> k" by (auto simp: map_of_eq_None_iff)
    with None Cons show ?thesis by (auto intro: filter_cong)
  next
    case (Some e)
    then have "sc_entries (snd (drop_keys (k # ks) n c))
        = filter (\<lambda>p. fst p \<notin> set ks) (without k (sc_entries c))"
      using Cons.IH [OF cache_wf_drop [OF Cons.prems]] same by simp
    also have "\<dots> = filter (\<lambda>p. fst p \<notin> set (k # ks)) (sc_entries c)"
      by (auto simp: case_prod_unfold intro: filter_cong)
    finally show ?thesis .
  qed
qed simp

lemma remove_if_entries:
  "cache_wf c \<Longrightarrow> sc_entries (snd (cache_remove_if P c)) = filter (\<lambda>p. \<not> P (fst p)) (sc_entries c)"
  unfolding cache_remove_if_def by (subst drop_keys_entries) (auto intro: filter_cong)

lemma map_of_filter_keys: "map_of (filter (\<lambda>p. Q (fst p)) es) k = (if Q k then map_of es k else None)"
  by (induction es) auto

lemma remove_if_map_of:
  "cache_wf c \<Longrightarrow> map_of (sc_entries (snd (cache_remove_if P c))) k
     = (if P k then None else map_of (sc_entries c) k)"
  by (simp add: remove_if_entries map_of_filter_keys [of "\<lambda>k. \<not> P k"])

interpretation outputs: keyed_store cache_wf "\<lambda>c. map_of (sc_entries c)" cache_remove_if
  by unfold_locales (simp_all add: remove_if_map_of cache_wf_remove_if)

subsection \<open>Order of use\<close>












subsection \<open>Keys of speaker artifacts\<close>

lemma show_nat_digits: "c \<in> set (show_nat n) \<Longrightarrow> c \<noteq> KEY_SEPARATOR"
proof (induction n rule: show_nat.induct)
  case (1 n)
  have digit: "char_of (48 + d) \<noteq> KEY_SEPARATOR" if "d < 10" for d :: nat
  proof
    assume "char_of (48 + d) = KEY_SEPARATOR"
    then have "of_char (char_of (48 + d) :: char) = (of_char KEY_SEPARATOR :: nat)" by simp
    then show False using that by (simp add: of_char_of KEY_SEPARATOR_def)
  qed
  show ?case
  proof (cases "n < 10")
    case True
    then show ?thesis using 1(2) digit [of n] by (simp add: show_nat.simps [of n])
  next
    case False
    then have "c \<in> set (show_nat (n div 10)) \<or> c = char_of (48 + n mod 10)"
      using 1(2) by (auto simp: show_nat.simps [of n])
    then show ?thesis using 1(1) False digit [of "n mod 10"] by auto
  qed
qed

lemma show_int_no_separator: "KEY_SEPARATOR \<notin> set (show_int n)"
proof -
  have "KEY_SEPARATOR \<noteq> CHR ''-''" by (simp add: KEY_SEPARATOR_def)
  then show ?thesis using show_nat_digits by (auto simp: show_int_def)
qed

lemma py_split_part:
  assumes "sep \<notin> set s"
  shows "py_split sep (Suc n) (s @ sep # t) = s # py_split sep n t"
proof -
  have "dropWhile (\<lambda>c. c \<noteq> sep) (s @ sep # t) = sep # t" "takeWhile (\<lambda>c. c \<noteq> sep) (s @ sep # t) = s"
    using assms by (auto simp: dropWhile_append2 takeWhile_append2 dropWhile_append takeWhile_append)
  then show ?thesis by simp
qed

lemma encoded_voice:
  assumes "KEY_SEPARATOR \<notin> set (sk_model_type key)" "KEY_SEPARATOR \<notin> set (sk_voice_name key)"
  shows "encoded_key_voice_name (encode_key key) = sk_voice_name key"
proof -
  have "py_split KEY_SEPARATOR 3 (encode_key key)
      = [sk_model_type key, sk_voice_name key, show_int (sk_voice_version key), sk_artifact_kind key]"
    using py_split_part [OF assms(1)] py_split_part [OF assms(2)] py_split_part [OF show_int_no_separator]
    by (simp add: encode_key_def numeral_3_eq_3)
  then show ?thesis by (simp add: encoded_key_voice_name_def Let_def)
qed

lemma drop_keys_count:
  assumes "cache_wf c" "distinct ks" "set ks \<subseteq> fst ` set (sc_entries c)"
  shows "fst (drop_keys ks n c) = n + int (length ks)"
  using assms
proof (induction ks arbitrary: n c)
  case (Cons k ks)
  have "map_of (sc_entries c) k \<noteq> None" using Cons.prems(3) by (simp add: map_of_eq_None_iff)
  then obtain e where "map_of (sc_entries c) k = Some e" by blast
  moreover have "set ks \<subseteq> fst ` set (sc_entries (cache_drop k c))"
    using Cons.prems by (auto simp: cache_drop_facts(1) image_iff) force
  ultimately show ?case using Cons.IH [OF cache_wf_drop [OF Cons.prems(1)]] Cons.prems(2) by simp
qed simp

text \<open>
  Deleting a voice removes every cached artifact of that voice, whatever
  the case of the name, removes nothing else and keeps the order of use, and counts what it
  removed; the names of voices and model types do not contain the key separator.
\<close>
theorem clear_voice_exact:
  assumes new: "new_stage_cache None (Some mb) None = Inr c0" and sz: "\<And>v. 0 \<le> sz v"
    and c: "sp_cache s = fold (cache_step sz) ops c0"
    and key: "KEY_SEPARATOR \<notin> set (sk_model_type key)" "KEY_SEPARATOR \<notin> set (sk_voice_name key)"
  shows "fst (speaker_get key (clear_voice voice s))
      = (if map lower_char (sk_voice_name key) = map lower_char voice then None
         else fst (speaker_get key s))
    \<and> sc_entries (sp_cache (clear_voice voice s))
      = filter (\<lambda>p. map lower_char (encoded_key_voice_name (fst p)) \<noteq> map lower_char voice)
          (sc_entries (sp_cache s))
    \<and> sp_invalidations (clear_voice voice s) - sp_invalidations s
      = int (length (sc_entries (sp_cache s))) - int (length (sc_entries (sp_cache (clear_voice voice s))))"
proof -
  have wf: "cache_wf (sp_cache s)" unfolding c by (rule cache_wf_run [OF cache_wf_new [OF new] sz])
  define P where "P = (\<lambda>k. map lower_char (encoded_key_voice_name k) = map lower_char voice)"
  have cl: "sp_cache (clear_voice voice s) = snd (cache_remove_if P (sp_cache s))"
    "sp_invalidations (clear_voice voice s) = sp_invalidations s + fst (cache_remove_if P (sp_cache s))"
    by (simp_all add: clear_voice_def P_def split: prod.split)
  have look: "fst (speaker_get key t) = map_option (\<lambda>e. (ce_data e, ce_object e)) (map_of (sc_entries (sp_cache t)) (encode_key key))"
    for t by (simp add: speaker_get_def cache_get_def split: option.split)
  have ents: "sc_entries (sp_cache (clear_voice voice s)) = filter (\<lambda>p. \<not> P (fst p)) (sc_entries (sp_cache s))"
    unfolding cl by (rule remove_if_entries [OF wf])
  have d: "distinct (filter P (map fst (sc_entries (sp_cache s))))"
    using cache_wfD(1) [OF wf] by (simp add: sizes_ok_def)
  have "fst (cache_remove_if P (sp_cache s)) = int (length (filter P (map fst (sc_entries (sp_cache s)))))"
    unfolding cache_remove_if_def using drop_keys_count [OF wf d, of 0] by auto
  also have "\<dots> = int (length (sc_entries (sp_cache s))) - int (length (filter (\<lambda>p. \<not> P (fst p)) (sc_entries (sp_cache s))))"
    using sum_length_filter_compl [of "\<lambda>p. P (fst p)" "sc_entries (sp_cache s)"]
    by (simp add: filter_map comp_def flip: of_nat_add)
  finally have count: "fst (cache_remove_if P (sp_cache s))
    = int (length (sc_entries (sp_cache s))) - int (length (filter (\<lambda>p. \<not> P (fst p)) (sc_entries (sp_cache s))))" .
  show ?thesis
    using ents count cl(2) outputs.remove_if_look [OF wf, of P "encode_key key"]
    by (auto simp: look cl(1) P_def encoded_voice [OF key])
qed

subsection \<open>Concrete instances\<close>

lemma value_size_bytes_nonneg: "0 \<le> value_size_bytes v"
  by (induction v rule: value_size_bytes.induct) (auto intro!: sum_list_nonneg split: prod.splits)

definition demo_cache :: stage_cache where
  "demo_cache = \<lparr>sc_entries = [], sc_max_size = Some 2, sc_max_bytes = Some 10, sc_device = None,
     sc_current_bytes = 0, sc_evictions = 0\<rparr>"

definition demo_ops :: "cache_op list" where
  "demo_ops = [CachePut (Some ''a'') (Bytes 4) 1, CachePut (Some ''b'') (Bytes 5) 2, CacheGet (Some ''a'')]"

definition demo_filled :: stage_cache where
  "demo_filled = demo_cache\<lparr>sc_entries := [(''b'', \<lparr>ce_data = Bytes 5, ce_object = 2, ce_size = 5\<rparr>),
      (''a'', \<lparr>ce_data = Bytes 4, ce_object = 1, ce_size = 4\<rparr>)], sc_current_bytes := 9\<rparr>"

lemma demo_new: "new_stage_cache (Some 2) (Some 10) None = Inr demo_cache"
  by (simp add: new_stage_cache_def demo_cache_def)

lemmas cache_evals = demo_cache_def cache_put_def cache_get_def move_to_end_def cache_drop_def
  evict_over_budget_def over_size_def over_bytes_def Let_def

lemma demo_run_cache: "demo_filled = fold (cache_step value_size_bytes) demo_ops demo_cache"
  by (simp add: demo_ops_def demo_filled_def cache_evals)

theorem cache_within_budget_witness:
  "sc_current_bytes demo_filled = 9 \<and> distinct (map fst (sc_entries demo_filled))"
  using cache_within_budget [OF demo_new value_size_bytes_nonneg demo_run_cache]
  by (simp add: demo_filled_def)


definition ann_key :: speaker_key where
  "ann_key = \<lparr>sk_model_type = ''m'', sk_voice_name = ''Ann'', sk_voice_version = 1, sk_artifact_kind = ''x''\<rparr>"

definition voice_cache :: speaker_cache where
  "voice_cache = \<lparr>sp_cache = fold (cache_step value_size_bytes)
       [CachePut (Some (encode_key ann_key)) (Bytes 4) 1]
       \<lparr>sc_entries = [], sc_max_size = None, sc_max_bytes = Some 10, sc_device = None,
        sc_current_bytes = 0, sc_evictions = 0\<rparr>,
     sp_hits = 0, sp_misses = 0, sp_invalidations = 0\<rparr>"

theorem clear_voice_exact_witness:
  "fst (speaker_get ann_key voice_cache) = Some (Bytes 4, 1)
   \<and> fst (speaker_get ann_key (clear_voice ''ANN'' voice_cache)) = None"
proof
  have c: "sp_cache voice_cache = fold (cache_step value_size_bytes) [CachePut (Some (encode_key ann_key)) (Bytes 4) 1]
      \<lparr>sc_entries = [], sc_max_size = None, sc_max_bytes = Some 10, sc_device = None,
       sc_current_bytes = 0, sc_evictions = 0\<rparr>"
    by (simp add: voice_cache_def)
  show "fst (speaker_get ann_key voice_cache) = Some (Bytes 4, 1)"
    by (simp add: speaker_get_def c cache_evals)
  have new: "new_stage_cache None (Some 10) None = Inr \<lparr>sc_entries = [], sc_max_size = None,
      sc_max_bytes = Some 10, sc_device = None, sc_current_bytes = 0, sc_evictions = 0\<rparr>"
    by (simp add: new_stage_cache_def)
  have key: "KEY_SEPARATOR \<notin> set (sk_model_type ann_key)" "KEY_SEPARATOR \<notin> set (sk_voice_name ann_key)"
    by (simp_all add: ann_key_def KEY_SEPARATOR_def)
  have "map lower_char (sk_voice_name ann_key) = map lower_char ''ANN''" by code_simp
  with clear_voice_exact [OF new value_size_bytes_nonneg c key, of "''ANN''"]
  show "fst (speaker_get ann_key (clear_voice ''ANN'' voice_cache)) = None" by simp
qed

end
