(* ===== verification/Extend_Batch.thy ===== *)
theory Extend_Batch
  imports Runtime_State
begin

section \<open>Allocation, commit and rollback of a realtime batch\<close>

text \<open>
  Models \<open>moss_vl_realtime/batch_adapter.py\<close>.  Requests are objects shared by batches and their
  snapshots, so they live in a store addressed by identity, as do the records of decode
  allocations; the page table and the log of what is handed to \<open>allocator.free\<close> live beside them.
  Every request of a realtime server carries a runtime state, which \<open>request_builder\<close> installs, and
  the page size is 1, which the scheduler's constructor enforces.  SGLang's \<open>ScheduleBatch\<close> is not
  under \<open>src/\<close>: what its \<open>prepare_for_extend\<close> and \<open>prepare_for_decode\<close> do is a parameter.
\<close>

text \<open>What the code reads of a segment's \<open>MultimodalInputs\<close>: \<open>num_image_tokens\<close>, the added-frame
  count of every media item, and the position tensor.\<close>

record segment_inputs =
  si_encoder_tokens :: "int option"
  si_added :: "int option list"
  si_positions :: "int list list option"

record batch_req =
  bq_state :: rt_state
  bq_txn :: "append_txn option"
  bq_pool_idx :: "int option"
  bq_kv_allocated :: "int option"
  bq_kv_committed :: int
  bq_prefix :: "int list"
  bq_extend :: "int \<times> int"
  bq_logprob_start :: int
  bq_inputs :: "segment_inputs option"

record decode_allocation =
  da_reqs :: "nat list"
  da_positions :: "int list"
  da_committed_lengths :: "int list"
  da_pool_indices :: "int list"
  da_slots :: "int list option"
  da_committed :: bool
  da_released :: bool

record batch_world =
  bw_pages :: page_table
  bw_req :: "nat \<Rightarrow> batch_req"
  bw_records :: "decode_allocation list"
  bw_freed :: "int list list"

text \<open>A batch.  \<open>rb_slots\<close> is the attribute \<open>_ALLOCATED_SLOTS_ATTR\<close>: absent, \<open>None\<close> or a tensor.\<close>

record realtime_batch =
  bt_reqs :: "nat list"
  bt_out :: "int list option"
  bt_slots :: "int list option option"
  bt_committed :: bool
  bt_released :: bool
  bt_record :: "nat option"
  bt_return_logprob :: bool
  bt_encoder_lens :: "int list"
  bt_encoder_cached :: "bool list"
  bt_encoder_out :: "int list"
  bt_extend_lens :: "int list"
  bt_prefix_lens :: "int list"
  bt_seq_lens :: "int list"
  bt_input_ids :: "int list"

record extend_plan =
  pl_req :: nat
  pl_ids :: "int list"
  pl_encoder_slots :: "int list"
  pl_decoder_slots :: "int list"
  pl_total_encoder :: int
  pl_total_decoder :: int
  pl_decoder_extend :: int
  pl_leading :: nat

definition req_state :: "batch_world \<Rightarrow> nat \<Rightarrow> rt_state" where
  "req_state w i = bq_state (bw_req w i)"

definition kv_total :: "rt_state \<Rightarrow> int" where
  "kv_total s = encoder_length s + decoder_length s"

definition token_total :: "rt_state \<Rightarrow> int" where
  "token_total s = effective_appended_encoder_length s + decoder_length s"

definition update_req :: "nat \<Rightarrow> (batch_req \<Rightarrow> batch_req) \<Rightarrow> batch_world \<Rightarrow> batch_world" where
  "update_req i f w = w\<lparr>bw_req := (bw_req w)(i := f (bw_req w i))\<rparr>"

text \<open>The assignment \<open>table[i, a:b] = 0\<close> for \<open>0 \<le> a\<close>; the slice is clipped to the row.\<close>

definition zero_range :: "page_table \<Rightarrow> int \<Rightarrow> int \<Rightarrow> int \<Rightarrow> page_table res" where
  "zero_range tbl i a b =
     (if i < - int (length tbl) \<or> i \<ge> int (length tbl) then Inl IndexError
      else let k = nat (if i < 0 then i + int (length tbl) else i); row = tbl ! k in
        Inr (tbl[k := take (nat a) row @ replicate (min (nat b) (length row) - nat a) 0
                        @ drop (max (nat a) (nat b)) row]))"

definition begin_allocation :: "realtime_batch \<Rightarrow> realtime_batch" where
  "begin_allocation b =
     b\<lparr>bt_out := None, bt_slots := Some None, bt_committed := False, bt_released := False,
       bt_record := None\<rparr>"

subsection \<open>Planning an extension\<close>

definition bootstrap_state :: "batch_req \<Rightarrow> rt_state \<Rightarrow> rt_state" where
  "bootstrap_state q s =
     (if encoder_length s = 0 \<and> decoder_length s = 0 \<and> bq_inputs q = None \<and> pending_token_id s = None
         \<and> bq_prefix q \<noteq> []
      then s\<lparr>decoder_length := int (length (bq_prefix q)),
             next_mrope_position := int (length (bq_prefix q))\<rparr>
      else s)"

definition total_encoder_length :: "batch_req \<Rightarrow> rt_state \<Rightarrow> int" where
  "total_encoder_length q s =
     (case bq_inputs q of
        None \<Rightarrow> encoder_length s
      | Some si \<Rightarrow> (case si_encoder_tokens si of None \<Rightarrow> 0 | Some n \<Rightarrow> n))"

definition raw_extend_length :: "batch_req \<Rightarrow> int" where
  "raw_extend_length q = snd (bq_extend q) - fst (bq_extend q)"

definition plan_bound ::
    "page_table \<Rightarrow> int list \<Rightarrow> nat \<Rightarrow> batch_req \<Rightarrow> int list \<Rightarrow> int \<Rightarrow> int \<Rightarrow> int \<Rightarrow> rt_state \<Rightarrow>
     nat \<Rightarrow> extend_plan res" where
  "plan_bound tbl new rid q ids seq_len i tot s lead =
     (let delta = tot - encoder_length s; raw = raw_extend_length q; text = raw - delta in
      bindE (ensure (0 \<le> delta) RuntimeError) (\<lambda>_.
      bindE (ensure (0 < text) RuntimeError) (\<lambda>_.
      bindE (ensure (int (length ids) = raw) RuntimeError) (\<lambda>_.
      bindE (ensure (int (length (bq_prefix q)) = token_total s) RuntimeError) (\<lambda>_.
      bindE (ensure (i < int (length tbl)) IndexError) (\<lambda>_.
      bindE (ensure (\<forall>v \<in> set (take (nat (kv_total s)) (tbl ! nat i)). 0 < v) RuntimeError) (\<lambda>_.
      bindE (ensure (seq_len = effective_appended_encoder_length s + delta + decoder_length s + text)
               RuntimeError) (\<lambda>_.
      bindE (ensure (int (length new) = raw) RuntimeError) (\<lambda>_.
        Inr \<lparr>pl_req = rid, pl_ids = ids,
             pl_encoder_slots = take (nat delta) (drop lead new),
             pl_decoder_slots = take lead new @ drop (lead + nat delta) new,
             pl_total_encoder = tot, pl_total_decoder = decoder_length s + text,
             pl_decoder_extend = text, pl_leading = lead\<rparr>)))))))))"

definition plan_request ::
    "page_table \<Rightarrow> int list \<Rightarrow> nat \<Rightarrow> nat \<Rightarrow> batch_req \<Rightarrow> int list \<Rightarrow> int \<Rightarrow> extend_plan res \<times> rt_state" where
  "plan_request tbl out off rid q ids seq_len =
     (case bq_pool_idx q of
        None \<Rightarrow> (Inl TypeError, bq_state q)
      | Some i \<Rightarrow>
     (case bind_req_pool_index (bq_state q) i of
        Inl e \<Rightarrow> (Inl e, bq_state q)
      | Inr s0 \<Rightarrow>
        let s = bootstrap_state q s0 in
        (plan_bound tbl (take (nat (raw_extend_length q)) (drop off out)) rid q ids seq_len i
           (total_encoder_length q s0) s (if pending_token_id s = None then 0 else 1), s)))"

fun build_plans ::
    "nat list \<Rightarrow> int list list \<Rightarrow> int list \<Rightarrow> int list \<Rightarrow> nat \<Rightarrow> batch_world \<Rightarrow>
     extend_plan list res \<times> batch_world" where
  "build_plans (i # is) (x # xs) (n # ns) out off w =
     (case plan_request (bw_pages w) out off i (bw_req w i) x n of
        (r, s) \<Rightarrow>
          let w1 = update_req i (\<lambda>q. q\<lparr>bq_state := s\<rparr>) w in
          (case r of
             Inl e \<Rightarrow> (Inl e, w1)
           | Inr p \<Rightarrow>
              (case build_plans is xs ns out (off + nat (raw_extend_length (bw_req w i))) w1 of
                 (Inl e, w2) \<Rightarrow> (Inl e, w2)
               | (Inr ps, w2) \<Rightarrow> (Inr (p # ps), w2))))"
| "build_plans _ _ _ out off w = (if off = length out then Inr [] else Inl RuntimeError, w)"

subsection \<open>Staging\<close>

definition added_frames_of :: "extend_plan \<Rightarrow> batch_req \<Rightarrow> int res" where
  "added_frames_of p q =
     (if pl_encoder_slots p = [] then Inr 0
      else case bq_inputs q of
             None \<Rightarrow> Inl RuntimeError
           | Some si \<Rightarrow>
              (case si_added si of
                 Some n # _ \<Rightarrow> if n \<le> 0 then Inl RuntimeError else Inr n
               | _ \<Rightarrow> Inl RuntimeError))"

definition next_position_of :: "extend_plan \<Rightarrow> batch_req \<Rightarrow> int" where
  "next_position_of p q =
     (let s = bq_state q;
          positions = (case bq_inputs q of None \<Rightarrow> [] | Some si \<Rightarrow>
                        (case si_positions si of None \<Rightarrow> [] | Some rows \<Rightarrow> concat rows)) in
      if positions = [] then max (next_mrope_position s) (pl_total_decoder p)
      else max (next_mrope_position s) (Max (set positions) + 1))"

text \<open>The request's own view of the shared page table.\<close>

definition req_world :: "batch_world \<Rightarrow> nat \<Rightarrow> kv_world" where
  "req_world w i =
     \<lparr>pages = bw_pages w, rt = bq_state (bw_req w i), txn = bq_txn (bw_req w i), released = []\<rparr>"

definition put_world :: "nat \<Rightarrow> kv_world \<Rightarrow> append_txn option \<Rightarrow> batch_world \<Rightarrow> batch_world" where
  "put_world i k t w =
     (update_req i (\<lambda>q. q\<lparr>bq_state := rt k, bq_txn := t\<rparr>) w)\<lparr>bw_pages := pages k\<rparr>"

definition begin_plan :: "extend_plan \<Rightarrow> batch_world \<Rightarrow> unit res \<times> batch_world" where
  "begin_plan p w =
     (let i = pl_req p; q = bw_req w i in
      case bindE (added_frames_of p q) (\<lambda>added.
             begin_kv_append (req_world w i) (pl_encoder_slots p) (pl_decoder_slots p) added
               (Some (next_position_of p q)) None) of
        Inl e \<Rightarrow> (Inl e, w)
      | Inr k \<Rightarrow> (Inr (), put_world i k (txn k) w))"

subsection \<open>Rolling back\<close>

definition rollback_txn_of :: "nat \<Rightarrow> batch_world \<Rightarrow> unit res \<times> batch_world" where
  "rollback_txn_of i w =
     (if bq_txn (bw_req w i) = None then (Inr (), w)
      else case txn_rollback (req_world w i) of
             (Inl e, k) \<Rightarrow> (Inl e, put_world i k (txn k) w)
           | (Inr _, k) \<Rightarrow> (Inr (), put_world i k None w))"

definition restore_bookkeeping :: "nat \<Rightarrow> batch_world \<Rightarrow> unit res \<times> batch_world" where
  "restore_bookkeeping i w =
     (let q = bw_req w i; c = kv_total (bq_state q);
          a = (case bq_kv_allocated q of None \<Rightarrow> c | Some n \<Rightarrow> n);
          w1 = update_req i (\<lambda>q. q\<lparr>bq_kv_committed := c,
                  bq_kv_allocated := map_option (\<lambda>_. c) (bq_kv_allocated q)\<rparr>) w in
      case bq_pool_idx q of
        None \<Rightarrow> (Inr (), w1)
      | Some p \<Rightarrow>
          if a \<le> c then (Inr (), w1)
          else (case zero_range (bw_pages w1) p c a of
                  Inl e \<Rightarrow> (Inl e, w1)
                | Inr tbl \<Rightarrow> (Inr (), w1\<lparr>bw_pages := tbl\<rparr>)))"

definition release_slots_of :: "batch_world \<Rightarrow> realtime_batch \<Rightarrow> batch_world \<times> realtime_batch" where
  "release_slots_of w b =
     (if bt_released b then (w, b)
      else let slots = (case bt_slots b of None \<Rightarrow> bt_out b | Some v \<Rightarrow> v) in
        (case slots of
           Some (s # ss) \<Rightarrow> w\<lparr>bw_freed := bw_freed w @ [s # ss]\<rparr>
         | _ \<Rightarrow> w, b\<lparr>bt_released := True\<rparr>))"

text \<open>\<open>_rollback_decode\<close>: the rows of a decode attempt that this batch still owns.  The scan ends with
  an error when a newer attempt allocated on top of a row; nothing is changed then.\<close>

fun decode_rows ::
    "batch_world \<Rightarrow> realtime_batch \<Rightarrow> nat \<Rightarrow> nat list \<Rightarrow> int list \<Rightarrow> int list \<Rightarrow> nat list res" where
  "decode_rows w b n (i # is) (pos # ps) (idx # xs) =
     (let q = bw_req w i in
      if i \<notin> set (bt_reqs b) \<or> bq_pool_idx q \<noteq> Some idx then decode_rows w b (n + 1) is ps xs
      else case bq_kv_allocated q of
        None \<Rightarrow> decode_rows w b (n + 1) is ps xs
      | Some a \<Rightarrow>
          if kv_total (bq_state q) > pos then decode_rows w b (n + 1) is ps xs
          else if a > pos + 1 then Inl RuntimeError
          else bindE (decode_rows w b (n + 1) is ps xs) (\<lambda>rest. Inr (n # rest)))"
| "decode_rows w b n _ _ _ = Inr []"

text \<open>The assignment \<open>table[i, j] = 0\<close>.\<close>

definition zero_cell :: "page_table \<Rightarrow> int \<Rightarrow> int \<Rightarrow> page_table res" where
  "zero_cell tbl i j =
     (if nat i < length tbl \<and> nat j < length (tbl ! nat i)
      then Inr (tbl[nat i := (tbl ! nat i)[nat j := 0]]) else Inl IndexError)"

definition restore_row :: "decode_allocation \<Rightarrow> nat \<Rightarrow> batch_world \<Rightarrow> unit res \<times> batch_world" where
  "restore_row d n w =
     (let w1 = update_req (da_reqs d ! n) (\<lambda>q. q\<lparr>bq_kv_allocated := Some (da_positions d ! n),
                 bq_kv_committed := da_committed_lengths d ! n\<rparr>) w in
      case zero_cell (bw_pages w1) (da_pool_indices d ! n) (da_positions d ! n) of
        Inl e \<Rightarrow> (Inl e, w1)
      | Inr tbl \<Rightarrow> (Inr (), w1\<lparr>bw_pages := tbl\<rparr>))"

definition set_record :: "nat \<Rightarrow> decode_allocation \<Rightarrow> batch_world \<Rightarrow> batch_world" where
  "set_record k d w = w\<lparr>bw_records := (bw_records w)[k := d]\<rparr>"

definition rollback_decode :: "nat \<Rightarrow> batch_world \<Rightarrow> realtime_batch \<Rightarrow> unit res \<times> batch_world" where
  "rollback_decode k w b =
     (let d = bw_records w ! k in
      if da_committed d \<or> da_released d then (Inr (), w)
      else case da_slots d of
        None \<Rightarrow> (Inr (), set_record k (d\<lparr>da_released := True\<rparr>) w)
      | Some slots \<Rightarrow>
         (case decode_rows w b 0 (da_reqs d) (da_positions d) (da_pool_indices d) of
            Inl e \<Rightarrow> (Inl e, w)
          | Inr ns \<Rightarrow>
             if ns = [] then (Inr (), set_record k (d\<lparr>da_released := True\<rparr>) w)
             else if \<exists>n \<in> set ns. n \<ge> length slots then (Inl IndexError, w)
             else (case loopE (restore_row d) ns (w\<lparr>bw_freed := bw_freed w @ [map ((!) slots) ns]\<rparr>) of
                     (Inl e, w1) \<Rightarrow> (Inl e, w1)
                   | (Inr _, w1) \<Rightarrow> (Inr (), set_record k (d\<lparr>da_released := True\<rparr>) w1))))"

definition rollback_batch ::
    "batch_world \<Rightarrow> realtime_batch \<Rightarrow> unit res \<times> batch_world \<times> realtime_batch" where
  "rollback_batch w b =
     (case bt_record b of
        Some k \<Rightarrow> (case rollback_decode k w b of (r, w1) \<Rightarrow> (r, w1, b))
      | None \<Rightarrow>
          if bt_released b \<or> bt_committed b then (Inr (), w, b)
          else (case loopE rollback_txn_of (rev (bt_reqs b)) w of
             (Inl e, w1) \<Rightarrow> (Inl e, w1, b)
           | (Inr _, w1) \<Rightarrow>
             (case loopE restore_bookkeeping (bt_reqs b) w1 of
                (Inl e, w2) \<Rightarrow> (Inl e, w2, b)
              | (Inr _, w2) \<Rightarrow> (Inr (), release_slots_of w2 b))))"

subsection \<open>The hook of \<open>prepare_for_extend\<close>\<close>

definition start_of_plan :: "extend_plan \<Rightarrow> batch_req \<Rightarrow> batch_req" where
  "start_of_plan p q =
     q\<lparr>bq_extend := (fst (bq_extend q) + int (length (pl_encoder_slots p)), snd (bq_extend q)),
       bq_logprob_start := max (bq_logprob_start q) (pl_total_encoder p)\<rparr>"

definition install_batch_metadata ::
    "batch_world \<Rightarrow> realtime_batch \<Rightarrow> extend_plan list \<Rightarrow> batch_world \<times> realtime_batch" where
  "install_batch_metadata w b ps =
     (fold (\<lambda>p. update_req (pl_req p) (start_of_plan p)) ps w,
      b\<lparr>bt_encoder_lens := map pl_total_encoder ps,
        bt_encoder_cached := map (\<lambda>p. pl_encoder_slots p = []) ps,
        bt_encoder_out := concat (map pl_encoder_slots ps),
        bt_out := Some (concat (map pl_decoder_slots ps)),
        bt_extend_lens := map pl_decoder_extend ps,
        bt_prefix_lens := map (\<lambda>p. decoder_length (req_state w (pl_req p))) ps,
        bt_seq_lens := map pl_total_decoder ps,
        bt_input_ids := concat (map (\<lambda>p. take (pl_leading p) (pl_ids p)
             @ drop (pl_leading p + length (pl_encoder_slots p)) (pl_ids p)) ps)\<rparr>)"

definition prepare_encoder_info_extend ::
    "batch_world \<Rightarrow> realtime_batch \<Rightarrow> int list list \<Rightarrow> int list \<Rightarrow>
     unit res \<times> batch_world \<times> realtime_batch" where
  "prepare_encoder_info_extend w b input_ids seq_lens =
     (if bt_reqs b = [] then (Inl TypeError, w, b)
      else if length input_ids \<noteq> length (bt_reqs b) \<or> length seq_lens \<noteq> length (bt_reqs b)
      then (Inl ValueError, w, b)
      else if bt_return_logprob b then (Inl ValueError, w, b)
      else case bt_out b of
        None \<Rightarrow> (Inl TypeError, w, b)
      | Some out \<Rightarrow>
          let b1 = b\<lparr>bt_slots := Some (Some out), bt_released := False, bt_committed := False,
                     bt_record := None\<rparr> in
          (case build_plans (bt_reqs b) input_ids seq_lens out 0 w of
             (Inl e, w1) \<Rightarrow>
               (case rollback_batch w1 b1 of (Inl e', w2, b2) \<Rightarrow> (Inl e', w2, b2)
                                             | (Inr _, w2, b2) \<Rightarrow> (Inl e, w2, b2))
           | (Inr ps, w1) \<Rightarrow>
             (case loopE begin_plan ps w1 of
                (Inl e, w2) \<Rightarrow>
                  (case rollback_batch w2 b1 of (Inl e', w3, b3) \<Rightarrow> (Inl e', w3, b3)
                                                | (Inr _, w3, b3) \<Rightarrow> (Inl e, w3, b3))
              | (Inr _, w2) \<Rightarrow> (Inr (), install_batch_metadata w2 b1 ps))))"

text \<open>\<open>prepare_for_extend\<close>: \<open>alloc\<close> is what SGLang does before it calls the hook (its last argument
  pair is what it passes to it), \<open>rest\<close> what it does afterwards.\<close>

type_synonym 'r batch_step = "batch_world \<Rightarrow> realtime_batch \<Rightarrow> 'r res \<times> batch_world \<times> realtime_batch"

definition on_error_rollback :: "unit batch_step \<Rightarrow> unit batch_step" where
  "on_error_rollback f w b =
     (case f w b of
        (Inl e, w1, b1) \<Rightarrow>
          (case rollback_batch w1 b1 of (Inl e', w2, b2) \<Rightarrow> (Inl e', w2, b2)
                                        | (Inr _, w2, b2) \<Rightarrow> (Inl e, w2, b2))
      | (Inr _, w1, b1) \<Rightarrow> (Inr (), w1, b1))"

definition prepare_for_extend ::
    "(int list list \<times> int list) batch_step \<Rightarrow> unit batch_step \<Rightarrow> unit batch_step" where
  "prepare_for_extend alloc rest w b =
     on_error_rollback (\<lambda>w b.
       case alloc w b of
         (Inl e, w1, b1) \<Rightarrow> (Inl e, w1, b1)
       | (Inr (ids, lens), w1, b1) \<Rightarrow>
          (case prepare_encoder_info_extend w1 b1 ids lens of
             (Inl e, w2, b2) \<Rightarrow> (Inl e, w2, b2)
           | (Inr _, w2, b2) \<Rightarrow> rest w2 b2)) w (begin_allocation b)"

subsection \<open>Committing\<close>

definition reconcile_bookkeeping :: "nat \<Rightarrow> batch_world \<Rightarrow> unit res \<times> batch_world" where
  "reconcile_bookkeeping i w =
     (let s = req_state w i; k = kv_total s; t = token_total s;
          w1 = update_req i (\<lambda>q. q\<lparr>bq_kv_allocated := map_option (\<lambda>_. k) (bq_kv_allocated q),
                                   bq_kv_committed := k\<rparr>) w in
      case req_pool_index s of
        None \<Rightarrow> (Inr (), w1)
      | Some p \<Rightarrow>
          if t \<le> k then (Inr (), w1)
          else (case zero_range (bw_pages w1) p k t of
                  Inl e \<Rightarrow> (Inl e, w1) | Inr tbl \<Rightarrow> (Inr (), w1\<lparr>bw_pages := tbl\<rparr>)))"

definition commit_txn_of :: "nat \<Rightarrow> batch_world \<Rightarrow> unit res \<times> batch_world" where
  "commit_txn_of i w =
     (if bq_txn (bw_req w i) = None then (Inr (), w)
      else case txn_commit (req_world w i) of
        Inl e \<Rightarrow> (Inl e, w)
      | Inr k \<Rightarrow> reconcile_bookkeeping i (put_world i k None w))"

definition commit_batch :: "unit batch_step" where
  "commit_batch w b =
     (case loopE commit_txn_of (bt_reqs b) w of
        (Inl e, w1) \<Rightarrow> (Inl e, w1, b)
      | (Inr _, w1) \<Rightarrow> (Inr (), w1, b\<lparr>bt_committed := True, bt_slots := None, bt_released := False\<rparr>))"

subsection \<open>Decode steps\<close>

definition decode_capacity_error :: "page_table \<Rightarrow> batch_req \<Rightarrow> bool" where
  "decode_capacity_error tbl q =
     (let s = bq_state q; width = (case tbl of [] \<Rightarrow> 0 | row # _ \<Rightarrow> int (length row));
          limit = (case context_limit s of Some n \<Rightarrow> if n = 0 then width else n | None \<Rightarrow> width);
          committed = kv_total s;
          allocated = max committed (case bq_kv_allocated q of None \<Rightarrow> committed | Some a \<Rightarrow> a);
          logical = effective_appended_encoder_length s + allocated - encoder_length s in
      allocated + 1 > width \<or> logical + 2 > limit)"

text \<open>The record of a decode attempt; \<open>int\<close> of a missing value raises.\<close>

definition decode_record :: "batch_world \<Rightarrow> nat list \<Rightarrow> decode_allocation res" where
  "decode_record w is =
     bindE (mapE (\<lambda>i. case bq_kv_allocated (bw_req w i) of None \<Rightarrow> Inl TypeError | Some a \<Rightarrow> Inr a) is) (\<lambda>pos.
     bindE (mapE (\<lambda>i. case bq_pool_idx (bw_req w i) of None \<Rightarrow> Inl TypeError | Some p \<Rightarrow> Inr p) is) (\<lambda>idx.
       Inr \<lparr>da_reqs = is, da_positions = pos,
            da_committed_lengths = map (\<lambda>i. bq_kv_committed (bw_req w i)) is,
            da_pool_indices = idx, da_slots = None, da_committed = False, da_released = False\<rparr>))"

definition prepare_for_decode :: "unit batch_step \<Rightarrow> unit batch_step" where
  "prepare_for_decode upstream w b =
     (if \<exists>i \<in> set (bt_reqs b). decode_capacity_error (bw_pages w) (bw_req w i)
      then (Inl ContextExhaustedError, w, b)
      else case decode_record w (bt_reqs b) of
        Inl e \<Rightarrow> (Inl e, w, b)
      | Inr d \<Rightarrow>
          let k = length (bw_records w);
              w0 = w\<lparr>bw_records := bw_records w @ [d]\<rparr>;
              b0 = (begin_allocation b)\<lparr>bt_record := Some k\<rparr> in
          (case upstream w0 b0 of
             (r, w1, b1) \<Rightarrow>
               let w2 = set_record k (d\<lparr>da_slots := bt_out b1\<rparr>) w1 in
               (case r of
                  Inr _ \<Rightarrow> (Inr (), w2, b1)
                | Inl e \<Rightarrow>
                   (case rollback_batch w2 b1 of (Inl e', w3, b3) \<Rightarrow> (Inl e', w3, b3)
                                                 | (Inr _, w3, b3) \<Rightarrow> (Inl e, w3, b3)))))"

definition commit_decode :: "batch_world \<Rightarrow> realtime_batch \<Rightarrow> batch_world" where
  "commit_decode w b =
     (case bt_record b of
        None \<Rightarrow> w
      | Some k \<Rightarrow> set_record k ((bw_records w ! k)\<lparr>da_committed := True\<rparr>) w)"

text \<open>\<open>copy\<close>: \<open>snap\<close> is what SGLang's \<open>copy\<close> returns; the decode record is shared.\<close>

definition copy_batch :: "realtime_batch \<Rightarrow> realtime_batch \<Rightarrow> realtime_batch" where
  "copy_batch snap b =
     snap\<lparr>bt_record := (if bt_record b = None then bt_record snap else bt_record b),
          bt_committed := bt_committed snap \<or> bt_committed b,
          bt_released := bt_released snap \<or> bt_released b\<rparr>"

end
