(* ===== verification/Extend_Batch_Props.thy ===== *)
theory Extend_Batch_Props
  imports Extend_Batch
begin

section \<open>What a failed or committed batch leaves behind\<close>

text \<open>
  Requests of a batch own disjoint rows.  \<open>tracked\<close> describes a request between allocation and
  the end of the step; every piece of the hook and of the rollback keeps it, whatever it returns.
\<close>

definition row_of :: "batch_world \<Rightarrow> nat \<Rightarrow> nat" where
  "row_of w i = nat (the (bq_pool_idx (bw_req w i)))"

definition clean_row :: "batch_world \<Rightarrow> nat \<Rightarrow> kv_layout \<Rightarrow> bool" where
  "clean_row w i l \<longleftrightarrow>
     (\<exists>p. bq_pool_idx (bw_req w i) = Some p \<and> 0 \<le> p \<and> p < int (length (bw_pages w)) \<and>
        read_layout (bw_pages w) p (encoder_length (req_state w i)) (decoder_length (req_state w i)) = Inr l \<and>
        bw_pages w ! nat p = as_tuple l @ replicate (length (bw_pages w ! nat p) - length (as_tuple l)) 0)"

text \<open>A batch between steps: every row is its layout followed by zeros, nothing is in flight.\<close>

definition batch_ready :: "batch_world \<Rightarrow> nat list \<Rightarrow> bool" where
  "batch_ready w is \<longleftrightarrow> is \<noteq> [] \<and> distinct is \<and> inj_on (\<lambda>i. bq_pool_idx (bw_req w i)) (set is) \<and>
     (\<forall>i \<in> set is. (\<exists>l. clean_row w i l) \<and> bq_txn (bw_req w i) = None \<and>
        \<not> append_inflight (req_state w i) \<and>
        req_pool_index (req_state w i) \<in> {None, bq_pool_idx (bw_req w i)} \<and>
        (0 < decoder_length (req_state w i) \<or> bq_prefix (bw_req w i) = []))"

text \<open>What an allocation may change: the kv lengths of the batch's requests, and their rows
  between the committed layout and the allocated length.\<close>

definition kv_only :: "batch_req \<Rightarrow> batch_req \<Rightarrow> bool" where
  "kv_only q q' \<longleftrightarrow> (\<exists>a c. q' = q\<lparr>bq_kv_allocated := a, bq_kv_committed := c\<rparr>)"

definition row_grown :: "int list \<Rightarrow> int list \<Rightarrow> int \<Rightarrow> int \<Rightarrow> bool" where
  "row_grown r r' k a \<longleftrightarrow> length r' = length r \<and> take (nat k) r' = take (nat k) r \<and> drop (nat a) r' = drop (nat a) r"

definition elsewhere_same :: "batch_world \<Rightarrow> batch_world \<Rightarrow> nat list \<Rightarrow> bool" where
  "elsewhere_same w w' is \<longleftrightarrow> length (bw_pages w') = length (bw_pages w) \<and>
     (\<forall>k < length (bw_pages w). k \<notin> row_of w ` set is \<longrightarrow> bw_pages w' ! k = bw_pages w ! k) \<and>
     (\<forall>j. j \<notin> set is \<longrightarrow> bw_req w' j = bw_req w j) \<and>
     bw_records w' = bw_records w \<and> bw_freed w' = bw_freed w"

definition allocates :: "batch_world \<Rightarrow> batch_world \<Rightarrow> nat list \<Rightarrow> bool" where
  "allocates w w' is \<longleftrightarrow> elsewhere_same w w' is \<and>
     (\<forall>i \<in> set is. kv_only (bw_req w i) (bw_req w' i) \<and>
        (\<exists>a. bq_kv_allocated (bw_req w' i) = Some a \<and> kv_total (req_state w i) \<le> a \<and>
           row_grown (bw_pages w ! row_of w i) (bw_pages w' ! row_of w i) (kv_total (req_state w i)) a))"

text \<open>The state of a request up to its phase, the flag of an append and the bound row.\<close>

definition same_run :: "rt_state \<Rightarrow> rt_state \<Rightarrow> bool" where
  "same_run s s' \<longleftrightarrow>
     s'\<lparr>phase := phase s, append_inflight := append_inflight s, req_pool_index := req_pool_index s\<rparr> = s"

definition tracked :: "batch_world \<Rightarrow> batch_world \<Rightarrow> nat \<Rightarrow> bool" where
  "tracked w w' i \<longleftrightarrow> same_run (req_state w i) (req_state w' i) \<and>
     req_pool_index (req_state w' i) \<in> {None, bq_pool_idx (bw_req w i)} \<and>
     bq_pool_idx (bw_req w' i) = bq_pool_idx (bw_req w i) \<and>
     bq_prefix (bw_req w' i) = bq_prefix (bw_req w i) \<and>
     length (bw_pages w' ! row_of w i) = length (bw_pages w ! row_of w i) \<and>
     bq_kv_allocated (bw_req w' i) \<noteq> None \<and>
     (if bq_txn (bw_req w' i) = None
      then \<not> append_inflight (req_state w' i) \<and>
        kv_total (req_state w i) \<le> the (bq_kv_allocated (bw_req w' i)) \<and>
        row_grown (bw_pages w ! row_of w i) (bw_pages w' ! row_of w i) (kv_total (req_state w i))
          (the (bq_kv_allocated (bw_req w' i)))
      else append_inflight (req_state w' i) \<and> req_pool_index (req_state w' i) = bq_pool_idx (bw_req w i) \<and>
        kv_total (req_state w i) \<le> the (bq_kv_allocated (bw_req w' i)) \<and>
        staged (the (bq_txn (bw_req w' i))) \<and> \<not> closed (the (bq_txn (bw_req w' i))) \<and>
        release_slots (the (bq_txn (bw_req w' i))) = None \<and>
        clean_row w i (before (the (bq_txn (bw_req w' i)))))"

definition tracking :: "batch_world \<Rightarrow> nat list \<Rightarrow> batch_world \<Rightarrow> bool" where
  "tracking w is w' \<longleftrightarrow> elsewhere_same w w' is \<and> (\<forall>i \<in> set is. tracked w w' i)"

subsection \<open>Rows and views\<close>

lemma same_run_refl [simp]: "same_run s s"
  by (simp add: same_run_def)

lemma same_run_update [simp]:
  "same_run s (s'\<lparr>phase := x\<rparr>) = same_run s s'" "same_run s (s'\<lparr>append_inflight := y\<rparr>) = same_run s s'"
  "same_run s (s'\<lparr>req_pool_index := z\<rparr>) = same_run s s'"
  by (cases s'; simp add: same_run_def)+

lemma same_runD:
  assumes "same_run s s'"
  shows "encoder_length s' = encoder_length s" "decoder_length s' = decoder_length s"
    "appended_encoder_length s' = appended_encoder_length s" "kv_total s' = kv_total s"
    "token_total s' = token_total s"
proof -
  note eq = assms [unfolded same_run_def]
  from arg_cong [OF eq, of encoder_length] show e: "encoder_length s' = encoder_length s" by simp
  from arg_cong [OF eq, of decoder_length] show d: "decoder_length s' = decoder_length s" by simp
  from arg_cong [OF eq, of appended_encoder_length]
  show "appended_encoder_length s' = appended_encoder_length s" by simp
  then show "kv_total s' = kv_total s" "token_total s' = token_total s"
    using e d by (simp_all add: kv_total_def token_total_def effective_appended_encoder_length_def split: option.split)
qed

lemma read_layout_prefix:
  assumes "length tbl' = length tbl" and "length (tbl' ! nat p) = length (tbl ! nat p)"
    and "take (nat (e + d)) (tbl' ! nat p) = take (nat (e + d)) (tbl ! nat p)"
  shows "read_layout tbl' p e d = read_layout tbl p e d"
proof (cases "0 \<le> e \<and> 0 \<le> d")
  case True
  then have n: "nat (e + d) = nat e + nat d" by (simp add: nat_add_distrib)
  have "take (nat e) (tbl' ! nat p) = take (nat e) (tbl ! nat p)"
    using arg_cong [OF assms(3), of "take (nat e)"] by (simp add: n min_def)
  moreover have "take (nat d) (drop (nat e) (tbl' ! nat p)) = take (nat d) (drop (nat e) (tbl ! nat p))"
    using arg_cong [OF assms(3), of "drop (nat e)"] by (simp add: n drop_take)
  ultimately show ?thesis
    using assms(1,2) by (simp add: read_layout_def validate_row_arguments_def Let_def)
next
  case False
  then show ?thesis
    using assms(1,2) by (auto simp: read_layout_def validate_row_arguments_def Let_def bindE_def)
qed

lemma batch_readyD:
  assumes "batch_ready w is" and "i \<in> set is"
  shows "\<exists>p l. bq_pool_idx (bw_req w i) = Some p \<and> 0 \<le> p \<and> p < int (length (bw_pages w)) \<and>
      row_of w i = nat p \<and> clean_row w i l"
  using assms by (fastforce simp: batch_ready_def clean_row_def row_of_def)

lemma rows_apart:
  assumes "batch_ready w is" and "i \<in> set is" and "j \<in> set is" and "i \<noteq> j"
  shows "row_of w i \<noteq> row_of w j"
proof
  assume eq: "row_of w i = row_of w j"
  from batch_readyD [OF assms(1,2)] batch_readyD [OF assms(1,3)] eq
  have "bq_pool_idx (bw_req w i) = bq_pool_idx (bw_req w j)" by auto
  then show False using assms by (auto simp: batch_ready_def inj_on_def)
qed

lemma clean_row_layout:
  assumes "clean_row w i l"
  shows "layout_wf l" "layout_encoder_length l = encoder_length (req_state w i)"
    "layout_decoder_length l = decoder_length (req_state w i)"
    "length (as_tuple l) \<le> length (bw_pages w ! row_of w i)"
    "int (length (as_tuple l)) = kv_total (req_state w i)"
    "bw_pages w ! row_of w i = as_tuple l @ replicate (length (bw_pages w ! row_of w i) - length (as_tuple l)) 0"
proof -
  from assms obtain p where p: "bq_pool_idx (bw_req w i) = Some p"
    and rd: "read_layout (bw_pages w) p (encoder_length (req_state w i)) (decoder_length (req_state w i)) = Inr l"
    and row: "bw_pages w ! nat p = as_tuple l @ replicate (length (bw_pages w ! nat p) - length (as_tuple l)) 0"
    by (auto simp: clean_row_def)
  note r = row_of_def [of w i, unfolded p option.sel]
  from pages.rd_wf [OF rd] show wf: "layout_wf l" and e: "layout_encoder_length l = encoder_length (req_state w i)"
    and d: "layout_decoder_length l = decoder_length (req_state w i)" by auto
  show "bw_pages w ! row_of w i = as_tuple l @ replicate (length (bw_pages w ! row_of w i) - length (as_tuple l)) 0"
    using row by (simp add: r)
  then show "length (as_tuple l) \<le> length (bw_pages w ! row_of w i)"
    by (metis length_append le_add1)
  show "int (length (as_tuple l)) = kv_total (req_state w i)"
    using e d by (simp add: kv_total_def layout_encoder_length_def layout_decoder_length_def as_tuple_def)
qed

lemma clean_row_unique: "clean_row w i l \<Longrightarrow> clean_row w i l' \<Longrightarrow> l = l'"
  by (auto simp: clean_row_def)

subsection \<open>Tracking through the hook\<close>

text \<open>A step that touches one request and its row.\<close>

definition touches_only :: "batch_world \<Rightarrow> nat \<Rightarrow> batch_world \<Rightarrow> batch_world \<Rightarrow> bool" where
  "touches_only w i w1 w2 \<longleftrightarrow> bw_records w2 = bw_records w1 \<and> bw_freed w2 = bw_freed w1 \<and>
     (\<forall>j. j \<noteq> i \<longrightarrow> bw_req w2 j = bw_req w1 j) \<and> length (bw_pages w2) = length (bw_pages w1) \<and>
     (\<forall>k. k \<noteq> row_of w i \<longrightarrow> bw_pages w2 ! k = bw_pages w1 ! k)"

lemma touches_only_refl [simp]: "touches_only w i w1 w1"
  by (simp add: touches_only_def)

lemma elsewhere_step: "elsewhere_same w w1 is \<Longrightarrow> i \<in> set is \<Longrightarrow> touches_only w i w1 w2 \<Longrightarrow> elsewhere_same w w2 is"
  by (auto simp: elsewhere_same_def touches_only_def)

lemma tracked_elsewhere:
  assumes "batch_ready w is" "i \<in> set is" "j \<in> set is" "j \<noteq> i" and "touches_only w i w1 w2"
  shows "bw_req w2 j = bw_req w1 j" "bw_pages w2 ! row_of w j = bw_pages w1 ! row_of w j"
    "tracked w w2 j = tracked w w1 j"
proof -
  show 1: "bw_req w2 j = bw_req w1 j" and 2: "bw_pages w2 ! row_of w j = bw_pages w1 ! row_of w j"
    using assms rows_apart [OF assms(1,3,2,4)] by (auto simp: touches_only_def)
  show "tracked w w2 j = tracked w w1 j" unfolding tracked_def req_state_def 1 2 by (rule refl)
qed

lemma tracking_step:
  assumes ready: "batch_ready w is" and T: "tracking w is w1" and i: "i \<in> set is"
    and only: "touches_only w i w1 w2" and here: "tracked w w2 i"
  shows "tracking w is w2"
proof -
  have "elsewhere_same w w2 is"
    using T only i by (auto simp: tracking_def elsewhere_same_def touches_only_def)
  moreover have "tracked w w2 j" if "j \<in> set is" for j
    using T here tracked_elsewhere(3) [OF ready i that _ only] that by (cases "j = i") (auto simp: tracking_def)
  ultimately show ?thesis by (simp add: tracking_def)
qed

lemma tracking_alloc:
  assumes "batch_ready w is" and "allocates w w1 is"
  shows "tracking w is w1"
proof -
  have "tracked w w1 i" if i: "i \<in> set is" for i
  proof -
    from assms i obtain a c a' where q: "bw_req w1 i = (bw_req w i)\<lparr>bq_kv_allocated := a', bq_kv_committed := c\<rparr>"
      and a: "bq_kv_allocated (bw_req w1 i) = Some a" "kv_total (req_state w i) \<le> a"
        "row_grown (bw_pages w ! row_of w i) (bw_pages w1 ! row_of w i) (kv_total (req_state w i)) a"
      by (fastforce simp: allocates_def kv_only_def)
    have "bq_txn (bw_req w i) = None" "\<not> append_inflight (req_state w i)"
      "req_pool_index (req_state w i) \<in> {None, bq_pool_idx (bw_req w i)}"
      using assms(1) i by (auto simp: batch_ready_def)
    then show ?thesis using q a by (simp add: tracked_def req_state_def row_grown_def)
  qed
  then show ?thesis using assms(2) by (simp add: tracking_def allocates_def)
qed

lemma plan_request_state:
  assumes "plan_request tbl out off rid q ids n = (r, s)"
    and "0 < decoder_length (bq_state q) \<or> bq_prefix q = []"
    and "req_pool_index (bq_state q) \<in> {None, bq_pool_idx q}"
  shows "\<exists>pi. s = (bq_state q)\<lparr>req_pool_index := pi\<rparr> \<and> pi \<in> {None, bq_pool_idx q}"
proof (cases "bq_pool_idx q")
  case None
  then show ?thesis using assms by (auto simp: plan_request_def intro: exI [of _ "req_pool_index (bq_state q)"])
next
  case (Some p)
  show ?thesis
  proof (cases "bind_req_pool_index (bq_state q) p")
    case (Inl e)
    then have "s = bq_state q" using assms(1) Some by (simp add: plan_request_def)
    then show ?thesis using assms(3) by (intro exI [of _ "req_pool_index (bq_state q)"]) simp
  next
    case (Inr s0)
    then have s0: "s0 = (bq_state q)\<lparr>req_pool_index := Some p\<rparr>"
      by (auto simp: bind_req_pool_index_def split: if_splits)
    have "bootstrap_state q s0 = s0" using assms(2) s0 by (auto simp: bootstrap_state_def)
    then have "s = s0" using assms(1) Some Inr by (simp add: plan_request_def Let_def)
    then show ?thesis using s0 Some by auto
  qed
qed

lemma update_req_simps [simp]:
  "bw_pages (update_req i f w) = bw_pages w" "bw_records (update_req i f w) = bw_records w"
  "bw_freed (update_req i f w) = bw_freed w" "bw_req (update_req i f w) i = f (bw_req w i)"
  "j \<noteq> i \<Longrightarrow> bw_req (update_req i f w) j = bw_req w j"
  by (simp_all add: update_req_def)

lemma touches_update [simp]: "touches_only w i w1 (update_req i f w1)"
  by (simp add: touches_only_def)

lemma plan_bound_Inr:
  assumes "plan_bound tbl new rid q ids n i tot s lead = Inr p"
  shows "0 \<le> tot - encoder_length s" "0 < raw_extend_length q - (tot - encoder_length s)"
    "n = effective_appended_encoder_length s + (tot - encoder_length s) + decoder_length s
       + (raw_extend_length q - (tot - encoder_length s))"
    "int (length new) = raw_extend_length q"
    "p = \<lparr>pl_req = rid, pl_ids = ids, pl_encoder_slots = take (nat (tot - encoder_length s)) (drop lead new),
        pl_decoder_slots = take lead new @ drop (lead + nat (tot - encoder_length s)) new,
        pl_total_encoder = tot,
        pl_total_decoder = decoder_length s + (raw_extend_length q - (tot - encoder_length s)),
        pl_decoder_extend = raw_extend_length q - (tot - encoder_length s), pl_leading = lead\<rparr>"
  using assms unfolding plan_bound_def Let_def bindE_eq_Inr ensure_eq_Inr sum.inject
  by blast+

lemma plan_request_Inr:
  assumes "plan_request tbl out off rid q ids n = (Inr p, s)"
  obtains i s0 where "bq_pool_idx q = Some i" "bind_req_pool_index (bq_state q) i = Inr s0"
    "s = bootstrap_state q s0"
    "plan_bound tbl (take (nat (raw_extend_length q)) (drop off out)) rid q ids n i
       (total_encoder_length q s0) s (if pending_token_id s = None then 0 else 1) = Inr p"
proof (cases "bq_pool_idx q")
  case None
  with assms have False by (simp add: plan_request_def)
  then show ?thesis ..
next
  case (Some i)
  show ?thesis
  proof (cases "bind_req_pool_index (bq_state q) i")
    case (Inl e)
    with assms Some have False by (simp add: plan_request_def)
    then show ?thesis ..
  next
    case (Inr s0)
    define lead where "lead = (\<lambda>s :: rt_state. if pending_token_id s = None then 0 else 1 :: nat)"
    have "(plan_bound tbl (take (nat (raw_extend_length q)) (drop off out)) rid q ids n i
        (total_encoder_length q s0) (bootstrap_state q s0) (lead (bootstrap_state q s0)), bootstrap_state q s0)
        = (Inr p, s)"
      using assms unfolding plan_request_def Some Inr option.case sum.case Let_def lead_def .
    then have "s = bootstrap_state q s0" "plan_bound tbl (take (nat (raw_extend_length q)) (drop off out)) rid q ids n i
        (total_encoder_length q s0) s (lead s) = Inr p" by blast+
    then show ?thesis unfolding lead_def by (rule that [OF Some Inr])
  qed
qed

lemma plan_request_id:
  assumes "plan_request tbl out off rid q ids n = (Inr p, s)"
  shows "pl_req p = rid" "int (length (take (nat (raw_extend_length q)) (drop off out))) = raw_extend_length q"
proof -
  from assms obtain i s0 where "plan_bound tbl (take (nat (raw_extend_length q)) (drop off out)) rid q ids n i
       (total_encoder_length q s0) s (if pending_token_id s = None then 0 else 1) = Inr p"
    by (rule plan_request_Inr)
  from plan_bound_Inr(4,5) [OF this]
  show "pl_req p = rid" "int (length (take (nat (raw_extend_length q)) (drop off out))) = raw_extend_length q"
    by simp_all
qed

text \<open>Planning binds the pool index and changes nothing else.\<close>

lemma tracking_plan:
  assumes ready: "batch_ready w is" and T: "tracking w is w1" and i: "i \<in> set is"
    and none: "bq_txn (bw_req w1 i) = None"
    and pr: "plan_request tbl out off rid (bw_req w1 i) ids n = (r, s)"
  shows "tracking w is (update_req i (\<lambda>q. q\<lparr>bq_state := s\<rparr>) w1)"
proof (rule tracking_step [OF ready T i touches_update])
  from T i have t: "tracked w w1 i" by (simp add: tracking_def)
  then have "0 < decoder_length (bq_state (bw_req w1 i)) \<or> bq_prefix (bw_req w1 i) = []"
    using ready i same_runD(2) by (fastforce simp: batch_ready_def tracked_def req_state_def)
  moreover have "req_pool_index (bq_state (bw_req w1 i)) \<in> {None, bq_pool_idx (bw_req w1 i)}"
    using t by (simp add: tracked_def req_state_def)
  ultimately obtain pi' where s: "s = (bq_state (bw_req w1 i))\<lparr>req_pool_index := pi'\<rparr>"
    "pi' \<in> {None, bq_pool_idx (bw_req w1 i)}"
    using plan_request_state [OF pr] by metis
  then show "tracked w (update_req i (\<lambda>q. q\<lparr>bq_state := s\<rparr>) w1) i"
    using t none by (simp add: tracked_def req_state_def)
qed

lemma tracking_plans:
  assumes "batch_ready w is" and "tracking w is w1" and "set js \<subseteq> set is" and "distinct js"
    and "\<forall>j \<in> set js. bq_txn (bw_req w1 j) = None"
    and "build_plans js xs ns out off w1 = (r, w2)"
  shows "tracking w is w2" "r = Inr ps \<Longrightarrow> length xs = length js \<Longrightarrow> length ns = length js \<Longrightarrow> map pl_req ps = js"
proof -
  have "tracking w is w2 \<and> (\<forall>ps. r = Inr ps \<longrightarrow> length xs = length js \<longrightarrow> length ns = length js \<longrightarrow> map pl_req ps = js)"
    using assms(2-)
  proof (induction js xs ns out off w1 arbitrary: r w2 rule: build_plans.induct)
    case (1 i js x xs n ns out off w1)
    obtain rp s where pr: "plan_request (bw_pages w1) out off i (bw_req w1 i) x n = (rp, s)"
      by (cases "plan_request (bw_pages w1) out off i (bw_req w1 i) x n")
    let ?w = "update_req i (\<lambda>q. q\<lparr>bq_state := s\<rparr>) w1"
    have T: "tracking w is ?w"
      using tracking_plan [OF assms(1) 1(2) _ _ pr] 1(3,5) by simp
    have none: "\<forall>j \<in> set js. bq_txn (bw_req ?w j) = None"
      using 1(4,5) by (auto simp: update_req_def)
    show ?case
    proof (cases rp)
      case (Inl e)
      then show ?thesis using 1(6) pr T by clarsimp
    next
      case (Inr p)
      have pid: "pl_req p = i" using pr Inr plan_request_id by blast
      obtain r2 w3 where b: "build_plans js xs ns out (off + nat (raw_extend_length (bw_req w1 i))) ?w = (r2, w3)"
        by (cases "build_plans js xs ns out (off + nat (raw_extend_length (bw_req w1 i))) ?w")
      have IH: "tracking w is w3 \<and> (\<forall>ps. r2 = Inr ps \<longrightarrow> length xs = length js \<longrightarrow> length ns = length js \<longrightarrow> map pl_req ps = js)"
        using 1(1) [OF pr [symmetric] refl Inr T _ _ none b] 1(3,4) by simp
      then show ?thesis using 1(6) pr Inr b pid by (cases r2) clarsimp+
    qed
  qed (auto split: if_splits)
  then show "tracking w is w2" "r = Inr ps \<Longrightarrow> length xs = length js \<Longrightarrow> length ns = length js \<Longrightarrow> map pl_req ps = js" by auto
qed

lemma put_world_simps [simp]:
  "bw_pages (put_world i k t w) = pages k" "bw_records (put_world i k t w) = bw_records w"
  "bw_freed (put_world i k t w) = bw_freed w"
  "bw_req (put_world i k t w) i = (bw_req w i)\<lparr>bq_state := rt k, bq_txn := t\<rparr>"
  "j \<noteq> i \<Longrightarrow> bw_req (put_world i k t w) j = bw_req w j"
  by (simp_all add: put_world_def update_req_def)

lemma req_world_simps [simp]:
  "pages (req_world w i) = bw_pages w" "rt (req_world w i) = req_state w i"
  "txn (req_world w i) = bq_txn (bw_req w i)" "released (req_world w i) = []"
  by (simp_all add: req_world_def req_state_def)

lemma touches_put:
  assumes "write_layout (bw_pages w1) p l c = Inr tbl" "pages k = tbl" "row_of w i = nat p"
  shows "touches_only w i w1 (put_world i k t w1)"
  using assms write_layout_shape(1) [OF assms(1)] write_layout_other_rows [OF assms(1)]
  by (simp add: touches_only_def)

lemma tracked_row:
  assumes ready: "batch_ready w is" and T: "tracking w is w1" and i: "i \<in> set is"
  obtains p l where "bq_pool_idx (bw_req w i) = Some p" "bq_pool_idx (bw_req w1 i) = Some p" "0 \<le> p"
    "nat p < length (bw_pages w1)" "row_of w i = nat p" "clean_row w i l" "tracked w w1 i"
    "length (bw_pages w1) = length (bw_pages w)"
    "length (bw_pages w1 ! nat p) = length (bw_pages w ! nat p)"
    "read_layout (bw_pages w) p (encoder_length (req_state w i)) (decoder_length (req_state w i)) = Inr l"
proof -
  from batch_readyD [OF ready i] obtain p l where p: "bq_pool_idx (bw_req w i) = Some p" "0 \<le> p"
    "p < int (length (bw_pages w))" "row_of w i = nat p" and l: "clean_row w i l" by auto
  have t: "tracked w w1 i" "length (bw_pages w1) = length (bw_pages w)"
    using T i by (auto simp: tracking_def elsewhere_same_def)
  show ?thesis
    by (rule that [OF p(1) _ p(2) _ p(4) l t(1,2)])
      (use p t l in \<open>auto simp: tracked_def clean_row_def\<close>)
qed

text \<open>What staging a plan does to its request, and to its row.\<close>

definition staged_plan :: "batch_world \<Rightarrow> batch_world \<Rightarrow> extend_plan \<Rightarrow> batch_world \<Rightarrow> kv_layout \<Rightarrow> append_txn \<Rightarrow> bool" where
  "staged_plan w w1 p w2 l t \<longleftrightarrow> (let i = pl_req p; r = bw_pages w1 ! row_of w i in
     clean_row w i l \<and> bq_txn (bw_req w1 i) = None \<and>
     req_pool_index (req_state w1 i) = bq_pool_idx (bw_req w i) \<and>
     before t = l \<and> layout_wf (after t) \<and> staged t \<and> \<not> closed t \<and> release_slots t = None \<and>
     after t = \<lparr>encoder_slots = encoder_slots l @ pl_encoder_slots p,
                decoder_slots = decoder_slots l @ pl_decoder_slots p\<rparr> \<and>
     bw_req w2 i = (bw_req w1 i)\<lparr>bq_state := (req_state w1 i)\<lparr>append_inflight := True, phase := Extending\<rparr>,
                                 bq_txn := Some t\<rparr> \<and>
     length (as_tuple (after t)) \<le> length r \<and>
     bw_pages w2 ! row_of w i = as_tuple (after t) @ drop (length (as_tuple (after t))) r)"

lemma begin_plan_staged:
  assumes ready: "batch_ready w is" and T: "tracking w is w1" and i: "pl_req p \<in> set is"
    and b: "begin_plan p w1 = (Inr u, w2)"
  shows "touches_only w (pl_req p) w1 w2 \<and> (\<exists>l t. staged_plan w w1 p w2 l t)"
proof -
  let ?i = "pl_req p"
  let ?m = "bindE (added_frames_of p (bw_req w1 ?i)) (\<lambda>added.
             begin_kv_append (req_world w1 ?i) (pl_encoder_slots p) (pl_decoder_slots p) added
               (Some (next_position_of p (bw_req w1 ?i))) None)"
  from b obtain k where m: "?m = Inr k" and w2: "w2 = put_world ?i k (txn k) w1"
    by (cases ?m) (simp_all add: begin_plan_def Let_def)
  from m obtain added where bk: "begin_kv_append (req_world w1 ?i) (pl_encoder_slots p) (pl_decoder_slots p) added
             (Some (next_position_of p (bw_req w1 ?i))) None = Inr k"
    by (auto simp: bindE_eq_Inr)
  obtain ip l0 l2 pos tbl where k: "req_pool_index (req_state w1 ?i) = Some ip" "\<not> append_inflight (req_state w1 ?i)"
    "read_layout (bw_pages w1) ip (encoder_length (req_state w1 ?i)) (decoder_length (req_state w1 ?i)) = Inr l0"
    "encoder_slots l2 = encoder_slots l0 @ pl_encoder_slots p" "decoder_slots l2 = decoder_slots l0 @ pl_decoder_slots p"
    "layout_wf l2" "write_layout (bw_pages w1) ip l2 False = Inr tbl"
    "k = (req_world w1 ?i)\<lparr>pages := tbl, rt := (req_state w1 ?i)\<lparr>append_inflight := True, phase := Extending\<rparr>,
         txn := Some \<lparr>before = l0, after = l2, added_frames = added,
           staged_next_mrope_position = pos, new_slots = pl_encoder_slots p @ pl_decoder_slots p,
           release_slots = None, staged = True, closed = False\<rparr>\<rparr>"
    by (rule begin_kv_append_Inr [OF bk]) simp
  obtain p' l where row: "bq_pool_idx (bw_req w ?i) = Some p'" "bq_pool_idx (bw_req w1 ?i) = Some p'" "0 \<le> p'"
    "nat p' < length (bw_pages w1)" "row_of w ?i = nat p'" "clean_row w ?i l" "tracked w w1 ?i"
    "length (bw_pages w1) = length (bw_pages w)"
    "length (bw_pages w1 ! nat p') = length (bw_pages w ! nat p')"
    "read_layout (bw_pages w) p' (encoder_length (req_state w ?i)) (decoder_length (req_state w ?i)) = Inr l"
    by (rule tracked_row [OF ready T i])
  have ip: "ip = p'" using row(1,7) k(1) by (simp add: tracked_def)
  have none: "bq_txn (bw_req w1 ?i) = None" using row(7) k(2) by (auto simp: tracked_def split: if_splits)
  have same: "encoder_length (req_state w1 ?i) = encoder_length (req_state w ?i)"
    "decoder_length (req_state w1 ?i) = decoder_length (req_state w ?i)"
    using row(7) same_runD by (auto simp: tracked_def)
  have "take (nat (kv_total (req_state w ?i))) (bw_pages w1 ! nat p') = take (nat (kv_total (req_state w ?i))) (bw_pages w ! nat p')"
    using row(5,7) none by (simp add: tracked_def row_grown_def)
  from read_layout_prefix [OF row(8,9) this [unfolded kv_total_def]] k(3) row(10) same ip
  have l0: "l0 = l" by simp
  have l2: "l2 = \<lparr>encoder_slots = encoder_slots l @ pl_encoder_slots p, decoder_slots = decoder_slots l @ pl_decoder_slots p\<rparr>"
    using k(4,5) l0 by simp
  have only: "touches_only w ?i w1 w2" unfolding w2
    by (rule touches_put [OF k(7)]) (simp_all add: k(8) row(5) ip)
  have tbl: "tbl = (bw_pages w1)[nat p' := as_tuple l2 @ drop (length (as_tuple l2)) (bw_pages w1 ! nat p')]"
    "length (as_tuple l2) \<le> length (bw_pages w1 ! nat p')"
    using k(7) by (simp_all add: write_layout_Inr ip write_row_def Let_def)
  have "staged_plan w w1 p w2 l (the (txn k))"
    using none k(1,6) l0 row tbl by (simp add: staged_plan_def w2 k(8) ip req_state_def) (simp add: l2)
  with only show ?thesis by blast
qed

lemma tracking_begin:
  assumes ready: "batch_ready w is" and T: "tracking w is w1" and i: "pl_req p \<in> set is"
    and b: "begin_plan p w1 = (r, w2)"
  shows "tracking w is w2"
proof (cases r)
  case (Inl e)
  then have "w2 = w1" using b by (auto simp: begin_plan_def Let_def split: sum.splits)
  then show ?thesis using T by simp
next
  case (Inr u)
  from begin_plan_staged [OF ready T i b [unfolded Inr]] obtain l t
    where only: "touches_only w (pl_req p) w1 w2" and st: "staged_plan w w1 p w2 l t" by blast
  have "length (bw_pages w2 ! row_of w (pl_req p)) = length (bw_pages w1 ! row_of w (pl_req p))"
  proof -
    have "length (as_tuple (after t)) \<le> length (bw_pages w1 ! row_of w (pl_req p))"
      "bw_pages w2 ! row_of w (pl_req p)
        = as_tuple (after t) @ drop (length (as_tuple (after t))) (bw_pages w1 ! row_of w (pl_req p))"
      using st unfolding staged_plan_def Let_def by blast+
    then show ?thesis by simp
  qed
  moreover have "tracked w w1 (pl_req p)" using T i by (simp add: tracking_def)
  ultimately have "tracked w w2 (pl_req p)"
    using st by (simp add: tracked_def staged_plan_def req_state_def Let_def)
  then show ?thesis by (rule tracking_step [OF ready T i only])
qed

lemma tracking_begin_all:
  assumes "batch_ready w is" and "tracking w is w1" and "\<forall>p \<in> set ps. pl_req p \<in> set is"
    and "loopE begin_plan ps w1 = (r, w2)"
  shows "tracking w is w2"
  by (rule loopE_invariant [where I = "tracking w is", OF _ assms(2,4)]) (use tracking_begin [OF assms(1)] assms(3) in blast)

subsection \<open>Tracking through the rollback\<close>

lemma tracking_rollback:
  assumes ready: "batch_ready w is" and T: "tracking w is w1" and i: "i \<in> set is"
  shows "\<exists>w2. rollback_txn_of i w1 = (Inr (), w2) \<and> tracking w is w2 \<and> bq_txn (bw_req w2 i) = None \<and>
    (\<forall>j. j \<noteq> i \<longrightarrow> bw_req w2 j = bw_req w1 j)"
proof (cases "bq_txn (bw_req w1 i)")
  case None
  then show ?thesis using T by (simp add: rollback_txn_of_def)
next
  case (Some t)
  obtain p l where row: "bq_pool_idx (bw_req w i) = Some p" "bq_pool_idx (bw_req w1 i) = Some p" "0 \<le> p"
    "nat p < length (bw_pages w1)" "row_of w i = nat p" "clean_row w i l" "tracked w w1 i"
    "length (bw_pages w1) = length (bw_pages w)"
    "length (bw_pages w1 ! nat p) = length (bw_pages w ! nat p)"
    by (rule tracked_row [OF ready T i])
  have t: "staged t" "\<not> closed t" "release_slots t = None" "clean_row w i (before t)"
    "req_pool_index (req_state w1 i) = Some p"
    using row(1,7) Some by (simp_all add: tracked_def)
  note l = clean_row_layout [OF t(4)]
  obtain tbl where wl: "write_layout (bw_pages w1) p (before t) True = Inr tbl"
    and tbl: "tbl = (bw_pages w1)[nat p := write_row (bw_pages w1 ! nat p) (before t) True]"
    using row(3,4,5,9) l(4) by (simp add: write_layout_Inr)
  have new: "tbl ! nat p = bw_pages w ! nat p"
  proof -
    have "tbl ! nat p = as_tuple (before t) @ replicate (length (bw_pages w ! nat p) - length (as_tuple (before t))) 0"
      using row(4,9) by (simp add: tbl write_row_def Let_def)
    then show ?thesis using l(6) row(5) by simp
  qed
  let ?k = "(req_world w1 i)\<lparr>pages := tbl, rt := (req_state w1 i)\<lparr>append_inflight := False,
      phase := WaitingForEvent\<rparr>, txn := Some (t\<lparr>closed := True\<rparr>)\<rparr>"
  have rb: "txn_rollback (req_world w1 i) = (Inr (), ?k)"
    using Some t wl by (simp add: txn_rollback_def txn_active_def Let_def)
  let ?w2 = "put_world i ?k None w1"
  have run: "rollback_txn_of i w1 = (Inr (), ?w2)" by (simp add: rollback_txn_of_def Some rb)
  have "tracked w ?w2 i"
    using row(1,5,7) t(5) Some new by (simp add: tracked_def req_state_def row_grown_def)
  moreover have "touches_only w i w1 ?w2" by (rule touches_put [OF wl]) (simp_all add: row(5))
  ultimately have "tracking w is ?w2" by (metis tracking_step [OF ready T i])
  with run show ?thesis by auto
qed

lemma zero_grown:
  assumes "row_grown r r' k a" and "r = l @ replicate (length r - length l) 0" and "int (length l) = k" and "k \<le> a"
  shows "take (nat k) r' @ replicate (min (nat a) (length r') - nat k) 0 @ drop (max (nat k) (nat a)) r' = (r :: int list)"
proof -
  define n where "n = length r - length l"
  define m where "m = nat a"
  have r: "r = l @ replicate n 0" using assms(2) by (simp add: n_def)
  have k: "nat k = length l" and m: "length l \<le> m" using assms(3,4) by (auto simp: m_def)
  have len: "length r' = length l + n" and tk: "take (length l) r' = l" and dr: "drop m r' = drop m r"
    using assms(1) by (simp_all add: row_grown_def k m_def r)
  have "drop m r' = replicate (n - (m - length l)) 0" using m by (simp add: dr r)
  moreover have "min m (length l + n) - length l + (n - (m - length l)) = n" using m by auto
  ultimately show ?thesis using m by (simp add: k len tk r max_def flip: m_def replicate_add)
qed

definition restored :: "batch_world \<Rightarrow> batch_world \<Rightarrow> nat \<Rightarrow> bool" where
  "restored w w' i \<longleftrightarrow> same_run (req_state w i) (req_state w' i) \<and> bq_txn (bw_req w' i) = None \<and>
     \<not> append_inflight (req_state w' i) \<and>
     bq_kv_allocated (bw_req w' i) = Some (kv_total (req_state w i)) \<and>
     bq_kv_committed (bw_req w' i) = kv_total (req_state w i) \<and>
     bw_pages w' ! row_of w i = bw_pages w ! row_of w i"

lemma tracking_restore:
  assumes ready: "batch_ready w is" and T: "tracking w is w1" and i: "i \<in> set is"
    and none: "bq_txn (bw_req w1 i) = None"
  shows "\<exists>w2. restore_bookkeeping i w1 = (Inr (), w2) \<and> tracking w is w2 \<and> restored w w2 i \<and>
    touches_only w i w1 w2"
proof -
  obtain p l where row: "bq_pool_idx (bw_req w i) = Some p" "bq_pool_idx (bw_req w1 i) = Some p" "0 \<le> p"
    "nat p < length (bw_pages w1)" "row_of w i = nat p" "clean_row w i l" "tracked w w1 i"
    "length (bw_pages w1) = length (bw_pages w)"
    "length (bw_pages w1 ! nat p) = length (bw_pages w ! nat p)"
    by (rule tracked_row [OF ready T i])
  note l = clean_row_layout [OF row(6)]
  define c where "c = kv_total (req_state w i)"
  obtain a where a: "bq_kv_allocated (bw_req w1 i) = Some a" "c \<le> a"
    and g: "row_grown (bw_pages w ! nat p) (bw_pages w1 ! nat p) c a"
    using row(5,7) none by (auto simp: tracked_def c_def)
  have c1: "kv_total (bq_state (bw_req w1 i)) = c"
    using row(7) same_runD(4) by (auto simp: tracked_def c_def req_state_def)
  have len: "int (length (as_tuple l)) = c" using l(5) by (simp add: c_def)
  define row' where "row' = take (nat c) (bw_pages w1 ! nat p) @ replicate (min (nat a) (length (bw_pages w1 ! nat p)) - nat c) 0
      @ drop (max (nat c) (nat a)) (bw_pages w1 ! nat p)"
  have row': "row' = bw_pages w ! nat p"
    unfolding row'_def by (rule zero_grown [OF g _ len a(2)]) (use l(6) row(5) in simp)
  define w2 where "w2 = update_req i (\<lambda>q. q\<lparr>bq_kv_committed := c, bq_kv_allocated := Some c\<rparr>) w1"
  have u: "update_req i (\<lambda>q. q\<lparr>bq_kv_committed := c, bq_kv_allocated := map_option (\<lambda>_. c) (bq_kv_allocated q)\<rparr>) w1 = w2"
    using a(1) by (simp add: w2_def update_req_def)
  define w3 where "w3 = (if a \<le> c then w2 else w2\<lparr>bw_pages := (bw_pages w1)[nat p := row']\<rparr>)"
  have run: "restore_bookkeeping i w1 = (Inr (), w3)"
    using row(2,3,4) a
    by (simp add: restore_bookkeeping_def c1 Let_def w3_def zero_range_def row'_def nat_less_iff)
      (simp add: w2_def update_req_def)
  have same: "bw_pages w3 ! nat p = bw_pages w ! nat p"
  proof (cases "a \<le> c")
    case True
    then have "row' = bw_pages w1 ! nat p" using a(2) by (simp add: row'_def)
    then show ?thesis using True row' by (simp add: w3_def w2_def)
  qed (use row(4) row' in \<open>simp add: w3_def w2_def\<close>)
  have req: "bw_req w3 i = (bw_req w1 i)\<lparr>bq_kv_committed := c, bq_kv_allocated := Some c\<rparr>"
    by (simp add: w3_def w2_def)
  have only: "touches_only w i w1 w3"
    using row(5) by (auto simp: touches_only_def w3_def w2_def)
  have "tracked w w3 i"
    using row(1,5,7) none same req by (simp add: tracked_def req_state_def row_grown_def c_def)
  then have "tracking w is w3" by (rule tracking_step [OF ready T i only])
  moreover have "restored w w3 i"
    using row(5,7) none same req by (simp add: restored_def tracked_def req_state_def c_def)
  ultimately show ?thesis using run only by blast
qed

subsection \<open>Rolling a batch back\<close>

lemma rollback_restores:
  assumes ready: "batch_ready w (bt_reqs b)" and T: "tracking w (bt_reqs b) w1"
    and b: "bt_record b = None" "\<not> bt_released b" "\<not> bt_committed b" "bt_slots b = Some slots"
  shows "\<exists>w2 b2. rollback_batch w1 b = (Inr (), w2, b2) \<and> bw_pages w2 = bw_pages w \<and>
    bw_freed w2 = bw_freed w @ (if slots = None \<or> slots = Some [] then [] else [the slots]) \<and>
    (\<forall>i \<in> set (bt_reqs b). restored w w2 i) \<and> (\<forall>j. j \<notin> set (bt_reqs b) \<longrightarrow> bw_req w2 j = bw_req w j) \<and>
    bt_released b2 \<and> bt_record b2 = None"
proof -
  let ?is = "bt_reqs b"
  have d: "distinct ?is" using ready by (simp add: batch_ready_def)
  have "\<exists>w2. loopE rollback_txn_of (rev ?is) w1 = (Inr (), w2) \<and> tracking w ?is w2
    \<and> (\<forall>i \<in> set (rev ?is). bq_txn (bw_req w2 i) = None)
    \<and> (\<forall>y \<in> set ?is - set (rev ?is). (True \<longrightarrow> True) \<and> (bq_txn (bw_req w1 y) = None \<longrightarrow> bq_txn (bw_req w2 y) = None))"
  proof (rule loopE_each [where P = "\<lambda>_ _. True"])
    fix i w' assume "i \<in> set ?is" "tracking w ?is w'"
    from tracking_rollback [OF ready this(2,1)] obtain w2 where "rollback_txn_of i w' = (Inr (), w2)"
      "tracking w ?is w2" "bq_txn (bw_req w2 i) = None" "\<forall>j. j \<noteq> i \<longrightarrow> bw_req w2 j = bw_req w' j" by blast
    then show "\<exists>w2. rollback_txn_of i w' = (Inr (), w2) \<and> tracking w ?is w2 \<and> bq_txn (bw_req w2 i) = None
      \<and> (\<forall>y \<in> set ?is. y \<noteq> i \<longrightarrow> (True \<longrightarrow> True) \<and> (bq_txn (bw_req w' y) = None \<longrightarrow> bq_txn (bw_req w2 y) = None))"
      by auto
  qed (use d T in auto)
  then obtain w2 where w2: "loopE rollback_txn_of (rev ?is) w1 = (Inr (), w2)" "tracking w ?is w2"
    "\<forall>i \<in> set ?is. bq_txn (bw_req w2 i) = None" by auto
  have "\<exists>w3. loopE restore_bookkeeping ?is w2 = (Inr (), w3) \<and> tracking w ?is w3
    \<and> (\<forall>i \<in> set ?is. restored w w3 i)
    \<and> (\<forall>y \<in> set ?is - set ?is. (bq_txn (bw_req w2 y) = None \<longrightarrow> bq_txn (bw_req w3 y) = None)
         \<and> (restored w w2 y \<longrightarrow> restored w w3 y))"
  proof (rule loopE_each)
    fix i w' assume i: "i \<in> set ?is" and T': "tracking w ?is w'" and n: "bq_txn (bw_req w' i) = None"
    from tracking_restore [OF ready T' i n] obtain w'' where w'': "restore_bookkeeping i w' = (Inr (), w'')"
      "tracking w ?is w''" "restored w w'' i" "touches_only w i w' w''" by blast
    have "\<forall>y \<in> set ?is. y \<noteq> i \<longrightarrow> (bq_txn (bw_req w' y) = None \<longrightarrow> bq_txn (bw_req w'' y) = None)
         \<and> (restored w w' y \<longrightarrow> restored w w'' y)"
      using tracked_elsewhere [OF ready i _ _ w''(4)] by (simp add: restored_def req_state_def)
    with w'' show "\<exists>w''. restore_bookkeeping i w' = (Inr (), w'') \<and> tracking w ?is w'' \<and> restored w w'' i
      \<and> (\<forall>y \<in> set ?is. y \<noteq> i \<longrightarrow> (bq_txn (bw_req w' y) = None \<longrightarrow> bq_txn (bw_req w'' y) = None)
         \<and> (restored w w' y \<longrightarrow> restored w w'' y))" by blast
  qed (use d w2 in auto)
  then obtain w3 where w3: "loopE restore_bookkeeping ?is w2 = (Inr (), w3)" "tracking w ?is w3"
    "\<forall>i \<in> set ?is. restored w w3 i" by auto
  have el: "elsewhere_same w w3 ?is" using w3(2) by (simp add: tracking_def)
  have "bw_pages w3 = bw_pages w"
  proof (rule nth_equalityI)
    fix k assume "k < length (bw_pages w3)"
    then show "bw_pages w3 ! k = bw_pages w ! k"
      using el w3(3) by (cases "k \<in> row_of w ` set ?is") (auto simp: elsewhere_same_def restored_def)
  qed (use el in \<open>simp add: elsewhere_same_def\<close>)
  then show ?thesis
    using b w2(1) w3(1,3) el
    by (auto simp: rollback_batch_def release_slots_of_def elsewhere_same_def restored_def req_state_def Let_def
        split: option.split list.split)
qed

lemma tracking_install:
  assumes "batch_ready w is" and "tracking w is w1" and "\<forall>p \<in> set ps. pl_req p \<in> set is"
  shows "tracking w is (fold (\<lambda>p. update_req (pl_req p) (start_of_plan p)) ps w1)"
  using assms(2,3)
proof (induction ps arbitrary: w1)
  case (Cons p ps)
  have "tracked w (update_req (pl_req p) (start_of_plan p) w1) (pl_req p)"
    using Cons.prems by (auto simp: tracking_def tracked_def req_state_def start_of_plan_def split: if_splits)
  then have "tracking w is (update_req (pl_req p) (start_of_plan p) w1)"
    using tracking_step [OF assms(1) Cons.prems(1) _ touches_update] Cons.prems(2) by simp
  with Cons show ?case by simp
qed simp

text \<open>Once the hook has noted the slots.\<close>

lemma rollback_noted:
  assumes ready: "batch_ready w (bt_reqs b1)" and alloc: "allocates w w1 (bt_reqs b1)"
    and b1: "bt_out b1 = Some out" "\<not> bt_return_logprob b1"
      "length ids = length (bt_reqs b1)" "length lens = length (bt_reqs b1)"
    and hook: "prepare_encoder_info_extend w1 b1 ids lens = (r, w2, b2)"
    and rb: "rollback_batch w2 b2 = (r', w3, b3)"
  shows "r' = Inr () \<and> bw_pages w3 = bw_pages w \<and>
    bw_freed w3 = bw_freed w @ (if out = [] then [] else [out]) \<and>
    (\<forall>i \<in> set (bt_reqs b1). restored w w3 i) \<and> (\<forall>j. j \<notin> set (bt_reqs b1) \<longrightarrow> bw_req w3 j = bw_req w j) \<and>
    rollback_batch w3 b3 = (Inr (), w3, b3)"
proof -
  let ?is = "bt_reqs b1"
  define b where "b = b1\<lparr>bt_slots := Some (Some out), bt_released := False, bt_committed := False, bt_record := None\<rparr>"
  have bs: "bt_reqs b = ?is" "bt_record b = None" "\<not> bt_released b" "\<not> bt_committed b" "bt_slots b = Some (Some out)"
    by (simp_all add: b_def)
  note T1 = tracking_alloc [OF ready alloc]
  have none: "\<forall>j \<in> set ?is. bq_txn (bw_req w1 j) = None"
    using alloc ready by (fastforce simp: allocates_def kv_only_def batch_ready_def)
  obtain rp wp where bp: "build_plans ?is ids lens out 0 w1 = (rp, wp)" by (cases "build_plans ?is ids lens out 0 w1")
  have d: "distinct ?is" and ne: "?is \<noteq> []" using ready by (simp_all add: batch_ready_def)
  note Tp = tracking_plans [OF ready T1 subset_refl d none bp]
  have failed: ?thesis if T: "tracking w ?is wx" and out': "(case rollback_batch wx b of
      (Inl e', w2, b2) \<Rightarrow> (Inl e', w2, b2) | (Inr u, w2, b2) \<Rightarrow> (Inl e, w2, b2)) = (r, w2, b2)" for wx e
  proof -
    from rollback_restores [OF _ _ bs(2-5), of w wx, unfolded bs(1), OF ready T] out' rb show ?thesis
      by (auto simp: rollback_batch_def)
  qed
  show ?thesis
  proof (cases rp)
    case (Inl e)
    then show ?thesis using failed [OF Tp(1), of e] hook b1 ne bp
      by (simp add: prepare_encoder_info_extend_def Let_def b_def)
  next
    case (Inr ps)
    have ids: "\<forall>p \<in> set ps. pl_req p \<in> set ?is" using Tp(2) [OF Inr b1(3,4)] by (metis image_eqI list.set_map)
    obtain rs ws where bg: "loopE begin_plan ps wp = (rs, ws)" by (cases "loopE begin_plan ps wp")
    note Ts = tracking_begin_all [OF ready Tp(1) ids bg]
    show ?thesis
    proof (cases rs)
      case (Inl e)
      then show ?thesis using failed [OF Ts, of e] hook b1 ne bp Inr bg
        by (simp add: prepare_encoder_info_extend_def Let_def b_def)
    next
      case (Inr u)
      then have h: "(w2, b2) = install_batch_metadata ws b ps"
        using hook b1 ne bp \<open>rp = Inr ps\<close> bg by (simp add: prepare_encoder_info_extend_def Let_def b_def)
      have "tracking w ?is w2" using h tracking_install [OF ready Ts ids] by (simp add: install_batch_metadata_def)
      moreover have "bt_reqs b2 = ?is" "bt_record b2 = None" "\<not> bt_released b2" "\<not> bt_committed b2"
        "bt_slots b2 = Some (Some out)"
        using h bs by (simp_all add: install_batch_metadata_def)
      ultimately show ?thesis
        using rollback_restores [of w b2 w2 "Some out"] ready rb by (auto simp: rollback_batch_def)
    qed
  qed
qed

text \<open>
  C5: Whatever goes wrong after SGLang allocated the slots of an extend batch of requests whose
  rows read back as their layouts (none still to be bootstrapped from a cached prefix), before the hook is called, at its first checks, while it plans and stages, or
  later in the step, the rollback succeeds: the page table
  is exactly the one from before the allocation, every request has its lengths and KV counts of
  before and no open transaction, and a second
  rollback does nothing.  The allocated slots are freed exactly once if the hook got as far as noting them; if it
  was not called or refused the batch at its checks they are not freed at all (\<open>allocation_failure_leaks\<close>).
\<close>
theorem extend_rollback:
  assumes ready: "batch_ready w (bt_reqs b1)" and alloc: "allocates w w1 (bt_reqs b1)"
    and begun: "bt_slots b1 = Some None" "bt_record b1 = None" "\<not> bt_released b1" "\<not> bt_committed b1"
    and out: "bt_out b1 = Some out"
    and step: "(w2, b2) = (if called then snd (prepare_encoder_info_extend w1 b1 ids lens) else (w1, b1))"
    and noted: "noted \<longleftrightarrow> called \<and> length ids = length (bt_reqs b1) \<and> length lens = length (bt_reqs b1) \<and>
      \<not> bt_return_logprob b1"
    and rb: "rollback_batch w2 b2 = (r', w3, b3)"
  shows "r' = Inr () \<and> bw_pages w3 = bw_pages w \<and>
    bw_freed w3 = bw_freed w @ (if noted \<and> out \<noteq> [] then [out] else []) \<and>
    (\<forall>i \<in> set (bt_reqs b1). restored w w3 i) \<and> (\<forall>j. j \<notin> set (bt_reqs b1) \<longrightarrow> bw_req w3 j = bw_req w j) \<and>
    rollback_batch w3 b3 = (Inr (), w3, b3)"
proof (cases noted)
  case True
  obtain r where hook: "prepare_encoder_info_extend w1 b1 ids lens = (r, w2, b2)"
    using step noted True by (cases "prepare_encoder_info_extend w1 b1 ids lens") auto
  have "\<not> bt_return_logprob b1" "length ids = length (bt_reqs b1)" "length lens = length (bt_reqs b1)"
    using noted True by blast+
  from rollback_noted [OF ready alloc out this hook rb] True show ?thesis by (cases "out = []") simp_all
next
  case False
  have "bt_reqs b1 \<noteq> []" using ready by (simp add: batch_ready_def)
  then have same: "w2 = w1" "b2 = b1"
    using step noted False by (auto simp: prepare_encoder_info_extend_def split: if_splits)
  from rollback_restores [OF ready tracking_alloc [OF ready alloc] begun(2-4,1)] rb False
  show ?thesis unfolding same by (auto simp: rollback_batch_def)
qed

subsection \<open>A concrete batch\<close>

definition demo_state :: rt_state where
  "demo_state = \<lparr>request_id = ''r'', session_id = ''s'', req_pool_index = Some 1, encoder_length = 2,
     decoder_length = 2, surviving_frame_count = 1, next_mrope_position = 7, turn_id = 0,
     max_tokens_per_turn = 86400, decode_allowance = None, context_limit = None,
     next_decode_not_before = 0, pending_token_id = Some 999, mrope_positions = None,
     visible_frame_counts = None, full_grid_thw = None, frame_records = None,
     evicted_frame_count = 0, appended_encoder_length = None, phase = Decoding,
     append_inflight = False, rt_accounting = None\<rparr>"

definition demo_request :: batch_req where
  "demo_request = \<lparr>bq_state = demo_state, bq_txn = None, bq_pool_idx = Some 1, bq_kv_allocated = Some 4,
     bq_kv_committed = 4, bq_prefix = [11, 12, 21, 22], bq_extend = (4, 9), bq_logprob_start = 0,
     bq_inputs = Some \<lparr>si_encoder_tokens = Some 4, si_added = [Some 1], si_positions = Some [[0, 1, 7, 8, 9]]\<rparr>\<rparr>"

definition demo_batch_world :: batch_world where
  "demo_batch_world = \<lparr>bw_pages = [[0, 0, 0, 0, 0, 0, 0, 0, 0, 0], [11, 12, 21, 22, 0, 0, 0, 0, 0, 0]],
     bw_req = (\<lambda>_. demo_request), bw_records = [], bw_freed = []\<rparr>"

definition demo_allocated :: batch_world where
  "demo_allocated = demo_batch_world
     \<lparr>bw_pages := [[0, 0, 0, 0, 0, 0, 0, 0, 0, 0], [11, 12, 21, 22, 23, 13, 14, 24, 25, 0]],
      bw_req := (\<lambda>_. demo_request)(0 := demo_request\<lparr>bq_kv_allocated := Some 9, bq_kv_committed := 9\<rparr>)\<rparr>"

definition demo_batch :: realtime_batch where
  "demo_batch = \<lparr>bt_reqs = [0], bt_out = Some [23, 13, 14, 24, 25], bt_slots = Some None,
     bt_committed = False, bt_released = False, bt_record = None, bt_return_logprob = False,
     bt_encoder_lens = [], bt_encoder_cached = [], bt_encoder_out = [], bt_extend_lens = [],
     bt_prefix_lens = [], bt_seq_lens = [], bt_input_ids = []\<rparr>"

lemmas demo_batch_defs = demo_state_def demo_request_def demo_batch_world_def demo_allocated_def demo_batch_def
  req_state_def kv_total_def row_of_def

lemma demo_ready: "batch_ready demo_batch_world (bt_reqs demo_batch)"
  by (simp add: batch_ready_def clean_row_def demo_batch_defs read_layout_def validate_row_arguments_def
      mk_layout_def slot_tuple_def as_tuple_def inj_on_def eval_nat_numeral)

lemma demo_allocates: "allocates demo_batch_world demo_allocated (bt_reqs demo_batch)"
proof -
  have "\<exists>a c. demo_request\<lparr>bq_kv_allocated := Some 9, bq_kv_committed := 9\<rparr>
      = demo_request\<lparr>bq_kv_allocated := a, bq_kv_committed := c\<rparr>" by blast
  then show ?thesis
    by (simp add: allocates_def elsewhere_same_def kv_only_def row_grown_def demo_batch_defs less_Suc_eq eval_nat_numeral)
qed

theorem extend_rollback_witness:
  "bw_pages (fst (snd (rollback_batch
       (fst (snd (prepare_encoder_info_extend demo_allocated demo_batch [[999, 7, 7, 101, 102]] [9])))
       (snd (snd (prepare_encoder_info_extend demo_allocated demo_batch [[999, 7, 7, 101, 102]] [9]))))))
     = [[0, 0, 0, 0, 0, 0, 0, 0, 0, 0], [11, 12, 21, 22, 0, 0, 0, 0, 0, 0]]"
proof -
  obtain r w2 b2 where h: "prepare_encoder_info_extend demo_allocated demo_batch [[999, 7, 7, 101, 102]] [9] = (r, w2, b2)"
    by (cases "prepare_encoder_info_extend demo_allocated demo_batch [[999, 7, 7, 101, 102]] [9]")
  obtain r' w3 b3 where rb: "rollback_batch w2 b2 = (r', w3, b3)" by (cases "rollback_batch w2 b2")
  have step: "(w2, b2) = (if True then snd (prepare_encoder_info_extend demo_allocated demo_batch [[999, 7, 7, 101, 102]] [9])
      else (demo_allocated, demo_batch))" by (simp add: h)
  from extend_rollback [OF demo_ready demo_allocates _ _ _ _ _ step refl rb]
  have "bw_pages w3 = bw_pages demo_batch_world" by (simp add: demo_batch_def)
  then show ?thesis by (simp add: h rb) (simp add: demo_batch_world_def)
qed

text \<open>
  When SGLang's \<open>prepare_for_extend\<close> raises after it has allocated and before it calls the hook,
  the rollback finds the attribute set to \<open>None\<close> by \<open>begin_allocation\<close>, so the fallback of
  \<open>_release_allocated_slots\<close> to \<open>out_cache_loc\<close> is never taken: the rows forget the slots and
  nothing is freed.
\<close>

lemma allocation_failure_leaks:
  assumes alloc: "alloc demo_batch_world (begin_allocation demo_batch)
      = (Inl e, demo_allocated, (begin_allocation demo_batch)\<lparr>bt_out := Some [23, 13, 14, 24, 25]\<rparr>)"
  shows "\<exists>w b. prepare_for_extend alloc rest demo_batch_world demo_batch = (Inl e, w, b) \<and>
    bw_freed w = [] \<and> bt_released b \<and> bw_pages w = bw_pages demo_batch_world \<and> rollback_batch w b = (Inr (), w, b)"
proof -
  let ?b = "(begin_allocation demo_batch)\<lparr>bt_out := Some [23, 13, 14, 24, 25]\<rparr>"
  let ?r = "?b\<lparr>bt_released := True\<rparr>"
  obtain w where w: "rollback_batch demo_allocated ?b = (Inr (), w, ?r)" "bw_freed w = []"
      "bw_pages w = bw_pages demo_batch_world"
    by (simp add: rollback_batch_def begin_allocation_def rollback_txn_of_def restore_bookkeeping_def
        release_slots_of_def demo_batch_defs Let_def zero_range_def update_req_def eval_nat_numeral)
  have "prepare_for_extend alloc rest demo_batch_world demo_batch = (Inl e, w, ?r)"
    by (simp add: prepare_for_extend_def on_error_rollback_def alloc w(1))
  moreover have "rollback_batch w ?r = (Inr (), w, ?r)" by (simp add: rollback_batch_def begin_allocation_def)
  moreover have "bt_released ?r" by simp
  ultimately show ?thesis using w(2,3) by blast
qed

end
