(* ===== verification/Extend_Commit.thy ===== *)
theory Extend_Commit
  imports Extend_Batch_Props "HOL-Library.Multiset"
begin

section \<open>A committed batch\<close>

text \<open>
  The success path of \<open>batch_adapter.py\<close>: planning splits the allocated slots among the requests,
  staging writes the grown layouts, and committing publishes them and clears what the allocation
  left behind them.
\<close>

subsection \<open>Plans\<close>

text \<open>What a plan says of its request: \<open>n\<close> is the token-space length of the request after the step.\<close>

definition plan_fits :: "batch_world \<Rightarrow> extend_plan \<Rightarrow> nat \<Rightarrow> int \<Rightarrow> bool" where
  "plan_fits w p i n \<longleftrightarrow> pl_req p = i \<and> pl_decoder_slots p \<noteq> [] \<and>
     n = token_total (req_state w i) + int (length (pl_encoder_slots p)) + int (length (pl_decoder_slots p)) \<and>
     pl_total_encoder p = encoder_length (req_state w i) + int (length (pl_encoder_slots p)) \<and>
     pl_total_decoder p = decoder_length (req_state w i) + int (length (pl_decoder_slots p))"

lemma plan_request_fits:
  assumes "plan_request tbl out off i q ids n = (Inr p, s)" and "bq_state (bw_req w i) = s"
  shows "plan_fits w p i n" "0 \<le> raw_extend_length q"
    "mset (pl_encoder_slots p @ pl_decoder_slots p) = mset (take (nat (raw_extend_length q)) (drop off out))"
proof -
  from assms(1) obtain pi s0 where
    pb: "plan_bound tbl (take (nat (raw_extend_length q)) (drop off out)) i q ids n pi
       (total_encoder_length q s0) s (if pending_token_id s = None then 0 else 1) = Inr p"
    by (rule plan_request_Inr)
  define delta where "delta = total_encoder_length q s0 - encoder_length s"
  define raw where "raw = raw_extend_length q"
  define new where "new = take (nat raw) (drop off out)"
  define lead where "lead = (if pending_token_id s = None then 0 else 1 :: nat)"
  note g = plan_bound_Inr [OF pb, folded raw_def, folded new_def, folded lead_def, folded delta_def]
  note p = g(5)
  have lead: "lead \<le> 1" by (simp add: lead_def)
  have len: "length new = nat raw" using g(4) by linarith
  have le: "length (take (nat delta) (drop lead new)) = nat delta"
    using g(1,2) lead by (simp add: len min_def) linarith
  have ld: "length (take lead new @ drop (lead + nat delta) new) = nat (raw - delta)"
    using g(1,2) lead by (simp add: len min_def) linarith
  have E: "int (length (pl_encoder_slots p)) = delta" using le g(1) by (simp add: p)
  have D: "int (length (pl_decoder_slots p)) = raw - delta"
    using ld g(2) by (simp add: p)
  have "pl_decoder_slots p \<noteq> []" using D g(2) by auto
  moreover have "n = token_total s + delta + (raw - delta)" using g(3) by (simp add: token_total_def)
  ultimately show "plan_fits w p i n"
    unfolding plan_fits_def req_state_def assms(2) E D by (simp add: p) (simp add: delta_def)
  show "0 \<le> raw_extend_length q" using g(1,2) by (simp add: raw_def)
  have split: "new = take lead new @ take (nat delta) (drop lead new) @ drop (lead + nat delta) new"
    using append_take_drop_id [of "nat delta" "drop lead new"] by (simp add: add.commute)
  have "mset new = mset (take lead new) + mset (take (nat delta) (drop lead new)) + mset (drop (lead + nat delta) new)"
    by (subst split) simp
  then show "mset (pl_encoder_slots p @ pl_decoder_slots p) = mset (take (nat (raw_extend_length q)) (drop off out))"
    by (simp add: p new_def raw_def)
qed

lemma own_state: "\<exists>s. q = q\<lparr>bq_state := s\<rparr>"
  by (rule exI [of _ "bq_state q"]) simp

lemma build_plans_fit:
  assumes "build_plans js xs ns out off w1 = (Inr ps, w2)" and "distinct js"
    and "length xs = length js" and "length ns = length js" and "off \<le> length out"
  shows "list_all2 (\<lambda>p (i, n). plan_fits w2 p i n) ps (zip js ns) \<and>
    mset (concat (map (\<lambda>p. pl_encoder_slots p @ pl_decoder_slots p) ps)) = mset (drop off out) \<and>
    bw_pages w2 = bw_pages w1 \<and> bw_freed w2 = bw_freed w1 \<and> bw_records w2 = bw_records w1 \<and>
    (\<forall>j. j \<notin> set js \<longrightarrow> bw_req w2 j = bw_req w1 j) \<and>
    (\<forall>j. \<exists>s. bw_req w2 j = (bw_req w1 j)\<lparr>bq_state := s\<rparr>)"
  using assms
proof (induction js xs ns out off w1 arbitrary: ps w2 rule: build_plans.induct)
  case (1 i js x xs n ns out off w1)
  obtain rp s where pr: "plan_request (bw_pages w1) out off i (bw_req w1 i) x n = (rp, s)"
    by (cases "plan_request (bw_pages w1) out off i (bw_req w1 i) x n")
  let ?w = "update_req i (\<lambda>q. q\<lparr>bq_state := s\<rparr>) w1"
  from 1(2) pr obtain p where rp: "rp = Inr p" by (cases rp) simp_all
  let ?raw = "nat (raw_extend_length (bw_req w1 i))"
  from 1(2) pr rp obtain ps' where b: "build_plans js xs ns out (off + ?raw) ?w = (Inr ps', w2)" and ps: "ps = p # ps'"
    by (cases "build_plans js xs ns out (off + ?raw) ?w"; cases "fst (build_plans js xs ns out (off + ?raw) ?w)") auto
  note pf = plan_request_fits [OF pr [unfolded rp], of ?w]
  show ?case
  proof (cases "off + ?raw \<le> length out")
    case True
    from 1(1) [OF pr [symmetric] refl rp b _ _ _ True] 1(3-5) have IH:
      "list_all2 (\<lambda>p (i, n). plan_fits w2 p i n) ps' (zip js ns)"
      "mset (concat (map (\<lambda>p. pl_encoder_slots p @ pl_decoder_slots p) ps')) = mset (drop (off + ?raw) out)"
      "bw_pages w2 = bw_pages ?w" "bw_freed w2 = bw_freed ?w" "bw_records w2 = bw_records ?w"
      "\<forall>j. j \<notin> set js \<longrightarrow> bw_req w2 j = bw_req ?w j" "\<forall>j. \<exists>s. bw_req w2 j = (bw_req ?w j)\<lparr>bq_state := s\<rparr>"
      by auto
    have same: "bw_req w2 i = bw_req ?w i" using IH(6) 1(3) by simp
    then have "plan_fits w2 p i n" using pf(1) by (simp add: plan_fits_def req_state_def)
    moreover have "mset (drop off out) = mset (take ?raw (drop off out)) + mset (drop (off + ?raw) out)"
      by (metis add.commute append_take_drop_id drop_drop mset_append)
    moreover have "\<exists>s. bw_req w2 j = (bw_req w1 j)\<lparr>bq_state := s\<rparr>" for j
    proof (cases "j = i")
      case False
      then show ?thesis using spec [OF IH(7), of j] by simp
    qed (use same in auto)
    ultimately show ?thesis using IH pf(3) by (auto simp: ps union_ac)
  next
    case False
    have "int (length (take ?raw (drop off out))) = raw_extend_length (bw_req w1 i)"
      using plan_request_id(2) pr rp by blast
    then show ?thesis using False 1(6) by simp
  qed
qed (auto split: if_splits intro: own_state)

subsection \<open>Committing one request\<close>

definition grown_layout :: "extend_plan \<Rightarrow> kv_layout \<Rightarrow> kv_layout" where
  "grown_layout p l = \<lparr>encoder_slots = encoder_slots l @ pl_encoder_slots p,
                       decoder_slots = decoder_slots l @ pl_decoder_slots p\<rparr>"

definition committed_plan :: "batch_world \<Rightarrow> batch_world \<Rightarrow> extend_plan \<Rightarrow> int \<Rightarrow> bool" where
  "committed_plan w w' p n \<longleftrightarrow> (let i = pl_req p; q = bw_req w' i; s = req_state w' i in
     (\<exists>l. clean_row w i l \<and> clean_row w' i (grown_layout p l)) \<and> row_of w' i = row_of w i \<and>
     bq_pool_idx q = bq_pool_idx (bw_req w i) \<and> bq_txn q = None \<and> \<not> append_inflight s \<and> phase s = Decoding \<and>
     req_pool_index s = bq_pool_idx q \<and> bq_kv_allocated q = Some (kv_total s) \<and>
     bq_kv_committed q = kv_total s \<and> token_total s = n)"

lemma commit_state:
  assumes t: "staged t" "\<not> closed t" and s: "append_inflight s"
    and len: "layout_encoder_length (before t) = encoder_length s"
  shows "\<exists>s'. txn_commit \<lparr>pages = tbl, rt = s, txn = Some t, released = []\<rparr>
      = Inr \<lparr>pages = tbl, rt = s', txn = Some (t\<lparr>closed := True\<rparr>), released = []\<rparr> \<and>
    encoder_length s' = layout_encoder_length (after t) \<and> decoder_length s' = layout_decoder_length (after t) \<and>
    effective_appended_encoder_length s' = effective_appended_encoder_length s
      + (layout_encoder_length (after t) - layout_encoder_length (before t)) \<and>
    \<not> append_inflight s' \<and> phase s' = Decoding \<and> req_pool_index s' = req_pool_index s"
  using assms by (simp add: txn_commit_def txn_active_def Let_def effective_appended_encoder_length_def
      split: option.splits)

lemma clean_rowI:
  assumes "bq_pool_idx (bw_req w i) = Some p" "0 \<le> p" "nat p < length (bw_pages w)" "layout_wf l"
    and "encoder_length (req_state w i) = layout_encoder_length l"
    and "decoder_length (req_state w i) = layout_decoder_length l"
    and "bw_pages w ! nat p = as_tuple l @ replicate m 0"
  shows "clean_row w i l"
  using assms
  by (auto simp: clean_row_def read_layout_Inr layout_encoder_length_def layout_decoder_length_def as_tuple_def)

lemma commit_staged:
  assumes ready: "batch_ready w is" and TB: "tracking w is wB" and T: "elsewhere_same w w' is" and i: "pl_req p \<in> set is"
    and st: "staged_plan w wB p w' l t" and fit: "plan_fits wB p (pl_req p) n"
    and al: "bq_kv_allocated (bw_req wB (pl_req p)) = Some n"
  shows "\<exists>w''. commit_txn_of (pl_req p) w' = (Inr (), w'') \<and> touches_only w (pl_req p) w' w'' \<and>
    committed_plan w w'' p n"
proof -
  let ?i = "pl_req p"
  let ?sB = "req_state wB ?i"
  define lay where "lay = grown_layout p l"
  have s: "clean_row w ?i l" "bq_txn (bw_req wB ?i) = None" "req_pool_index ?sB = bq_pool_idx (bw_req w ?i)"
    "before t = l" "layout_wf lay" "staged t" "\<not> closed t" "after t = lay"
    "bw_req w' ?i = (bw_req wB ?i)\<lparr>bq_state := ?sB\<lparr>append_inflight := True, phase := Extending\<rparr>, bq_txn := Some t\<rparr>"
    "length (as_tuple lay) \<le> length (bw_pages wB ! row_of w ?i)"
    "bw_pages w' ! row_of w ?i = as_tuple lay @ drop (length (as_tuple lay)) (bw_pages wB ! row_of w ?i)"
    using st unfolding staged_plan_def Let_def lay_def grown_layout_def by (blast, blast, blast, blast, (metis)+)
  obtain ip where row: "bq_pool_idx (bw_req w ?i) = Some ip" "0 \<le> ip" "nat ip < length (bw_pages w')"
    "row_of w ?i = nat ip"
    using batch_readyD [OF ready i] T by (auto simp: elsewhere_same_def)
  have tB: "tracked w wB ?i" using TB i by (simp add: tracking_def)
  have run: "same_run (req_state w ?i) ?sB" using tB by (simp add: tracked_def)
  note old = clean_row_layout [OF s(1)]
  have lenl: "layout_encoder_length l = encoder_length ?sB" "layout_decoder_length l = decoder_length ?sB"
    using old(2,3) same_runD(1,2) [OF run] by simp_all
  define s1 where "s1 = ?sB\<lparr>append_inflight := True, phase := Extending\<rparr>"
  have "append_inflight s1" "layout_encoder_length (before t) = encoder_length s1"
    using lenl(1) s(4) by (simp_all add: s1_def)
  from commit_state [OF s(6,7) this, of "bw_pages w'"] obtain s2 where
    c: "txn_commit \<lparr>pages = bw_pages w', rt = s1, txn = Some t, released = []\<rparr>
        = Inr \<lparr>pages = bw_pages w', rt = s2, txn = Some (t\<lparr>closed := True\<rparr>), released = []\<rparr>"
    and s2: "encoder_length s2 = layout_encoder_length lay" "decoder_length s2 = layout_decoder_length lay"
      "effective_appended_encoder_length s2 = effective_appended_encoder_length s1
         + (layout_encoder_length lay - layout_encoder_length l)"
      "\<not> append_inflight s2" "phase s2 = Decoding" "req_pool_index s2 = Some ip"
    using s(3,4,8) row(1) by (auto simp: s1_def)
  have grow: "layout_encoder_length lay = layout_encoder_length l + int (length (pl_encoder_slots p))"
    "layout_decoder_length lay = layout_decoder_length l + int (length (pl_decoder_slots p))"
    by (simp_all add: lay_def grown_layout_def layout_encoder_length_def layout_decoder_length_def)
  have "effective_appended_encoder_length s1 = effective_appended_encoder_length ?sB"
    by (simp add: s1_def effective_appended_encoder_length_def split: option.split)
  then have tok: "token_total s2 = n"
    using fit s2(2,3) grow lenl by (simp add: plan_fits_def token_total_def)
  have kv: "kv_total s2 = int (length (as_tuple lay))"
    using s2(1,2) by (simp add: kv_total_def as_tuple_def layout_encoder_length_def layout_decoder_length_def)
  define k where "k = length (as_tuple lay)"
  define r where "r = bw_pages w' ! nat ip"
  define r0 where "r0 = as_tuple lay @ replicate (length r - k) 0"
  have lenr: "length r = length (bw_pages wB ! row_of w ?i)" using s(10,11) row(4) by (simp add: r_def)
  have lenB: "length (bw_pages wB ! row_of w ?i) = length (bw_pages w ! row_of w ?i)"
    using tB by (simp add: tracked_def)
  have kr: "k \<le> length r" using s(10) lenr by (simp add: k_def)
  have tail: "drop (max k (nat n)) r = drop (max k (nat n)) r0"
  proof -
    have g: "drop (nat n) (bw_pages wB ! row_of w ?i) = drop (nat n) (bw_pages w ! row_of w ?i)"
      using tB s(2) al by (simp add: tracked_def row_grown_def)
    have "drop k r = drop k (bw_pages wB ! row_of w ?i)" using s(11) row(4) by (simp add: r_def k_def)
    then have "drop (max k (nat n)) r = drop (max k (nat n)) (bw_pages wB ! row_of w ?i)"
      by (metis drop_drop le_add_diff_inverse2 max.cobounded1)
    also have "\<dots> = drop (max k (nat n)) (bw_pages w ! row_of w ?i)"
      by (metis g drop_drop le_add_diff_inverse2 max.cobounded2)
    also have "\<dots> = drop (max k (nat n)) r0"
    proof -
      have "length (as_tuple l) \<le> k"
        by (simp add: k_def lay_def grown_layout_def as_tuple_def)
      then show ?thesis
        using lenr lenB kr by (subst old(6)) (simp add: r0_def k_def)
    qed
    finally show ?thesis .
  qed
  define wc where "wc = put_world ?i \<lparr>pages = bw_pages w', rt = s2, txn = Some (t\<lparr>closed := True\<rparr>), released = []\<rparr> None w'"
  define wk where "wk = update_req ?i (\<lambda>q. q\<lparr>bq_kv_allocated := Some (int k), bq_kv_committed := int k\<rparr>) wc"
  have kv: "kv_total s2 = int k" using kv by (simp add: k_def)
  define w'' where "w'' = (if n \<le> int k then wk else wk\<lparr>bw_pages := (bw_pages w')[nat ip := r0]\<rparr>)"
  have commit: "commit_txn_of ?i w' = reconcile_bookkeeping ?i wc"
    using c by (simp add: commit_txn_of_def s(9) req_world_def s1_def wc_def)
  have zr: "take k r @ replicate (min (nat n) (length r) - k) 0 @ drop (max k (nat n)) r = r0" if "int k < n"
  proof -
    have "take k r = as_tuple lay" using s(11) row(4) by (simp add: r_def k_def)
    with that tail kr show ?thesis by (simp add: r0_def k_def max_def min_def flip: replicate_add)
  qed
  have upd: "update_req ?i (\<lambda>q. q\<lparr>bq_kv_allocated := map_option (\<lambda>_. int k) (bq_kv_allocated q),
      bq_kv_committed := int k\<rparr>) wc = wk"
    using al by (simp add: wk_def update_req_def wc_def s(9))
  have sc: "req_state wc ?i = s2" by (simp add: wc_def req_state_def)
  have rec: "reconcile_bookkeeping ?i wc = (Inr (), w'')"
  proof (cases "n \<le> int k")
    case True
    then show ?thesis by (simp add: reconcile_bookkeeping_def sc Let_def upd s2(6) tok kv w''_def)
  next
    case False
    have "zero_range (bw_pages wk) ip (int k) n = Inr ((bw_pages w')[nat ip := r0])"
      using zr False row(2,3) by (simp add: zero_range_def wk_def wc_def Let_def nat_less_iff flip: r_def)
    with False show ?thesis
      by (simp add: reconcile_bookkeeping_def sc Let_def upd s2(6) tok kv w''_def)
  qed
  have r0': "bw_pages w'' ! nat ip = r0"
  proof (cases "n \<le> int k")
    case True
    then have "max k (nat n) = k" by (simp add: max_absorb1 nat_le_iff)
    then have "drop k r = drop k r0" using tail by simp
    moreover have "take k r = take k r0" using s(11) row(4) by (simp add: r_def k_def r0_def)
    ultimately have "r = r0" by (metis append_take_drop_id)
    then show ?thesis using True by (simp add: w''_def wk_def wc_def r_def)
  qed (use row(3) in \<open>simp add: w''_def\<close>)
  have req: "bw_req w'' ?i = (bw_req wB ?i)\<lparr>bq_state := s2, bq_txn := None,
      bq_kv_allocated := Some (int k), bq_kv_committed := int k\<rparr>"
    by (simp add: w''_def wk_def wc_def s(9))
  have pool: "bq_pool_idx (bw_req w'' ?i) = Some ip" using tB row(1) by (simp add: req tracked_def)
  have "clean_row w'' ?i lay"
    by (rule clean_rowI [OF pool row(2) _ s(5), where m = "length r - k"])
      (use s2 r0' row(3) in \<open>simp_all add: req_state_def req r0_def\<close>, simp add: w''_def wk_def wc_def)
  moreover have "row_of w'' ?i = row_of w ?i" using pool row(4) by (simp add: row_of_def)
  ultimately have "committed_plan w w'' p n"
    using s(1) pool row(1) s2 tok kv by (auto simp: committed_plan_def Let_def lay_def req_state_def req)
  moreover have "touches_only w ?i w' w''"
    using row(4) by (simp add: touches_only_def w''_def wk_def wc_def)
  ultimately show ?thesis using commit rec by simp
qed

lemma committed_plan_local:
  assumes "bw_req w2 (pl_req p) = bw_req w1 (pl_req p)" "bw_pages w2 ! row_of w (pl_req p) = bw_pages w1 ! row_of w (pl_req p)"
    and "length (bw_pages w2) = length (bw_pages w1)"
  shows "committed_plan w w1 p n \<Longrightarrow> committed_plan w w2 p n"
proof -
  assume c: "committed_plan w w1 p n"
  let ?i = "pl_req p"
  have r: "row_of w2 ?i = row_of w1 ?i" using assms(1) by (simp add: row_of_def)
  from c obtain l where l: "clean_row w ?i l" "clean_row w1 ?i (grown_layout p l)" and same: "row_of w1 ?i = row_of w ?i"
    by (auto simp: committed_plan_def Let_def)
  note f = clean_row_layout [OF l(2)]
  from l(2) obtain pi where pi: "bq_pool_idx (bw_req w1 ?i) = Some pi" "0 \<le> pi" "nat pi < length (bw_pages w1)"
    by (auto simp: clean_row_def)
  have row: "nat pi = row_of w ?i" using pi same by (simp add: row_of_def)
  have "clean_row w2 ?i (grown_layout p l)"
    by (rule clean_rowI [where p = pi and m = "length (bw_pages w1 ! row_of w ?i) - length (as_tuple (grown_layout p l))"])
      (use pi assms f row same in \<open>simp_all add: req_state_def\<close>)
  with c l r assms show ?thesis by (auto simp: committed_plan_def Let_def req_state_def)
qed

lemma install_req:
  assumes "distinct (map pl_req ps)"
  shows "bw_req (fold (\<lambda>p. update_req (pl_req p) (start_of_plan p)) ps w) j
    = (case find (\<lambda>p. pl_req p = j) ps of None \<Rightarrow> bw_req w j | Some p \<Rightarrow> start_of_plan p (bw_req w j))"
  using assms
proof (induction ps arbitrary: w)
  case (Cons p ps)
  have none: "find (\<lambda>p'. pl_req p' = pl_req p) ps = None"
    using Cons.prems by (simp add: find_None_iff) (metis image_eqI)
  have "distinct (map pl_req ps)" using Cons.prems by simp
  from Cons.IH [OF this, of "update_req (pl_req p) (start_of_plan p) w"] none
  show ?case by (cases "pl_req p = j") (simp_all split: option.splits)
qed simp

lemma staged_plan_local:
  assumes "bw_req w3 (pl_req p) = bw_req w2 (pl_req p)" "bw_pages w3 ! row_of w (pl_req p) = bw_pages w2 ! row_of w (pl_req p)"
  shows "staged_plan w wB p w3 l t = staged_plan w wB p w2 l t"
  unfolding staged_plan_def Let_def assms by (rule refl)

lemma install_frame:
  "bw_pages (fold (\<lambda>p. update_req (pl_req p) (start_of_plan p)) ps w) = bw_pages w"
  "bw_freed (fold (\<lambda>p. update_req (pl_req p) (start_of_plan p)) ps w) = bw_freed w"
  by (induction ps arbitrary: w) simp_all

lemma find_own:
  assumes "distinct (map pl_req ps)" and "p \<in> set ps"
  shows "find (\<lambda>p'. pl_req p' = pl_req p) ps = Some p"
  using assms by (induction ps) auto

lemma start_of_plan_state [simp]:
  "bq_state (start_of_plan p q) = bq_state q" "bq_txn (start_of_plan p q) = bq_txn q"
  "bq_kv_allocated (start_of_plan p q) = bq_kv_allocated q" "bq_pool_idx (start_of_plan p q) = bq_pool_idx q"
  by (simp_all add: start_of_plan_def)

lemma staged_install:
  assumes d: "distinct (map pl_req ps)" and p: "p \<in> set ps" and st: "staged_plan w wB p ws l t"
  defines "I \<equiv> fold (\<lambda>p. update_req (pl_req p) (start_of_plan p)) ps"
  shows "staged_plan w (I wB) p (I ws) l t"
proof -
  have eqs: "bw_req (I w') (pl_req p) = start_of_plan p (bw_req w' (pl_req p))" "bw_pages (I w') = bw_pages w'" for w'
    unfolding I_def install_frame install_req [OF d] find_own [OF d p] by simp_all
  show ?thesis
    using st unfolding staged_plan_def req_state_def Let_def eqs start_of_plan_state
    by (elim conjE, intro conjI) (simp_all add: start_of_plan_def)
qed

lemma begin_all_staged:
  assumes ready: "batch_ready w is" and T: "tracking w is wB" and ids: "\<forall>p \<in> set ps. pl_req p \<in> set is"
    and d: "distinct (map pl_req ps)" and run: "loopE begin_plan ps wB = (Inr (), ws)"
  shows "\<forall>p \<in> set ps. \<exists>l t. staged_plan w wB p ws l t"
proof -
  have "tracking w is ws \<and> (\<forall>p \<in> set ps. \<exists>l t. staged_plan w wB p ws l t) \<and>
    (\<forall>p \<in> set ps - set ps.
       (bw_req wB (pl_req p) = bw_req wB (pl_req p) \<and> bw_pages wB ! row_of w (pl_req p) = bw_pages wB ! row_of w (pl_req p)
          \<longrightarrow> bw_req ws (pl_req p) = bw_req wB (pl_req p) \<and> bw_pages ws ! row_of w (pl_req p) = bw_pages wB ! row_of w (pl_req p)) \<and>
       ((\<exists>l t. staged_plan w wB p wB l t) \<longrightarrow> (\<exists>l t. staged_plan w wB p ws l t)))"
  proof (rule loopE_success [where G = "tracking w is" and P = "\<lambda>p s. bw_req s (pl_req p) = bw_req wB (pl_req p) \<and>
      bw_pages s ! row_of w (pl_req p) = bw_pages wB ! row_of w (pl_req p)", OF _ _ _ T _ run])
    fix p s s' assume p: "p \<in> set ps" and T': "tracking w is s" and b: "begin_plan p s = (Inr (), s')"
      and P: "bw_req s (pl_req p) = bw_req wB (pl_req p) \<and> bw_pages s ! row_of w (pl_req p) = bw_pages wB ! row_of w (pl_req p)"
    have i: "pl_req p \<in> set is" using ids p by simp
    from begin_plan_staged [OF ready T' i b] obtain l t
      where only: "touches_only w (pl_req p) s s'" and st: "staged_plan w s p s' l t" by blast
    have "staged_plan w wB p s' l t"
      using st unfolding staged_plan_def req_state_def Let_def conjunct1 [OF P] conjunct2 [OF P] .
    moreover have "bw_req s' (pl_req y) = bw_req s (pl_req y)" "bw_pages s' ! row_of w (pl_req y) = bw_pages s ! row_of w (pl_req y)"
      if y: "y \<in> set ps" "y \<noteq> p" for y
    proof -
      have "pl_req y \<noteq> pl_req p" using d p y by (auto simp: distinct_map inj_on_def)
      from tracked_elsewhere [OF ready i _ this only] ids y
      show "bw_req s' (pl_req y) = bw_req s (pl_req y)" "bw_pages s' ! row_of w (pl_req y) = bw_pages s ! row_of w (pl_req y)"
        by auto
    qed
    ultimately show "tracking w is s' \<and> (\<exists>l t. staged_plan w wB p s' l t) \<and>
      (\<forall>y \<in> set ps. y \<noteq> p \<longrightarrow>
       (bw_req s (pl_req y) = bw_req wB (pl_req y) \<and> bw_pages s ! row_of w (pl_req y) = bw_pages wB ! row_of w (pl_req y)
          \<longrightarrow> bw_req s' (pl_req y) = bw_req wB (pl_req y) \<and> bw_pages s' ! row_of w (pl_req y) = bw_pages wB ! row_of w (pl_req y)) \<and>
       ((\<exists>l t. staged_plan w wB y s l t) \<longrightarrow> (\<exists>l t. staged_plan w wB y s' l t)))"
      using tracking_begin [OF ready T' i b] staged_plan_local [of s' _ s w wB] by auto
  qed (use d in \<open>auto simp: distinct_map\<close>)
  then show ?thesis by blast
qed

lemma commit_all:
  assumes ready: "batch_ready w is" and TB: "tracking w is wB" and el: "elsewhere_same w w2 is"
    and ids: "map pl_req ps = is" and stg: "\<forall>p \<in> set ps. \<exists>l t. staged_plan w wB p w2 l t"
    and fits: "list_all2 (\<lambda>p (i, n). plan_fits wB p i n) ps (zip is lens)" and len: "length lens = length is"
    and al: "\<forall>k < length is. bq_kv_allocated (bw_req wB (is ! k)) = Some (lens ! k)"
  shows "\<exists>w3. loopE commit_txn_of is w2 = (Inr (), w3) \<and> elsewhere_same w w3 is \<and>
    (\<forall>k < length is. committed_plan w w3 (ps ! k) (lens ! k))"
proof -
  have d: "distinct is" using ready by (simp add: batch_ready_def)
  have lp: "length ps = length is" using ids by auto
  have own: "pl_req (ps ! k) = is ! k" if "k < length is" for k using that ids lp by (metis nth_map)
  let ?P = "\<lambda>i s. \<forall>k < length is. is ! k = i \<longrightarrow> (\<exists>l t. staged_plan w wB (ps ! k) s l t)"
  let ?Q = "\<lambda>i s. \<forall>k < length is. is ! k = i \<longrightarrow> committed_plan w s (ps ! k) (lens ! k)"
  have "\<exists>w3. loopE commit_txn_of is w2 = (Inr (), w3) \<and> elsewhere_same w w3 is \<and> (\<forall>i \<in> set is. ?Q i w3) \<and>
    (\<forall>y \<in> set is - set is. (?P y w2 \<longrightarrow> ?P y w3) \<and> (?Q y w2 \<longrightarrow> ?Q y w3))"
  proof (rule loopE_each [where G = "\<lambda>s. elsewhere_same w s is" and P = ?P and Q = ?Q])
    fix i s assume i: "i \<in> set is" and E: "elsewhere_same w s is" and P: "?P i s"
    from i obtain k where k: "k < length is" "is ! k = i" by (auto simp: in_set_conv_nth)
    let ?p = "ps ! k"
    have pi: "pl_req ?p = i" using own [OF k(1)] k(2) by simp
    from P k obtain l t where st: "staged_plan w wB ?p s l t" by blast
    have fit: "plan_fits wB ?p (pl_req ?p) (lens ! k)"
      using list_all2_nthD [OF fits, of k] k lp len pi by simp
    have "pl_req ?p \<in> set is" "bq_kv_allocated (bw_req wB (pl_req ?p)) = Some (lens ! k)" using i al k pi by auto
    from commit_staged [OF ready TB E this(1) st fit this(2)] pi obtain s' where
      s': "commit_txn_of i s = (Inr (), s')" "touches_only w i s s'" "committed_plan w s' ?p (lens ! k)" by auto
    have Q: "?Q i s'" using s'(3) k d by (metis nth_eq_iff_index_eq)
    have "(?P y s \<longrightarrow> ?P y s') \<and> (?Q y s \<longrightarrow> ?Q y s')" if y: "y \<in> set is" "y \<noteq> i" for y
    proof -
      note f = tracked_elsewhere(1,2) [OF ready i y s'(2)]
      have lenp: "length (bw_pages s') = length (bw_pages s)" using s'(2) by (simp add: touches_only_def)
      have "staged_plan w wB (ps ! m) s' l t = staged_plan w wB (ps ! m) s l t"
        and "committed_plan w s (ps ! m) n \<Longrightarrow> committed_plan w s' (ps ! m) n" if "m < length is" "is ! m = y" for m l t n
        using staged_plan_local [of s' "ps ! m" s w wB l t] committed_plan_local [of s' "ps ! m" s w n]
          f own [OF that(1)] that(2) lenp by simp_all
      then show ?thesis by blast
    qed
    then show "\<exists>s'. commit_txn_of i s = (Inr (), s') \<and> elsewhere_same w s' is \<and> ?Q i s' \<and>
      (\<forall>y \<in> set is. y \<noteq> i \<longrightarrow> (?P y s \<longrightarrow> ?P y s') \<and> (?Q y s \<longrightarrow> ?Q y s'))"
      using s'(1) Q elsewhere_step [OF E i s'(2)] by blast
  next
    show "\<forall>i \<in> set is. ?P i w2" using stg lp by (metis nth_mem)
  qed (use d el in auto)
  then show ?thesis using nth_mem by blast
qed

lemma committed_ready:
  assumes ready: "batch_ready w is" and el: "elsewhere_same w w3 is" and len: "length ps = length is"
    and own: "\<forall>k < length is. pl_req (ps ! k) = is ! k \<and> pl_decoder_slots (ps ! k) \<noteq> []"
    and c: "\<forall>k < length is. committed_plan w w3 (ps ! k) (lens ! k)"
  shows "batch_ready w3 is"
proof -
  have each: "(\<exists>l. clean_row w3 i l) \<and> bq_txn (bw_req w3 i) = None \<and> \<not> append_inflight (req_state w3 i) \<and>
      req_pool_index (req_state w3 i) = bq_pool_idx (bw_req w3 i) \<and> 0 < decoder_length (req_state w3 i) \<and>
      bq_pool_idx (bw_req w3 i) = bq_pool_idx (bw_req w i)" if "i \<in> set is" for i
  proof -
    from that obtain k where k: "k < length is" "is ! k = i" by (auto simp: in_set_conv_nth)
    then have cp: "committed_plan w w3 (ps ! k) (lens ! k)" and pk: "pl_req (ps ! k) = i" "pl_decoder_slots (ps ! k) \<noteq> []"
      using c own by auto
    from cp pk(1) obtain l where l: "clean_row w3 i (grown_layout (ps ! k) l)" by (auto simp: committed_plan_def Let_def)
    have "0 < layout_decoder_length (grown_layout (ps ! k) l)"
      using pk(2) by (cases "pl_decoder_slots (ps ! k)") (simp_all add: layout_decoder_length_def grown_layout_def)
    with l cp pk(1) clean_row_layout(3) [OF l] show ?thesis by (auto simp: committed_plan_def Let_def)
  qed
  have inj: "inj_on (\<lambda>i. bq_pool_idx (bw_req w3 i)) (set is)"
  proof (rule inj_onI)
    fix i j assume "i \<in> set is" "j \<in> set is" "bq_pool_idx (bw_req w3 i) = bq_pool_idx (bw_req w3 j)"
    then show "i = j" using each [of i] each [of j] ready by (auto simp: batch_ready_def inj_on_def)
  qed
  show ?thesis unfolding batch_ready_def
  proof (intro conjI ballI)
    fix i assume "i \<in> set is"
    from each [OF this] show "\<exists>l. clean_row w3 i l" "bq_txn (bw_req w3 i) = None" "\<not> append_inflight (req_state w3 i)"
      "req_pool_index (req_state w3 i) \<in> {None, bq_pool_idx (bw_req w3 i)}"
      "0 < decoder_length (req_state w3 i) \<or> bq_prefix (bw_req w3 i) = []" by auto
  qed (use ready inj in \<open>auto simp: batch_ready_def\<close>)
qed

text \<open>
  C6: A hook that returns splits the allocated slots among the requests without
  losing or repeating one, and the commit then publishes them: every request reads as its old
  encoder region followed by its new encoder slots and its old decoder region followed by its new
  decoder slots, with nothing behind them, its KV counts are the length of that layout and its
  token-space length the one SGLang was told; no other row or request changed, nothing was freed,
  a late rollback does nothing, and the batch is ready for the next step.
\<close>
theorem extend_commit:
  assumes ready: "batch_ready w (bt_reqs b1)" and alloc: "allocates w w1 (bt_reqs b1)"
    and told: "\<forall>k < length (bt_reqs b1). bq_kv_allocated (bw_req w1 (bt_reqs b1 ! k)) = Some (lens ! k)"
    and hook: "prepare_encoder_info_extend w1 b1 ids lens = (Inr (), w2, b2)"
    and commit: "commit_batch w2 b2 = (r, w3, b3)"
  shows "\<exists>ps. r = Inr () \<and> map pl_req ps = bt_reqs b1 \<and>
    mset (concat (map (\<lambda>p. pl_encoder_slots p @ pl_decoder_slots p) ps)) = mset (the (bt_out b1)) \<and>
    bt_out b2 = Some (concat (map pl_decoder_slots ps)) \<and> bt_encoder_out b2 = concat (map pl_encoder_slots ps) \<and>
    (\<forall>k < length ps. committed_plan w w3 (ps ! k) (lens ! k)) \<and>
    elsewhere_same w w3 (bt_reqs b1) \<and> batch_ready w3 (bt_reqs b1) \<and> rollback_batch w3 b3 = (Inr (), w3, b3)"
proof -
  let ?is = "bt_reqs b1"
  define out where "out = the (bt_out b1)"
  define b where "b = b1\<lparr>bt_slots := Some (Some out), bt_released := False, bt_committed := False, bt_record := None\<rparr>"
  have ok: "?is \<noteq> []" "length ids = length ?is" "length lens = length ?is" "\<not> bt_return_logprob b1" "bt_out b1 = Some out"
    using hook by (auto simp: prepare_encoder_info_extend_def out_def split: if_splits option.splits)
  have d: "distinct ?is" using ready by (simp add: batch_ready_def)
  note T1 = tracking_alloc [OF ready alloc]
  have none: "\<forall>j \<in> set ?is. bq_txn (bw_req w1 j) = None"
    using alloc ready by (fastforce simp: allocates_def kv_only_def batch_ready_def)
  obtain rp wB where bp: "build_plans ?is ids lens out 0 w1 = (rp, wB)" by (cases "build_plans ?is ids lens out 0 w1")
  have no: "\<not> ((case rollback_batch wx bx of (Inl e', w2, b2) \<Rightarrow> (Inl e', w2, b2) | (Inr u, w2, b2) \<Rightarrow> (Inl e, w2, b2)) = (Inr (), w2, b2))"
    for wx bx e by (auto split: prod.splits sum.splits)
  obtain ps where ps: "rp = Inr ps"
    using hook ok bp no by (cases rp) (simp_all add: prepare_encoder_info_extend_def Let_def)
  obtain rs ws where bg: "loopE begin_plan ps wB = (rs, ws)" by (cases "loopE begin_plan ps wB")
  have rs: "rs = Inr ()"
    using hook ok bp ps bg no by (cases rs) (simp_all add: prepare_encoder_info_extend_def Let_def)
  have h: "(w2, b2) = install_batch_metadata ws b ps"
    using hook ok bp ps bg rs by (simp add: prepare_encoder_info_extend_def Let_def b_def)
  note Tp = tracking_plans [OF ready T1 subset_refl d none bp]
  have own: "map pl_req ps = ?is" by (rule Tp(2) [OF ps ok(2,3)])
  have ids: "\<forall>p \<in> set ps. pl_req p \<in> set ?is" using own by (metis image_eqI list.set_map)
  have dp: "distinct (map pl_req ps)" using d own by simp
  note fit = build_plans_fit [OF bp [unfolded ps] d ok(2,3) le0]
  let ?I = "fold (\<lambda>p. update_req (pl_req p) (start_of_plan p)) ps"
  have w2: "w2 = ?I ws" and b2: "bt_reqs b2 = ?is" "bt_record b2 = None" "bt_out b2 = Some (concat (map pl_decoder_slots ps))"
    "bt_encoder_out b2 = concat (map pl_encoder_slots ps)"
    using h by (simp_all add: install_batch_metadata_def b_def)
  have stg: "\<forall>p \<in> set ps. \<exists>l t. staged_plan w (?I wB) p w2 l t"
    using begin_all_staged [OF ready Tp(1) ids dp bg [unfolded rs]] staged_install [OF dp] w2 by blast
  have TI: "tracking w ?is (?I wB)" by (rule tracking_install [OF ready Tp(1) ids])
  have el: "elsewhere_same w w2 ?is"
    using tracking_install [OF ready tracking_begin_all [OF ready Tp(1) ids bg] ids] w2 by (simp add: tracking_def)
  have keep: "bq_state (bw_req (?I wB) i) = bq_state (bw_req wB i)" "bq_kv_allocated (bw_req (?I wB) i) = bq_kv_allocated (bw_req wB i)" for i
    by (simp_all add: install_req [OF dp] split: option.split)
  have fits: "list_all2 (\<lambda>p (i, n). plan_fits (?I wB) p i n) ps (zip ?is lens)"
    using conjunct1 [OF fit] by (simp add: plan_fits_def req_state_def keep)
  have al: "\<forall>k < length ?is. bq_kv_allocated (bw_req (?I wB) (?is ! k)) = Some (lens ! k)"
  proof (intro allI impI)
    fix k assume "k < length ?is"
    moreover obtain s where "bw_req wB (?is ! k) = (bw_req w1 (?is ! k))\<lparr>bq_state := s\<rparr>" using fit by blast
    ultimately show "bq_kv_allocated (bw_req (?I wB) (?is ! k)) = Some (lens ! k)" using told keep by simp
  qed
  from commit_all [OF ready TI el own stg fits ok(3) al] obtain wx where
    wx: "loopE commit_txn_of ?is w2 = (Inr (), wx)" "elsewhere_same w wx ?is"
      "\<forall>k < length ?is. committed_plan w wx (ps ! k) (lens ! k)" by blast
  have c: "r = Inr ()" "w3 = wx" "bt_committed b3" "bt_record b3 = None"
    using commit wx(1) b2 by (auto simp: commit_batch_def)
  have lp: "length ps = length ?is" using arg_cong [OF own, of length] by simp
  have "\<forall>k < length ?is. pl_req (ps ! k) = ?is ! k \<and> pl_decoder_slots (ps ! k) \<noteq> []"
  proof (intro allI impI)
    fix k assume k: "k < length ?is"
    have "plan_fits (?I wB) (ps ! k) (?is ! k) (lens ! k)" using list_all2_nthD [OF fits, of k] k lp ok(3) by simp
    then show "pl_req (ps ! k) = ?is ! k \<and> pl_decoder_slots (ps ! k) \<noteq> []" by (simp add: plan_fits_def)
  qed
  from committed_ready [OF ready wx(2) lp this wx(3)] have rd: "batch_ready w3 ?is" by (simp add: c)
  have rb: "rollback_batch w3 b3 = (Inr (), w3, b3)" using c(3,4) by (simp add: rollback_batch_def)
  have ms: "mset (concat (map (\<lambda>p. pl_encoder_slots p @ pl_decoder_slots p) ps)) = mset out" using fit by simp
  show ?thesis
    by (rule exI [of _ ps]) (use c own ms b2 wx lp rd rb ok(5) in simp)
qed

lemma demo_hook: "fst (prepare_encoder_info_extend demo_allocated demo_batch [[999, 7, 7, 101, 102]] [9]) = Inr ()"
  by code_simp

theorem extend_commit_witness:
  "\<exists>w b. commit_batch (fst (snd (prepare_encoder_info_extend demo_allocated demo_batch [[999, 7, 7, 101, 102]] [9])))
       (snd (snd (prepare_encoder_info_extend demo_allocated demo_batch [[999, 7, 7, 101, 102]] [9]))) = (Inr (), w, b)
     \<and> batch_ready w [0]"
proof -
  obtain w2 b2 where h: "prepare_encoder_info_extend demo_allocated demo_batch [[999, 7, 7, 101, 102]] [9] = (Inr (), w2, b2)"
    using demo_hook by (cases "prepare_encoder_info_extend demo_allocated demo_batch [[999, 7, 7, 101, 102]] [9]") simp
  obtain r w3 b3 where c: "commit_batch w2 b2 = (r, w3, b3)" by (cases "commit_batch w2 b2")
  have told: "\<forall>k < length (bt_reqs demo_batch). bq_kv_allocated (bw_req demo_allocated (bt_reqs demo_batch ! k)) = Some ([9] ! k)"
    by (simp add: demo_batch_def demo_allocated_def)
  from extend_commit [OF demo_ready demo_allocates told h c]
  have "r = Inr () \<and> batch_ready w3 [0]" by (auto simp: demo_batch_def)
  then show ?thesis by (simp add: h c)
qed

end
