(* ===== verification/Decode_Step.thy ===== *)
theory Decode_Step
  imports Extend_Batch_Props
begin

section \<open>Undoing a decode step\<close>

text \<open>
  \<open>prepare_for_decode\<close> and \<open>_rollback_decode\<close> of \<open>batch_adapter.py\<close>.  \<open>decode_allocates\<close> is what
  SGLang's allocation for one decode step does to the requests of a batch: one slot each, written
  behind the slots already allocated.
\<close>

definition decode_ready :: "batch_world \<Rightarrow> nat list \<Rightarrow> bool" where
  "decode_ready w is \<longleftrightarrow> is \<noteq> [] \<and> distinct is \<and> inj_on (\<lambda>i. bq_pool_idx (bw_req w i)) (set is) \<and>
     (\<forall>r \<in> set (bw_pages w). length r = length (hd (bw_pages w))) \<and>
     (\<forall>i \<in> set is. \<exists>p a. bq_pool_idx (bw_req w i) = Some p \<and> 0 \<le> p \<and> p < int (length (bw_pages w)) \<and>
        bq_kv_allocated (bw_req w i) = Some a \<and> 0 \<le> a \<and> kv_total (req_state w i) \<le> a \<and>
        (nat a < length (bw_pages w ! nat p) \<longrightarrow> bw_pages w ! nat p ! nat a = 0))"

definition decode_allocates :: "batch_world \<Rightarrow> nat list \<Rightarrow> int list \<Rightarrow> batch_world \<Rightarrow> bool" where
  "decode_allocates w is slots w' \<longleftrightarrow> elsewhere_same w w' is \<and> length slots = length is \<and>
     (\<forall>k < length is. let i = is ! k; a = the (bq_kv_allocated (bw_req w i)) in
        bw_req w' i = (bw_req w i)\<lparr>bq_kv_allocated := Some (a + 1), bq_kv_committed := bq_kv_committed (bw_req w i) + 1\<rparr> \<and>
        bw_pages w' ! row_of w i = (bw_pages w ! row_of w i)[nat a := slots ! k])"

lemma decode_rows_all:
  assumes "length ps = length is" and "length xs = length is"
    and "\<forall>k < length is. is ! k \<in> set (bt_reqs b) \<and> bq_pool_idx (bw_req w (is ! k)) = Some (xs ! k) \<and>
          bq_kv_allocated (bw_req w (is ! k)) = Some (ps ! k + 1) \<and> kv_total (bq_state (bw_req w (is ! k))) \<le> ps ! k"
  shows "decode_rows w b n is ps xs = Inr [n..<n + length is]"
  using assms
proof (induction "is" arbitrary: n ps xs)
  case (Cons i "is")
  then obtain p ps' x xs' where l: "ps = p # ps'" "xs = x # xs'" by (metis length_Suc_conv length_Cons)
  have "\<forall>k < length is. is ! k \<in> set (bt_reqs b) \<and> bq_pool_idx (bw_req w (is ! k)) = Some (xs' ! k) \<and>
      bq_kv_allocated (bw_req w (is ! k)) = Some (ps' ! k + 1) \<and> kv_total (bq_state (bw_req w (is ! k))) \<le> ps' ! k"
  proof (intro allI impI)
    fix k assume "k < length is"
    then show "is ! k \<in> set (bt_reqs b) \<and> bq_pool_idx (bw_req w (is ! k)) = Some (xs' ! k) \<and>
      bq_kv_allocated (bw_req w (is ! k)) = Some (ps' ! k + 1) \<and> kv_total (bq_state (bw_req w (is ! k))) \<le> ps' ! k"
      using spec [OF Cons.prems(3), of "Suc k"] by (simp add: l)
  qed
  with Cons.IH [of ps' xs' "n + 1"] Cons.prems(1,2) l
  have "decode_rows w b (n + 1) is ps' xs' = Inr [n + 1..<n + 1 + length is]" by simp
  then show ?case using spec [OF Cons.prems(3), of 0] by (simp add: l upt_conv_Cons del: upt_Suc)
qed simp

lemma row_of_updates [simp]:
  "row_of (w\<lparr>bw_records := x\<rparr>) i = row_of w i" "row_of (w\<lparr>bw_freed := y\<rparr>) i = row_of w i"
  by (simp_all add: row_of_def)

lemma decode_ready_rows:
  assumes "decode_ready w is" "i \<in> set is" "j \<in> set is" "i \<noteq> j"
  shows "row_of w i \<noteq> row_of w j"
proof
  assume eq: "row_of w i = row_of w j"
  from assms obtain p q where "bq_pool_idx (bw_req w i) = Some p" "0 \<le> p" "bq_pool_idx (bw_req w j) = Some q" "0 \<le> q"
    unfolding decode_ready_def by meson
  with eq have "bq_pool_idx (bw_req w i) = bq_pool_idx (bw_req w j)" by (simp add: row_of_def)
  then show False using assms by (auto simp: decode_ready_def inj_on_def)
qed

text \<open>Giving every row of an attempt back.\<close>

lemma restore_all:
  assumes ready: "decode_ready w is" and al: "decode_allocates w is slots w1"
    and d: "da_reqs d = is" "da_positions d = map (\<lambda>i. the (bq_kv_allocated (bw_req w i))) is"
      "da_committed_lengths d = map (\<lambda>i. bq_kv_committed (bw_req w i)) is"
      "da_pool_indices d = map (\<lambda>i. the (bq_pool_idx (bw_req w i))) is"
    and fits: "\<forall>i \<in> set is. nat (the (bq_kv_allocated (bw_req w i))) < length (bw_pages w ! row_of w i)"
    and w2: "w2 = w1\<lparr>bw_records := R, bw_freed := F\<rparr>"
  shows "\<exists>w3. loopE (restore_row d) [0..<length is] w2 = (Inr (), w3) \<and> bw_pages w3 = bw_pages w \<and>
    bw_req w3 = bw_req w \<and> bw_records w3 = R \<and> bw_freed w3 = F"
proof -
  let ?w = "w\<lparr>bw_records := R, bw_freed := F\<rparr>"
  let ?P = "\<lambda>k s. bw_req s (is ! k) = bw_req w1 (is ! k) \<and> bw_pages s ! row_of w (is ! k) = bw_pages w1 ! row_of w (is ! k)"
  let ?Q = "\<lambda>k s. bw_req s (is ! k) = bw_req w (is ! k) \<and> bw_pages s ! row_of w (is ! k) = bw_pages w ! row_of w (is ! k)"
  have E: "elsewhere_same ?w w2 is" using al by (simp add: w2 decode_allocates_def elsewhere_same_def)
  have "\<exists>w3. loopE (restore_row d) [0..<length is] w2 = (Inr (), w3) \<and> elsewhere_same ?w w3 is \<and>
    (\<forall>k \<in> set [0..<length is]. ?Q k w3) \<and>
    (\<forall>k \<in> {..<length is} - set [0..<length is]. (?P k w2 \<longrightarrow> ?P k w3) \<and> (?Q k w2 \<longrightarrow> ?Q k w3))"
  proof (rule loopE_each [where G = "\<lambda>s. elsewhere_same ?w s is" and P = ?P and Q = ?Q])
    fix k s assume "k \<in> {..<length is}" and Es: "elsewhere_same ?w s is" and P: "?P k s"
    then have k: "k < length is" by simp
    let ?i = "is ! k"
    have i: "?i \<in> set is" using k by simp
    obtain p a where row: "bq_pool_idx (bw_req w ?i) = Some p" "0 \<le> p" "p < int (length (bw_pages w))"
      "bq_kv_allocated (bw_req w ?i) = Some a" "0 \<le> a" "row_of w ?i = nat p"
      "nat a < length (bw_pages w ! nat p)" "bw_pages w ! nat p ! nat a = 0"
    proof -
      obtain p a where *: "bq_pool_idx (bw_req w ?i) = Some p" "0 \<le> p" "p < int (length (bw_pages w))"
        "bq_kv_allocated (bw_req w ?i) = Some a" "0 \<le> a"
        "nat a < length (bw_pages w ! nat p) \<longrightarrow> bw_pages w ! nat p ! nat a = 0"
        using ready i unfolding decode_ready_def by meson
      moreover have "nat a < length (bw_pages w ! nat p)" using fits i *(1,4) by (auto simp: row_of_def)
      ultimately show ?thesis using that [OF *(1-5)] by (simp add: row_of_def)
    qed
    have "bw_req w1 ?i = (bw_req w ?i)\<lparr>bq_kv_allocated := Some (the (bq_kv_allocated (bw_req w ?i)) + 1), bq_kv_committed := bq_kv_committed (bw_req w ?i) + 1\<rparr>
        \<and> bw_pages w1 ! row_of w ?i = (bw_pages w ! row_of w ?i)[nat (the (bq_kv_allocated (bw_req w ?i))) := slots ! k]"
      using al k by (simp add: decode_allocates_def Let_def)
    then have w1: "bw_req w1 ?i = (bw_req w ?i)\<lparr>bq_kv_allocated := Some (a + 1), bq_kv_committed := bq_kv_committed (bw_req w ?i) + 1\<rparr>"
      "bw_pages w1 ! nat p = (bw_pages w ! nat p)[nat a := slots ! k]"
      by (simp_all add: row(4,6))
    have len: "length (bw_pages s) = length (bw_pages w)" using Es by (simp add: elsewhere_same_def)
    have undone: "(bw_pages s ! nat p)[nat a := 0] = bw_pages w ! nat p"
      using P w1(2) row(6,8) by simp (metis list_update_id)
    define s' where "s' = (update_req ?i (\<lambda>q. q\<lparr>bq_kv_allocated := Some a, bq_kv_committed := bq_kv_committed (bw_req w ?i)\<rparr>) s)
      \<lparr>bw_pages := (bw_pages s)[nat p := bw_pages w ! nat p]\<rparr>"
    have run: "restore_row d k s = (Inr (), s')"
      using k row P w1(2) len undone
      by (simp add: restore_row_def d zero_cell_def Let_def s'_def nat_less_iff)
    have Q: "?Q k s'" using P w1(1) row len by (simp add: s'_def nat_less_iff)
    have "touches_only ?w ?i s s'" using row(6) by (simp add: touches_only_def s'_def)
    then have "elsewhere_same ?w s' is" by (rule elsewhere_step [OF Es i])
    moreover have "bw_req s' (is ! y) = bw_req s (is ! y) \<and> bw_pages s' ! row_of w (is ! y) = bw_pages s ! row_of w (is ! y)"
      if y: "y < length is" "y \<noteq> k" for y
    proof -
      have "is ! y \<noteq> ?i" using ready y k by (simp add: decode_ready_def nth_eq_iff_index_eq)
      then show ?thesis using decode_ready_rows [OF ready i, of "is ! y"] y row(6) by (simp add: s'_def)
    qed
    ultimately show "\<exists>s'. restore_row d k s = (Inr (), s') \<and> elsewhere_same ?w s' is \<and> ?Q k s' \<and>
      (\<forall>y \<in> {..<length is}. y \<noteq> k \<longrightarrow> (?P y s \<longrightarrow> ?P y s') \<and> (?Q y s \<longrightarrow> ?Q y s'))"
      using run Q by simp
  qed (use E in \<open>auto simp: w2\<close>)
  then obtain w3 where w3: "loopE (restore_row d) [0..<length is] w2 = (Inr (), w3)" "elsewhere_same ?w w3 is"
    "\<forall>k < length is. ?Q k w3" by auto
  have own: "bw_req w3 i = bw_req w i \<and> bw_pages w3 ! row_of w i = bw_pages w ! row_of w i" if "i \<in> set is" for i
    using w3(3) that by (auto simp: in_set_conv_nth)
  have "bw_pages w3 = bw_pages w"
  proof (rule nth_equalityI)
    fix r assume "r < length (bw_pages w3)"
    then show "bw_pages w3 ! r = bw_pages w ! r"
      using w3(2) own by (cases "r \<in> row_of w ` set is") (auto simp: elsewhere_same_def)
  qed (use w3(2) in \<open>simp add: elsewhere_same_def\<close>)
  moreover have "bw_req w3 = bw_req w"
  proof
    fix j show "bw_req w3 j = bw_req w j"
      using w3(2) own by (cases "j \<in> set is") (auto simp: elsewhere_same_def)
  qed
  ultimately show ?thesis using w3 by (auto simp: elsewhere_same_def)
qed

lemma mapE_known: "\<forall>x \<in> set xs. f x = Inr (g x) \<Longrightarrow> mapE f xs = Inr (map g xs)"
  by (induction xs) auto

lemma decode_record_ready:
  assumes "decode_ready w is"
  shows "decode_record w is = Inr \<lparr>da_reqs = is, da_positions = map (\<lambda>i. the (bq_kv_allocated (bw_req w i))) is,
    da_committed_lengths = map (\<lambda>i. bq_kv_committed (bw_req w i)) is,
    da_pool_indices = map (\<lambda>i. the (bq_pool_idx (bw_req w i))) is,
    da_slots = None, da_committed = False, da_released = False\<rparr>"
proof -
  have 1: "\<forall>i \<in> set is. (case bq_kv_allocated (bw_req w i) of None \<Rightarrow> Inl TypeError | Some a \<Rightarrow> Inr a)
      = Inr (the (bq_kv_allocated (bw_req w i)))"
    and 2: "\<forall>i \<in> set is. (case bq_pool_idx (bw_req w i) of None \<Rightarrow> Inl TypeError | Some a \<Rightarrow> Inr a)
      = Inr (the (bq_pool_idx (bw_req w i)))"
    using assms by (fastforce simp: decode_ready_def)+
  then show ?thesis by (simp add: decode_record_def mapE_known [OF 1] mapE_known [OF 2])
qed

lemma capacity_room:
  assumes "decode_ready w is" and "i \<in> set is" and "\<not> decode_capacity_error (bw_pages w) (bw_req w i)"
  shows "nat (the (bq_kv_allocated (bw_req w i))) < length (bw_pages w ! row_of w i)"
proof -
  obtain p a where f: "bq_pool_idx (bw_req w i) = Some p" "0 \<le> p" "p < int (length (bw_pages w))"
    "bq_kv_allocated (bw_req w i) = Some a" "0 \<le> a" "kv_total (req_state w i) \<le> a"
    using assms(1,2) unfolding decode_ready_def by meson
  have "bw_pages w ! nat p \<in> set (bw_pages w)" using f(2,3) by simp
  then have "length (bw_pages w ! nat p) = length (hd (bw_pages w))" using assms(1) unfolding decode_ready_def by blast
  moreover have "a + 1 \<le> int (length (hd (bw_pages w)))"
    using assms(3) f
    by (cases "bw_pages w") (simp_all add: decode_capacity_error_def Let_def req_state_def)
  ultimately show ?thesis using f by (simp add: row_of_def nat_less_iff)
qed

lemma rollback_decode_all:
  assumes ready: "decode_ready w is" and al: "decode_allocates w is slots w1"
    and d: "decode_record w is = Inr d" and k: "bw_records w1 ! k = d\<lparr>da_slots := Some slots\<rparr>" "k < length (bw_records w1)"
    and b: "bt_reqs b = is" "bt_record b = Some k"
    and fits: "\<forall>i \<in> set is. \<not> decode_capacity_error (bw_pages w) (bw_req w i)"
  shows "\<exists>w2. rollback_batch w1 b = (Inr (), w2, b) \<and> bw_pages w2 = bw_pages w \<and> bw_req w2 = bw_req w \<and>
    bw_freed w2 = bw_freed w1 @ [slots] \<and> da_released (bw_records w2 ! k) \<and> k < length (bw_records w2)"
proof -
  note rec = decode_record_ready [OF ready, unfolded d, simplified]
  let ?d = "d\<lparr>da_slots := Some slots\<rparr>"
  have ne: "is \<noteq> []" and ls: "length slots = length is"
    using ready al by (simp_all add: decode_ready_def decode_allocates_def)
  have rows: "decode_rows w1 b 0 (da_reqs ?d) (da_positions ?d) (da_pool_indices ?d) = Inr [0..<0 + length is]"
    unfolding rec
  proof (simp only: decode_allocation.simps, rule decode_rows_all; (simp; fail)?)
    show "\<forall>k < length is. is ! k \<in> set (bt_reqs b) \<and>
        bq_pool_idx (bw_req w1 (is ! k)) = Some (map (\<lambda>i. the (bq_pool_idx (bw_req w i))) is ! k) \<and>
        bq_kv_allocated (bw_req w1 (is ! k)) = Some (map (\<lambda>i. the (bq_kv_allocated (bw_req w i))) is ! k + 1) \<and>
        kv_total (bq_state (bw_req w1 (is ! k))) \<le> map (\<lambda>i. the (bq_kv_allocated (bw_req w i))) is ! k"
    proof (intro allI impI)
      fix k assume k: "k < length is"
      then have i: "is ! k \<in> set is" by simp
      obtain p a where "bq_pool_idx (bw_req w (is ! k)) = Some p" "bq_kv_allocated (bw_req w (is ! k)) = Some a"
        "kv_total (req_state w (is ! k)) \<le> a"
        using ready i unfolding decode_ready_def by meson
      moreover have "bw_req w1 (is ! k) = (bw_req w (is ! k))\<lparr>bq_kv_allocated := Some (the (bq_kv_allocated (bw_req w (is ! k))) + 1),
          bq_kv_committed := bq_kv_committed (bw_req w (is ! k)) + 1\<rparr>"
        using al k by (simp add: decode_allocates_def Let_def)
      ultimately show "is ! k \<in> set (bt_reqs b) \<and>
        bq_pool_idx (bw_req w1 (is ! k)) = Some (map (\<lambda>i. the (bq_pool_idx (bw_req w i))) is ! k) \<and>
        bq_kv_allocated (bw_req w1 (is ! k)) = Some (map (\<lambda>i. the (bq_kv_allocated (bw_req w i))) is ! k + 1) \<and>
        kv_total (bq_state (bw_req w1 (is ! k))) \<le> map (\<lambda>i. the (bq_kv_allocated (bw_req w i))) is ! k"
        using i k b(1) by (simp add: req_state_def)
    qed
  qed
  have m: "map ((!) slots) [0..<length is] = slots" using ls by (metis map_nth)
  have "w1\<lparr>bw_freed := bw_freed w1 @ [slots]\<rparr> = w1\<lparr>bw_records := bw_records w1, bw_freed := bw_freed w1 @ [slots]\<rparr>" by simp
  from restore_all [OF ready al, of ?d, OF _ _ _ _ _ this] obtain w3 where
    w3: "loopE (restore_row ?d) [0..<length is] (w1\<lparr>bw_freed := bw_freed w1 @ [slots]\<rparr>) = (Inr (), w3)"
    "bw_pages w3 = bw_pages w" "bw_req w3 = bw_req w" "bw_records w3 = bw_records w1" "bw_freed w3 = bw_freed w1 @ [slots]"
    using capacity_room [OF ready] fits by (auto simp: rec)
  have live: "\<not> da_committed ?d" "\<not> da_released ?d" by (simp_all add: rec)
  have "rollback_decode k w1 b = (Inr (), set_record k (?d\<lparr>da_released := True\<rparr>) w3)"
    using rows w3(1) ne ls live by (simp add: rollback_decode_def k(1) Let_def m)
  then show ?thesis using w3 k(2) b(2) by (simp add: rollback_batch_def set_record_def)
qed

text \<open>
  C7: A decode step that fails, while SGLang prepares it or in the forward,
  is undone by the rollback: page table and requests are exactly those from before the step, the
  slots of the step are freed once, and rolling back again, through the batch or through a
  snapshot that shares its record, does nothing.
\<close>
theorem decode_undone:
  assumes ready: "decode_ready w (bt_reqs b)" and d: "decode_record w (bt_reqs b) = Inr d"
    and up: "upstream (w\<lparr>bw_records := bw_records w @ [d]\<rparr>)
      ((begin_allocation b)\<lparr>bt_record := Some (length (bw_records w))\<rparr>) = (r, w1, b1)"
    and al: "decode_allocates (w\<lparr>bw_records := bw_records w @ [d]\<rparr>) (bt_reqs b) slots w1"
    and b1: "bt_reqs b1 = bt_reqs b" "bt_record b1 = Some (length (bw_records w))" "bt_out b1 = Some slots"
    and fits: "\<forall>i \<in> set (bt_reqs b). \<not> decode_capacity_error (bw_pages w) (bw_req w i)"
    and prep: "prepare_for_decode upstream w b = (r', w2, b2)"
    and rb: "rollback_batch w2 b2 = (r'', w3, b3)"
  shows "r'' = Inr () \<and> bw_pages w3 = bw_pages w \<and> bw_req w3 = bw_req w \<and> bw_freed w3 = bw_freed w @ [slots] \<and>
    (\<forall>b'. bt_record b' = bt_record b2 \<longrightarrow> rollback_batch w3 b' = (Inr (), w3, b'))"
proof -
  let ?k = "length (bw_records w)"
  let ?w = "w\<lparr>bw_records := bw_records w @ [d]\<rparr>"
  let ?w1 = "set_record ?k (d\<lparr>da_slots := Some slots\<rparr>) w1"
  have recs: "bw_records w1 = bw_records w @ [d]" and fr: "bw_freed w1 = bw_freed w"
    using al by (auto simp: decode_allocates_def elsewhere_same_def)
  have al': "decode_allocates (w\<lparr>bw_records := bw_records ?w1\<rparr>) (bt_reqs b) slots ?w1"
    using al by (simp add: decode_allocates_def elsewhere_same_def set_record_def Let_def)
  have ready1: "decode_ready (w\<lparr>bw_records := bw_records ?w1\<rparr>) (bt_reqs b)"
    using ready by (simp add: decode_ready_def req_state_def)
  have d1: "decode_record (w\<lparr>bw_records := bw_records ?w1\<rparr>) (bt_reqs b) = Inr d" using d by (simp add: decode_record_def)
  have k: "bw_records ?w1 ! ?k = d\<lparr>da_slots := Some slots\<rparr>" "?k < length (bw_records ?w1)"
    by (simp_all add: set_record_def recs)
  from rollback_decode_all [OF ready1 al' d1 k b1(1,2)] fits obtain wx where
    wx: "rollback_batch ?w1 b1 = (Inr (), wx, b1)" "bw_pages wx = bw_pages w" "bw_req wx = bw_req w"
      "bw_freed wx = bw_freed w @ [slots]" "da_released (bw_records wx ! ?k)"
    using fr by (auto simp: set_record_def)
  have again: "rollback_batch wx b' = (Inr (), wx, b')" if "bt_record b' = Some ?k" for b'
    using wx(5) that by (simp add: rollback_batch_def rollback_decode_def)
  have p: "prepare_for_decode upstream w b = (case r of Inr _ \<Rightarrow> (Inr (), ?w1, b1) | Inl e \<Rightarrow> (Inl e, wx, b1))"
    using fits d up b1(3) wx(1) by (auto simp: prepare_for_decode_def Let_def split: sum.split)
  show ?thesis
  proof (cases r)
    case (Inl e)
    then have "w2 = wx" "b2 = b1" using p prep by simp_all
    then show ?thesis using rb again wx b1(2) by auto
  next
    case (Inr u)
    then have "w2 = ?w1" "b2 = b1" using p prep by simp_all
    then show ?thesis using rb again wx b1(2) by auto
  qed
qed

subsection \<open>A concrete step\<close>

definition demo_slots_written :: "batch_world \<Rightarrow> realtime_batch \<Rightarrow> unit res \<times> batch_world \<times> realtime_batch" where
  "demo_slots_written w b =
     (Inl OSError, w\<lparr>bw_pages := [[0, 0, 0, 0, 0, 0, 0, 0, 0, 0], [11, 12, 21, 22, 30, 0, 0, 0, 0, 0]],
          bw_req := (bw_req w)(0 := (bw_req w 0)\<lparr>bq_kv_allocated := Some 5, bq_kv_committed := 5\<rparr>)\<rparr>,
      b\<lparr>bt_out := Some [30]\<rparr>)"

theorem decode_undone_witness:
  "bw_freed (fst (snd (rollback_batch
       (fst (snd (prepare_for_decode demo_slots_written demo_batch_world demo_batch)))
       (snd (snd (prepare_for_decode demo_slots_written demo_batch_world demo_batch)))))) = [[30]]"
proof -
  have ready: "decode_ready demo_batch_world (bt_reqs demo_batch)"
    by (simp add: decode_ready_def demo_batch_defs eval_nat_numeral)
  note d = decode_record_ready [OF ready]
  obtain d where d': "decode_record demo_batch_world (bt_reqs demo_batch) = Inr d" using d by blast
  let ?w = "demo_batch_world\<lparr>bw_records := bw_records demo_batch_world @ [d]\<rparr>"
  let ?b = "(begin_allocation demo_batch)\<lparr>bt_record := Some (length (bw_records demo_batch_world))\<rparr>"
  obtain w1 b1 where up: "demo_slots_written ?w ?b = (Inl OSError, w1, b1)" by (simp add: demo_slots_written_def)
  have al: "decode_allocates ?w (bt_reqs demo_batch) [30] w1"
    using up by (auto simp: demo_slots_written_def decode_allocates_def elsewhere_same_def demo_batch_defs less_Suc_eq eval_nat_numeral)
  have b1: "bt_reqs b1 = bt_reqs demo_batch" "bt_record b1 = Some (length (bw_records demo_batch_world))" "bt_out b1 = Some [30]"
    using up by (auto simp: demo_slots_written_def begin_allocation_def)
  have fits: "\<forall>i \<in> set (bt_reqs demo_batch). \<not> decode_capacity_error (bw_pages demo_batch_world) (bw_req demo_batch_world i)"
    by (simp add: decode_capacity_error_def demo_batch_defs effective_appended_encoder_length_def)
  obtain r2 w2 b2 where prep: "prepare_for_decode demo_slots_written demo_batch_world demo_batch = (r2, w2, b2)"
    by (cases "prepare_for_decode demo_slots_written demo_batch_world demo_batch")
  obtain r3 w3 b3 where rb: "rollback_batch w2 b2 = (r3, w3, b3)" by (cases "rollback_batch w2 b2")
  from decode_undone [OF ready d' up al b1 fits prep rb] have "bw_freed w3 = [[30]]"
    by (simp add: demo_batch_world_def)
  then show ?thesis by (simp add: prep rb)
qed

end
