(* ===== verification/Segment.thy ===== *)
theory Segment
  imports Visibility Frame_Events Frame_Plan
begin

section \<open>Building one segment of a realtime request\<close>

text \<open>
  Models \<open>moss_vl_realtime/segment.py\<close>, \<open>compute_realtime_mrope_for_segment\<close> of
  \<open>model_step.py\<close> and \<open>stage_segment_frame_records\<close> of \<open>frame_window.py\<close>; the text of a segment
  is built by \<open>Frame_Events\<close>.  A tensor of positions of shape \<open>(3, n)\<close> is the list of its columns.  The
  processor, its tokenizer and the pad value, a hash of the frames, are parameters; pixel values
  play no part in any length and are left out.
\<close>

type_synonym grid_thw = "int \<times> int \<times> int"
type_synonym position = "int \<times> int \<times> int"

subsection \<open>Positions\<close>

definition grid_positions :: "int \<Rightarrow> int \<Rightarrow> int \<Rightarrow> position list" where
  "grid_positions pos mh mw =
     concat (map (\<lambda>y. map (\<lambda>x. (pos, pos + int y, pos + int x)) [0..<nat mw]) [0..<nat mh])"

fun mrope_from ::
    "int \<Rightarrow> int \<Rightarrow> int \<Rightarrow> int list \<Rightarrow> grid_thw list \<Rightarrow> (position list \<times> position list \<times> int) res" where
  "mrope_from tok m pos [] gs = (if gs = [] then Inr ([], [], pos) else Inl ValueError)"
| "mrope_from tok m pos (i # is) gs =
     (if i \<noteq> tok
      then bindE (mrope_from tok m (pos + 1) is gs) (\<lambda>(ts, vs, nxt). Inr ((pos, pos, pos) # ts, vs, nxt))
      else case gs of
        [] \<Rightarrow> Inl ValueError
      | (t, h, w) # gs' \<Rightarrow>
          if t \<noteq> 1 then Inl ValueError
          else if h mod m \<noteq> 0 \<or> w mod m \<noteq> 0 then Inl ValueError
          else let mh = h div m; mw = w div m; sep = pos + max mh mw in
            if mh < 0 \<or> mw < 0 then Inl RuntimeError
            else bindE (mrope_from tok m (sep + 1) is gs') (\<lambda>(ts, vs, nxt).
                   Inr ((sep, sep, sep) # ts, grid_positions pos mh mw @ (sep, sep, sep) # vs, nxt)))"

definition compute_realtime_mrope ::
    "ids_tensor \<Rightarrow> grid_thw list option \<Rightarrow> int \<Rightarrow> int \<Rightarrow> int \<Rightarrow>
     (position list \<times> position list option \<times> int) res" where
  "compute_realtime_mrope ids grids start tok m =
     (case ids of
        Ids2 [r] \<Rightarrow>
          if start < 0 then Inl ValueError
          else if m \<le> 0 then Inl ValueError
          else bindE (mrope_from tok m start r (case grids of None \<Rightarrow> [] | Some gs \<Rightarrow> gs)) (\<lambda>(ts, vs, nxt).
                 Inr (ts, if vs = [] then None else Some vs, nxt))
      | _ \<Rightarrow> Inl ValueError)"

subsection \<open>The segment\<close>

record segment =
  sg_events :: "frame_event list"
  sg_input_ids :: "int list"
  sg_pad_ids :: "int list"
  sg_image_tokens :: int
  sg_positions :: "position list"
  sg_position_delta :: int
  sg_vision_positions :: "position list option"
  sg_visible :: "int list"
  sg_added_frames :: "nat option"
  sg_encoder_delta :: int
  sg_next_position :: int
  sg_full_grid :: "grid_thw list"

definition raw_append_ids :: "segment \<Rightarrow> int list" where
  "raw_append_ids s = sg_pad_ids s @ sg_input_ids s"

definition segment_encoder_length :: "grid_thw list \<Rightarrow> int \<Rightarrow> int res" where
  "segment_encoder_length gs m =
     (if \<exists>(t, h, w) \<in> set gs. h mod m \<noteq> 0 \<or> w mod m \<noteq> 0 then Inl ValueError
      else Inr (\<Sum>(t, h, w) \<leftarrow> gs. (t * h * w) div (m * m) + t))"

definition append_grid_thw :: "grid_thw list option \<Rightarrow> grid_thw list \<Rightarrow> grid_thw list" where
  "append_grid_thw prev new = (case prev of None \<Rightarrow> new | Some p \<Rightarrow> p @ new)"

definition append_mrope_positions :: "position list option \<Rightarrow> position list \<Rightarrow> position list" where
  "append_mrope_positions prev new = (case prev of None \<Rightarrow> new | Some p \<Rightarrow> p @ new)"

text \<open>What the processor returns: the grid tensor, by its rank, and the token ids.\<close>

datatype grid_tensor = Grid1 "int list" | Grid2 "int list list" | GridOther

definition grid_rows :: "grid_tensor \<Rightarrow> grid_thw list res" where
  "grid_rows g =
     (let rows = (case g of Grid1 r \<Rightarrow> Some [r] | Grid2 rs \<Rightarrow> Some rs | GridOther \<Rightarrow> None) in
      case rows of
        None \<Rightarrow> Inl ValueError
      | Some rs \<Rightarrow> if \<exists>r \<in> set rs. length r \<noteq> 3 then Inl ValueError
                    else Inr (map (\<lambda>r. (r ! 0, r ! 1, r ! 2)) rs))"

record 'i segment_tools =
  st_processor :: "string \<Rightarrow> 'i list \<Rightarrow> (grid_tensor \<times> ids_tensor) res"
  st_tokenizer :: "string \<Rightarrow> ids_tensor res"
  st_pad_value :: "frame_event list \<Rightarrow> int"
  st_image_token :: int
  st_merge :: int

record segment_history =
  sh_positions :: "position list option"
  sh_visible :: "int list option"
  sh_grid :: "grid_thw list option"
  sh_next_position :: int
  sh_encoder_length :: int
  sh_decoder_length :: "int option"
  sh_pending :: int

definition new_segment_tools :: "'i segment_tools \<Rightarrow> 'i segment_tools res" where
  "new_segment_tools t = (if st_merge t \<le> 0 then Inl ValueError else Inr t)"

definition ordered_frames :: "frame_event list \<Rightarrow> 'i list \<Rightarrow> (frame_event \<times> 'i) list" where
  "ordered_frames events images =
     sort_key (\<lambda>p. num_value (ev_timestamp (fst p))) (zip (filter has_frame events) images)"

text \<open>The call of the processor, or of its tokenizer when no frame was drained.\<close>

definition process_events ::
    "'i segment_tools \<Rightarrow> frame_event list \<Rightarrow> 'i list \<Rightarrow> (grid_thw list option \<times> ids_tensor) res" where
  "process_events t events images =
     (let frames = ordered_frames events images in
      bindE (build_realtime_append_text (List.map_filter ev_prompt events)
               (map (\<lambda>p. num_float (ev_timestamp (fst p))) frames)) (\<lambda>txt.
        if frames = [] then bindE (st_tokenizer t txt) (\<lambda>ids. Inr (None, ids))
        else bindE (st_processor t txt (map snd frames)) (\<lambda>(g, ids).
               bindE (grid_rows g) (\<lambda>rows.
                 if length rows \<noteq> length frames then Inl ValueError else Inr (Some rows, ids)))))"

definition build_segment ::
    "'i segment_tools \<Rightarrow> frame_event list \<Rightarrow> 'i list \<Rightarrow> segment_history \<Rightarrow> segment res" where
  "build_segment t events images h =
     bindE (ensure (events \<noteq> []) ValueError) (\<lambda>_.
     bindE (ensure (0 \<le> sh_pending h) ValueError) (\<lambda>_.
     bindE (ensure (length images = length (filter has_frame events)) ValueError) (\<lambda>_.
     let frames = ordered_frames events images in
     bindE (process_events t events images) (\<lambda>(grid, ids).
     bindE (case ids of Ids2 [r] \<Rightarrow> Inr r | _ \<Rightarrow> Inl ValueError) (\<lambda>ids_row.
     let previous = (case sh_positions h of None \<Rightarrow> 0 | Some p \<Rightarrow> int (length p));
         committed = (case sh_decoder_length h of None \<Rightarrow> previous | Some n \<Rightarrow> n);
         missing = committed - previous;
         start = sh_next_position h + sh_pending h in
     bindE (ensure (previous \<le> committed) ValueError) (\<lambda>_.
     bindE (ensure (missing \<le> sh_next_position h) ValueError) (\<lambda>_.
     bindE (compute_realtime_mrope (Ids2 [ids_row]) grid start (st_image_token t) (st_merge t))
       (\<lambda>(event_positions, vision, nxt).
     let generated = map (\<lambda>k. (let p = sh_next_position h - missing + int k in (p, p, p)))
                       [0..<nat (missing + sh_pending h)];
         full = append_mrope_positions (sh_positions h) (generated @ event_positions) in
     bindE (append_visible_frame_counts (sh_visible h)
              (Ids1 (replicate (nat (missing + sh_pending h)) (- 1) @ ids_row)) (st_image_token t)) (\<lambda>visible.
     let full_grid = (case grid of Some g \<Rightarrow> append_grid_thw (sh_grid h) g
                        | None \<Rightarrow> (case sh_grid h of None \<Rightarrow> [] | Some p \<Rightarrow> p)) in
     bindE (case grid of None \<Rightarrow> Inr 0 | Some g \<Rightarrow> segment_encoder_length g (st_merge t)) (\<lambda>delta.
       Inr \<lparr>sg_events = events, sg_input_ids = ids_row,
            sg_pad_ids = (if frames = [] then [] else replicate (nat delta) (st_pad_value t (map fst frames))),
            sg_image_tokens = sh_encoder_length h + delta, sg_positions = full,
            sg_position_delta = nxt - int (length full), sg_vision_positions = vision,
            sg_visible = visible, sg_added_frames = (if frames = [] then None else Some (length frames)),
            sg_encoder_delta = delta, sg_next_position = nxt, sg_full_grid = full_grid\<rparr>))))))))))"

subsection \<open>Frame records of a segment\<close>

text \<open>\<open>stage_segment_frame_records\<close>; \<open>merge_size\<close> is an integer.\<close>

definition frame_record_of :: "int \<Rightarrow> frame_event \<Rightarrow> grid_thw \<Rightarrow> frame_record res" where
  "frame_record_of m e g =
     (case g of (t, h, w) \<Rightarrow>
        if t \<noteq> 1 then Inl RuntimeError
        else if (h * w) mod (m * m) \<noteq> 0 then Inl RuntimeError
        else bindE (segment_encoder_length [(t, h, w)] m) (\<lambda>n.
          Inr \<lparr>fr_timestamp = num_float (ev_timestamp e), grid_h = h, grid_w = w, fr_slots = n,
               pooled = False, pooled_sources = 1\<rparr>))"

definition stage_segment_frame_records :: "segment \<Rightarrow> int \<Rightarrow> frame_record list option res" where
  "stage_segment_frame_records s m =
     (let frames = sort_key (\<lambda>e. num_value (ev_timestamp e)) (filter has_frame (sg_events s));
          grid = sg_full_grid s in
      if frames = [] then Inr None
      else if length grid < length frames then Inl RuntimeError
      else if m * m \<le> 0 then Inl ValueError
      else bindE (mapE (\<lambda>(e, g). frame_record_of m e g)
                    (zip frames (drop (length grid - length frames) grid))) (\<lambda>rs. Inr (Some rs)))"

end
