(* ===== verification/Segment_Props.thy ===== *)
theory Segment_Props
  imports Segment
begin

section \<open>Properties of segments\<close>

subsection \<open>Positions\<close>

lemma mrope_from_append:
  assumes "mrope_from tok m pos is gs = Inr (ts, vs, p)"
  shows "mrope_from tok m pos (is @ js) (gs @ hs)
    = bindE (mrope_from tok m p js hs) (\<lambda>(ts', vs', nxt). Inr (ts @ ts', vs @ vs', nxt))"
  using assms
proof (induction tok m pos "is" gs arbitrary: ts vs rule: mrope_from.induct)
  case (1 tok m pos gs)
  then show ?case by (cases "mrope_from tok m p js hs") (auto split: if_splits)
next
  case (2 tok m pos i "is" gs)
  show ?case
  proof (cases "i = tok")
    case False
    with 2(3) obtain ts1 where r: "mrope_from tok m (pos + 1) is gs = Inr (ts1, vs, p)" "ts = (pos, pos, pos) # ts1"
      by (auto simp: bindE_eq_Inr)
    from 2(1) [OF False r(1)] False r(2) show ?thesis
      by (cases "mrope_from tok m p js hs") auto
  next
    case True
    with 2(3) obtain g gs' where g: "gs = g # gs'" by (cases gs) auto
    obtain t h w where g3: "g = (t, h, w)" by (cases g)
    from 2(3) True g g3 have c: "t = 1" "h mod m = 0" "w mod m = 0" "\<not> (h div m < 0 \<or> w div m < 0)"
      by (auto simp: Let_def split: if_splits)
    from 2(3) True g g3 c obtain ts1 vs1 where
      r: "mrope_from tok m (pos + max (h div m) (w div m) + 1) is gs' = Inr (ts1, vs1, p)"
      and ts: "ts = (pos + max (h div m) (w div m), pos + max (h div m) (w div m), pos + max (h div m) (w div m)) # ts1"
      and vs: "vs = grid_positions pos (h div m) (w div m) @
        (pos + max (h div m) (w div m), pos + max (h div m) (w div m), pos + max (h div m) (w div m)) # vs1"
      by (auto simp: bindE_eq_Inr Let_def)
    have "mrope_from tok m (pos + max (h div m) (w div m) + 1) (is @ js) (gs' @ hs)
      = bindE (mrope_from tok m p js hs) (\<lambda>(ts', vs', nxt). Inr (ts1 @ ts', vs1 @ vs', nxt))"
      using 2(2) [OF _ g g3 [symmetric] refl _ _ refl refl refl _ r] True c by simp
    then show ?thesis
      using True g g3 c ts vs by (cases "mrope_from tok m p js hs") (auto simp: Let_def)
  qed
qed

lemma length_grid_positions: "length (grid_positions pos mh mw) = nat mh * nat mw"
  by (simp add: grid_positions_def length_concat comp_def sum_list_triv)

lemma grid_positions_bounds:
  assumes "(a, b, c) \<in> set (grid_positions pos mh mw)"
  shows "a = pos" "pos \<le> b" "b < pos + mh" "pos \<le> c" "c < pos + mw"
  using assms by (auto simp: grid_positions_def)

lemma grid_tokens:
  fixes m h w :: int
  assumes "0 < m" "h mod m = 0" "w mod m = 0"
  shows "(h * w) div (m * m) = (h div m) * (w div m)" "(h * w) mod (m * m) = 0"
proof -
  have hw: "h = h div m * m" "w = w div m * m"
    using assms(2,3) div_mult_mod_eq [of h m] div_mult_mod_eq [of w m] by simp_all
  have e: "h * w = (h div m * (w div m)) * (m * m)"
    using arg_cong2 [OF hw, of "(*)"] by (simp add: mult_ac)
  have "m * m \<noteq> 0" using assms(1) by simp
  then show "(h * w) div (m * m) = (h div m) * (w div m)" "(h * w) mod (m * m) = 0"
    by (subst e, simp)+
qed

definition frame_tokens :: "int \<Rightarrow> grid_thw list \<Rightarrow> int" where
  "frame_tokens m gs = (\<Sum>(t, h, w) \<leftarrow> gs. (t * h * w) div (m * m) + t)"

definition single_frame :: "int \<Rightarrow> grid_thw \<Rightarrow> bool" where
  "single_frame m g \<longleftrightarrow> (case g of (t, h, w) \<Rightarrow> t = 1 \<and> h mod m = 0 \<and> w mod m = 0 \<and> 0 \<le> h div m \<and> 0 \<le> w div m)"

lemma mrope_from_facts:
  assumes "mrope_from tok m pos is gs = Inr (ts, vs, nxt)" and "0 < m"
  shows "length ts = length is \<and> count_list is tok = length gs \<and> (\<forall>g \<in> set gs. single_frame m g) \<and>
    int (length vs) = frame_tokens m gs \<and> pos + int (length is) \<le> nxt \<and> sorted_wrt (<) (map fst ts) \<and>
    (\<forall>(a, b, c) \<in> set ts. b = a \<and> c = a \<and> pos \<le> a \<and> a < nxt) \<and>
    (\<forall>(a, b, c) \<in> set vs. pos \<le> a \<and> a < nxt \<and> pos \<le> b \<and> b < nxt \<and> pos \<le> c \<and> c < nxt)"
  using assms
proof (induction tok m pos "is" gs arbitrary: ts vs rule: mrope_from.induct)
  case (1 tok m pos gs)
  then show ?case by (auto simp: frame_tokens_def split: if_splits)
next
  case (2 tok m pos i "is" gs)
  show ?case
  proof (cases "i = tok")
    case False
    with 2(3) obtain ts1 where r: "mrope_from tok m (pos + 1) is gs = Inr (ts1, vs, nxt)" "ts = (pos, pos, pos) # ts1"
      by (auto simp: bindE_eq_Inr)
    from 2(1) [OF False r(1) 2(4)] have IH: "length ts1 = length is" "count_list is tok = length gs" "\<forall>g \<in> set gs. single_frame m g"
      "int (length vs) = frame_tokens m gs" "pos + 1 + int (length is) \<le> nxt" "sorted_wrt (<) (map fst ts1)"
      "\<forall>(a, b, c) \<in> set ts1. b = a \<and> c = a \<and> pos + 1 \<le> a \<and> a < nxt"
      "\<forall>(a, b, c) \<in> set vs. pos + 1 \<le> a \<and> a < nxt \<and> pos + 1 \<le> b \<and> b < nxt \<and> pos + 1 \<le> c \<and> c < nxt" by auto
    show ?thesis using IH False by (auto simp: r(2))
  next
    case True
    with 2(3) obtain t h w gs' where g: "gs = (t, h, w) # gs'" by (cases gs) auto
    define mh where "mh = h div m"
    define mw where "mw = w div m"
    define sep where "sep = pos + max mh mw"
    from 2(3) True g have c: "t = 1" "h mod m = 0" "w mod m = 0" "0 \<le> mh" "0 \<le> mw"
      by (auto simp: Let_def mh_def mw_def split: if_splits)
    from 2(3) True g c obtain ts1 vs1 where
      r: "mrope_from tok m (sep + 1) is gs' = Inr (ts1, vs1, nxt)"
      and ts: "ts = (sep, sep, sep) # ts1" and vs: "vs = grid_positions pos mh mw @ (sep, sep, sep) # vs1"
      by (auto simp: bindE_eq_Inr Let_def mh_def mw_def sep_def)
    have "length ts1 = length is \<and> count_list is tok = length gs' \<and> (\<forall>g \<in> set gs'. single_frame m g) \<and>
      int (length vs1) = frame_tokens m gs' \<and> sep + 1 + int (length is) \<le> nxt \<and> sorted_wrt (<) (map fst ts1) \<and>
      (\<forall>(a, b, c) \<in> set ts1. b = a \<and> c = a \<and> sep + 1 \<le> a \<and> a < nxt) \<and>
      (\<forall>(a, b, c) \<in> set vs1. sep + 1 \<le> a \<and> a < nxt \<and> sep + 1 \<le> b \<and> b < nxt \<and> sep + 1 \<le> c \<and> c < nxt)"
      using 2(2) [OF _ g refl refl _ _ refl refl refl _ _ 2(4), of ts1 vs1] True c r
      by (simp add: mh_def mw_def sep_def)
    then have IH: "length ts1 = length is" "count_list is tok = length gs'" "\<forall>g \<in> set gs'. single_frame m g"
      "int (length vs1) = frame_tokens m gs'" "sep + 1 + int (length is) \<le> nxt" "sorted_wrt (<) (map fst ts1)"
      "\<And>a b c. (a, b, c) \<in> set ts1 \<Longrightarrow> b = a \<and> c = a \<and> sep + 1 \<le> a \<and> a < nxt"
      "\<And>a b c. (a, b, c) \<in> set vs1 \<Longrightarrow> sep + 1 \<le> a \<and> a < nxt \<and> sep + 1 \<le> b \<and> b < nxt \<and> sep + 1 \<le> c \<and> c < nxt"
      by fast+
    have sep: "pos \<le> sep" "pos + mh \<le> sep" "pos + mw \<le> sep" "sep < nxt" using c IH(5) by (simp_all add: sep_def)
    have len: "int (length vs) = frame_tokens m gs"
      using IH(4) c grid_tokens(1) [OF 2(4) c(2,3)]
      by (simp add: vs g frame_tokens_def length_grid_positions flip: mh_def mw_def)
    have V: "(a, b, c) \<in> set vs \<Longrightarrow> pos \<le> a \<and> a < nxt \<and> pos \<le> b \<and> b < nxt \<and> pos \<le> c \<and> c < nxt" for a b c
    proof -
      assume "(a, b, c) \<in> set vs"
      then consider "(a, b, c) \<in> set (grid_positions pos mh mw)" | "(a, b, c) = (sep, sep, sep)" | "(a, b, c) \<in> set vs1"
        by (auto simp: vs)
      then show ?thesis
      proof cases
        case 1
        from grid_positions_bounds [OF this] sep show ?thesis by linarith
      next
        case 3
        from IH(8) [OF this] sep show ?thesis by linarith
      qed (use sep in simp)
    qed
    have T: "(a, b, c) \<in> set ts \<Longrightarrow> b = a \<and> c = a \<and> pos \<le> a \<and> a < nxt" for a b c
      using IH(7) [of a b c] sep by (auto simp: ts)
    have later: "\<forall>x \<in> set (map fst ts1). sep < x" using IH(7) by fastforce
    show ?thesis
    proof (intro conjI)
      show "length ts = length (i # is)" using IH(1) by (simp add: ts)
      show "count_list (i # is) tok = length gs" using IH(2) True by (simp add: g)
      show "\<forall>g \<in> set gs. single_frame m g" using IH(3) c by (simp add: g single_frame_def mh_def mw_def)
      show "int (length vs) = frame_tokens m gs" by (rule len)
      show "pos + int (length (i # is)) \<le> nxt" using IH(5) sep by simp
      show "sorted_wrt (<) (map fst ts)" using IH(6) later by (simp add: ts)
      show "\<forall>(a, b, c) \<in> set ts. b = a \<and> c = a \<and> pos \<le> a \<and> a < nxt" using T by blast
      show "\<forall>(a, b, c) \<in> set vs. pos \<le> a \<and> a < nxt \<and> pos \<le> b \<and> b < nxt \<and> pos \<le> c \<and> c < nxt"
        using V by blast
    qed
  qed
qed

subsection \<open>A segment that was built\<close>

lemma process_eventsD:
  assumes "process_events t events images = Inr (grid, ids)" and "length images = length (filter has_frame events)"
  shows "(case grid of None \<Rightarrow> filter has_frame events = [] | Some g \<Rightarrow> g \<noteq> [] \<and> length g = length (filter has_frame events))"
    "(ordered_frames events images = []) = (filter has_frame events = [])"
    "length (ordered_frames events images) = length (filter has_frame events)"
proof -
  show len: "length (ordered_frames events images) = length (filter has_frame events)"
    using assms(2) by (simp add: ordered_frames_def)
  then show e: "(ordered_frames events images = []) = (filter has_frame events = [])" by auto
  show "(case grid of None \<Rightarrow> filter has_frame events = [] | Some g \<Rightarrow> g \<noteq> [] \<and> length g = length (filter has_frame events))"
  proof (cases "ordered_frames events images = []")
    case True
    with assms(1) e show ?thesis by (auto simp: process_events_def bindE_eq_Inr Let_def)
  next
    case False
    with assms(1) obtain g rows where "grid = Some rows" "length rows = length (ordered_frames events images)"
      by (auto simp: process_events_def bindE_eq_Inr Let_def split: if_splits)
    with len False show ?thesis by auto
  qed
qed

definition committed_length :: "segment_history \<Rightarrow> int" where
  "committed_length h = (case sh_decoder_length h of
     None \<Rightarrow> (case sh_positions h of None \<Rightarrow> 0 | Some p \<Rightarrow> int (length p)) | Some n \<Rightarrow> n)"

definition missing_tokens :: "segment_history \<Rightarrow> int" where
  "missing_tokens h = committed_length h - (case sh_positions h of None \<Rightarrow> 0 | Some p \<Rightarrow> int (length p))"

definition old_position :: "segment_history \<Rightarrow> nat \<Rightarrow> position" where
  "old_position h k = (sh_next_position h - missing_tokens h + int k, sh_next_position h - missing_tokens h + int k,
     sh_next_position h - missing_tokens h + int k)"

lemma build_segment_Inr:
  assumes "build_segment t events images h = Inr s"
  obtains grid r ts vs nxt visible delta where
    "0 \<le> sh_pending h" "length images = length (filter has_frame events)"
    "process_events t events images = Inr (grid, Ids2 [r])" "0 \<le> missing_tokens h" "missing_tokens h \<le> sh_next_position h"
    "0 < st_merge t" "0 \<le> sh_next_position h + sh_pending h"
    "mrope_from (st_image_token t) (st_merge t) (sh_next_position h + sh_pending h) r
       (case grid of None \<Rightarrow> [] | Some g \<Rightarrow> g) = Inr (ts, vs, nxt)"
    "append_visible_frame_counts (sh_visible h) (Ids1 (replicate (nat (missing_tokens h + sh_pending h)) (- 1) @ r))
       (st_image_token t) = Inr visible"
    "(case grid of None \<Rightarrow> Inr 0 | Some g \<Rightarrow> segment_encoder_length g (st_merge t)) = Inr delta"
    "s = \<lparr>sg_events = events, sg_input_ids = r,
       sg_pad_ids = (if ordered_frames events images = [] then []
         else replicate (nat delta) (st_pad_value t (map fst (ordered_frames events images)))),
       sg_image_tokens = sh_encoder_length h + delta,
       sg_positions = append_mrope_positions (sh_positions h)
         (map (\<lambda>k. old_position h k)
            [0..<nat (missing_tokens h + sh_pending h)] @ ts),
       sg_position_delta = nxt - int (length (append_mrope_positions (sh_positions h)
         (map (\<lambda>k. old_position h k)
            [0..<nat (missing_tokens h + sh_pending h)] @ ts))),
       sg_vision_positions = (if vs = [] then None else Some vs), sg_visible = visible,
       sg_added_frames = (if ordered_frames events images = [] then None else Some (length (ordered_frames events images))),
       sg_encoder_delta = delta, sg_next_position = nxt,
       sg_full_grid = (case grid of Some g \<Rightarrow> append_grid_thw (sh_grid h) g
          | None \<Rightarrow> (case sh_grid h of None \<Rightarrow> [] | Some p \<Rightarrow> p))\<rparr>"
proof -
  from assms obtain grid ids r ts vision nxt visible delta where
    a: "0 \<le> sh_pending h" "length images = length (filter has_frame events)"
    "process_events t events images = Inr (grid, ids)" "(case ids of Ids2 [r] \<Rightarrow> Inr r | _ \<Rightarrow> Inl ValueError) = Inr r"
    "(case sh_positions h of None \<Rightarrow> 0 | Some p \<Rightarrow> int (length p)) \<le> committed_length h" "missing_tokens h \<le> sh_next_position h"
    and m: "compute_realtime_mrope (Ids2 [r]) grid (sh_next_position h + sh_pending h) (st_image_token t) (st_merge t) = Inr (ts, vision, nxt)"
    and b: "append_visible_frame_counts (sh_visible h) (Ids1 (replicate (nat (missing_tokens h + sh_pending h)) (- 1) @ r))
       (st_image_token t) = Inr visible"
    "(case grid of None \<Rightarrow> Inr 0 | Some g \<Rightarrow> segment_encoder_length g (st_merge t)) = Inr delta"
    and s: "s = \<lparr>sg_events = events, sg_input_ids = r,
       sg_pad_ids = (if ordered_frames events images = [] then []
         else replicate (nat delta) (st_pad_value t (map fst (ordered_frames events images)))),
       sg_image_tokens = sh_encoder_length h + delta,
       sg_positions = append_mrope_positions (sh_positions h)
         (map (\<lambda>k. old_position h k)
            [0..<nat (missing_tokens h + sh_pending h)] @ ts),
       sg_position_delta = nxt - int (length (append_mrope_positions (sh_positions h)
         (map (\<lambda>k. old_position h k)
            [0..<nat (missing_tokens h + sh_pending h)] @ ts))),
       sg_vision_positions = vision, sg_visible = visible,
       sg_added_frames = (if ordered_frames events images = [] then None else Some (length (ordered_frames events images))),
       sg_encoder_delta = delta, sg_next_position = nxt,
       sg_full_grid = (case grid of Some g \<Rightarrow> append_grid_thw (sh_grid h) g
          | None \<Rightarrow> (case sh_grid h of None \<Rightarrow> [] | Some p \<Rightarrow> p))\<rparr>"
    unfolding build_segment_def Let_def bindE_eq_Inr ensure_eq_Inr split_paired_Ex prod.case sum.inject
      committed_length_def [symmetric] missing_tokens_def [symmetric] old_position_def [symmetric]
    by blast
  have ids: "ids = Ids2 [r]" using a(4) by (auto split: ids_tensor.splits list.splits)
  from m obtain vs where m': "0 < st_merge t" "0 \<le> sh_next_position h + sh_pending h"
    "mrope_from (st_image_token t) (st_merge t) (sh_next_position h + sh_pending h) r
       (case grid of None \<Rightarrow> [] | Some g \<Rightarrow> g) = Inr (ts, vs, nxt)" "vision = (if vs = [] then None else Some vs)"
    by (auto simp: compute_realtime_mrope_def bindE_eq_Inr split: if_splits)
  have "0 \<le> missing_tokens h" using a(5) by (simp add: missing_tokens_def)
  from that [OF a(1,2) a(3) [unfolded ids] this a(6) m'(1-3) b s [unfolded m'(4)]] show ?thesis .
qed

lemma count_tokens_length [simp]: "length (count_tokens ids tok k) = length ids"
  by (simp add: count_tokens_cumsum)

lemma append_visible_length:
  assumes "append_visible_frame_counts prev (Ids1 ids) tok = Inr v"
  shows "length v = length (case prev of None \<Rightarrow> [] | Some p \<Rightarrow> p) + length ids"
  using assms
  by (auto simp: append_visible_frame_counts_def compute_visible_frame_counts_def bindE_eq_Inr Let_def
      split: option.splits if_splits)

lemma segment_encoder_length_Inr:
  "segment_encoder_length gs m = Inr d \<Longrightarrow> d = frame_tokens m gs"
  by (simp add: segment_encoder_length_def frame_tokens_def split: if_splits)

lemma frame_tokens_Nil [simp]: "frame_tokens m [] = 0"
  by (simp add: frame_tokens_def)

text \<open>The lengths that the tensors of a history and of a segment have to agree on.\<close>

definition position_count :: "segment_history \<Rightarrow> nat" where
  "position_count h = length (case sh_positions h of None \<Rightarrow> [] | Some p \<Rightarrow> p)"

definition visible_count :: "segment_history \<Rightarrow> nat" where
  "visible_count h = length (case sh_visible h of None \<Rightarrow> [] | Some v \<Rightarrow> v)"

definition grid_count :: "segment_history \<Rightarrow> nat" where
  "grid_count h = length (case sh_grid h of None \<Rightarrow> [] | Some g \<Rightarrow> g)"

definition vision_count :: "segment \<Rightarrow> nat" where
  "vision_count s = length (case sg_vision_positions s of None \<Rightarrow> [] | Some v \<Rightarrow> v)"

lemma committed_missing: "committed_length h = int (position_count h) + missing_tokens h"
  by (simp add: committed_length_def missing_tokens_def position_count_def split: option.splits)

lemma position_count_cases: "(case sh_positions h of None \<Rightarrow> 0 | Some p \<Rightarrow> int (length p)) = int (position_count h)"
  by (simp add: position_count_def split: option.split)

lemma grid_facts:
  assumes "process_events t events images = Inr (grid, ids)" "length images = length (filter has_frame events)"
    and "mrope_from tok (st_merge t) p r (case grid of None \<Rightarrow> [] | Some g \<Rightarrow> g) = Inr (ts, vs, nxt)" "0 < st_merge t"
    and "(case grid of None \<Rightarrow> Inr 0 | Some g \<Rightarrow> segment_encoder_length g (st_merge t)) = Inr delta"
  shows "length (case grid of None \<Rightarrow> [] | Some g \<Rightarrow> g) = length (filter has_frame events)"
    "delta = frame_tokens (st_merge t) (case grid of None \<Rightarrow> [] | Some g \<Rightarrow> g)"
    "delta = int (length vs)" "count_list r tok = length (filter has_frame events)"
proof -
  show g: "length (case grid of None \<Rightarrow> [] | Some g \<Rightarrow> g) = length (filter has_frame events)"
    using process_eventsD(1) [OF assms(1,2)] by (auto split: option.splits)
  show d: "delta = frame_tokens (st_merge t) (case grid of None \<Rightarrow> [] | Some g \<Rightarrow> g)"
    using assms(5) by (cases grid) (auto dest: segment_encoder_length_Inr)
  note f = mrope_from_facts [OF assms(3,4)]
  from f d show "delta = int (length vs)" by simp
  from f g show "count_list r tok = length (filter has_frame events)" by simp
qed

lemma segment_lengths:
  assumes "build_segment t events images h = Inr s"
  shows "int (length (sg_positions s)) = committed_length h + sh_pending h + int (length (sg_input_ids s))"
    "int (length (sg_visible s)) = int (visible_count h) + missing_tokens h + sh_pending h + int (length (sg_input_ids s))"
    "int (vision_count s) = sg_encoder_delta s" "int (length (sg_pad_ids s)) = sg_encoder_delta s"
    "sg_image_tokens s = sh_encoder_length h + sg_encoder_delta s"
    "count_list (sg_input_ids s) (st_image_token t) = length (filter has_frame events)"
    "length (sg_full_grid s) = grid_count h + length (filter has_frame events)"
    "sg_position_delta s + int (length (sg_positions s)) = sg_next_position s"
    "sg_events s = events" "0 < st_merge t"
proof -
  from assms obtain grid r ts vs nxt visible delta where
    a: "0 \<le> sh_pending h" "length images = length (filter has_frame events)"
    "process_events t events images = Inr (grid, Ids2 [r])" "0 \<le> missing_tokens h" "0 < st_merge t"
    and m: "mrope_from (st_image_token t) (st_merge t) (sh_next_position h + sh_pending h) r
       (case grid of None \<Rightarrow> [] | Some g \<Rightarrow> g) = Inr (ts, vs, nxt)"
    and v: "append_visible_frame_counts (sh_visible h)
       (Ids1 (replicate (nat (missing_tokens h + sh_pending h)) (- 1) @ r)) (st_image_token t) = Inr visible"
    and d: "(case grid of None \<Rightarrow> Inr 0 | Some g \<Rightarrow> segment_encoder_length g (st_merge t)) = Inr delta"
    and s: "sg_events s = events" "sg_input_ids s = r"
       "sg_pad_ids s = (if ordered_frames events images = [] then []
         else replicate (nat delta) (st_pad_value t (map fst (ordered_frames events images))))"
       "sg_image_tokens s = sh_encoder_length h + delta"
       "sg_positions s = append_mrope_positions (sh_positions h)
         (map (\<lambda>k. old_position h k) [0..<nat (missing_tokens h + sh_pending h)] @ ts)"
       "sg_position_delta s = nxt - int (length (sg_positions s))"
       "sg_vision_positions s = (if vs = [] then None else Some vs)" "sg_visible s = visible"
       "sg_encoder_delta s = delta" "sg_next_position s = nxt"
       "sg_full_grid s = (case grid of Some g \<Rightarrow> append_grid_thw (sh_grid h) g
          | None \<Rightarrow> (case sh_grid h of None \<Rightarrow> [] | Some p \<Rightarrow> p))"
    by (elim build_segment_Inr) simp
  note f = mrope_from_facts [OF m a(5)] and g = grid_facts [OF a(3,2) m a(5) d]
  have none: "(ordered_frames events images = []) = (filter has_frame events = [])"
    by (rule process_eventsD(2) [OF a(3,2)])
  have zero: "filter has_frame events = [] \<Longrightarrow> delta = 0"
    using g(1,2) by (auto split: option.splits)
  show "0 < st_merge t" "sg_events s = events" by (fact a(5) s(1))+
  show "int (length (sg_positions s)) = committed_length h + sh_pending h + int (length (sg_input_ids s))"
    using f a by (simp add: s(2,5) append_mrope_positions_def committed_missing position_count_def split: option.split)
  show "int (length (sg_visible s)) = int (visible_count h) + missing_tokens h + sh_pending h + int (length (sg_input_ids s))"
    using append_visible_length [OF v] a by (simp add: s visible_count_def)
  show "int (vision_count s) = sg_encoder_delta s"
    using g(3) by (simp add: s vision_count_def)
  show "int (length (sg_pad_ids s)) = sg_encoder_delta s"
    using g(3) none zero by (auto simp: s(3,9))
  show "sg_image_tokens s = sh_encoder_length h + sg_encoder_delta s" by (simp add: s)
  show "count_list (sg_input_ids s) (st_image_token t) = length (filter has_frame events)"
    using g(4) by (simp add: s)
  show "length (sg_full_grid s) = grid_count h + length (filter has_frame events)"
    using g(1) by (auto simp: s grid_count_def append_grid_thw_def split: option.splits)
  show "sg_position_delta s + int (length (sg_positions s)) = sg_next_position s" by (simp add: s)
qed

lemma mrope_from_last:
  assumes "mrope_from tok m pos is gs = Inr (ts, vs, nxt)" and "0 < m"
  shows "if is = [] then nxt = pos else ts \<noteq> [] \<and> fst (last ts) = nxt - 1"
  using assms
proof (induction tok m pos "is" gs arbitrary: ts vs rule: mrope_from.induct)
  case (1 tok m pos gs)
  then show ?case by (auto split: if_splits)
next
  case (2 tok m pos i "is" gs)
  show ?case
  proof (cases "i = tok")
    case False
    with 2(3) obtain ts1 where r: "mrope_from tok m (pos + 1) is gs = Inr (ts1, vs, nxt)" "ts = (pos, pos, pos) # ts1"
      by (auto simp: bindE_eq_Inr)
    from 2(1) [OF False r(1) 2(4)] mrope_from_facts [OF r(1) 2(4)] r(2) show ?thesis
      by (cases "is = []") auto
  next
    case True
    with 2(3) obtain t h w gs' where g: "gs = (t, h, w) # gs'" by (cases gs) auto
    define sep where "sep = pos + max (h div m) (w div m)"
    from 2(3) True g have c: "t = 1" "h mod m = 0" "w mod m = 0" "0 \<le> h div m" "0 \<le> w div m"
      by (auto simp: Let_def split: if_splits)
    from 2(3) True g c obtain ts1 vs1 where
      r: "mrope_from tok m (sep + 1) is gs' = Inr (ts1, vs1, nxt)" and ts: "ts = (sep, sep, sep) # ts1"
      by (auto simp: bindE_eq_Inr Let_def sep_def)
    have "if is = [] then nxt = sep + 1 else ts1 \<noteq> [] \<and> fst (last ts1) = nxt - 1"
      using 2(2) [OF _ g refl refl _ _ refl refl refl _ _ 2(4), of ts1 vs1] True c r by (simp add: sep_def)
    with mrope_from_facts [OF r 2(4)] ts show ?thesis by (cases "is = []") auto
  qed
qed

end
