(* ===== verification/Segment_Session.thy ===== *)
theory Segment_Session
  imports Segment_Props
begin

section \<open>A realtime session as a sequence of segments\<close>

text \<open>
  What the scheduler feeds back into the builder: the history after the prefill of the prompt
  (\<open>post_prefill\<close>), after a decoded token (\<open>post_decode\<close>), after a segment was appended and
  committed (\<open>post_prefill\<close> with the staged tensors), and after a round of the frame window, which
  replaces visible counts by counts of the same length and rewrites the frame history.
\<close>

definition history_at_prefill :: "nat \<Rightarrow> int \<Rightarrow> segment_history" where
  "history_at_prefill n enc =
     \<lparr>sh_positions = None, sh_visible = None, sh_grid = None, sh_next_position = int n,
      sh_encoder_length = enc, sh_decoder_length = Some (int n), sh_pending = 1\<rparr>"

definition history_after_decode :: "segment_history \<Rightarrow> segment_history" where
  "history_after_decode h =
     h\<lparr>sh_next_position := sh_next_position h + 1, sh_decoder_length := Some (committed_length h + 1)\<rparr>"

definition history_after_segment :: "segment_history \<Rightarrow> segment \<Rightarrow> segment_history" where
  "history_after_segment h s =
     \<lparr>sh_positions = Some (sg_positions s), sh_visible = Some (sg_visible s), sh_grid = Some (sg_full_grid s),
      sh_next_position = (if sg_positions s = [] then sh_next_position h
        else max (sh_next_position h) (Max (\<Union>(a, b, c) \<in> set (sg_positions s). {a, b, c}) + 1)),
      sh_encoder_length = sh_encoder_length h + sg_encoder_delta s,
      sh_decoder_length = Some (committed_length h + sh_pending h + int (length (sg_input_ids s))),
      sh_pending = sh_pending h\<rparr>"

definition history_after_window ::
    "segment_history \<Rightarrow> int \<Rightarrow> int list \<Rightarrow> grid_thw list \<Rightarrow> segment_history" where
  "history_after_window h enc visible grid =
     h\<lparr>sh_encoder_length := enc, sh_visible := map_option (\<lambda>_. visible) (sh_visible h), sh_grid := Some grid\<rparr>"

inductive session_history :: "'i segment_tools \<Rightarrow> segment_history \<Rightarrow> bool" for t where
  prefill: "session_history t (history_at_prefill n enc)"
| decode: "session_history t h \<Longrightarrow> session_history t (history_after_decode h)"
| segment: "session_history t h \<Longrightarrow> build_segment t events images h = Inr s \<Longrightarrow>
    session_history t (history_after_segment h s)"
| window: "session_history t h \<Longrightarrow> length visible = visible_count h \<Longrightarrow>
    session_history t (history_after_window h enc visible grid)"

text \<open>A history the builder can continue: strictly increasing text positions below the ones of the
  tokens decoded since, one visible count for every position.\<close>

definition history_ok :: "segment_history \<Rightarrow> bool" where
  "history_ok h \<longleftrightarrow>
     sh_pending h = 1 \<and> 0 \<le> missing_tokens h \<and> missing_tokens h \<le> sh_next_position h \<and>
     visible_count h = position_count h \<and>
     (case sh_positions h of None \<Rightarrow> True | Some p \<Rightarrow>
        sorted_wrt (<) (map fst p) \<and>
        (\<forall>(a, b, c) \<in> set p. b = a \<and> c = a \<and> 0 \<le> a \<and> a < sh_next_position h - missing_tokens h))"

lemma segment_time_positions:
  assumes "build_segment t events images h = Inr s" and ok: "history_ok h"
  shows "sorted_wrt (<) (map fst (sg_positions s)) \<and>
    (\<forall>(a, b, c) \<in> set (sg_positions s). b = a \<and> c = a \<and> 0 \<le> a \<and> a < sg_next_position s) \<and>
    sh_next_position h < sg_next_position s"
proof -
  from assms(1) obtain grid r ts vs nxt where
    m: "0 < st_merge t" "mrope_from (st_image_token t) (st_merge t) (sh_next_position h + sh_pending h) r
       (case grid of None \<Rightarrow> [] | Some g \<Rightarrow> g) = Inr (ts, vs, nxt)"
    and s: "sg_positions s = append_mrope_positions (sh_positions h)
         (map (\<lambda>k. old_position h k) [0..<nat (missing_tokens h + sh_pending h)] @ ts)" "sg_next_position s = nxt"
    by (elim build_segment_Inr) simp
  define old where "old = (case sh_positions h of None \<Rightarrow> [] | Some p \<Rightarrow> p)"
  define base where "base = sh_next_position h - missing_tokens h"
  define mid where "mid = map (old_position h) [0..<nat (missing_tokens h + 1)]"
  note f = mrope_from_facts [OF m(2,1)]
  have p1: "sh_pending h = 1" and miss: "0 \<le> missing_tokens h" "missing_tokens h \<le> sh_next_position h"
    using ok by (simp_all add: history_ok_def)
  have s': "sg_positions s = old @ mid @ ts"
    by (simp add: s old_def mid_def p1 append_mrope_positions_def split: option.split)
  have o1: "sorted_wrt (<) (map fst old)" and o2: "\<And>a b c. (a, b, c) \<in> set old \<Longrightarrow> b = a \<and> c = a \<and> 0 \<le> a \<and> a < base"
    using ok by (auto simp: history_ok_def old_def base_def split: option.splits)
  have fm: "map fst mid = map (\<lambda>k. base + int k) [0..<nat (missing_tokens h + 1)]"
    by (simp add: mid_def old_position_def base_def)
  have m1: "sorted_wrt (<) (map fst mid)" by (simp add: fm sorted_wrt_map sorted_wrt_iff_nth_less)
  have m2: "(a, b, c) \<in> set mid \<Longrightarrow> b = a \<and> c = a \<and> base \<le> a \<and> a \<le> sh_next_position h" for a b c
    by (auto simp: mid_def old_position_def base_def)
  have t2: "(a, b, c) \<in> set ts \<Longrightarrow> b = a \<and> c = a \<and> sh_next_position h < a \<and> a < nxt" for a b c
    using f p1 by fastforce
  have lt: "sh_next_position h < nxt" using f p1 by simp
  have b: "0 \<le> base" "base \<le> sh_next_position h" using miss by (simp_all add: base_def)
  have o3: "x \<in> set (map fst old) \<Longrightarrow> x < base" and m3: "x \<in> set (map fst mid) \<Longrightarrow> base \<le> x \<and> x \<le> sh_next_position h"
    and t3: "x \<in> set (map fst ts) \<Longrightarrow> sh_next_position h < x" for x
    using o2 m2 t2 by auto
  have t1: "sorted_wrt (<) (map fst ts)" using f by blast
  have "sorted_wrt (<) (map fst mid @ map fst ts)"
    unfolding sorted_wrt_append using m1 t1 m3 t3 by (meson le_less_trans)
  moreover have "x < y" if "x \<in> set (map fst old)" "y \<in> set (map fst mid @ map fst ts)" for x y
  proof -
    from that(2) consider "y \<in> set (map fst mid)" | "y \<in> set (map fst ts)" by (simp only: set_append Un_iff) blast
    then show ?thesis using o3 [OF that(1)] m3 [of y] t3 [of y] b by cases linarith+
  qed
  ultimately have "sorted_wrt (<) (map fst (sg_positions s))"
    using o1 by (simp only: s' map_append sorted_wrt_append) blast
  moreover have "(a, b, c) \<in> set (sg_positions s) \<Longrightarrow> b = a \<and> c = a \<and> 0 \<le> a \<and> a < nxt" for a b c
    using o2 [of a b c] m2 [of a b c] t2 [of a b c] b lt by (auto simp: s')
  ultimately show ?thesis using lt by (auto simp: s(2))
qed

lemma missing_after_segment:
  assumes "build_segment t events images h = Inr s"
  shows "missing_tokens (history_after_segment h s) = 0"
  using segment_lengths(1) [OF assms]
  by (simp add: missing_tokens_def committed_length_def history_after_segment_def)

text \<open>The position the commit computes from the tensor is the one the builder announced.\<close>

lemma next_position_after_segment:
  assumes b: "build_segment t events images h = Inr s" and ok: "history_ok h"
  shows "sh_next_position (history_after_segment h s) = sg_next_position s"
proof -
  from b obtain grid r ts vs nxt where
    m: "0 < st_merge t" "mrope_from (st_image_token t) (st_merge t) (sh_next_position h + sh_pending h) r
       (case grid of None \<Rightarrow> [] | Some g \<Rightarrow> g) = Inr (ts, vs, nxt)"
    and s: "sg_positions s = append_mrope_positions (sh_positions h)
         (map (\<lambda>k. old_position h k) [0..<nat (missing_tokens h + sh_pending h)] @ ts)" "sg_next_position s = nxt"
    by (elim build_segment_Inr) simp
  have p1: "sh_pending h = 1" and miss: "0 \<le> missing_tokens h" using ok by (simp_all add: history_ok_def)
  note T = segment_time_positions [OF b ok]
  define P where "P = (\<Union>(a, b, c) \<in> set (sg_positions s). {a, b, c})"
  have fin: "finite P" by (auto simp: P_def)
  have "(case p of (a, b, c) \<Rightarrow> {a, b, c}) = {fst p}" if "p \<in> set (sg_positions s)" for p
    using T that by (cases p) auto
  then have P: "P = fst ` set (sg_positions s)" unfolding P_def by auto
  have lastp: "sg_next_position s - 1 \<in> P"
  proof (cases "r = []")
    case True
    with mrope_from_last [OF m(2,1)] p1 have n: "sg_next_position s - 1 = sh_next_position h" by (simp add: s)
    have "old_position h (nat (missing_tokens h)) \<in> set (sg_positions s)"
      using miss p1 by (auto simp: s append_mrope_positions_def split: option.split)
    moreover have "fst (old_position h (nat (missing_tokens h))) = sh_next_position h"
      using miss by (simp add: old_position_def)
    ultimately show ?thesis unfolding P n by force
  next
    case False
    with mrope_from_last [OF m(2,1)] have l: "ts \<noteq> []" "fst (last ts) = sg_next_position s - 1" by (simp_all add: s)
    then have "last ts \<in> set (sg_positions s)"
      by (auto simp: s append_mrope_positions_def split: option.split)
    then show ?thesis unfolding P l(2) [symmetric] by blast
  qed
  have "Max P = sg_next_position s - 1"
    using T lastp by (intro Max_eqI fin) (auto simp: P)
  moreover have "sg_positions s \<noteq> []" using lastp by (auto simp: P_def)
  ultimately show ?thesis using T by (simp add: history_after_segment_def flip: P_def)
qed

lemma history_ok_prefill: "history_ok (history_at_prefill n enc)"
  by (simp add: history_ok_def history_at_prefill_def missing_tokens_def committed_length_def visible_count_def
      position_count_def)

lemma history_ok_decode:
  assumes "history_ok h" shows "history_ok (history_after_decode h)"
proof -
  have m: "missing_tokens (history_after_decode h) = missing_tokens h + 1"
    by (simp add: missing_tokens_def committed_length_def history_after_decode_def)
  have c: "visible_count (history_after_decode h) = visible_count h" "position_count (history_after_decode h) = position_count h"
    "sh_positions (history_after_decode h) = sh_positions h" "sh_pending (history_after_decode h) = sh_pending h"
    "sh_next_position (history_after_decode h) = sh_next_position h + 1"
    by (simp_all add: history_after_decode_def visible_count_def position_count_def)
  show ?thesis using assms by (cases "sh_positions h") (simp_all add: history_ok_def m c)
qed

lemma history_ok_segment:
  assumes ok: "history_ok h" and b: "build_segment t events images h = Inr s"
  shows "history_ok (history_after_segment h s)"
proof -
  note T = segment_time_positions [OF b ok] and n = next_position_after_segment [OF b ok]
  note l = segment_lengths [OF b] and z = missing_after_segment [OF b]
  have p1: "sh_pending h = 1" "visible_count h = position_count h" "0 \<le> missing_tokens h" "missing_tokens h \<le> sh_next_position h"
    using ok by (simp_all add: history_ok_def)
  have v: "visible_count (history_after_segment h s) = position_count (history_after_segment h s)"
  proof -
    have "visible_count (history_after_segment h s) = length (sg_visible s)"
      "position_count (history_after_segment h s) = length (sg_positions s)"
      by (simp_all add: visible_count_def position_count_def history_after_segment_def)
    with l(1,2) p1(2) show ?thesis by (simp add: committed_missing)
  qed
  have e: "sh_pending (history_after_segment h s) = 1" "sh_positions (history_after_segment h s) = Some (sg_positions s)"
    using p1(1) by (simp_all add: history_after_segment_def)
  have "0 \<le> sg_next_position s" using T p1 by simp
  with T n z v e show ?thesis by (simp add: history_ok_def)
qed

lemma history_ok_window:
  assumes ok: "history_ok h" and len: "length visible = visible_count h"
  shows "history_ok (history_after_window h enc visible grid)"
proof -
  let ?h = "history_after_window h enc visible grid"
  have e: "sh_positions ?h = sh_positions h" "sh_decoder_length ?h = sh_decoder_length h"
    "sh_next_position ?h = sh_next_position h" "sh_pending ?h = sh_pending h"
    "sh_visible ?h = map_option (\<lambda>_. visible) (sh_visible h)"
    by (simp_all add: history_after_window_def)
  have m: "missing_tokens ?h = missing_tokens h" "position_count ?h = position_count h"
    unfolding missing_tokens_def committed_length_def position_count_def e by (rule refl)+
  have v: "visible_count ?h = visible_count h"
    using len unfolding visible_count_def e by (cases "sh_visible h") simp_all
  show ?thesis using ok unfolding history_ok_def e m v .
qed

lemma session_history_ok: "session_history t h \<Longrightarrow> history_ok h"
  by (induction rule: session_history.induct)
    (simp_all add: history_ok_prefill history_ok_decode history_ok_segment history_ok_window)

text \<open>
  C11: Whatever a session went through, the tensors of the segment built next agree: one text position and
  one visible count for every committed, pending and appended token, one vision position and one
  pad token for every encoder slot, one grid row and one image token for every frame.
\<close>

theorem segment_shapes:
  assumes "session_history t h" and "build_segment t events images h = Inr s"
  shows "int (length (sg_positions s)) = committed_length h + 1 + int (length (sg_input_ids s)) \<and>
    length (sg_visible s) = length (sg_positions s) \<and>
    int (vision_count s) = sg_encoder_delta s \<and>
    int (length (raw_append_ids s)) = sg_encoder_delta s + int (length (sg_input_ids s)) \<and>
    sg_image_tokens s = sh_encoder_length h + sg_encoder_delta s \<and>
    count_list (sg_input_ids s) (st_image_token t) = length (filter has_frame events) \<and>
    length (sg_full_grid s) = grid_count h + length (filter has_frame events) \<and>
    sg_position_delta s + int (length (sg_positions s)) = sg_next_position s"
proof -
  have "sh_pending h = 1" "visible_count h = position_count h"
    using session_history_ok [OF assms(1)] by (simp_all add: history_ok_def)
  with segment_lengths [OF assms(2)] show ?thesis
    by (simp add: committed_missing raw_append_ids_def)
qed

definition demo_tools :: "unit segment_tools" where
  "demo_tools = \<lparr>st_processor = (\<lambda>_ _. Inr (Grid1 [1, 2, 4], Ids2 [[7, 9, 8]])), st_tokenizer = (\<lambda>_. Inr (Ids2 [[7]])),
     st_pad_value = (\<lambda>_. 5), st_image_token = 9, st_merge = 2\<rparr>"

definition demo_frame :: frame_event where
  "demo_frame = \<lparr>ev_request_id = ''r'', ev_session_id = ''s'', ev_seq_no = 0, ev_timestamp = NFloat 1,
     ev_frame_ref = Some ''f'', ev_prompt = None, ev_final = False, ev_fingerprint = None\<rparr>"

definition demo_segment :: segment where
  "demo_segment = \<lparr>sg_events = [demo_frame], sg_input_ids = [7, 9, 8], sg_pad_ids = [5, 5, 5], sg_image_tokens = 3,
     sg_positions = map (\<lambda>p. (p, p, p)) [0, 1, 2, 3, 4, 7, 8], sg_position_delta = 2,
     sg_vision_positions = Some [(5, 5, 5), (5, 5, 6), (7, 7, 7)], sg_visible = [0, 0, 0, 0, 0, 1, 1],
     sg_added_frames = Some 1, sg_encoder_delta = 3, sg_next_position = 9, sg_full_grid = [(1, 2, 4)]\<rparr>"

lemma demo_segment_built: "build_segment demo_tools [demo_frame] [()] (history_at_prefill 3 0) = Inr demo_segment"
proof -
  have o: "ordered_frames [demo_frame] [()] = [(demo_frame, ())]"
    by (simp add: ordered_frames_def demo_frame_def has_frame_def)
  have t: "\<exists>txt. build_realtime_append_text (List.map_filter ev_prompt [demo_frame]) [1] = Inr txt"
    by (simp add: build_realtime_append_text_def demo_frame_def List.map_filter_simps build_realtime_frame_text_def)
  have p: "process_events demo_tools [demo_frame] [()] = Inr (Some [(1, 2, 4)], Ids2 [[7, 9, 8]])"
    using t unfolding process_events_def o Let_def
    by (auto simp: demo_frame_def demo_tools_def grid_rows_def)
  have m: "compute_realtime_mrope (Ids2 [[7, 9, 8]]) (Some [(1, 2, 4)]) 4 9 2
    = Inr ([(4, 4, 4), (7, 7, 7), (8, 8, 8)], Some [(5, 5, 5), (5, 5, 6), (7, 7, 7)], 9)"
    by (simp add: compute_realtime_mrope_def grid_positions_def numeral_nat upt_rec)
  show ?thesis
    unfolding build_segment_def Let_def p o
    by (simp add: m history_at_prefill_def demo_tools_def has_frame_def demo_frame_def demo_segment_def
        append_mrope_positions_def append_visible_frame_counts_def compute_visible_frame_counts_def count_tokens_def
        append_grid_thw_def segment_encoder_length_def numeral_nat upt_rec)
qed

theorem segment_shapes_witness:
  "length (sg_visible demo_segment) = length (sg_positions demo_segment) \<and>
   int (vision_count demo_segment) = sg_encoder_delta demo_segment"
  using segment_shapes [OF session_history.prefill demo_segment_built] by blast

text \<open>
  C12: Over a whole session, prompts, decoded tokens, segments and window rounds
  interleaved, the position of a text token is above those of all earlier ones, the three
  components agree, and every position, of vision tokens too, stays below the next free one.
\<close>

theorem session_positions:
  assumes "session_history t h" and "build_segment t events images h = Inr s"
  shows "sorted_wrt (<) (map fst (sg_positions s)) \<and>
    (\<forall>(a, b, c) \<in> set (sg_positions s). b = a \<and> c = a \<and> 0 \<le> a \<and> a < sg_next_position s) \<and>
    (\<forall>(a, b, c) \<in> set (case sg_vision_positions s of None \<Rightarrow> [] | Some v \<Rightarrow> v). \<forall>x \<in> {a, b, c}.
       sh_next_position h < x \<and> x < sg_next_position s) \<and>
    sh_next_position h < sg_next_position s"
proof -
  note ok = session_history_ok [OF assms(1)]
  have p1: "sh_pending h = 1" using ok by (simp add: history_ok_def)
  from assms(2) obtain grid r ts vs nxt where
    m: "0 < st_merge t" "mrope_from (st_image_token t) (st_merge t) (sh_next_position h + sh_pending h) r
       (case grid of None \<Rightarrow> [] | Some g \<Rightarrow> g) = Inr (ts, vs, nxt)"
    and s: "sg_vision_positions s = (if vs = [] then None else Some vs)" "sg_next_position s = nxt"
    by (elim build_segment_Inr) simp
  have "\<forall>(a, b, c) \<in> set vs. \<forall>x \<in> {a, b, c}. sh_next_position h < x \<and> x < nxt"
    using mrope_from_facts [OF m(2,1)] p1 by fastforce
  moreover have "(case sg_vision_positions s of None \<Rightarrow> [] | Some v \<Rightarrow> v) = vs" by (simp add: s)
  ultimately have "\<forall>(a, b, c) \<in> set (case sg_vision_positions s of None \<Rightarrow> [] | Some v \<Rightarrow> v). \<forall>x \<in> {a, b, c}.
      sh_next_position h < x \<and> x < sg_next_position s"
    unfolding s(2) by (simp only:)
  with segment_time_positions [OF assms(2) ok] show ?thesis by blast
qed

theorem session_positions_witness:
  "sorted_wrt (<) (map fst (sg_positions demo_segment)) \<and> sh_next_position (history_at_prefill 3 0) < sg_next_position demo_segment"
  using session_positions [OF session_history.prefill demo_segment_built] by blast

text \<open>
  Positions computed segment by segment are the positions of the whole stream at once: when the
  first part succeeds, starting the second part where the first ended gives the
  same text and vision positions and the same end, or fails with the same error.
\<close>

theorem mrope_split:
  assumes "compute_realtime_mrope (Ids2 [is]) (Some gs) start tok m = Inr (ts, vs, p)"
  shows "compute_realtime_mrope (Ids2 [is @ js]) (Some (gs @ hs)) start tok m =
    bindE (compute_realtime_mrope (Ids2 [js]) (Some hs) p tok m) (\<lambda>(ts', vs', nxt).
      Inr (ts @ ts', case vs of None \<Rightarrow> vs' | Some v \<Rightarrow> Some (v @ (case vs' of None \<Rightarrow> [] | Some v' \<Rightarrow> v')), nxt))"
proof -
  from assms obtain v where a: "0 \<le> start" "0 < m" "mrope_from tok m start is gs = Inr (ts, v, p)"
    "vs = (if v = [] then None else Some v)"
    by (auto simp: compute_realtime_mrope_def bindE_eq_Inr split: if_splits)
  have "0 \<le> p" using mrope_from_facts [OF a(3,2)] a(1) by linarith
  with a(1,2,4) show ?thesis
    by (cases "mrope_from tok m p js hs")
      (auto simp: compute_realtime_mrope_def mrope_from_append [OF a(3)])
qed

theorem mrope_split_witness:
  "compute_realtime_mrope (Ids2 [[7, 9, 8]]) (Some [(1, 2, 2)]) 0 9 2
     = Inr ([(0, 0, 0), (2, 2, 2), (3, 3, 3)], Some [(1, 1, 1), (2, 2, 2)], 4)"
proof -
  have "compute_realtime_mrope (Ids2 [[7]]) (Some []) 0 9 2 = Inr ([(0, 0, 0)], None, 1)"
    by (simp add: compute_realtime_mrope_def)
  from mrope_split [OF this, of "[9, 8]" "[(1, 2, 2)]"] show ?thesis
    by (simp add: compute_realtime_mrope_def grid_positions_def numeral_nat upt_rec)
qed

subsection \<open>Frame records\<close>

lemma map_fst_insort: "map fst (insort_key (\<lambda>p. f (fst p)) (x, y) ps) = insort_key f x (map fst ps)"
  by (induction ps) auto

lemma map_fst_sort_zip:
  "length xs = length ys \<Longrightarrow> map fst (sort_key (\<lambda>p. f (fst p)) (zip xs ys)) = sort_key f xs"
  by (induction xs ys rule: list_induct2) (auto simp: map_fst_insort)

lemma frame_record_of_single:
  assumes "single_frame m g" "0 < m"
  shows "\<exists>r. frame_record_of m e g = Inr r \<and> fr_timestamp r = num_float (ev_timestamp e) \<and> grid_row r = g \<and>
    fr_slots r = frame_tokens m [g] \<and> \<not> pooled r \<and> pooled_sources r = 1"
proof -
  obtain t h w where g: "g = (t, h, w)" by (cases g)
  with assms have "t = 1" "h mod m = 0" "w mod m = 0" by (simp_all add: single_frame_def)
  with g grid_tokens(2) [OF assms(2), of h w] show ?thesis
    by (simp add: frame_record_of_def segment_encoder_length_def frame_tokens_def grid_row_def)
qed

lemma mapE_frame_records:
  assumes "length es = length gs" "\<forall>g \<in> set gs. single_frame m g" "0 < m"
  shows "\<exists>rs. mapE (\<lambda>(e, g). frame_record_of m e g) (zip es gs) = Inr rs \<and>
    map fr_timestamp rs = map (\<lambda>e. num_float (ev_timestamp e)) es \<and> map grid_row rs = gs \<and>
    sum_list (map fr_slots rs) = frame_tokens m gs"
  using assms
proof (induction es gs rule: list_induct2)
  case Nil
  then show ?case by simp
next
  case (Cons e es g gs)
  then obtain rs where rs: "mapE (\<lambda>(e, g). frame_record_of m e g) (zip es gs) = Inr rs"
    "map fr_timestamp rs = map (\<lambda>e. num_float (ev_timestamp e)) es" "map grid_row rs = gs"
    "sum_list (map fr_slots rs) = frame_tokens m gs" by auto
  from Cons(3,4) obtain r where r: "frame_record_of m e g = Inr r" "fr_timestamp r = num_float (ev_timestamp e)"
    "grid_row r = g" "fr_slots r = frame_tokens m [g]"
    using frame_record_of_single [of m g e] by auto
  have "mapE (\<lambda>(e, g). frame_record_of m e g) (zip (e # es) (g # gs)) = Inr (r # rs)" by (simp add: rs(1) r(1))
  with rs r show ?case by (intro exI [of _ "r # rs"]) (simp add: frame_tokens_def)
qed

text \<open>
  C14: The frame records staged for a segment that was built exist without error and describe the
  encoder tokens the segment adds: in the order its frames were processed, with their timestamps
  and their grids, and their slots sum to the encoder slots the append reserves.
\<close>

theorem staged_records_match:
  assumes "build_segment t events images h = Inr s"
  shows "\<exists>rs. stage_segment_frame_records s (st_merge t) = Inr (if filter has_frame events = [] then None else Some rs) \<and>
    map fr_timestamp rs = map (\<lambda>p. num_float (ev_timestamp (fst p))) (ordered_frames events images) \<and>
    map grid_row rs = drop (grid_count h) (sg_full_grid s) \<and>
    sum_list (map fr_slots rs) = sg_encoder_delta s"
proof -
  from assms obtain grid r ts vs nxt where
    a: "length images = length (filter has_frame events)" "process_events t events images = Inr (grid, Ids2 [r])"
      "0 < st_merge t"
    and m: "mrope_from (st_image_token t) (st_merge t) (sh_next_position h + sh_pending h) r
       (case grid of None \<Rightarrow> [] | Some g \<Rightarrow> g) = Inr (ts, vs, nxt)"
    and d: "(case grid of None \<Rightarrow> Inr 0 | Some g \<Rightarrow> segment_encoder_length g (st_merge t)) = Inr (sg_encoder_delta s)"
    and s: "sg_events s = events" "sg_full_grid s = (case grid of Some g \<Rightarrow> append_grid_thw (sh_grid h) g
          | None \<Rightarrow> (case sh_grid h of None \<Rightarrow> [] | Some p \<Rightarrow> p))"
    by (elim build_segment_Inr) simp
  define gs where "gs = (case grid of None \<Rightarrow> [] | Some g \<Rightarrow> g)"
  define frames where "frames = sort_key (\<lambda>e. num_value (ev_timestamp e)) (filter has_frame events)"
  note g = grid_facts [OF a(2,1) m a(3) d, folded gs_def]
  have single: "\<forall>g \<in> set gs. single_frame (st_merge t) g"
    using mrope_from_facts [OF m a(3)] by (simp add: gs_def)
  have len: "length frames = length gs" using g(1) by (simp add: frames_def)
  have full: "sg_full_grid s = (case sh_grid h of None \<Rightarrow> [] | Some p \<Rightarrow> p) @ gs"
    by (simp add: s(2) gs_def append_grid_thw_def split: option.split)
  have dropped: "drop (length (sg_full_grid s) - length frames) (sg_full_grid s) = gs"
    "drop (grid_count h) (sg_full_grid s) = gs" "length frames \<le> length (sg_full_grid s)"
    by (simp_all add: full len grid_count_def)
  from mapE_frame_records [OF len single a(3)] obtain rs where
    rs: "mapE (\<lambda>(e, g). frame_record_of (st_merge t) e g) (zip frames gs) = Inr rs"
      "map fr_timestamp rs = map (\<lambda>e. num_float (ev_timestamp e)) frames" "map grid_row rs = gs"
      "sum_list (map fr_slots rs) = frame_tokens (st_merge t) gs" by blast
  have fr: "frames = map fst (ordered_frames events images)"
    using map_fst_sort_zip [of "filter has_frame events" images "\<lambda>e. num_value (ev_timestamp e)"] a(1)
    by (simp add: frames_def ordered_frames_def)
  have em: "(filter has_frame events = []) = (frames = [])"
    by (metis frames_def length_0_conv length_sort)
  have "0 < st_merge t * st_merge t" using a(3) by simp
  then have A: "stage_segment_frame_records s (st_merge t) = Inr (if filter has_frame events = [] then None else Some rs)"
    unfolding stage_segment_frame_records_def s(1) frames_def [symmetric] Let_def em dropped(1) rs(1)
    using dropped(3) by simp
  have B: "map fr_timestamp rs = map (\<lambda>p. num_float (ev_timestamp (fst p))) (ordered_frames events images)"
    unfolding rs(2) fr by simp
  have C: "sum_list (map fr_slots rs) = sg_encoder_delta s" by (rule trans [OF rs(4) g(2) [symmetric]])
  show ?thesis by (intro exI [of _ rs] conjI A B C) (simp only: rs(3) dropped(2))
qed

theorem staged_records_match_witness:
  "\<exists>rs. stage_segment_frame_records demo_segment 2 = Inr (Some rs) \<and> sum_list (map fr_slots rs) = 3"
proof -
  have "filter has_frame [demo_frame] \<noteq> []" by (simp add: has_frame_def demo_frame_def)
  moreover have "sg_encoder_delta demo_segment = 3" "st_merge demo_tools = 2"
    by (simp_all add: demo_segment_def demo_tools_def)
  ultimately show ?thesis using staged_records_match [OF demo_segment_built] by auto
qed

end
