(* ===== verification/Segment_Append.thy ===== *)
theory Segment_Append
  imports Extend_Batch Segment_Session
begin

section \<open>Turning a decoding request into an extending one\<close>

text \<open>
  Models the functions of \<open>moss_vl_realtime/scheduler.py\<close> that build the segment of a request,
  guard its length, append it, stage its frame records, and undo the append.  Optional attributes
  (\<open>hasattr\<close>, \<open>delattr\<close>) are options.  SGLang's \<open>Req\<close> is not under \<open>src/\<close>: the fill ids that
  \<open>_refresh_fill_ids\<close> computes from prompt and output, and what \<open>set_extend_range\<close> stores, are
  parameters.
\<close>

record turn_transition =
  tt_interrupted :: int
  tt_turn :: int
  tt_prompts :: "int list"

record ('m, 'r) append_req =
  ar_state :: rt_state
  ar_origin :: "int list"
  ar_output :: "int list"
  ar_fill :: "int list"
  ar_max_new :: int
  ar_inputs :: "'m + segment"
  ar_range :: 'r
  ar_prefix :: "int list"
  ar_skip_radix :: bool
  ar_page_row :: "int list"
  ar_pool_idx :: "int option"
  prev_inputs :: "('m + segment) option"
  prev_range :: "'r option"
  prev_prefix :: "int list option"
  prev_skip_radix :: "bool option"
  prev_max_new :: "int option"
  staged_positions :: "position list option"
  staged_visible :: "int list option"
  staged_grid :: "grid_thw list option"
  staged_events :: "pyval list option"
  staged_turn :: "turn_transition option"
  final_extend :: bool
  staged_records :: "frame_record list option"

record 'r sglang_req =
  fill_ids_of :: "int list \<Rightarrow> int list \<Rightarrow> int list"
  extend_range_of :: "int \<Rightarrow> int \<Rightarrow> 'r"

definition refresh_fill :: "'r sglang_req \<Rightarrow> ('m, 'r) append_req \<Rightarrow> ('m, 'r) append_req" where
  "refresh_fill g q = q\<lparr>ar_fill := fill_ids_of g (ar_origin q) (ar_output q)\<rparr>"

definition decode_allowance_of :: "('m, 'r) append_req \<Rightarrow> int res \<times> ('m, 'r) append_req" where
  "decode_allowance_of q =
     (case decode_allowance (ar_state q) of
        Some a \<Rightarrow> (Inr a, q)
      | None \<Rightarrow>
          let a = ar_max_new q - int (length (ar_output q)) in
          if a \<le> 0 then (Inl ValueError, q)
          else (Inr a, q\<lparr>ar_state := (ar_state q)\<lparr>decode_allowance := Some a\<rparr>\<rparr>))"

text \<open>\<open>state.context_limit or row.numel()\<close>.\<close>

definition context_limit_or :: "rt_state \<Rightarrow> nat \<Rightarrow> int" where
  "context_limit_or s width = (case context_limit s of None \<Rightarrow> int width | Some n \<Rightarrow> if n = 0 then int width else n)"

definition guard_context :: "rt_state \<Rightarrow> segment \<Rightarrow> nat \<Rightarrow> unit res" where
  "guard_context s seg width =
     (let n = int (length (raw_append_ids seg)) in
      if token_total s + n + 2 > context_limit_or s width \<or> kv_total s + n + 1 > int width
      then Inl ContextExhaustedError else Inr ())"

definition turn_transition_of :: "rt_state \<Rightarrow> segment \<Rightarrow> turn_transition option" where
  "turn_transition_of s seg =
     (let ns = map ev_seq_no (filter (\<lambda>e. ev_prompt e \<noteq> None) (sg_events seg)) in
      if ns = [] then None
      else Some \<lparr>tt_interrupted = turn_id s, tt_turn = turn_id s + int (length ns), tt_prompts = ns\<rparr>)"

text \<open>The attributes saved and staged before the request itself changes.\<close>

definition stage_append :: "segment \<Rightarrow> ('m, 'r) append_req \<Rightarrow> ('m, 'r) append_req" where
  "stage_append seg q =
     q\<lparr>prev_inputs := Some (ar_inputs q), prev_range := Some (ar_range q), prev_prefix := Some (ar_prefix q),
       prev_skip_radix := Some (ar_skip_radix q), prev_max_new := Some (ar_max_new q), ar_skip_radix := True,
       staged_positions := Some (sg_positions seg), staged_visible := Some (sg_visible seg),
       staged_grid := Some (sg_full_grid seg), staged_events := Some (map to_dict (sg_events seg)),
       staged_turn := (case turn_transition_of (ar_state q) seg of None \<Rightarrow> staged_turn q | Some tt \<Rightarrow> Some tt),
       final_extend := (final_extend q \<or> (\<exists>e \<in> set (sg_events seg). ev_final e))\<rparr>"

definition grow_request :: "'r sglang_req \<Rightarrow> segment \<Rightarrow> int \<Rightarrow> int \<Rightarrow> ('m, 'r) append_req \<Rightarrow> ('m, 'r) append_req" where
  "grow_request g seg tokens allowance q =
     (let output = ar_output q @ raw_append_ids seg;
          fill = fill_ids_of g (ar_origin q) output in
      q\<lparr>ar_output := output,
        ar_max_new := min (int (length output) + allowance)
          (max 0 (context_limit_or (ar_state q) (length (ar_page_row q)) - int (length (ar_origin q)))),
        ar_inputs := Inr seg, ar_fill := fill, ar_prefix := py_slice (ar_page_row q) 0 tokens,
        ar_range := extend_range_of g tokens (int (length fill))\<rparr>)"

definition append_segment ::
    "'r sglang_req \<Rightarrow> segment \<Rightarrow> ('m, 'r) append_req \<Rightarrow> unit res \<times> ('m, 'r) append_req" where
  "append_segment g seg q0 =
     (let kv = kv_total (ar_state q0); tokens = token_total (ar_state q0); q = refresh_fill g q0 in
      if int (length (ar_fill q)) \<noteq> tokens + 1 then (Inl RuntimeError, q)
      else if ar_fill q = [] then (Inl IndexError, q)
      else let q1 = q\<lparr>ar_state := (ar_state q)\<lparr>pending_token_id := Some (last (ar_fill q))\<rparr>\<rparr> in
      if \<exists>v \<in> set (py_slice (ar_page_row q1) 0 kv). v \<le> 0 then (Inl RuntimeError, q1)
      else case decode_allowance_of (stage_append seg q1) of
        (Inl e, q2) \<Rightarrow> (Inl e, q2)
      | (Inr a, q2) \<Rightarrow> (Inr (), grow_request g seg tokens a q2))"

text \<open>The undo reads and deletes attributes; \<open>None\<close> is its \<open>AttributeError\<close> on a missing one.\<close>

definition undo_appended_segment ::
    "'r sglang_req \<Rightarrow> segment \<Rightarrow> ('m, 'r) append_req \<Rightarrow> ('m, 'r) append_req option" where
  "undo_appended_segment g seg q =
     (let count = length (raw_append_ids seg);
          output = (if count = 0 then ar_output q else take (length (ar_output q) - count) (ar_output q)) in
      case (prev_max_new q, prev_inputs q, prev_range q, prev_prefix q, prev_skip_radix q) of
        (Some mx, Some inp, Some rng, Some pre, Some skip) \<Rightarrow>
          if staged_positions q = None \<or> staged_visible q = None \<or> staged_grid q = None \<or> staged_events q = None
          then None
          else Some (refresh_fill g (q\<lparr>ar_output := output, ar_max_new := mx, ar_inputs := inp, ar_range := rng,
                 ar_prefix := pre, ar_skip_radix := skip, prev_max_new := None, prev_inputs := None,
                 prev_range := None, prev_prefix := None, prev_skip_radix := None, staged_positions := None,
                 staged_visible := None, staged_grid := None, staged_events := None, staged_records := None,
                 staged_turn := None, final_extend := False,
                 ar_state := (ar_state q)\<lparr>pending_token_id := None\<rparr>\<rparr>))
      | _ \<Rightarrow> None)"

subsection \<open>One request of \<open>_materialize_realtime_extensions\<close>\<close>

text \<open>A tensor of shape \<open>(3, n)\<close> as its columns.\<close>

definition columns_of :: "int list list \<Rightarrow> position list" where
  "columns_of rows = zip (rows ! 0) (zip (rows ! 1) (rows ! 2))"

definition history_of :: "rt_state \<Rightarrow> segment_history" where
  "history_of s =
     \<lparr>sh_positions = map_option columns_of (mrope_positions s),
      sh_visible = map_option tensor_values (visible_frame_counts s), sh_grid = full_grid_thw s,
      sh_next_position = next_mrope_position s, sh_encoder_length = encoder_length s,
      sh_decoder_length = Some (decoder_length s), sh_pending = 1\<rparr>"

definition build_request_segment ::
    "'r sglang_req \<Rightarrow> 'i segment_tools \<Rightarrow> (frame_event \<Rightarrow> 'i res) \<Rightarrow> frame_event list \<Rightarrow> ('m, 'r) append_req \<Rightarrow>
     segment res \<times> ('m, 'r) append_req" where
  "build_request_segment g t resolve events q0 =
     (let q = refresh_fill g q0 in
      (bindE (ensure (int (length (ar_fill q)) - token_total (ar_state q) = 1) RuntimeError) (\<lambda>_.
       bindE (mapE resolve (filter has_frame events)) (\<lambda>images.
         build_segment t events images (history_of (ar_state q)))), q))"

definition materialize_request ::
    "'r sglang_req \<Rightarrow> 'i segment_tools \<Rightarrow> (frame_event \<Rightarrow> 'i res) \<Rightarrow> bool \<Rightarrow> nat \<Rightarrow> page_table \<Rightarrow> frame_event list \<Rightarrow>
     ('m, 'r) append_req \<Rightarrow> segment res \<times> ('m, 'r) append_req" where
  "materialize_request g t resolve window width tbl events q0 =
     (case build_request_segment g t resolve events q0 of
        (Inl e, q1) \<Rightarrow> (Inl e, q1)
      | (Inr seg, q1) \<Rightarrow>
     (case guard_context (ar_state q1) seg width of
        Inl e \<Rightarrow> (Inl e, q1)
      | Inr _ \<Rightarrow>
     (case ar_pool_idx q1 of
        None \<Rightarrow> (Inl TypeError, q1)
      | Some i \<Rightarrow>
     (if i < - int (length tbl) \<or> int (length tbl) \<le> i then (Inl IndexError, q1)
      else let q2 = q1\<lparr>ar_page_row := tbl ! nat (if i < 0 then i + int (length tbl) else i)\<rparr> in
      case append_segment g seg q2 of
        (Inl e, q3) \<Rightarrow> (Inl e, q3)
      | (Inr _, q3) \<Rightarrow>
          if window then
            (case stage_segment_frame_records seg (st_merge t) of
               Inl e \<Rightarrow> (Inl e, q3)
             | Inr None \<Rightarrow> (Inr seg, q3)
             | Inr (Some rs) \<Rightarrow> (Inr seg, q3\<lparr>staged_records := Some rs\<rparr>))
          else (Inr seg, q3)))))"

end
