(* ===== verification/Segment_Append_Props.thy ===== *)
theory Segment_Append_Props
  imports Segment_Append
begin

section \<open>Properties of the append\<close>

lemma append_segment_Inr:
  assumes "append_segment g seg q = (Inr (), q')"
  defines "fids \<equiv> fill_ids_of g (ar_origin q) (ar_output q)"
  defines "q1 \<equiv> (refresh_fill g q)\<lparr>ar_state := (ar_state q)\<lparr>pending_token_id := Some (last fids)\<rparr>\<rparr>"
  shows "int (length fids) = token_total (ar_state q) + 1" "fids \<noteq> []"
    "\<forall>v \<in> set (py_slice (ar_page_row q) 0 (kv_total (ar_state q))). 0 < v"
    "\<exists>a q2. decode_allowance_of (stage_append seg q1) = (Inr a, q2) \<and> q' = grow_request g seg (token_total (ar_state q)) a q2"
proof -
  have f: "ar_fill (refresh_fill g q) = fids" "ar_state (refresh_fill g q) = ar_state q"
    "ar_page_row (refresh_fill g q) = ar_page_row q"
    by (simp_all add: refresh_fill_def fids_def)
  from assms(1) show l: "int (length fids) = token_total (ar_state q) + 1" and n: "fids \<noteq> []"
    by (auto simp: append_segment_def Let_def f split: if_splits)
  from assms(1) l n show v: "\<forall>v \<in> set (py_slice (ar_page_row q) 0 (kv_total (ar_state q))). 0 < v"
    by (force simp: append_segment_def Let_def f split: if_splits)
  then have "\<not> (\<exists>v \<in> set (py_slice (ar_page_row q) 0 (kv_total (ar_state q))). v \<le> 0)" by force
  with assms(1) l n show "\<exists>a q2. decode_allowance_of (stage_append seg q1) = (Inr a, q2) \<and>
      q' = grow_request g seg (token_total (ar_state q)) a q2"
    by (simp add: append_segment_def Let_def f q1_def split: prod.splits sum.splits)
qed

lemma decode_allowance_Inr:
  assumes "decode_allowance_of q = (Inr a, q2)"
  shows "q2 = q\<lparr>ar_state := (ar_state q)\<lparr>decode_allowance := Some a\<rparr>\<rparr>"
    "decode_allowance (ar_state q) = None \<Longrightarrow> 0 < a"
    "decode_allowance (ar_state q) = Some b \<Longrightarrow> a = b"
  using assms by (auto simp: decode_allowance_of_def Let_def split: option.splits if_splits)

definition nothing_staged :: "('m, 'r) append_req \<Rightarrow> bool" where
  "nothing_staged q \<longleftrightarrow>
     prev_inputs q = None \<and> prev_range q = None \<and> prev_prefix q = None \<and> prev_skip_radix q = None \<and>
     prev_max_new q = None \<and> staged_positions q = None \<and> staged_visible q = None \<and> staged_grid q = None \<and>
     staged_events q = None \<and> staged_turn q = None \<and> \<not> final_extend q \<and> staged_records q = None"

text \<open>
  C9: Undoing an appended segment gives the request back as it was: output ids, length limit,
  inputs, prefix, range and cache flag are the old ones, nothing stays staged, no token is pending;
  only the decode allowance fixed by a first append remains.
\<close>

theorem append_undo:
  assumes "append_segment g seg q = (Inr (), q')" and clean: "nothing_staged q"
  shows "undo_appended_segment g seg (q'\<lparr>staged_records := rs\<rparr>) = Some (refresh_fill g
    (q\<lparr>ar_state := (ar_state q)\<lparr>pending_token_id := None, decode_allowance := decode_allowance (ar_state q')\<rparr>\<rparr>))"
proof -
  note A = append_segment_Inr [OF assms(1)]
  define q1 where "q1 = (refresh_fill g q)\<lparr>ar_state := (ar_state q)\<lparr>pending_token_id :=
    Some (last (fill_ids_of g (ar_origin q) (ar_output q)))\<rparr>\<rparr>"
  from A(4) obtain a q2 where a: "decode_allowance_of (stage_append seg q1) = (Inr a, q2)"
    and q': "q' = grow_request g seg (token_total (ar_state q)) a q2" unfolding q1_def by blast
  note q2 = decode_allowance_Inr(1) [OF a]
  have "ar_output q' = ar_output q @ raw_append_ids seg"
    by (simp add: q' q2 grow_request_def Let_def stage_append_def q1_def refresh_fill_def)
  then have out: "(if length (raw_append_ids seg) = 0 then ar_output q'
      else take (length (ar_output q') - length (raw_append_ids seg)) (ar_output q')) = ar_output q"
    by simp
  show ?thesis
    using clean out
    by (simp add: undo_appended_segment_def Let_def q' q2 grow_request_def stage_append_def q1_def refresh_fill_def
        nothing_staged_def)
qed

lemma append_segment_fields:
  assumes "append_segment g seg q = (Inr (), q')"
  obtains a where
    "ar_output q' = ar_output q @ raw_append_ids seg" "ar_origin q' = ar_origin q"
    "ar_fill q' = fill_ids_of g (ar_origin q) (ar_output q @ raw_append_ids seg)"
    "ar_inputs q' = Inr seg" "ar_prefix q' = py_slice (ar_page_row q) 0 (token_total (ar_state q))"
    "ar_range q' = extend_range_of g (token_total (ar_state q)) (int (length (ar_fill q')))"
    "ar_pool_idx q' = ar_pool_idx q" "ar_page_row q' = ar_page_row q"
    "ar_max_new q' = min (int (length (ar_output q')) + a)
       (max 0 (context_limit_or (ar_state q) (length (ar_page_row q)) - int (length (ar_origin q))))"
    "ar_state q' = (ar_state q)\<lparr>pending_token_id := Some (last (fill_ids_of g (ar_origin q) (ar_output q))), decode_allowance := Some a\<rparr>"
    "case decode_allowance (ar_state q) of None \<Rightarrow> 0 < a | Some b \<Rightarrow> a = b"
proof -
  note A = append_segment_Inr [OF assms(1)]
  define q1 where "q1 = (refresh_fill g q)\<lparr>ar_state := (ar_state q)\<lparr>pending_token_id :=
    Some (last (fill_ids_of g (ar_origin q) (ar_output q)))\<rparr>\<rparr>"
  from A(4) obtain a q2 where a: "decode_allowance_of (stage_append seg q1) = (Inr a, q2)"
    and q': "q' = grow_request g seg (token_total (ar_state q)) a q2" unfolding q1_def by blast
  note q2 = decode_allowance_Inr(1) [OF a]
  have al: "case decode_allowance (ar_state q) of None \<Rightarrow> 0 < a | Some b \<Rightarrow> a = b"
    using decode_allowance_Inr(2,3) [OF a] by (simp add: stage_append_def q1_def split: option.split)
  have cl: "context_limit_or (ar_state q2) n = context_limit_or (ar_state q) n" for n
    by (simp add: q2 stage_append_def q1_def context_limit_or_def)
  show ?thesis
    by (rule that [of a]) (simp_all add: q' grow_request_def Let_def cl al, simp_all add: q2 stage_append_def q1_def refresh_fill_def)
qed

text \<open>
  C10: A request that passed the capacity guard and got its segment appended can still produce a
  token, and prompt and output together never outgrow the context limit.
\<close>

theorem guarded_append:
  assumes "guard_context (ar_state q) seg (length (ar_page_row q)) = Inr ()"
    and "append_segment g seg q = (Inr (), q')"
    and "fill_ids_of g = (@)"
    and "case decode_allowance (ar_state q) of None \<Rightarrow> True | Some a \<Rightarrow> 0 < a"
  shows "int (length (ar_output q')) < ar_max_new q' \<and>
    int (length (ar_origin q')) + ar_max_new q' \<le> context_limit_or (ar_state q) (length (ar_page_row q))"
proof -
  let ?c = "context_limit_or (ar_state q) (length (ar_page_row q))"
  from assms(2) obtain a where f: "ar_output q' = ar_output q @ raw_append_ids seg" "ar_origin q' = ar_origin q"
    "ar_max_new q' = min (int (length (ar_output q')) + a) (max 0 (?c - int (length (ar_origin q))))"
    "case decode_allowance (ar_state q) of None \<Rightarrow> 0 < a | Some b \<Rightarrow> a = b"
    by (rule append_segment_fields)
  have a: "0 < a" using f(4) assms(4) by (simp split: option.splits)
  have "int (length (ar_origin q)) + int (length (ar_output q)) = token_total (ar_state q) + 1"
    using append_segment_Inr(1) [OF assms(2)] by (simp add: assms(3))
  moreover have "token_total (ar_state q) + int (length (raw_append_ids seg)) + 2 \<le> ?c"
    using assms(1) by (simp add: guard_context_def Let_def split: if_splits)
  ultimately have "int (length (ar_output q')) < ?c - int (length (ar_origin q))" by (simp add: f(1))
  then show ?thesis using a by (simp add: f(2,3) min_def max_def)
qed

subsection \<open>From the append to the plan of the batch\<close>

lemma stage_choice:
  "(Inr seg, q') = (if w then (case x of Inl e \<Rightarrow> (Inl e, q2) | Inr None \<Rightarrow> (Inr seg, q2)
     | Inr (Some rs) \<Rightarrow> (Inr seg, f rs)) else (Inr seg, q2)) \<Longrightarrow> q' = q2 \<or> (\<exists>rs. q' = f rs)"
  by (auto split: if_splits sum.splits option.splits)

lemma materialize_Inr:
  assumes "materialize_request g t resolve window width tbl events q = (Inr seg, q')"
  obtains images i q2 rs where
    "mapE resolve (filter has_frame events) = Inr images"
    "build_segment t events images (history_of (ar_state q)) = Inr seg"
    "guard_context (ar_state q) seg width = Inr ()" "ar_pool_idx q = Some i"
    "- int (length tbl) \<le> i" "i < int (length tbl)"
    "append_segment g seg ((refresh_fill g q)\<lparr>ar_page_row := tbl ! nat (if i < 0 then i + int (length tbl) else i)\<rparr>) = (Inr (), q2)"
    "q' = q2\<lparr>staged_records := rs\<rparr>"
proof -
  have r: "ar_state (refresh_fill g q) = ar_state q" "ar_pool_idx (refresh_fill g q) = ar_pool_idx q"
    by (simp_all add: refresh_fill_def)
  obtain r1 q1 where b: "build_request_segment g t resolve events q = (r1, q1)" by fastforce
  then have q1: "q1 = refresh_fill g q" by (simp add: build_request_segment_def Let_def)
  with b assms have r1: "r1 = Inr seg"
    by (auto simp: materialize_request_def Let_def split: sum.splits option.splits if_splits prod.splits)
  from b r1 q1 obtain images where im: "mapE resolve (filter has_frame events) = Inr images"
    "build_segment t events images (history_of (ar_state q)) = Inr seg"
    by (auto simp: build_request_segment_def Let_def bindE_eq_Inr r)
  from assms b r1 q1 have gd: "guard_context (ar_state q) seg width = Inr ()"
    by (auto simp: materialize_request_def r split: sum.splits)
  from assms b r1 q1 gd obtain i where i: "ar_pool_idx q = Some i" "- int (length tbl) \<le> i" "i < int (length tbl)"
    by (auto simp: materialize_request_def r split: option.splits if_splits)
  define j where "j = nat (if i < 0 then i + int (length tbl) else i)"
  obtain r2 q2 where ap0: "append_segment g seg (q1\<lparr>ar_page_row := tbl ! j\<rparr>) = (r2, q2)" by fastforce
  have m0: "(Inr seg, q') = (case append_segment g seg (q1\<lparr>ar_page_row := tbl ! j\<rparr>) of (Inl e, q3) \<Rightarrow> (Inl e, q3)
      | (Inr _, q3) \<Rightarrow> (if window then (case stage_segment_frame_records seg (st_merge t) of Inl e \<Rightarrow> (Inl e, q3)
       | Inr None \<Rightarrow> (Inr seg, q3) | Inr (Some rs) \<Rightarrow> (Inr seg, q3\<lparr>staged_records := Some rs\<rparr>)) else (Inr seg, q3)))"
    using assms b r1 q1 gd i by (simp add: materialize_request_def Let_def r j_def)
  have "r2 = Inr ()" using m0 unfolding ap0 by (cases r2) simp_all
  with ap0 have ap: "append_segment g seg (q1\<lparr>ar_page_row := tbl ! j\<rparr>) = (Inr (), q2)" by simp
  have "\<exists>rs. q' = q2\<lparr>staged_records := rs\<rparr>"
  proof -
    from m0 have m: "(Inr seg, q') = (if window then (case stage_segment_frame_records seg (st_merge t) of Inl e \<Rightarrow> (Inl e, q2)
       | Inr None \<Rightarrow> (Inr seg, q2) | Inr (Some rs) \<Rightarrow> (Inr seg, q2\<lparr>staged_records := Some rs\<rparr>)) else (Inr seg, q2))"
      unfolding ap by simp
    from stage_choice [OF m] show ?thesis
    proof (rule disjE)
      assume "q' = q2"
      then show ?thesis by (intro exI [of _ "staged_records q2"]) simp
    next
      assume "\<exists>rs. q' = q2\<lparr>staged_records := Some rs\<rparr>"
      then show ?thesis by blast
    qed
  qed
  then obtain rs where rs: "q' = q2\<lparr>staged_records := rs\<rparr>" by blast
  show ?thesis by (rule that [OF im gd i ap [unfolded q1 j_def] rs])
qed

text \<open>What the batch adapter sees of the request, and the inputs of the segment.\<close>

definition inputs_of :: "segment \<Rightarrow> segment_inputs" where
  "inputs_of seg =
     \<lparr>si_encoder_tokens = Some (sg_image_tokens seg),
      si_added = (if sg_added_frames seg = None then [] else [map_option int (sg_added_frames seg)]),
      si_positions = Some [map fst (sg_positions seg), map (fst \<circ> snd) (sg_positions seg), map (snd \<circ> snd) (sg_positions seg)]\<rparr>"

definition batch_view :: "('m, int \<times> int) append_req \<Rightarrow> int option \<Rightarrow> int \<Rightarrow> int \<Rightarrow> segment_inputs option \<Rightarrow> batch_req" where
  "batch_view q allocated committed start initial =
     \<lparr>bq_state = ar_state q, bq_txn = None, bq_pool_idx = ar_pool_idx q, bq_kv_allocated = allocated,
      bq_kv_committed = committed, bq_prefix = ar_prefix q, bq_extend = ar_range q, bq_logprob_start = start,
      bq_inputs = (case ar_inputs q of Inl _ \<Rightarrow> initial | Inr seg \<Rightarrow> Some (inputs_of seg))\<rparr>"

text \<open>
  C8: A request whose pending events were materialized passes the planning of the batch adapter
  with no further check: its plan takes one slot for every encoder token and every text token of
  the segment and one for the pending token, and its decoder length is the segment's position count.
\<close>

theorem appended_request_plans:
  assumes m: "materialize_request g t resolve window width tbl events q = (Inr seg, q')"
    and sglang: "fill_ids_of g = (@)" "extend_range_of g = Pair"
    and idx: "ar_pool_idx q = Some i" "0 \<le> i" "req_pool_index (ar_state q) \<in> {None, Some i}"
    and rows: "\<forall>r \<in> set tbl. length r = width" "context_limit_or (ar_state q) width \<le> int width"
    and pos: "0 \<le> encoder_length (ar_state q)" "0 \<le> decoder_length (ar_state q)"
      "0 \<le> effective_appended_encoder_length (ar_state q)"
    and ids: "ids = drop (nat (token_total (ar_state q))) (ar_fill q')"
    and out: "off + length ids \<le> length out"
  shows "\<exists>p s. plan_request tbl out off rid (batch_view q' al cm st ini) ids (int (length (ar_fill q'))) = (Inr p, s) \<and>
    int (length (pl_encoder_slots p)) = sg_encoder_delta seg \<and>
    length (pl_decoder_slots p) = 1 + length (sg_input_ids seg) \<and>
    pl_total_encoder p = sg_image_tokens seg \<and>
    pl_total_decoder p = decoder_length (ar_state q) + 1 + int (length (sg_input_ids seg))"
proof -
  obtain images q2 rs where
    b: "build_segment t events images (history_of (ar_state q)) = Inr seg"
    and gd: "guard_context (ar_state q) seg width = Inr ()" and i: "i < int (length tbl)"
    and ap: "append_segment g seg ((refresh_fill g q)\<lparr>ar_page_row := tbl ! nat i\<rparr>) = (Inr (), q2)"
    and q': "q' = q2\<lparr>staged_records := rs\<rparr>"
  proof (rule materialize_Inr [OF m])
    fix images k q2 rs
    assume h: "build_segment t events images (history_of (ar_state q)) = Inr seg"
      "guard_context (ar_state q) seg width = Inr ()" "ar_pool_idx q = Some k" "k < int (length tbl)"
      "append_segment g seg ((refresh_fill g q)\<lparr>ar_page_row := tbl ! nat (if k < 0 then k + int (length tbl) else k)\<rparr>) = (Inr (), q2)"
      "q' = q2\<lparr>staged_records := rs\<rparr>"
    have k: "k = i" using h(3) idx(1) by simp
    show ?thesis
      by (rule that [OF h(1,2) _ _ h(6)]) (use h(4,5) k idx(2) in simp_all)
  qed
  define q1 where "q1 = (refresh_fill g q)\<lparr>ar_page_row := tbl ! nat i\<rparr>"
  have q1: "ar_state q1 = ar_state q" "ar_output q1 = ar_output q" "ar_origin q1 = ar_origin q" "ar_pool_idx q1 = Some i"
    "ar_page_row q1 = tbl ! nat i"
    by (simp_all add: q1_def refresh_fill_def idx)
  let ?s = "ar_state q"
  let ?d = "sg_encoder_delta seg"
  let ?n = "length (sg_input_ids seg)"
  note A = append_segment_Inr [OF ap [folded q1_def], unfolded q1 sglang]
  obtain a where
    f: "ar_fill q' = ar_origin q @ ar_output q @ raw_append_ids seg" "ar_inputs q' = Inr seg"
    "ar_prefix q' = py_slice (tbl ! nat i) 0 (token_total ?s)" "ar_range q' = (token_total ?s, int (length (ar_fill q')))"
    "ar_pool_idx q' = Some i" and st: "ar_state q' = ?s\<lparr>pending_token_id := Some (last (ar_origin q @ ar_output q)), decode_allowance := Some a\<rparr>"
  proof (rule append_segment_fields [OF ap [folded q1_def]])
    fix a
    assume h: "ar_fill q2 = fill_ids_of g (ar_origin q1) (ar_output q1 @ raw_append_ids seg)" "ar_inputs q2 = Inr seg"
      "ar_prefix q2 = py_slice (ar_page_row q1) 0 (token_total (ar_state q1))"
      "ar_range q2 = extend_range_of g (token_total (ar_state q1)) (int (length (ar_fill q2)))" "ar_pool_idx q2 = ar_pool_idx q1"
      "ar_state q2 = (ar_state q1)\<lparr>pending_token_id := Some (last (fill_ids_of g (ar_origin q1) (ar_output q1))), decode_allowance := Some a\<rparr>"
    show ?thesis
    proof (rule that [of a])
      show "ar_fill q' = ar_origin q @ ar_output q @ raw_append_ids seg" using h(1) by (simp add: q' q1 sglang)
      show "ar_inputs q' = Inr seg" using h(2) by (simp add: q')
      show "ar_prefix q' = py_slice (tbl ! nat i) 0 (token_total ?s)" using h(3) by (simp add: q' q1)
      show "ar_range q' = (token_total ?s, int (length (ar_fill q')))" using h(4) by (simp add: q' q1 sglang)
      show "ar_pool_idx q' = Some i" using h(5) by (simp add: q' q1)
      show "ar_state q' = ?s\<lparr>pending_token_id := Some (last (ar_origin q @ ar_output q)), decode_allowance := Some a\<rparr>"
        using h(6) by (simp add: q' q1 sglang)
    qed
  qed
  note L = segment_lengths [OF b]
  have enc: "sg_image_tokens seg = encoder_length ?s + ?d" using L(5) by (simp add: history_of_def)
  have d0: "0 \<le> ?d" using L(4) by linarith
  have raw: "int (length (raw_append_ids seg)) = ?d + int ?n" using L(4) by (simp add: raw_append_ids_def)
  have tt: "0 \<le> token_total ?s" using pos by (simp add: token_total_def)
  have fl: "int (length (ar_fill q')) = token_total ?s + 1 + ?d + int ?n" using A(1) raw by (simp add: f(1))
  have lids: "int (length ids) = 1 + ?d + int ?n" using fl tt d0 by (simp add: ids of_nat_diff)
  have row: "length (tbl ! nat i) = width" using rows(1) i idx(2) by simp
  have w: "token_total ?s + (?d + int ?n) + 2 \<le> int width"
    using gd rows(2) raw by (simp add: guard_context_def Let_def split: if_splits)
  have pre: "int (length (ar_prefix q')) = token_total ?s"
    using tt w d0 row by (simp add: f(3) py_slice_def slice_index_def)
  have kv: "take (nat (kv_total ?s)) (tbl ! nat i) = py_slice (tbl ! nat i) 0 (kv_total ?s)"
    using pos by (simp add: py_slice_def slice_index_def kv_total_def min_def)
  define v where "v = batch_view q' al cm st ini"
  define s where "s = (ar_state q')\<lparr>req_pool_index := Some i\<rparr>"
  define new where "new = take (nat (raw_extend_length v)) (drop off out)"
  have v: "bq_state v = ar_state q'" "bq_pool_idx v = Some i" "bq_prefix v = ar_prefix q'" "bq_extend v = ar_range q'"
    "bq_inputs v = Some (inputs_of seg)"
    by (simp_all add: v_def batch_view_def f)
  have bound: "bind_req_pool_index (bq_state v) i = Inr s"
    using idx(2,3) by (auto simp: bind_req_pool_index_def v s_def st)
  have s: "token_total s = token_total ?s" "kv_total s = kv_total ?s" "encoder_length s = encoder_length ?s"
    "decoder_length s = decoder_length ?s" "effective_appended_encoder_length s = effective_appended_encoder_length ?s"
    "pending_token_id s = Some (last (ar_origin q @ ar_output q))"
    by (simp_all add: s_def st token_total_def kv_total_def effective_appended_encoder_length_def split: option.split)
  have bs: "bootstrap_state v s = s" by (simp add: bootstrap_state_def v)
  have tot: "total_encoder_length v s = encoder_length ?s + ?d" by (simp add: total_encoder_length_def v inputs_of_def enc)
  have rl: "raw_extend_length v = 1 + ?d + int ?n" using fl by (simp add: raw_extend_length_def v f(4))
  have new: "int (length new) = 1 + ?d + int ?n" using out lids rl d0 by (simp add: new_def)
  have plan: "plan_bound tbl new rid v ids (int (length (ar_fill q'))) i (encoder_length ?s + ?d) s 1
    = Inr \<lparr>pl_req = rid, pl_ids = ids, pl_encoder_slots = take (nat ?d) (drop 1 new),
        pl_decoder_slots = take 1 new @ drop (1 + nat ?d) new, pl_total_encoder = encoder_length ?s + ?d,
        pl_total_decoder = decoder_length ?s + (1 + int ?n), pl_decoder_extend = 1 + int ?n, pl_leading = 1\<rparr>"
    using d0 lids pre i A(3) new fl
    by (simp add: plan_bound_def Let_def s rl v kv token_total_def)
  have "plan_request tbl out off rid v ids (int (length (ar_fill q'))) =
      (plan_bound tbl new rid v ids (int (length (ar_fill q'))) i (encoder_length ?s + ?d) s 1, s)"
    unfolding plan_request_def v(2) option.case bound sum.case Let_def bs tot new_def s(6) by simp
  then show ?thesis
    unfolding v_def [symmetric] plan using new d0 by (simp add: enc)
qed

subsection \<open>A concrete append\<close>

definition demo_sglang :: "(int \<times> int) sglang_req" where
  "demo_sglang = \<lparr>fill_ids_of = (@), extend_range_of = Pair\<rparr>"

definition demo_live :: rt_state where
  "demo_live = \<lparr>request_id = ''r'', session_id = ''s'', req_pool_index = Some 1, encoder_length = 0,
     decoder_length = 3, surviving_frame_count = 0, next_mrope_position = 3, turn_id = 0,
     max_tokens_per_turn = 1, decode_allowance = Some 4, context_limit = Some 16,
     next_decode_not_before = 0, pending_token_id = None, mrope_positions = None,
     visible_frame_counts = None, full_grid_thw = None, frame_records = None,
     evicted_frame_count = 0, appended_encoder_length = None, phase = Decoding,
     append_inflight = False, rt_accounting = None\<rparr>"

definition demo_request :: "(unit, int \<times> int) append_req" where
  "demo_request = \<lparr>ar_state = demo_live, ar_origin = [1, 2, 3], ar_output = [4], ar_fill = [1, 2, 3, 4], ar_max_new = 5,
     ar_inputs = Inl (), ar_range = (0, 3), ar_prefix = [], ar_skip_radix = False,
     ar_page_row = [21, 22, 23] @ replicate 13 0, ar_pool_idx = Some 1, prev_inputs = None, prev_range = None,
     prev_prefix = None, prev_skip_radix = None, prev_max_new = None, staged_positions = None, staged_visible = None,
     staged_grid = None, staged_events = None, staged_turn = None, final_extend = False, staged_records = None\<rparr>"

lemmas demo_append_simps = demo_request_def demo_live_def demo_sglang_def refresh_fill_def token_total_def kv_total_def
  effective_appended_encoder_length_def py_slice_def slice_index_def demo_segment_def raw_append_ids_def

lemma demo_append: "\<exists>q'. append_segment demo_sglang demo_segment demo_request = (Inr (), q') \<and>
    ar_fill q' = [1, 2, 3, 4, 5, 5, 5, 7, 9, 8]"
  by (simp add: append_segment_def decode_allowance_of_def stage_append_def grow_request_def Let_def demo_append_simps numeral_nat)

lemma demo_history: "history_of demo_live = history_at_prefill 3 0"
  by (simp add: history_of_def history_at_prefill_def demo_live_def)

lemma demo_materialize:
  "\<exists>q'. materialize_request demo_sglang demo_tools (\<lambda>_. Inr ()) False 16 [replicate 16 0, ar_page_row demo_request]
     [demo_frame] demo_request = (Inr demo_segment, q') \<and> ar_fill q' = [1, 2, 3, 4, 5, 5, 5, 7, 9, 8]"
proof -
  have s: "ar_state demo_request = demo_live" "ar_page_row (demo_request\<lparr>ar_page_row := r\<rparr>) = r" for r
    by (simp_all add: demo_request_def)
  have f: "filter has_frame [demo_frame] = [demo_frame]" by (simp add: has_frame_def demo_frame_def)
  have r: "refresh_fill demo_sglang demo_request = demo_request"
    by (simp add: refresh_fill_def demo_request_def demo_sglang_def)
  have b: "build_request_segment demo_sglang demo_tools (\<lambda>_. Inr ()) [demo_frame] demo_request = (Inr demo_segment, demo_request)"
    unfolding build_request_segment_def Let_def r s f demo_history
    by (simp add: demo_segment_built demo_append_simps)
  have g: "guard_context demo_live demo_segment 16 = Inr ()"
    by (simp add: guard_context_def context_limit_or_def demo_append_simps)
  have i: "ar_pool_idx demo_request = Some 1" "[replicate 16 0, ar_page_row demo_request] ! nat 1 = ar_page_row demo_request"
    "demo_request\<lparr>ar_page_row := ar_page_row demo_request\<rparr> = demo_request"
    by (simp_all add: demo_request_def)
  from demo_append obtain q' where "append_segment demo_sglang demo_segment demo_request = (Inr (), q')"
    "ar_fill q' = [1, 2, 3, 4, 5, 5, 5, 7, 9, 8]" by blast
  then show ?thesis by (simp add: materialize_request_def b s g i Let_def)
qed

theorem append_undo_witness:
  "\<exists>q' q2. append_segment demo_sglang demo_segment demo_request = (Inr (), q') \<and>
     undo_appended_segment demo_sglang demo_segment (q'\<lparr>staged_records := None\<rparr>) = Some q2 \<and> ar_output q2 = [4] \<and> ar_max_new q2 = 5"
proof -
  obtain q' where q': "append_segment demo_sglang demo_segment demo_request = (Inr (), q')" using demo_append by blast
  have c: "nothing_staged demo_request" by (simp add: nothing_staged_def demo_request_def)
  from append_undo [OF q' c, of None] q' show ?thesis by (simp add: refresh_fill_def demo_request_def)
qed

theorem guarded_append_witness:
  "\<exists>q'. append_segment demo_sglang demo_segment demo_request = (Inr (), q') \<and> int (length (ar_output q')) < ar_max_new q'"
proof -
  obtain q' where q': "append_segment demo_sglang demo_segment demo_request = (Inr (), q')" using demo_append by blast
  have "guard_context (ar_state demo_request) demo_segment (length (ar_page_row demo_request)) = Inr ()"
    "fill_ids_of demo_sglang = (@)" "case decode_allowance (ar_state demo_request) of None \<Rightarrow> True | Some a \<Rightarrow> 0 < a"
    by (simp_all add: guard_context_def context_limit_or_def demo_append_simps)
  from guarded_append [OF this(1) q' this(2,3)] q' show ?thesis by blast
qed

theorem appended_request_plans_witness:
  "\<exists>(q' :: (unit, int \<times> int) append_req) p s. plan_request [replicate 16 0, [21, 22, 23] @ replicate 13 0] [31, 32, 33, 34, 35, 36, 37] 0 0
     (batch_view q' None 3 0 None) [4, 5, 5, 5, 7, 9, 8] 10 = (Inr p, s) \<and> pl_total_decoder p = 7"
proof -
  obtain q' where m: "materialize_request demo_sglang demo_tools (\<lambda>_. Inr ()) False 16 [replicate 16 0, ar_page_row demo_request]
     [demo_frame] demo_request = (Inr demo_segment, q')" and q': "ar_fill q' = [1, 2, 3, 4, 5, 5, 5, 7, 9, 8]"
    using demo_materialize by blast
  have st: "ar_state demo_request = demo_live" by (simp add: demo_request_def)
  have tt: "token_total demo_live = 3" by (simp add: token_total_def effective_appended_encoder_length_def demo_live_def)
  have "\<exists>p s. plan_request [replicate 16 0, ar_page_row demo_request] [31, 32, 33, 34, 35, 36, 37] 0 0
      (batch_view q' None 3 0 None) [4, 5, 5, 5, 7, 9, 8] (int (length (ar_fill q'))) = (Inr p, s) \<and>
      int (length (pl_encoder_slots p)) = sg_encoder_delta demo_segment \<and>
      length (pl_decoder_slots p) = 1 + length (sg_input_ids demo_segment) \<and>
      pl_total_encoder p = sg_image_tokens demo_segment \<and>
      pl_total_decoder p = decoder_length (ar_state demo_request) + 1 + int (length (sg_input_ids demo_segment))"
    by (rule appended_request_plans [OF m, where i = 1])
      (simp_all add: st tt q' demo_sglang_def demo_live_def demo_request_def context_limit_or_def
        effective_appended_encoder_length_def token_total_def numeral_nat)
  then obtain p s where "plan_request [replicate 16 0, [21, 22, 23] @ replicate 13 0] [31, 32, 33, 34, 35, 36, 37] 0 0
      (batch_view q' None 3 0 None) [4, 5, 5, 5, 7, 9, 8] 10 = (Inr p, s)" "pl_total_decoder p = 7"
    by (auto simp: q' demo_request_def demo_segment_def demo_live_def)
  then show ?thesis by (intro exI [of _ q'] exI [of _ p] exI [of _ s] conjI)
qed

end
