(* ===== verification/Realtime_Guards.thy ===== *)
theory Realtime_Guards
  imports Segment_Append "HOL-Library.List_Lexorder" "HOL-Library.Char_ord"
begin

section \<open>Guards of the realtime scheduler\<close>

text \<open>
  Models the parts of \<open>moss_vl_realtime/scheduler.py\<close> that decide, without SGLang: whether the KV
  pool can serve the configured shape, which sessions are given up so that an extension fits the
  pool, which are parked after a silence, which parked ones have expired, when decoding is put
  off, and which accounting records are dropped.  Tensor parallelism is one rank, so
  \<open>_tp_consistent_decision\<close> is the identity; \<open>time.monotonic()\<close> is an argument.  Requests are
  addressed by their id.
\<close>

definition validate_kv_pool_capacity :: "int \<Rightarrow> int \<Rightarrow> unit res" where
  "validate_kv_pool_capacity pool_tokens context_length =
     (if pool_tokens = 0 \<or> context_length = 0 then Inr ()
      else if pool_tokens < context_length then Inl ValueError else Inr ())"

subsection \<open>The memory budget of an extension\<close>

text \<open>\<open>_realtime_kv_cost\<close>: of a request with a runtime state, otherwise by its output.\<close>

definition realtime_kv_cost :: "rt_state option \<Rightarrow> int list \<Rightarrow> int" where
  "realtime_kv_cost s output = (case s of Some s \<Rightarrow> kv_total s | None \<Rightarrow> int (length output))"

text \<open>\<open>max(values, key)\<close>: the first of the largest.\<close>

fun max_by :: "('a \<Rightarrow> int) \<Rightarrow> 'a \<Rightarrow> 'a list \<Rightarrow> 'a" where
  "max_by f best [] = best"
| "max_by f best (x # xs) = max_by f (if f best < f x then x else best) xs"

text \<open>\<open>{r.rid: r for r in running}\<close> extended by \<open>setdefault\<close>: every id once, in order.\<close>

definition live_ids :: "'a list \<Rightarrow> 'a list \<Rightarrow> 'a list \<Rightarrow> 'a list" where
  "live_ids running parked selected = rev (remdups (rev (running @ parked @ selected)))"

definition needed_tokens :: "('a \<times> segment) list \<Rightarrow> int" where
  "needed_tokens sel = (\<Sum>(r, seg) \<leftarrow> sel. int (length (raw_append_ids seg)) + 2)"

lemma max_by_mem: "max_by f b xs \<in> set (b # xs)"
  by (induction f b xs rule: max_by.induct) auto

function plan_victims ::
    "('a \<Rightarrow> int) \<Rightarrow> int \<Rightarrow> ('a \<times> segment) list \<Rightarrow> 'a list \<Rightarrow> 'a list" where
  "plan_victims cost available remaining live =
     (if remaining \<noteq> [] \<and> available < needed_tokens remaining \<and> live \<noteq> []
      then let v = max_by cost (hd live) (tl live) in
        v # plan_victims cost (available + cost v) (filter (\<lambda>e. fst e \<noteq> v) remaining) (remove1 v live)
      else [])"
  by pat_completeness auto

termination
proof (relation "measure (\<lambda>(c, a, r, live). length live)", goal_cases)
  case (2 cost available remaining live v)
  then have "v \<in> set live" using max_by_mem [of cost "hd live" "tl live"] by simp
  then have "0 < length live" by (auto simp: length_pos_if_in_set)
  with \<open>v \<in> set live\<close> show ?case by (simp add: length_remove1)
qed simp

declare plan_victims.simps [simp del]

lemma set_live_ids: "set (live_ids running parked selected) = set running \<union> set parked \<union> set selected"
  by (auto simp: live_ids_def)

lemma heaviest_mem: "live \<noteq> [] \<Longrightarrow> max_by f (hd live) (tl live) \<in> set live"
  using max_by_mem [of f "hd live" "tl live"] by simp

lemma length_filter_neq: "v \<in> set xs \<Longrightarrow> length (filter (\<lambda>r. r \<noteq> v) xs) < length xs"
  by (rule length_filter_less [of v]) simp_all

text \<open>\<open>_preempt_decode_memory_pressure\<close>: \<open>fits\<close> is SGLang's \<open>check_decode_mem\<close>, which depends on what
  is still running and parked; an abort removes the victim from both.\<close>

function preempt_victims ::
    "('a \<Rightarrow> int) \<Rightarrow> ('a list \<Rightarrow> 'a list \<Rightarrow> bool) \<Rightarrow> 'a list \<Rightarrow> 'a list \<Rightarrow> 'a list" where
  "preempt_victims cost fits running parked =
     (let live = live_ids running parked [] in
      if running \<noteq> [] \<and> \<not> fits running parked \<and> 1 < length live
      then let v = max_by cost (hd live) (tl live) in
        v # preempt_victims cost fits (filter (\<lambda>r. r \<noteq> v) running) (filter (\<lambda>r. r \<noteq> v) parked)
      else [])"
  by pat_completeness auto

termination
proof (relation "measure (\<lambda>(c, f, running, parked). length running + length parked)", goal_cases)
  case (2 cost fits running parked live v)
  then have "live \<noteq> []" by auto
  with 2 have "v \<in> set running \<or> v \<in> set parked"
    using heaviest_mem [of live cost] by (auto simp: set_live_ids)
  then show ?case
  proof
    assume "v \<in> set running"
    from add_less_le_mono [OF length_filter_neq [OF this] length_filter_le] show ?case by simp
  next
    assume "v \<in> set parked"
    from add_le_less_mono [OF length_filter_le length_filter_neq [OF this]] show ?case by simp
  qed
qed simp

declare preempt_victims.simps [simp del]

text \<open>The world of the scheduler that the enforcement touches: the requests, the errors reported
  and the requests aborted, in order.\<close>

record ('m, 'r) guard_world =
  gw_req :: "string \<Rightarrow> ('m, 'r) append_req"
  gw_errors :: "(string \<times> py_error) list"
  gw_aborted :: "string list"

definition give_up_victim ::
    "'r sglang_req \<Rightarrow> (string \<times> segment) list \<Rightarrow> string \<Rightarrow> ('m, 'r) guard_world \<Rightarrow> ('m, 'r) guard_world option" where
  "give_up_victim g selected v w =
     (case (case map_of selected v of
              None \<Rightarrow> Some w
            | Some seg \<Rightarrow> map_option (\<lambda>q. w\<lparr>gw_req := (gw_req w)(v := q)\<rparr>) (undo_appended_segment g seg (gw_req w v))) of
        None \<Rightarrow> None
      | Some w1 \<Rightarrow> Some (w1\<lparr>gw_errors := gw_errors w1 @ [(v, RuntimeError)], gw_aborted := gw_aborted w1 @ [v]\<rparr>))"

fun give_up_all ::
    "'r sglang_req \<Rightarrow> (string \<times> segment) list \<Rightarrow> string list \<Rightarrow> ('m, 'r) guard_world \<Rightarrow> ('m, 'r) guard_world option" where
  "give_up_all g selected [] w = Some w"
| "give_up_all g selected (v # vs) w =
     (case give_up_victim g selected v w of None \<Rightarrow> None | Some w1 \<Rightarrow> give_up_all g selected vs w1)"

definition enforce_extend_memory_budget ::
    "'r sglang_req \<Rightarrow> int option \<Rightarrow> string list \<Rightarrow> string list \<Rightarrow> (string \<times> segment) list \<Rightarrow>
     ('m, 'r) guard_world \<Rightarrow> ((string \<times> segment) list \<times> ('m, 'r) guard_world) option" where
  "enforce_extend_memory_budget g available running parked selected w =
     (case available of
        None \<Rightarrow> Some (selected, w)
      | Some free \<Rightarrow>
          let vs = plan_victims (\<lambda>r. kv_total (ar_state (gw_req w r))) free selected
                     (live_ids running parked (map fst selected)) in
          map_option (\<lambda>w'. (filter (\<lambda>e. fst e \<notin> set vs) selected, w')) (give_up_all g selected vs w))"

subsection \<open>Parking\<close>

definition ends_with_token_ids :: "int list \<Rightarrow> int list \<Rightarrow> bool" where
  "ends_with_token_ids values suff \<longleftrightarrow>
     length suff \<le> length values \<and> drop (length values - length suff) values = suff"

record park_req =
  pk_state :: "rt_state option"
  pk_output :: "int list"
  pk_finished :: bool

record park_world =
  pw_req :: "string \<Rightarrow> park_req"
  pw_sessions :: sessions
  pw_parked :: "string list"
  pw_since :: "(string, rat) dict"
  pw_running :: "string list"

definition should_park :: "int list \<Rightarrow> park_world \<Rightarrow> string \<Rightarrow> bool" where
  "should_park silence w r \<longleftrightarrow>
     pk_state (pw_req w r) \<noteq> None \<and>
     (case ctl_get (pw_sessions w) r of None \<Rightarrow> False | Some s \<Rightarrow> pending_events s = [] \<and> \<not> final_received s) \<and>
     \<not> pk_finished (pw_req w r) \<and> pk_output (pw_req w r) \<noteq> [] \<and> ends_with_token_ids (pk_output (pw_req w r)) silence"

definition list_add :: "'a \<Rightarrow> 'a list \<Rightarrow> 'a list" where
  "list_add x xs = (if x \<in> set xs then xs else xs @ [x])"

definition park_one :: "rat \<Rightarrow> string \<Rightarrow> park_world \<Rightarrow> unit res \<times> park_world" where
  "park_one now r w =
     (case pk_state (pw_req w r) of
        None \<Rightarrow> (Inr (), w)
      | Some s \<Rightarrow> (case mark_waiting s of
          Inl e \<Rightarrow> (Inl e, w)
        | Inr s' \<Rightarrow> (Inr (), w\<lparr>pw_req := (pw_req w)(r := (pw_req w r)\<lparr>pk_state := Some s'\<rparr>),
                           pw_parked := list_add r (pw_parked w), pw_since := dict_set (pw_since w) r now\<rparr>)))"

text \<open>The loop over the batch: the requests kept, the requests newly parked.  Times may differ
  between iterations, as the clock is read for each.\<close>

fun park_loop ::
    "int list \<Rightarrow> (nat \<Rightarrow> rat) \<Rightarrow> nat \<Rightarrow> string list \<Rightarrow> park_world \<Rightarrow> (string list \<times> string list) res \<times> park_world" where
  "park_loop silence clock i [] w = (Inr ([], []), w)"
| "park_loop silence clock i (r # rs) w =
     (if \<not> should_park silence w r
      then (case park_loop silence clock (Suc i) rs w of
              (Inl e, w') \<Rightarrow> (Inl e, w') | (Inr (keep, parked), w') \<Rightarrow> (Inr (r # keep, parked), w'))
      else case park_one (clock i) r w of
        (Inl e, w1) \<Rightarrow> (Inl e, w1)
      | (Inr _, w1) \<Rightarrow> (case park_loop silence clock (Suc i) rs w1 of
              (Inl e, w') \<Rightarrow> (Inl e, w') | (Inr (keep, parked), w') \<Rightarrow> (Inr (keep, r # parked), w')))"

text \<open>The batch that was processed: the live running batch itself, or a snapshot of its own.\<close>

datatype processed_batch = LiveBatch | Snapshot "string list"

definition park_silent_requests ::
    "int list \<Rightarrow> (nat \<Rightarrow> rat) \<Rightarrow> processed_batch \<Rightarrow> park_world \<Rightarrow> processed_batch res \<times> park_world" where
  "park_silent_requests silence clock b w =
     (case park_loop silence clock 0 (case b of LiveBatch \<Rightarrow> pw_running w | Snapshot rs \<Rightarrow> rs) w of
        (Inl e, w1) \<Rightarrow> (Inl e, w1)
      | (Inr (keep, parked), w1) \<Rightarrow>
          (case b of
             LiveBatch \<Rightarrow> (Inr LiveBatch, w1\<lparr>pw_running := keep\<rparr>)
           | Snapshot _ \<Rightarrow> (Inr (Snapshot keep),
               if parked = [] then w1 else w1\<lparr>pw_running := filter (\<lambda>r. r \<notin> set parked) (pw_running w1)\<rparr>)))"

definition expired_parked :: "rat \<Rightarrow> rat \<Rightarrow> park_world \<Rightarrow> string list" where
  "expired_parked now timeout w = map fst (filter (\<lambda>(r, since). timeout \<le> now - since) (pw_since w))"

subsection \<open>Pacing and accounting\<close>

text \<open>The loop of \<open>_decode_rate_limited\<close> over the runtime states of the running requests.\<close>

fun rate_limited :: "rat \<Rightarrow> rt_state option list \<Rightarrow> bool \<Rightarrow> bool \<Rightarrow> bool" where
  "rate_limited now [] found limited = (found \<and> limited)"
| "rate_limited now (None # ss) found limited = rate_limited now ss found limited"
| "rate_limited now (Some s # ss) found limited =
     (if next_decode_not_before s \<le> now then False else rate_limited now ss True True)"

definition decode_rate_limited :: "rat \<Rightarrow> rt_state option list \<Rightarrow> bool" where
  "decode_rate_limited now ss = rate_limited now ss False False"

definition stamp_batch_launch :: "rat \<Rightarrow> rt_state \<Rightarrow> rt_state" where
  "stamp_batch_launch launch s = s\<lparr>next_decode_not_before := launch + 1 / max_tokens_per_turn s\<rparr>"

fun prune_loop :: "rat \<Rightarrow> (rat \<times> string) list \<Rightarrow> (string, accounting) dict \<Rightarrow> (string, accounting) dict" where
  "prune_loop now [] m = m"
| "prune_loop now ((ret, r) # rest) m =
     prune_loop now rest (if now - ret > 300 \<or> 4096 \<le> length m then dict_pop m r else m)"

text \<open>\<open>sorted\<close> of \<open>(retired_at, rid)\<close> pairs: two records retired at the same instant are ordered by
  their ids.\<close>

definition retired_records :: "(string, accounting) dict \<Rightarrow> (rat \<times> string) list" where
  "retired_records m = sort_key fst (sort_key snd
     (concat (map (\<lambda>(r, a). case retired_at a of None \<Rightarrow> [] | Some ret \<Rightarrow> [(ret, r)]) m)))"

definition prune_accounting_records :: "rat \<Rightarrow> (string, accounting) dict \<Rightarrow> (string, accounting) dict" where
  "prune_accounting_records now m = prune_loop now (retired_records m) m"

end
