(* ===== verification/Realtime_Guards_Props.thy ===== *)
theory Realtime_Guards_Props
  imports Realtime_Guards Segment_Append_Props
begin

section \<open>Properties of the guards\<close>

subsection \<open>Victims\<close>

lemma max_by_ge: "f b \<le> f (max_by f b xs) \<and> (\<forall>x \<in> set xs. f x \<le> f (max_by f b xs))"
proof (induction f b xs rule: max_by.induct)
  case (2 f b y xs)
  then show ?case by (cases "f b < f y") auto
qed simp

lemma heaviest_ge: "x \<in> set live \<Longrightarrow> f x \<le> f (max_by f (hd live) (tl live))"
  using max_by_ge [of f "hd live" "tl live"] by (cases live) auto

text \<open>What is true of every prefix of the victims: it did not free enough, and the next victim is the
  heaviest of those still live.\<close>

definition justified :: "('a \<Rightarrow> int) \<Rightarrow> int \<Rightarrow> ('a \<times> segment) list \<Rightarrow> 'a list \<Rightarrow> 'a list \<Rightarrow> bool" where
  "justified cost free selected live vs \<longleftrightarrow>
     (\<forall>i < length vs.
        free + (\<Sum>v \<leftarrow> take i vs. cost v) < needed_tokens (filter (\<lambda>e. fst e \<notin> set (take i vs)) selected) \<and>
        (\<forall>r \<in> set live - set (take i vs). cost r \<le> cost (vs ! i)))"

lemma filter_filter_victim:
  "filter (\<lambda>e. fst e \<notin> set vs) (filter (\<lambda>e. fst e \<noteq> v) es) = filter (\<lambda>e. fst e \<notin> set (v # vs)) es"
  by (induction es) auto

lemma justified_Cons:
  assumes "free < needed_tokens selected" and "\<forall>r \<in> set live. cost r \<le> cost v"
    and "justified cost (free + cost v) (filter (\<lambda>e. fst e \<noteq> v) selected) (remove1 v live) vs" and "distinct live"
  shows "justified cost free selected live (v # vs)"
  unfolding justified_def
proof (intro allI impI)
  fix i assume i: "i < length (v # vs)"
  show "free + (\<Sum>v \<leftarrow> take i (v # vs). cost v) < needed_tokens (filter (\<lambda>e. fst e \<notin> set (take i (v # vs))) selected) \<and>
    (\<forall>r \<in> set live - set (take i (v # vs)). cost r \<le> cost ((v # vs) ! i))"
  proof (cases i)
    case 0
    with assms(1,2) show ?thesis by simp
  next
    case (Suc j)
    with i assms(3) have "free + cost v + (\<Sum>v \<leftarrow> take j vs. cost v)
        < needed_tokens (filter (\<lambda>e. fst e \<notin> set (take j vs)) (filter (\<lambda>e. fst e \<noteq> v) selected))"
      and "\<forall>r \<in> set (remove1 v live) - set (take j vs). cost r \<le> cost (vs ! j)"
      unfolding justified_def by auto
    then show ?thesis using assms(4) Suc unfolding filter_filter_victim by (simp add: set_remove1_eq add_ac)
  qed
qed

lemma plan_victims_facts:
  assumes "distinct live" and "fst ` set remaining \<subseteq> set live"
    and vs: "vs = plan_victims cost available remaining live"
  shows "set vs \<subseteq> set live \<and> distinct vs \<and> justified cost available remaining live vs \<and>
    (filter (\<lambda>e. fst e \<notin> set vs) remaining = [] \<or>
     needed_tokens (filter (\<lambda>e. fst e \<notin> set vs) remaining) \<le> available + (\<Sum>v \<leftarrow> vs. cost v))"
  unfolding vs using assms(1,2)
proof (induction cost available remaining live rule: plan_victims.induct)
  case (1 cost available remaining live)
  show ?case
  proof (cases "remaining \<noteq> [] \<and> available < needed_tokens remaining \<and> live \<noteq> []")
    case True
    define v where "v = max_by cost (hd live) (tl live)"
    define ws where "ws = plan_victims cost (available + cost v) (filter (\<lambda>e. fst e \<noteq> v) remaining) (remove1 v live)"
    have vs: "plan_victims cost available remaining live = v # ws"
      using True by (subst plan_victims.simps) (simp add: v_def ws_def Let_def)
    have vl: "v \<in> set live" unfolding v_def using True by (intro heaviest_mem) simp
    have "fst ` set (filter (\<lambda>e. fst e \<noteq> v) remaining) \<subseteq> set (remove1 v live)"
      using 1(2,3) by (auto simp: set_remove1_eq)
    from 1(1) [OF True v_def] 1(2) this have IH: "set ws \<subseteq> set (remove1 v live)" "distinct ws"
      "justified cost (available + cost v) (filter (\<lambda>e. fst e \<noteq> v) remaining) (remove1 v live) ws"
      "filter (\<lambda>e. fst e \<notin> set ws) (filter (\<lambda>e. fst e \<noteq> v) remaining) = [] \<or>
       needed_tokens (filter (\<lambda>e. fst e \<notin> set ws) (filter (\<lambda>e. fst e \<noteq> v) remaining)) \<le> available + cost v + (\<Sum>v \<leftarrow> ws. cost v)"
      by (simp_all add: ws_def)
    have "justified cost available remaining live (v # ws)"
      using True IH(3) 1(2) heaviest_ge [of _ live cost] by (intro justified_Cons) (auto simp: v_def)
    moreover have "set (v # ws) \<subseteq> set live" "distinct (v # ws)" using IH(1,2) vl 1(2) by (auto simp: set_remove1_eq)
    moreover have "filter (\<lambda>e. fst e \<notin> set (v # ws)) remaining = [] \<or>
       needed_tokens (filter (\<lambda>e. fst e \<notin> set (v # ws)) remaining) \<le> available + (\<Sum>v \<leftarrow> v # ws. cost v)"
      using IH(4) unfolding filter_filter_victim by (simp only: list.map sum_list.Cons add.assoc)
    ultimately show ?thesis unfolding vs by blast
  next
    case False
    then have vs: "plan_victims cost available remaining live = []" by (subst plan_victims.simps) (simp only: if_False)
    from False 1(3) show ?thesis unfolding vs by (auto simp: justified_def not_less)
  qed
qed

lemma distinct_live_ids: "distinct (live_ids running parked selected)"
  by (simp add: live_ids_def)

subsection \<open>Giving the victims up\<close>

lemma give_up_all_facts:
  assumes "give_up_all g selected vs w = Some w'"
  shows "gw_aborted w' = gw_aborted w @ vs \<and> gw_errors w' = gw_errors w @ map (\<lambda>v. (v, RuntimeError)) vs \<and>
    (\<forall>r. r \<notin> set vs \<or> r \<notin> fst ` set selected \<longrightarrow> gw_req w' r = gw_req w r) \<and>
    (distinct vs \<longrightarrow> (\<forall>v \<in> set vs. \<forall>seg. map_of selected v = Some seg \<longrightarrow>
       undo_appended_segment g seg (gw_req w v) = Some (gw_req w' v)))"
  using assms
proof (induction g selected vs w rule: give_up_all.induct)
  case (2 g selected v vs w)
  from 2(2) obtain w1 where w1: "give_up_victim g selected v w = Some w1" "give_up_all g selected vs w1 = Some w'"
    by (auto split: option.splits)
  note IH = 2(1) [OF w1]
  have s: "gw_aborted w1 = gw_aborted w @ [v]" "gw_errors w1 = gw_errors w @ [(v, RuntimeError)]"
    "\<And>r. r \<noteq> v \<or> r \<notin> fst ` set selected \<Longrightarrow> gw_req w1 r = gw_req w r"
    "\<And>seg. map_of selected v = Some seg \<Longrightarrow> undo_appended_segment g seg (gw_req w v) = Some (gw_req w1 v)"
    using w1(1) by (auto simp: give_up_victim_def split: option.splits dest: map_of_SomeD intro: rev_image_eqI)
  show ?case
  proof (intro conjI)
    show "gw_aborted w' = gw_aborted w @ v # vs" "gw_errors w' = gw_errors w @ map (\<lambda>v. (v, RuntimeError)) (v # vs)"
      using IH s by simp_all
    show "\<forall>r. r \<notin> set (v # vs) \<or> r \<notin> fst ` set selected \<longrightarrow> gw_req w' r = gw_req w r" using IH s(3) by auto
    show "distinct (v # vs) \<longrightarrow> (\<forall>u \<in> set (v # vs). \<forall>seg. map_of selected u = Some seg \<longrightarrow>
       undo_appended_segment g seg (gw_req w u) = Some (gw_req w' u))"
    proof (intro impI ballI allI)
      fix u seg assume d: "distinct (v # vs)" and u: "u \<in> set (v # vs)" "map_of selected u = Some seg"
      show "undo_appended_segment g seg (gw_req w u) = Some (gw_req w' u)"
      proof (cases "u = v")
        case True
        with IH d have "gw_req w' u = gw_req w1 u" by auto
        with s(4) u True show ?thesis by simp
      next
        case False
        with u s(3) [of u] have "gw_req w1 u = gw_req w u" "u \<in> set vs" by auto
        with IH d u show ?thesis by auto
      qed
    qed
  qed
qed simp

text \<open>
  C15: After the memory budget was enforced the extensions that remain fit the pool once the sessions
  given up have released their slots, or none remains.  The sessions given up are distinct and
  reported, each was the heaviest then live and was needed, and an extending one among them has its
  append undone; nothing else changes.
\<close>

theorem extend_budget:
  assumes "enforce_extend_memory_budget g (Some free) running parked selected w = Some (selected', w')"
    and "distinct (map fst selected)"
  shows "\<exists>vs. selected' = filter (\<lambda>e. fst e \<notin> set vs) selected \<and>
    (selected' = [] \<or> needed_tokens selected' \<le> free + (\<Sum>v \<leftarrow> vs. kv_total (ar_state (gw_req w v)))) \<and>
    distinct vs \<and> gw_aborted w' = gw_aborted w @ vs \<and> map fst (gw_errors w') = map fst (gw_errors w) @ vs \<and>
    justified (\<lambda>r. kv_total (ar_state (gw_req w r))) free selected (live_ids running parked (map fst selected)) vs \<and>
    (\<forall>r. if r \<in> set vs \<inter> fst ` set selected
         then undo_appended_segment g (the (map_of selected r)) (gw_req w r) = Some (gw_req w' r)
         else gw_req w' r = gw_req w r)"
proof -
  define live where "live = live_ids running parked (map fst selected)"
  define vs where "vs = plan_victims (\<lambda>r. kv_total (ar_state (gw_req w r))) free selected live"
  from assms(1) have sel: "selected' = filter (\<lambda>e. fst e \<notin> set vs) selected" and gu: "give_up_all g selected vs w = Some w'"
    by (auto simp: enforce_extend_memory_budget_def Let_def vs_def live_def)
  have live: "distinct live" "fst ` set selected \<subseteq> set live"
    by (auto simp: live_def distinct_live_ids set_live_ids)
  note P = plan_victims_facts [OF live vs_def] and G = give_up_all_facts [OF gu]
  have "if r \<in> set vs \<inter> fst ` set selected
     then undo_appended_segment g (the (map_of selected r)) (gw_req w r) = Some (gw_req w' r)
     else gw_req w' r = gw_req w r" for r
  proof (cases "r \<in> set vs \<inter> fst ` set selected")
    case True
    then obtain seg where "map_of selected r = Some seg" by (cases "map_of selected r") (auto simp: map_of_eq_None_iff)
    with True P G show ?thesis by auto
  next
    case False
    with G show ?thesis by auto
  qed
  then have R: "\<forall>r. if r \<in> set vs \<inter> fst ` set selected
     then undo_appended_segment g (the (map_of selected r)) (gw_req w r) = Some (gw_req w' r)
     else gw_req w' r = gw_req w r" by blast
  have E: "map fst (gw_errors w') = map fst (gw_errors w) @ vs" using G by (simp add: comp_def)
  show ?thesis
    unfolding live_def [symmetric]
    by (intro exI [of _ vs] conjI sel R E) (use P G sel in blast)+
qed

theorem extend_budget_witness:
  "\<exists>selected' w'. enforce_extend_memory_budget demo_sglang (Some 2) [''a''] [''b''] [(''b'', demo_segment)]
     \<lparr>gw_req = (\<lambda>r. if r = ''a'' then demo_request\<lparr>ar_state := demo_live\<lparr>decoder_length := 9\<rparr>\<rparr> else demo_request),
      gw_errors = [], gw_aborted = []\<rparr> = Some (selected', w') \<and>
     selected' = [(''b'', demo_segment)] \<and> gw_aborted w' = [''a''] \<and> needed_tokens selected' \<le> 2 + 9"
proof -
  define w where "w = \<lparr>gw_req = (\<lambda>r. if r = ''a'' then demo_request\<lparr>ar_state := demo_live\<lparr>decoder_length := 9\<rparr>\<rparr> else demo_request),
      gw_errors = [], gw_aborted = []\<rparr>"
  have cost: "kv_total (ar_state (gw_req w ''a'')) = 9" "kv_total (ar_state (gw_req w ''b'')) = 3"
    by (simp_all add: w_def demo_request_def demo_live_def kv_total_def)
  have need: "needed_tokens [(''b'', demo_segment)] = 8"
    by (simp add: needed_tokens_def raw_append_ids_def demo_segment_def)
  have live: "live_ids [''a''] [''b''] (map fst [(''b'', demo_segment)]) = [''a'', ''b'']" by (simp add: live_ids_def)
  have vs: "plan_victims (\<lambda>r. kv_total (ar_state (gw_req w r))) 2 [(''b'', demo_segment)] [''a'', ''b''] = [''a'']"
    by (subst plan_victims.simps, subst plan_victims.simps) (simp add: need cost)
  have e: "enforce_extend_memory_budget demo_sglang (Some 2) [''a''] [''b''] [(''b'', demo_segment)] w
    = Some ([(''b'', demo_segment)], w\<lparr>gw_errors := gw_errors w @ [(''a'', RuntimeError)], gw_aborted := gw_aborted w @ [''a'']\<rparr>)"
    unfolding enforce_extend_memory_budget_def option.case Let_def live vs by (simp add: give_up_victim_def)
  have "distinct (map fst [(''b'', demo_segment)])" by simp
  from extend_budget [OF e this] obtain vs where
    vs: "[(''b'', demo_segment)] = [] \<or> needed_tokens [(''b'', demo_segment)] \<le> 2 + (\<Sum>v \<leftarrow> vs. kv_total (ar_state (gw_req w v)))"
    "gw_aborted (w\<lparr>gw_errors := gw_errors w @ [(''a'', RuntimeError)], gw_aborted := gw_aborted w @ [''a'']\<rparr>) = gw_aborted w @ vs"
    by blast
  from vs(2) have "vs = [''a'']" by simp
  with cost vs(1) have "needed_tokens [(''b'', demo_segment)] \<le> 2 + 9" by auto
  with e show ?thesis unfolding w_def by simp
qed

subsection \<open>Parking\<close>

definition parking_ok :: "park_world \<Rightarrow> bool" where
  "parking_ok w \<longleftrightarrow>
     distinct (pw_parked w) \<and> set (pw_parked w) = fst ` set (pw_since w) \<and>
     set (pw_parked w) \<inter> set (pw_running w) = {} \<and>
     (\<forall>r \<in> set (pw_parked w). \<exists>s. pk_state (pw_req w r) = Some s \<and> phase s = WaitingForEvent)"

lemma keys_dict_set: "fst ` set (dict_set d k v) = insert k (fst ` set d)"
  by (induction d k v rule: dict_set.induct) auto

lemma mark_waiting_Inr: "mark_waiting s = Inr s' \<Longrightarrow> s' = s\<lparr>phase := WaitingForEvent\<rparr>"
  by (auto simp: mark_waiting_def bindE_eq_Inr split: if_splits)

lemma park_one_facts:
  assumes "park_one now r w = (Inr u, w')" and "should_park silence w r"
  shows "pw_sessions w' = pw_sessions w \<and> pw_running w' = pw_running w \<and> pw_parked w' = list_add r (pw_parked w) \<and>
    fst ` set (pw_since w') = insert r (fst ` set (pw_since w)) \<and>
    (\<exists>s. pk_state (pw_req w r) = Some s \<and>
      pw_req w' = (pw_req w)(r := (pw_req w r)\<lparr>pk_state := Some (s\<lparr>phase := WaitingForEvent\<rparr>)\<rparr>))"
proof -
  obtain s where s: "pk_state (pw_req w r) = Some s" using assms(2) by (auto simp: should_park_def)
  with assms(1) obtain s' where m: "mark_waiting s = Inr s'" by (cases "mark_waiting s") (auto simp: park_one_def)
  have "w' = w\<lparr>pw_req := (pw_req w)(r := (pw_req w r)\<lparr>pk_state := Some (s\<lparr>phase := WaitingForEvent\<rparr>)\<rparr>),
      pw_parked := list_add r (pw_parked w), pw_since := dict_set (pw_since w) r now\<rparr>"
    using assms(1) s m mark_waiting_Inr [OF m] by (simp add: park_one_def)
  then show ?thesis using s by (simp add: keys_dict_set)
qed

text \<open>What a loop of the parking pass did to the requests it parked.\<close>

definition parked_by :: "park_world \<Rightarrow> string list \<Rightarrow> park_world \<Rightarrow> bool" where
  "parked_by w ps w' \<longleftrightarrow>
     pw_sessions w' = pw_sessions w \<and> pw_running w' = pw_running w \<and>
     set (pw_parked w') = set (pw_parked w) \<union> set ps \<and> (distinct (pw_parked w) \<longrightarrow> distinct (pw_parked w')) \<and>
     fst ` set (pw_since w') = fst ` set (pw_since w) \<union> set ps \<and>
     (\<forall>r. if r \<in> set ps
          then \<exists>s. pk_state (pw_req w r) = Some s \<and>
            pw_req w' r = (pw_req w r)\<lparr>pk_state := Some (s\<lparr>phase := WaitingForEvent\<rparr>)\<rparr>
          else pw_req w' r = pw_req w r)"

lemma set_list_add: "set (list_add x xs) = insert x (set xs)" "distinct xs \<Longrightarrow> distinct (list_add x xs)"
  by (auto simp: list_add_def)

lemma parked_by_Cons:
  assumes one: "park_one now r w = (Inr u, w1)" "should_park silence w r" and rest: "parked_by w1 ps w'" and new: "r \<notin> set ps"
  shows "parked_by w (r # ps) w'"
proof -
  note O = park_one_facts [OF one]
  show ?thesis
    unfolding parked_by_def
  proof (intro conjI allI)
    show "pw_sessions w' = pw_sessions w" "pw_running w' = pw_running w"
      "set (pw_parked w') = set (pw_parked w) \<union> set (r # ps)"
      "fst ` set (pw_since w') = fst ` set (pw_since w) \<union> set (r # ps)"
      "distinct (pw_parked w) \<longrightarrow> distinct (pw_parked w')"
      using O rest by (auto simp: parked_by_def set_list_add)
    fix x
    show "if x \<in> set (r # ps)
          then \<exists>s. pk_state (pw_req w x) = Some s \<and>
            pw_req w' x = (pw_req w x)\<lparr>pk_state := Some (s\<lparr>phase := WaitingForEvent\<rparr>)\<rparr>
          else pw_req w' x = pw_req w x"
    proof (cases "x = r")
      case True
      with O rest new show ?thesis by (auto simp: parked_by_def)
    next
      case False
      with O have e: "pw_req w1 x = pw_req w x" by auto
      have "if x \<in> set ps
          then \<exists>s. pk_state (pw_req w1 x) = Some s \<and>
            pw_req w' x = (pw_req w1 x)\<lparr>pk_state := Some (s\<lparr>phase := WaitingForEvent\<rparr>)\<rparr>
          else pw_req w' x = pw_req w1 x"
        using rest unfolding parked_by_def by blast
      with e False show ?thesis by (cases "x \<in> set ps") simp_all
    qed
  qed
qed

lemma park_loop_facts:
  assumes "park_loop silence clock i rs w = (Inr (keep, ps), w')" and "distinct rs"
  shows "keep = filter (\<lambda>r. \<not> should_park silence w r) rs \<and> ps = filter (should_park silence w) rs \<and> parked_by w ps w'"
  using assms
proof (induction silence clock i rs w arbitrary: keep ps rule: park_loop.induct)
  case (1 silence clock i w)
  then show ?case by (simp add: parked_by_def)
next
  case (2 silence clock i r rs w)
  show ?case
  proof (cases "should_park silence w r")
    case False
    with 2(3) obtain k where k: "park_loop silence clock (Suc i) rs w = (Inr (k, ps), w')" "keep = r # k"
      by (auto split: prod.splits sum.splits)
    have "distinct rs" using 2(4) by simp
    from 2(1) [OF False k(1) this] have "k = filter (\<lambda>r. \<not> should_park silence w r) rs"
      "ps = filter (should_park silence w) rs" "parked_by w ps w'" by blast+
    with False k(2) show ?thesis by simp
  next
    case True
    with 2(3) obtain u w1 p where p: "park_one (clock i) r w = (Inr u, w1)"
      "park_loop silence clock (Suc i) rs w1 = (Inr (keep, p), w')" "ps = r # p"
      by (auto split: prod.splits sum.splits)
    have "\<not> \<not> should_park silence w r" using True by simp
    have "distinct rs" using 2(4) by simp
    from 2(2) [OF \<open>\<not> \<not> should_park silence w r\<close> p(1) [symmetric] refl p(2) this] have IH: "keep = filter (\<lambda>r. \<not> should_park silence w1 r) rs"
      "p = filter (should_park silence w1) rs" "parked_by w1 p w'" by blast+
    have same: "should_park silence w1 x = should_park silence w x" if "x \<in> set rs" for x
    proof -
      from that 2(4) have "x \<noteq> r" by auto
      with park_one_facts [OF p(1) True] have "pw_req w1 x = pw_req w x" "pw_sessions w1 = pw_sessions w" by auto
      then show ?thesis by (simp add: should_park_def)
    qed
    have "keep = filter (\<lambda>r. \<not> should_park silence w r) rs" "p = filter (should_park silence w) rs"
      unfolding IH(1,2) using same by (auto intro!: filter_cong)
    moreover have "r \<notin> set p" using 2(4) by (auto simp: IH(2))
    ultimately show ?thesis using parked_by_Cons [OF p(1) True IH(3)] True p(3) by simp
  qed
qed

text \<open>The pass in terms of the source's own condition.\<close>

lemma park_pass:
  assumes "park_silent_requests silence clock b w = (Inr b', w')" and ok: "parking_ok w"
    and batch: "rs = (case b of LiveBatch \<Rightarrow> pw_running w | Snapshot xs \<Rightarrow> xs)" "distinct rs"
  shows "parking_ok w' \<and>
    set (pw_parked w') = set (pw_parked w) \<union> {r \<in> set rs. should_park silence w r} \<and>
    pw_running w' = filter (\<lambda>r. \<not> (r \<in> set rs \<and> should_park silence w r)) (pw_running w) \<and>
    (case b of LiveBatch \<Rightarrow> b' = LiveBatch | Snapshot xs \<Rightarrow> b' = Snapshot (filter (\<lambda>r. \<not> should_park silence w r) xs)) \<and>
    (\<forall>r. if r \<in> set rs \<and> should_park silence w r
         then \<exists>s. pk_state (pw_req w r) = Some s \<and> pw_req w' r = (pw_req w r)\<lparr>pk_state := Some (s\<lparr>phase := WaitingForEvent\<rparr>)\<rparr>
         else pw_req w' r = pw_req w r)"
proof -
  from assms(1) batch(1) obtain keep ps w1 where l: "park_loop silence clock 0 rs w = (Inr (keep, ps), w1)"
    by (cases "park_loop silence clock 0 rs w"; cases "fst (park_loop silence clock 0 rs w)")
      (auto simp: park_silent_requests_def split: sum.splits prod.splits)
  note L = park_loop_facts [OF l batch(2)]
  have ps: "set ps = {r \<in> set rs. should_park silence w r}" using L by auto
  have run: "pw_running w' = filter (\<lambda>r. r \<notin> set ps) (pw_running w)"
    and rest: "pw_parked w' = pw_parked w1" "pw_since w' = pw_since w1" "pw_req w' = pw_req w1"
    and b': "case b of LiveBatch \<Rightarrow> b' = LiveBatch | Snapshot xs \<Rightarrow> b' = Snapshot (filter (\<lambda>r. \<not> should_park silence w r) xs)"
  proof -
    have keep: "keep = filter (\<lambda>r. \<not> should_park silence w r) rs" and r1: "pw_running w1 = pw_running w"
      using L by (blast, simp add: parked_by_def)
    have all: "pw_running w' = filter (\<lambda>r. r \<notin> set ps) (pw_running w) \<and> pw_parked w' = pw_parked w1 \<and>
      pw_since w' = pw_since w1 \<and> pw_req w' = pw_req w1 \<and>
      (case b of LiveBatch \<Rightarrow> b' = LiveBatch | Snapshot xs \<Rightarrow> b' = Snapshot (filter (\<lambda>r. \<not> should_park silence w r) xs))"
    proof (cases b)
      case LiveBatch
      with batch(1) have rs: "rs = pw_running w" by simp
      with assms(1) l LiveBatch have "b' = LiveBatch" "w' = w1\<lparr>pw_running := keep\<rparr>"
        by (simp_all add: park_silent_requests_def)
      moreover have "keep = filter (\<lambda>r. r \<notin> set ps) (pw_running w)"
        unfolding keep ps rs by (rule filter_cong) auto
      ultimately show ?thesis using LiveBatch by simp
    next
      case (Snapshot xs)
      with batch(1) have rs: "rs = xs" by simp
      with assms(1) l Snapshot have "b' = Snapshot keep"
        "w' = (if ps = [] then w1 else w1\<lparr>pw_running := filter (\<lambda>r. r \<notin> set ps) (pw_running w1)\<rparr>)"
        by (simp_all add: park_silent_requests_def)
      then show ?thesis using Snapshot keep rs r1 by (cases "ps = []") simp_all
    qed
    then show "pw_running w' = filter (\<lambda>r. r \<notin> set ps) (pw_running w)" "pw_parked w' = pw_parked w1"
      "pw_since w' = pw_since w1" "pw_req w' = pw_req w1"
      "case b of LiveBatch \<Rightarrow> b' = LiveBatch | Snapshot xs \<Rightarrow> b' = Snapshot (filter (\<lambda>r. \<not> should_park silence w r) xs)"
      by blast+
  qed
  have P: "parked_by w ps w1" using L by blast
  have sets: "set (pw_parked w1) = set (pw_parked w) \<union> set ps" "distinct (pw_parked w1)"
    "fst ` set (pw_since w1) = fst ` set (pw_since w) \<union> set ps"
    using P ok unfolding parked_by_def parking_ok_def by blast+
  have "\<exists>s. pk_state (pw_req w1 r) = Some s \<and> phase s = WaitingForEvent" if "r \<in> set (pw_parked w1)" for r
  proof (cases "r \<in> set ps")
    case True
    with P obtain s where "pw_req w1 r = (pw_req w r)\<lparr>pk_state := Some (s\<lparr>phase := WaitingForEvent\<rparr>)\<rparr>"
      unfolding parked_by_def by meson
    then show ?thesis by simp
  next
    case False
    with P have "pw_req w1 r = pw_req w r" unfolding parked_by_def by meson
    with that False sets(1) ok show ?thesis unfolding parking_ok_def by auto
  qed
  moreover have "set (pw_parked w1) \<inter> set (pw_running w') = {}"
    using sets(1) ok unfolding parking_ok_def run by auto
  ultimately have "parking_ok w'" using sets ok unfolding parking_ok_def rest by auto
  moreover have "if r \<in> set rs \<and> should_park silence w r
         then \<exists>s. pk_state (pw_req w r) = Some s \<and> pw_req w' r = (pw_req w r)\<lparr>pk_state := Some (s\<lparr>phase := WaitingForEvent\<rparr>)\<rparr>
         else pw_req w' r = pw_req w r" for r
  proof -
    have "r \<in> set rs \<and> should_park silence w r \<longleftrightarrow> r \<in> set ps" by (simp add: ps)
    then show ?thesis using P unfolding rest parked_by_def by presburger
  qed
  moreover have "pw_running w' = filter (\<lambda>r. \<not> (r \<in> set rs \<and> should_park silence w r)) (pw_running w)"
    unfolding run ps by simp
  ultimately show ?thesis using sets(1) b' unfolding rest ps by blast
qed

lemma ends_with_iff: "ends_with_token_ids values suff \<longleftrightarrow> (\<exists>before. before @ suff = values)"
proof
  assume "ends_with_token_ids values suff"
  then have "take (length values - length suff) values @ suff = values"
    unfolding ends_with_token_ids_def by (metis append_take_drop_id)
  then show "\<exists>before. before @ suff = values" ..
qed (auto simp: ends_with_token_ids_def)

text \<open>
  C16: A pass over a processed batch parks exactly the requests that have a runtime state, an
  open session without pending events that has not received its final event, are not finished, and whose
  output is not empty and ends with the silence tokens; nothing else, be the batch the running one or a
  snapshot.  They leave the batch and the running batch and wait for events, every other request is
  untouched, and the parked requests and their timers keep matching.
\<close>

theorem park_exact:
  assumes "park_silent_requests silence clock b w = (Inr b', w')" and ok: "parking_ok w"
    and batch: "rs = (case b of LiveBatch \<Rightarrow> pw_running w | Snapshot xs \<Rightarrow> xs)" "distinct rs"
    and parks: "parks = (\<lambda>r. (\<exists>s. pk_state (pw_req w r) = Some s) \<and>
      (\<exists>ses. ctl_get (pw_sessions w) r = Some ses \<and> pending_events ses = [] \<and> \<not> final_received ses) \<and>
      \<not> pk_finished (pw_req w r) \<and> pk_output (pw_req w r) \<noteq> [] \<and> (\<exists>before. before @ silence = pk_output (pw_req w r)))"
  shows "parking_ok w' \<and>
    set (pw_parked w') = set (pw_parked w) \<union> {r \<in> set rs. parks r} \<and>
    pw_running w' = filter (\<lambda>r. \<not> (r \<in> set rs \<and> parks r)) (pw_running w) \<and>
    (case b of LiveBatch \<Rightarrow> b' = LiveBatch | Snapshot xs \<Rightarrow> b' = Snapshot (filter (\<lambda>r. \<not> parks r) xs)) \<and>
    (\<forall>r. if r \<in> set rs \<and> parks r
         then \<exists>s. pk_state (pw_req w r) = Some s \<and> pw_req w' r = (pw_req w r)\<lparr>pk_state := Some (s\<lparr>phase := WaitingForEvent\<rparr>)\<rparr>
         else pw_req w' r = pw_req w r)"
proof -
  have parks_iff: "should_park silence w = parks"
    unfolding parks should_park_def ends_with_iff by (rule ext) (auto split: option.splits)
  show ?thesis by (rule park_pass [OF assms(1) ok batch, unfolded parks_iff])
qed

definition demo_park :: park_world where
  "demo_park = \<lparr>pw_req = (\<lambda>r. \<lparr>pk_state = Some demo_live, pk_output = (if r = ''a'' then [4, 7] else [7, 4]), pk_finished = False\<rparr>),
     pw_sessions = [(''a'', open_session ''a'' ''s''), (''b'', open_session ''b'' ''s'')], pw_parked = [], pw_since = [],
     pw_running = [''a'', ''b'']\<rparr>"

lemma demo_parks: "\<exists>w'. park_silent_requests [7] (\<lambda>_. 0) LiveBatch demo_park = (Inr LiveBatch, w')"
  by (simp add: park_silent_requests_def demo_park_def should_park_def park_one_def ends_with_token_ids_def ctl_get_def
      open_session_def mark_waiting_def require_open_def demo_live_def)

theorem park_exact_witness:
  "\<exists>w'. park_silent_requests [7] (\<lambda>_. 0) LiveBatch demo_park = (Inr LiveBatch, w') \<and>
     set (pw_parked w') = {''a''} \<and> pw_running w' = [''b'']"
proof -
  obtain w' where w': "park_silent_requests [7] (\<lambda>_. 0) LiveBatch demo_park = (Inr LiveBatch, w')" using demo_parks by blast
  have ok: "parking_ok demo_park" "pw_running demo_park = [''a'', ''b'']" "pw_parked demo_park = []"
    by (simp_all add: parking_ok_def demo_park_def)
  define parks where "parks = (\<lambda>r. (\<exists>s. pk_state (pw_req demo_park r) = Some s) \<and>
      (\<exists>ses. ctl_get (pw_sessions demo_park) r = Some ses \<and> pending_events ses = [] \<and> \<not> final_received ses) \<and>
      \<not> pk_finished (pw_req demo_park r) \<and> pk_output (pw_req demo_park r) \<noteq> [] \<and> (\<exists>before. before @ [7] = pk_output (pw_req demo_park r)))"
  have sp: "parks ''a''" "\<not> parks ''b''"
    by (simp_all add: parks_def demo_park_def ctl_get_def open_session_def Cons_eq_append_conv)
  have "set (pw_parked w') = set (pw_parked demo_park) \<union> {r \<in> set [''a'', ''b'']. parks r} \<and>
    pw_running w' = filter (\<lambda>r. \<not> (r \<in> set [''a'', ''b''] \<and> parks r)) (pw_running demo_park)"
    using park_exact [OF w' ok(1), of "[''a'', ''b'']", OF _ _ parks_def] ok(2) by (simp only: processed_batch.case distinct.simps) simp
  with w' ok sp show ?thesis by auto
qed

end
