(* ===== verification/Request_Admission.thy ===== *)
theory Request_Admission
  imports Prelude
begin

section \<open>Admission of requests to a stage's scheduler\<close>

text \<open>
  Models the path of a request through \<open>scheduling/omni_scheduler.py\<close> from the inbox to the waiting
  queue: staging with a bounded number of builds and a bounded backlog, builds on worker threads,
  admissions that wait for a future, stream chunks and updates that arrive before the request
  exists, aborts and completion.  The model is of \<open>OmniScheduler\<close> itself, whose
  \<open>_is_request_build_ready\<close> always holds, so no payload is ever deferred.  What worker threads and
  futures answer is a parameter, as is SGLang's check of a request's length; a request carries the
  id of its payload.  Requests in SGLang's batches are one list, and the data of a request is the
  list of items handed to its stream handlers.
\<close>

definition ABORTED_REQUEST_ID_LIMIT :: nat where "ABORTED_REQUEST_ID_LIMIT = 10000"
definition ABORTED_REQUEST_ID_RETAINED :: nat where "ABORTED_REQUEST_ID_RETAINED = 5000"
definition COMPLETED_REQUEST_ID_LIMIT :: nat where "COMPLETED_REQUEST_ID_LIMIT = 10000"
definition PENDING_STREAM_REQUEST_LIMIT :: nat where "PENDING_STREAM_REQUEST_LIMIT = 10000"
definition PENDING_STREAM_REQUEST_RETAINED :: nat where "PENDING_STREAM_REQUEST_RETAINED = 5000"
definition PENDING_REQUEST_UPDATE_LIMIT :: nat where "PENDING_REQUEST_UPDATE_LIMIT = 10000"
definition PENDING_REQUEST_UPDATE_RETAINED :: nat where "PENDING_REQUEST_UPDATE_RETAINED = 5000"

datatype ('c, 'u) item = Chunk 'c | StreamDone | Update 'u

record 'c payload =
  pa_id :: string
  pa_chunks :: "'c list"
  pa_done :: bool

record ('c, 'u) request =
  rq_id :: string
  rq_data :: "('c, 'u) item list option"
  rq_over :: bool

datatype ('c, 'u) message =
  NewRequest "'c payload" | MsgChunk 'c | MsgDone | MsgUpdate 'u | MsgAbort bool

record ('c, 'u) omni =
  om_inbox :: "(string \<times> ('c, 'u) message) list"
  om_received :: "'c payload list"
  om_backlog :: "'c payload list"
  om_builds :: "(string, 'c payload \<times> bool) dict"
  om_admissions :: "(string, 'c payload \<times> bool) dict"
  om_ingress :: "(string, 'c list \<times> bool) dict"
  om_updates :: "(string, 'u list) dict"
  om_waiting :: "('c, 'u) request list"
  om_batches :: "('c, 'u) request list"
  om_aborted :: "string list"
  om_completed :: "string list"
  om_errors :: "string list"

text \<open>Workers above one give an executor; \<open>max_queued_requests\<close> of zero leaves the backlog unbounded.\<close>

record omni_config =
  oc_executor :: bool
  oc_max_pending :: nat
  oc_backlog_limit :: "nat option"

definition omni_config_of :: "int \<Rightarrow> int option \<Rightarrow> int \<Rightarrow> omni_config" where
  "omni_config_of workers max_pending max_queued =
     (if workers > 1
      then let pending = max 1 (case max_pending of None \<Rightarrow> workers | Some n \<Rightarrow> n) in
        \<lparr>oc_executor = True, oc_max_pending = nat pending,
         oc_backlog_limit = (if max_queued > 0 then Some (nat (max pending max_queued)) else None)\<rparr>
      else \<lparr>oc_executor = False, oc_max_pending = 0, oc_backlog_limit = Some 0\<rparr>)"

text \<open>What happens outside: the builder's result for a payload, whether its worker has finished, the
  state of the future an admission waits for, and the length checks.\<close>

datatype build_result = BuildFails | BuildsRequest | BuildsDeferred
datatype ready_result = NotReady | ReadyFails | IsReady

record 'c outside =
  ou_build :: "'c payload \<Rightarrow> build_result"
  ou_done :: "string \<Rightarrow> bool"
  ou_ready :: "string \<Rightarrow> ready_result"
  ou_fits :: "string \<Rightarrow> bool"

definition request_kv_fits :: "nat \<Rightarrow> int option \<Rightarrow> int \<Rightarrow> bool" where
  "request_kv_fits input_len max_new capacity \<longleftrightarrow> int input_len + (case max_new of None \<Rightarrow> 0 | Some n \<Rightarrow> n) \<le> capacity"

subsection \<open>Lookup and bookkeeping\<close>

text \<open>The first request of the id in the batches, then in the waiting queue; its data may be gone.\<close>

definition find_request :: "('c, 'u) omni \<Rightarrow> string \<Rightarrow> ('c, 'u) request option" where
  "find_request s r = List.find (\<lambda>q. rq_id q = r) (om_batches s @ om_waiting s)"

definition find_request_data :: "('c, 'u) omni \<Rightarrow> string \<Rightarrow> ('c, 'u) item list option" where
  "find_request_data s r = (case find_request s r of None \<Rightarrow> None | Some q \<Rightarrow> rq_data q)"

text \<open>An item handed to the data object that the lookup found.\<close>

fun hand_over :: "string \<Rightarrow> ('c, 'u) item list \<Rightarrow> ('c, 'u) request list \<Rightarrow> ('c, 'u) request list" where
  "hand_over r xs [] = []"
| "hand_over r xs (q # qs) =
     (if rq_id q = r then q\<lparr>rq_data := map_option (\<lambda>d. d @ xs) (rq_data q)\<rparr> # qs else q # hand_over r xs qs)"

definition append_item :: "string \<Rightarrow> ('c, 'u) item \<Rightarrow> ('c, 'u) omni \<Rightarrow> ('c, 'u) omni" where
  "append_item r x s =
     (if List.find (\<lambda>q. rq_id q = r) (om_batches s) \<noteq> None
      then s\<lparr>om_batches := hand_over r [x] (om_batches s)\<rparr>
      else s\<lparr>om_waiting := hand_over r [x] (om_waiting s)\<rparr>)"

definition reserve_pending :: "nat \<Rightarrow> nat \<Rightarrow> string \<Rightarrow> (string, 'v) dict \<Rightarrow> (string, 'v) dict" where
  "reserve_pending limit retained r d =
     (if dict_get d r \<noteq> None \<or> length d < limit then d else drop (length d - retained + 1) d)"

definition ingress_of :: "('c, 'u) omni \<Rightarrow> string \<Rightarrow> 'c list \<times> bool" where
  "ingress_of s r = (case dict_get (om_ingress s) r of None \<Rightarrow> ([], False) | Some e \<Rightarrow> e)"

definition reserve_pending_stream_request :: "string \<Rightarrow> ('c, 'u) omni \<Rightarrow> ('c, 'u) omni" where
  "reserve_pending_stream_request r s =
     s\<lparr>om_ingress := reserve_pending PENDING_STREAM_REQUEST_LIMIT PENDING_STREAM_REQUEST_RETAINED r (om_ingress s)\<rparr>"

definition on_stream_chunk :: "string \<Rightarrow> 'c \<Rightarrow> ('c, 'u) omni \<Rightarrow> ('c, 'u) omni" where
  "on_stream_chunk r c s =
     (if r \<in> set (om_completed s) then s
      else if find_request_data s r \<noteq> None then append_item r (Chunk c) s
      else let s1 = reserve_pending_stream_request r s; (cs, d) = ingress_of s1 r in
        s1\<lparr>om_ingress := dict_set (om_ingress s1) r (cs @ [c], d)\<rparr>)"

definition on_stream_done :: "string \<Rightarrow> ('c, 'u) omni \<Rightarrow> ('c, 'u) omni" where
  "on_stream_done r s =
     (if r \<in> set (om_completed s) then s
      else if find_request_data s r \<noteq> None then append_item r StreamDone s
      else let s1 = reserve_pending_stream_request r s; (cs, d) = ingress_of s1 r in
        s1\<lparr>om_ingress := dict_set (om_ingress s1) r (cs, True)\<rparr>)"

definition on_request_update :: "string \<Rightarrow> 'u \<Rightarrow> ('c, 'u) omni \<Rightarrow> ('c, 'u) omni" where
  "on_request_update r u s =
     (if r \<in> set (om_completed s) then s
      else if find_request_data s r \<noteq> None then append_item r (Update u) s
      else let d = reserve_pending PENDING_REQUEST_UPDATE_LIMIT PENDING_REQUEST_UPDATE_RETAINED r (om_updates s) in
        s\<lparr>om_updates := dict_set d r ((case dict_get d r of None \<Rightarrow> [] | Some us \<Rightarrow> us) @ [u])\<rparr>)"

subsection \<open>Abort and completion\<close>

definition remember_aborted :: "string \<Rightarrow> string list \<Rightarrow> string list" where
  "remember_aborted r ids =
     (if r \<in> set ids then ids
      else (if ABORTED_REQUEST_ID_LIMIT \<le> length ids
            then drop (length ids - (ABORTED_REQUEST_ID_RETAINED - 1)) ids else ids) @ [r])"

text \<open>\<open>_mark_running_request_aborted\<close>: a request of a batch that is not over is left to SGLang to end;
  \<open>rq_over\<close> stands for finished or retracted, and for a claimed terminal output whose data is gone.\<close>

definition mark_running :: "string \<Rightarrow> ('c, 'u) omni \<Rightarrow> bool" where
  "mark_running r s \<longleftrightarrow> (\<exists>q \<in> set (om_batches s). rq_id q = r \<and> \<not> rq_over q)"

definition abort_request :: "string \<Rightarrow> bool \<Rightarrow> ('c, 'u) omni \<Rightarrow> ('c, 'u) omni" where
  "abort_request r defer s =
     (let running = defer \<and> mark_running r s in
      s\<lparr>om_aborted := remember_aborted r (om_aborted s), om_builds := dict_pop (om_builds s) r,
        om_admissions := dict_pop (om_admissions s) r, om_backlog := filter (\<lambda>p. pa_id p \<noteq> r) (om_backlog s),
        om_waiting := filter (\<lambda>q. rq_id q \<noteq> r) (om_waiting s), om_ingress := dict_pop (om_ingress s) r,
        om_updates := dict_pop (om_updates s) r,
        om_batches := (if running then om_batches s else filter (\<lambda>q. rq_id q \<noteq> r) (om_batches s)),
        om_inbox := filter (\<lambda>m. fst m \<noteq> r) (om_inbox s)\<rparr>)"

definition fail_admission :: "string \<Rightarrow> ('c, 'u) omni \<Rightarrow> ('c, 'u) omni" where
  "fail_admission r s = abort_request r True (s\<lparr>om_errors := om_errors s @ [r]\<rparr>)"

definition remember_completed :: "string \<Rightarrow> ('c, 'u) omni \<Rightarrow> ('c, 'u) omni" where
  "remember_completed r s =
     (if r \<in> set (om_completed s) then s
      else s\<lparr>om_completed := (if COMPLETED_REQUEST_ID_LIMIT \<le> length (om_completed s) then tl (om_completed s)
                              else om_completed s) @ [r],
             om_ingress := dict_pop (om_ingress s) r, om_updates := dict_pop (om_updates s) r\<rparr>)"

definition detach :: "string \<Rightarrow> ('c, 'u) request list \<Rightarrow> ('c, 'u) request list" where
  "detach r = map (\<lambda>q. if rq_id q = r then q\<lparr>rq_data := None, rq_over := True\<rparr> else q)"

definition close_completed :: "string \<Rightarrow> ('c, 'u) omni \<Rightarrow> ('c, 'u) omni" where
  "close_completed r s = remember_completed r (s\<lparr>om_batches := detach r (om_batches s)\<rparr>)"

subsection \<open>Building and enqueueing\<close>

definition initial_items :: "'c payload \<Rightarrow> 'u list \<Rightarrow> ('c, 'u) item list" where
  "initial_items p us = map Chunk (pa_chunks p) @ (if pa_done p then [StreamDone] else []) @ map Update us"

definition enqueue_built :: "'c outside \<Rightarrow> 'c payload \<Rightarrow> bool \<Rightarrow> ('c, 'u) omni \<Rightarrow> ('c, 'u) omni" where
  "enqueue_built o' p pdone s =
     (let r = pa_id p in
      if \<not> ou_fits o' r then fail_admission r s
      else let us = (case dict_get (om_updates s) r of None \<Rightarrow> [] | Some us \<Rightarrow> us);
               (cs, d) = ingress_of s r;
               items = initial_items p us @ map Chunk cs @ (if d \<and> \<not> pdone then [StreamDone] else []);
               s1 = s\<lparr>om_updates := dict_pop (om_updates s) r, om_ingress := dict_pop (om_ingress s) r\<rparr> in
        if r \<in> set (om_aborted s1) then s1
        else s1\<lparr>om_waiting := om_waiting s1 @ [\<lparr>rq_id = r, rq_data = Some items, rq_over = False\<rparr>]\<rparr>)"

text \<open>A payload whose build has a result: directly, or once the future it waits for is ready.\<close>

definition admit_ready :: "'c outside \<Rightarrow> 'c payload \<Rightarrow> bool \<Rightarrow> ('c, 'u) omni \<Rightarrow> ('c, 'u) omni" where
  "admit_ready o' p pdone s =
     (if pa_id p \<in> set (om_aborted s) then s
      else case ou_ready o' (pa_id p) of
        NotReady \<Rightarrow> s\<lparr>om_admissions := dict_set (om_admissions s) (pa_id p) (p, pdone)\<rparr>
      | ReadyFails \<Rightarrow> fail_admission (pa_id p) s
      | IsReady \<Rightarrow> enqueue_built o' p pdone s)"

definition admit_or_defer :: "'c outside \<Rightarrow> 'c payload \<Rightarrow> bool \<Rightarrow> ('c, 'u) omni \<Rightarrow> ('c, 'u) omni" where
  "admit_or_defer o' p pdone s =
     (case ou_build o' p of
        BuildFails \<Rightarrow> fail_admission (pa_id p) s
      | BuildsRequest \<Rightarrow> enqueue_built o' p pdone s
      | BuildsDeferred \<Rightarrow> admit_ready o' p pdone s)"

text \<open>\<open>_drain_request_build_results\<close>: from the oldest build on, as long as its worker has finished.
  Every round removes the first entry, so their number is fuel enough.\<close>

fun drain_builds_fuel :: "nat \<Rightarrow> 'c outside \<Rightarrow> ('c, 'u) omni \<Rightarrow> ('c, 'u) omni" where
  "drain_builds_fuel 0 o' s = s"
| "drain_builds_fuel (Suc n) o' s =
     (case om_builds s of
        [] \<Rightarrow> s
      | (r, p, pdone) # _ \<Rightarrow>
          if \<not> ou_done o' r then s
          else let s1 = s\<lparr>om_builds := dict_pop (om_builds s) r\<rparr> in
            drain_builds_fuel n o' (if r \<in> set (om_aborted s1) then s1 else admit_or_defer o' p pdone s1))"

definition drain_builds :: "'c outside \<Rightarrow> ('c, 'u) omni \<Rightarrow> ('c, 'u) omni" where
  "drain_builds o' s = drain_builds_fuel (length (om_builds s)) o' s"

fun drain_admissions_loop :: "'c outside \<Rightarrow> string list \<Rightarrow> ('c, 'u) omni \<Rightarrow> ('c, 'u) omni" where
  "drain_admissions_loop o' [] s = s"
| "drain_admissions_loop o' (r # rs) s =
     (case dict_get (om_admissions s) r of
        None \<Rightarrow> drain_admissions_loop o' rs s
      | Some (p, pdone) \<Rightarrow>
          let s1 = s\<lparr>om_admissions := dict_pop (om_admissions s) r\<rparr> in
          drain_admissions_loop o' rs (if r \<in> set (om_aborted s1) then s1 else admit_ready o' p pdone s1))"

definition drain_admissions :: "'c outside \<Rightarrow> ('c, 'u) omni \<Rightarrow> ('c, 'u) omni" where
  "drain_admissions o' s =
     drain_admissions_loop o' (filter (\<lambda>r. ou_ready o' r \<noteq> NotReady) (map fst (om_admissions s))) s"

subsection \<open>Staging\<close>

definition known :: "('c, 'u) omni \<Rightarrow> string \<Rightarrow> bool" where
  "known s r \<longleftrightarrow> r \<in> set (om_aborted s) \<or> dict_get (om_builds s) r \<noteq> None \<or> dict_get (om_admissions s) r \<noteq> None"

text \<open>First loop: payloads leave the backlog while there is capacity; the selected ones, what remains
  of the capacity and of the backlog.\<close>

fun take_backlog :: "(string \<Rightarrow> bool) \<Rightarrow> nat \<Rightarrow> 'c payload list \<Rightarrow> 'c payload list \<times> nat \<times> 'c payload list" where
  "take_backlog known_id capacity [] = ([], capacity, [])"
| "take_backlog known_id 0 (p # ps) = ([], 0, p # ps)"
| "take_backlog known_id (Suc n) (p # ps) =
     (if known_id (pa_id p) then take_backlog known_id (Suc n) ps
      else let (sel, capacity, rest) = take_backlog known_id n ps in (p # sel, capacity, rest))"

text \<open>Second loop: the payloads just received are selected, put into the backlog or rejected.\<close>

fun stage_received ::
    "(string \<Rightarrow> bool) \<Rightarrow> nat option \<Rightarrow> nat \<Rightarrow> 'c payload list \<Rightarrow> 'c payload list \<Rightarrow> 'c payload list \<Rightarrow>
     'c payload list \<times> 'c payload list \<times> 'c payload list" where
  "stage_received known_id limit capacity sel backlog [] = (sel, backlog, [])"
| "stage_received known_id limit capacity sel backlog (p # ps) =
     (if known_id (pa_id p) \<or> pa_id p \<in> pa_id ` set backlog \<or> pa_id p \<in> pa_id ` set sel
      then stage_received known_id limit capacity sel backlog ps
      else if 0 < capacity then stage_received known_id limit (capacity - 1) (sel @ [p]) backlog ps
      else if (case limit of None \<Rightarrow> False | Some n \<Rightarrow> n \<le> length backlog)
      then let (sel', backlog', rejected) = stage_received known_id limit capacity sel backlog ps in
        (sel', backlog', p # rejected)
      else stage_received known_id limit capacity sel (backlog @ [p]) ps)"

definition stage_payloads ::
    "omni_config \<Rightarrow> 'c payload list \<Rightarrow> ('c, 'u) omni \<Rightarrow> 'c payload list \<times> 'c payload list \<times> ('c, 'u) omni" where
  "stage_payloads c received s =
     (if \<not> oc_executor c then (received, [], s)
      else let (sel, capacity, rest) = take_backlog (known s) (oc_max_pending c - length (om_builds s)) (om_backlog s);
               (sel', backlog, rejected) = stage_received (known s) (oc_backlog_limit c) capacity sel rest received in
        (sel', rejected, s\<lparr>om_backlog := backlog\<rparr>))"

text \<open>One selected payload: the chunks buffered for it move onto it, then it is built.\<close>

definition take_ingress :: "'c payload \<Rightarrow> ('c, 'u) omni \<Rightarrow> 'c payload \<times> bool \<times> ('c, 'u) omni" where
  "take_ingress p s =
     (let (cs, d) = ingress_of s (pa_id p) in
      (p\<lparr>pa_chunks := pa_chunks p @ cs, pa_done := d\<rparr>, d,
       if cs = [] then s else s\<lparr>om_ingress := dict_set (om_ingress s) (pa_id p) ([], d)\<rparr>))"

definition process_payload :: "omni_config \<Rightarrow> 'c outside \<Rightarrow> 'c payload \<Rightarrow> ('c, 'u) omni \<Rightarrow> ('c, 'u) omni" where
  "process_payload c o' p0 s =
     (if known s (pa_id p0) then s
      else let (p, pdone, s1) = take_ingress p0 s in
        if oc_executor c then s1\<lparr>om_builds := dict_set (om_builds s1) (pa_id p) (p, pdone)\<rparr>
        else admit_or_defer o' p pdone s1)"

definition process_input_requests :: "omni_config \<Rightarrow> 'c outside \<Rightarrow> ('c, 'u) omni \<Rightarrow> ('c, 'u) omni" where
  "process_input_requests c o' s0 =
     (let s = drain_builds o' (drain_admissions o' (s0\<lparr>om_received := []\<rparr>));
          (selected, rejected, s1) = stage_payloads c (om_received s0) s;
          s2 = fold (\<lambda>p. fail_admission (pa_id p)) rejected s1;
          s3 = fold (process_payload c o') selected s2 in
      drain_admissions o' (drain_builds o' s3))"

subsection \<open>The inbox\<close>

definition handle_message :: "string \<Rightarrow> ('c, 'u) message \<Rightarrow> ('c, 'u) omni \<Rightarrow> ('c, 'u) omni" where
  "handle_message r m s =
     (if r \<in> set (om_aborted s) then s
      else case m of
        NewRequest p \<Rightarrow> s\<lparr>om_completed := removeAll r (om_completed s), om_received := om_received s @ [p]\<rparr>
      | MsgChunk x \<Rightarrow> on_stream_chunk r x s
      | MsgDone \<Rightarrow> on_stream_done r s
      | MsgUpdate u \<Rightarrow> on_request_update r u s
      | MsgAbort defer \<Rightarrow> abort_request r defer s)"

definition recv_requests :: "('c, 'u) omni \<Rightarrow> ('c, 'u) omni" where
  "recv_requests s = fold (\<lambda>(r, m). handle_message r m) (om_inbox s) (s\<lparr>om_inbox := []\<rparr>)"

end
