(* ===== verification/Request_Admission_Props.thy ===== *)
theory Request_Admission_Props
  imports Request_Admission "HOL-Library.Multiset"
begin

section \<open>Properties of request admission\<close>

subsection \<open>The invariant\<close>

text \<open>Items of the stream, without the updates; what is buffered for an id.\<close>

definition stream_of :: "('c, 'u) item list \<Rightarrow> ('c, 'u) item list" where
  "stream_of = filter (\<lambda>x. case x of Update _ \<Rightarrow> False | _ \<Rightarrow> True)"

lemma stream_of_simps [simp]:
  "stream_of (xs @ ys) = stream_of xs @ stream_of ys" "stream_of (map Chunk cs) = map Chunk cs"
  "stream_of (map Update us) = []" "stream_of [] = []" "stream_of (Chunk c # xs) = Chunk c # stream_of xs"
  "stream_of (StreamDone # xs) = StreamDone # stream_of xs" "stream_of (Update u # xs) = stream_of xs"
  by (auto simp: stream_of_def filter_map comp_def)

definition buffered :: "('c, 'u) omni \<Rightarrow> string \<Rightarrow> ('c, 'u) item list" where
  "buffered s r = map Chunk (fst (ingress_of s r)) @ (if snd (ingress_of s r) then [StreamDone] else [])"

text \<open>\<open>extra\<close> are payloads in the hands of the code that is running.\<close>

definition places :: "'c payload list \<Rightarrow> ('c, 'u) omni \<Rightarrow> 'c payload list" where
  "places extra s = extra @ om_backlog s @ map (fst \<circ> snd) (om_builds s) @ map (fst \<circ> snd) (om_admissions s)"

definition requests :: "('c, 'u) omni \<Rightarrow> ('c, 'u) request list" where
  "requests s = om_batches s @ om_waiting s"

definition ids :: "'c payload list \<Rightarrow> ('c, 'u) omni \<Rightarrow> string list" where
  "ids extra s = map pa_id (places extra s) @ map rq_id (requests s)"

definition staged_ok :: "('c, 'u) omni \<Rightarrow> 'c payload \<Rightarrow> bool \<Rightarrow> bool" where
  "staged_ok s p d \<longleftrightarrow> pa_done p = d \<and> (d \<longrightarrow> ingress_of s (pa_id p) = ([], True))"

definition request_ok :: "('c, 'u) omni \<Rightarrow> (string \<Rightarrow> ('c, 'u) item list) \<Rightarrow> ('c, 'u) request \<Rightarrow> bool" where
  "request_ok s L q \<longleftrightarrow>
     (\<not> rq_over q \<longrightarrow> rq_data q \<noteq> None) \<and>
     (case rq_data q of Some d \<Rightarrow> stream_of d = L (rq_id q) | None \<Rightarrow> L (rq_id q) = buffered s (rq_id q))"

definition omni_ok :: "'c payload list \<Rightarrow> ('c, 'u) omni \<Rightarrow> (string \<Rightarrow> ('c, 'u) item list) \<Rightarrow> bool" where
  "omni_ok extra s L \<longleftrightarrow>
     distinct (ids extra s) \<and>
     (\<forall>(k, p, d) \<in> set (om_builds s @ om_admissions s). k = pa_id p \<and> staged_ok s p d) \<and>
     (\<forall>r \<in> set (om_aborted s). r \<notin> pa_id ` set (om_backlog s) \<union> fst ` set (om_builds s) \<union> fst ` set (om_admissions s)
        \<union> rq_id ` set (om_waiting s)) \<and>
     (\<forall>p \<in> set (places extra s). L (pa_id p) = map Chunk (pa_chunks p) @ buffered s (pa_id p)) \<and>
     (\<forall>q \<in> set (requests s). request_ok s L q)"

lemma set_remember_aborted: "set (remember_aborted r xs) \<subseteq> insert r (set xs)"
  by (auto simp: remember_aborted_def dest: in_set_dropD)

lemma ingress_pop: "dict_get (dict_pop (om_ingress s) r) x = (if x = r then None else dict_get (om_ingress s) x)"
  by simp

lemma distinct_sub_mset: "mset ys \<subseteq># mset xs \<Longrightarrow> distinct xs \<Longrightarrow> distinct ys"
proof -
  assume s: "mset ys \<subseteq># mset xs" and d: "distinct xs"
  have "count (mset ys) a = (if a \<in> set ys then 1 else 0)" for a
  proof (cases "a \<in> set ys")
    case True
    then have "0 < count (mset ys) a" by simp
    moreover have "count (mset ys) a \<le> count (mset xs) a" using s by (rule mset_subset_eq_count)
    moreover have "count (mset xs) a \<le> 1" using d by (simp add: distinct_count_atmost_1)
    ultimately have "count (mset ys) a = 1" by linarith
    with True show ?thesis by simp
  qed (simp add: count_eq_zero_iff)
  then show "distinct ys" by (simp add: distinct_count_atmost_1)
qed

lemma mset_map_filter_sub: "mset (map f (filter P xs)) \<subseteq># mset (map f xs)"
  by (simp add: image_mset_subseteq_mono)

lemma dict_set_fresh: "dict_get d k = None \<Longrightarrow> dict_set d k v = d @ [(k, v)]"
  by (induction d k v rule: dict_set.induct) (auto split: if_splits)

lemma dict_take: "dict_get d k = Some v \<Longrightarrow> add_mset (f (k, v)) (mset (map f (dict_pop d k))) \<subseteq># mset (map f d)"
proof (induction d)
  case (Cons e d)
  obtain k' v' where e: "e = (k', v')" by (cases e)
  show ?case
  proof (cases "k' = k")
    case True
    with Cons(2) e have "v' = v" by simp
    with True e show ?thesis by (simp add: dict_pop_def image_mset_subseteq_mono)
  next
    case False
    with Cons e have "add_mset (f (k, v)) (mset (map f (dict_pop d k))) \<subseteq># mset (map f d)" by simp
    with False e show ?thesis by (simp add: dict_pop_def add_mset_commute [of "f (k, v)"])
  qed
qed simp

lemma dict_get_mem: "dict_get d k = Some v \<Longrightarrow> (k, v) \<in> set d"
  by (auto simp: dict_get_def dest: map_of_SomeD)

lemma dict_get_None_iff: "dict_get d k = None \<longleftrightarrow> k \<notin> fst ` set d"
  by (simp add: dict_get_def map_of_eq_None_iff)

lemma ids_mset:
  "mset (ids extra s) = mset (map pa_id extra) + mset (map pa_id (om_backlog s)) + mset (map (pa_id \<circ> fst \<circ> snd) (om_builds s))
     + mset (map (pa_id \<circ> fst \<circ> snd) (om_admissions s)) + mset (map rq_id (om_batches s)) + mset (map rq_id (om_waiting s))"
  by (simp add: ids_def places_def requests_def image_mset.compositionality comp_assoc ac_simps flip: map_map)

lemma omni_okD:
  assumes "omni_ok extra s L"
  shows "distinct (ids extra s)"
    "(k, p, d) \<in> set (om_builds s @ om_admissions s) \<Longrightarrow> k = pa_id p \<and> staged_ok s p d"
    "r \<in> set (om_aborted s) \<Longrightarrow> r \<notin> pa_id ` set (om_backlog s) \<union> fst ` set (om_builds s) \<union> fst ` set (om_admissions s)
        \<union> rq_id ` set (om_waiting s)"
    "p' \<in> set (places extra s) \<Longrightarrow> L (pa_id p') = map Chunk (pa_chunks p') @ buffered s (pa_id p')"
    "q \<in> set (requests s) \<Longrightarrow> request_ok s L q"
proof -
  note a = assms [unfolded omni_ok_def]
  show "distinct (ids extra s)" using a by (rule conjunct1)
  show "(k, p, d) \<in> set (om_builds s @ om_admissions s) \<Longrightarrow> k = pa_id p \<and> staged_ok s p d"
    using bspec [OF a [THEN conjunct2, THEN conjunct1], of "(k, p, d)"] by simp
  show "r \<in> set (om_aborted s) \<Longrightarrow> r \<notin> pa_id ` set (om_backlog s) \<union> fst ` set (om_builds s) \<union> fst ` set (om_admissions s)
        \<union> rq_id ` set (om_waiting s)"
    using bspec [OF a [THEN conjunct2, THEN conjunct2, THEN conjunct1]] .
  show "p' \<in> set (places extra s) \<Longrightarrow> L (pa_id p') = map Chunk (pa_chunks p') @ buffered s (pa_id p')"
    using bspec [OF a [THEN conjunct2, THEN conjunct2, THEN conjunct2, THEN conjunct1]] .
  show "q \<in> set (requests s) \<Longrightarrow> request_ok s L q"
    using bspec [OF a [THEN conjunct2, THEN conjunct2, THEN conjunct2, THEN conjunct2]] .
qed

lemma omni_okI:
  assumes "distinct (ids extra s)"
    "\<And>k p d. (k, p, d) \<in> set (om_builds s @ om_admissions s) \<Longrightarrow> k = pa_id p \<and> staged_ok s p d"
    "\<And>r. r \<in> set (om_aborted s) \<Longrightarrow> r \<notin> pa_id ` set (om_backlog s) \<union> fst ` set (om_builds s) \<union> fst ` set (om_admissions s)
        \<union> rq_id ` set (om_waiting s)"
    "\<And>p. p \<in> set (places extra s) \<Longrightarrow> L (pa_id p) = map Chunk (pa_chunks p) @ buffered s (pa_id p)"
    "\<And>q. q \<in> set (requests s) \<Longrightarrow> request_ok s L q"
  shows "omni_ok extra s L"
  unfolding omni_ok_def
  by (intro conjI ballI; (rule assms; assumption)?) (clarify, rule assms(2), assumption)

lemma omni_ok_shrink:
  assumes ok: "omni_ok extra s L"
    and ids: "mset (ids extra' s') \<subseteq># mset (ids extra s)"
    and sub: "set (places extra' s') \<subseteq> set (places extra s)" "set (requests s') \<subseteq> set (requests s)"
      "set (om_builds s' @ om_admissions s') \<subseteq> set (om_builds s @ om_admissions s)"
    and ing: "\<forall>r \<in> set (ids extra' s'). ingress_of s' r = ingress_of s r"
    and ab: "\<forall>r \<in> set (om_aborted s'). r \<notin> pa_id ` set (om_backlog s') \<union> fst ` set (om_builds s') \<union> fst ` set (om_admissions s')
        \<union> rq_id ` set (om_waiting s')"
  shows "omni_ok extra' s' L"
proof -
  have P: "pa_id p \<in> set (ids extra' s')" if "p \<in> set (places extra' s')" for p using that by (simp add: ids_def)
  have Q: "rq_id q \<in> set (ids extra' s')" if "q \<in> set (requests s')" for q using that by (simp add: ids_def)
  have B: "p \<in> set (places extra' s')" if "(k, p, d) \<in> set (om_builds s' @ om_admissions s')" for k p d
    using that by (force simp: places_def)
  show ?thesis
  proof (rule omni_okI)
    show "distinct (ids extra' s')" by (rule distinct_sub_mset [OF ids omni_okD(1) [OF ok]])
    fix k p d assume m: "(k, p, d) \<in> set (om_builds s' @ om_admissions s')"
    have "k = pa_id p \<and> staged_ok s p d" by (rule omni_okD(2) [OF ok]) (rule subsetD [OF sub(3) m])
    moreover have "ingress_of s' (pa_id p) = ingress_of s (pa_id p)" using ing P [OF B [OF m]] by blast
    ultimately show "k = pa_id p \<and> staged_ok s' p d" by (simp add: staged_ok_def)
  next
    fix r assume "r \<in> set (om_aborted s')"
    then show "r \<notin> pa_id ` set (om_backlog s') \<union> fst ` set (om_builds s') \<union> fst ` set (om_admissions s')
        \<union> rq_id ` set (om_waiting s')" by (rule bspec [OF ab])
  next
    fix p assume m: "p \<in> set (places extra' s')"
    have "L (pa_id p) = map Chunk (pa_chunks p) @ buffered s (pa_id p)"
      by (rule omni_okD(4) [OF ok subsetD [OF sub(1) m]])
    moreover have "ingress_of s' (pa_id p) = ingress_of s (pa_id p)" using ing P [OF m] by blast
    ultimately show "L (pa_id p) = map Chunk (pa_chunks p) @ buffered s' (pa_id p)" by (simp add: buffered_def)
  next
    fix q assume m: "q \<in> set (requests s')"
    have "request_ok s L q" by (rule omni_okD(5) [OF ok subsetD [OF sub(2) m]])
    moreover have "ingress_of s' (rq_id q) = ingress_of s (rq_id q)" using ing Q [OF m] by blast
    ultimately show "request_ok s' L q" by (cases "rq_data q") (simp_all add: request_ok_def buffered_def)
  qed
qed

lemma abort_shrinks:
  assumes s'_def: "s' = abort_request r defer s"
  shows "mset (ids extra s') \<subseteq># mset (ids extra s)" "set (places extra s') \<subseteq> set (places extra s)"
    "set (requests s') \<subseteq> set (requests s)" "set (om_builds s' @ om_admissions s') \<subseteq> set (om_builds s @ om_admissions s)"
    "x \<noteq> r \<Longrightarrow> ingress_of s' x = ingress_of s x" "ingress_of s' r = ([], False)"
proof -
  have f: "om_backlog s' = filter (\<lambda>p. pa_id p \<noteq> r) (om_backlog s)" "om_builds s' = filter (\<lambda>(k', _). k' \<noteq> r) (om_builds s)"
    "om_admissions s' = filter (\<lambda>(k', _). k' \<noteq> r) (om_admissions s)" "om_waiting s' = filter (\<lambda>q. rq_id q \<noteq> r) (om_waiting s)"
    "om_batches s' = om_batches s \<or> om_batches s' = filter (\<lambda>q. rq_id q \<noteq> r) (om_batches s)"
    "om_ingress s' = dict_pop (om_ingress s) r"
    by (auto simp: s'_def abort_request_def Let_def dict_pop_def)
  have b: "mset (map rq_id (om_batches s')) \<subseteq># mset (map rq_id (om_batches s))" "set (om_batches s') \<subseteq> set (om_batches s)"
    using f(5) mset_map_filter_sub [of rq_id "\<lambda>q. rq_id q \<noteq> r" "om_batches s"] by auto
  show "mset (ids extra s') \<subseteq># mset (ids extra s)"
    unfolding ids_mset f(1-4)
    by (intro subset_mset.add_mono subset_mset.order_refl mset_map_filter_sub b(1))
  show "set (places extra s') \<subseteq> set (places extra s)" unfolding places_def f by auto
  show "set (requests s') \<subseteq> set (requests s)" using b(2) unfolding requests_def f(4) by auto
  show "set (om_builds s' @ om_admissions s') \<subseteq> set (om_builds s @ om_admissions s)" unfolding f by auto
  show "x \<noteq> r \<Longrightarrow> ingress_of s' x = ingress_of s x" "ingress_of s' r = ([], False)"
    by (simp_all add: ingress_of_def f(6))
qed

lemma abort_aborted:
  assumes ok: "omni_ok extra s L" and s'_def: "s' = abort_request r defer s"
  shows "\<forall>x \<in> set (om_aborted s'). x \<notin> pa_id ` set (om_backlog s') \<union> fst ` set (om_builds s') \<union> fst ` set (om_admissions s')
        \<union> rq_id ` set (om_waiting s')"
proof
  fix x assume "x \<in> set (om_aborted s')"
  then have "x = r \<or> x \<in> set (om_aborted s)"
    using set_remember_aborted [of r "om_aborted s"] by (auto simp: s'_def abort_request_def Let_def)
  then show "x \<notin> pa_id ` set (om_backlog s') \<union> fst ` set (om_builds s') \<union> fst ` set (om_admissions s') \<union> rq_id ` set (om_waiting s')"
  proof
    assume "x = r"
    then show ?thesis by (auto simp: s'_def abort_request_def Let_def dict_pop_def)
  next
    assume "x \<in> set (om_aborted s)"
    from omni_okD(3) [OF ok this] show ?thesis by (auto simp: s'_def abort_request_def Let_def dict_pop_def)
  qed
qed

lemma omni_ok_errors: "omni_ok extra (s\<lparr>om_errors := e\<rparr>) L = omni_ok extra s L"
proof -
  have i: "ingress_of (s\<lparr>om_errors := e\<rparr>) = ingress_of s" by (rule ext) (simp add: ingress_of_def)
  have b: "buffered (s\<lparr>om_errors := e\<rparr>) = buffered s" by (rule ext) (simp add: buffered_def i)
  have r: "request_ok (s\<lparr>om_errors := e\<rparr>) = request_ok s" "staged_ok (s\<lparr>om_errors := e\<rparr>) = staged_ok s"
    by (intro ext, simp only: request_ok_def b, intro ext, simp only: staged_ok_def i)
  have o: "ids extra (s\<lparr>om_errors := e\<rparr>) = ids extra s" "places extra (s\<lparr>om_errors := e\<rparr>) = places extra s"
    "requests (s\<lparr>om_errors := e\<rparr>) = requests s"
    by (simp_all add: ids_def places_def requests_def)
  show ?thesis unfolding omni_ok_def b r o by simp
qed

lemma fail_ok:
  assumes ok: "omni_ok extra s L" and r: "r \<notin> pa_id ` set extra" "r \<notin> rq_id ` set (om_batches s)"
  shows "omni_ok extra (fail_admission r s) L"
proof -
  have ok': "omni_ok extra (s\<lparr>om_errors := om_errors s @ [r]\<rparr>) L" using ok by (simp only: omni_ok_errors)
  let ?s = "s\<lparr>om_errors := om_errors s @ [r]\<rparr>"
  have k: "k = pa_id p" if "(k, p, d) \<in> set (om_builds s @ om_admissions s)" for k p d
    using omni_okD(2) [OF ok that] by blast
  have "r \<notin> set (ids extra (abort_request r True ?s))"
  proof -
    let ?a = "abort_request r True ?s"
    have l: "r \<notin> pa_id ` set (om_backlog ?a)" "r \<notin> rq_id ` set (om_waiting ?a)"
      by (auto simp: abort_request_def Let_def)
    have b: "set (om_batches ?a) \<subseteq> set (om_batches s)" by (simp add: abort_request_def Let_def)
    have "pa_id (fst (snd e)) \<noteq> r" if "e \<in> set (om_builds ?a @ om_admissions ?a)" for e
    proof -
      from that have "e \<in> set (om_builds s @ om_admissions s)" "fst e \<noteq> r"
        by (auto simp: abort_request_def Let_def dict_pop_def)
      with k [of "fst e" "fst (snd e)" "snd (snd e)"] show ?thesis by simp
    qed
    then have "r \<notin> (pa_id \<circ> (fst \<circ> snd)) ` set (om_builds ?a @ om_admissions ?a)" by auto
    with l b r show ?thesis by (auto simp: ids_def places_def requests_def image_Un)
  qed
  then have "\<forall>x \<in> set (ids extra (abort_request r True ?s)). ingress_of (abort_request r True ?s) x = ingress_of ?s x"
    by (intro ballI abort_shrinks(5) [OF refl]) blast
  then show ?thesis
    unfolding fail_admission_def
    by (intro omni_ok_shrink [OF ok'] abort_shrinks [OF refl] abort_aborted [OF ok' refl])
qed

lemma ids_Cons: "ids (p # extra) s = pa_id p # ids extra s" "places (p # extra) s = p # places extra s"
  by (simp_all add: ids_def places_def)

lemma drop_extra: "omni_ok (p # extra) s L \<Longrightarrow> omni_ok extra s L"
  by (rule omni_ok_shrink) (auto simp: ids_Cons dest: omni_okD(3))

lemma extra_fresh:
  assumes "omni_ok (p # extra) s L"
  shows "pa_id p \<notin> set (ids extra s)" "pa_id p \<notin> pa_id ` set extra" "pa_id p \<notin> rq_id ` set (om_batches s)"
    "pa_id p \<notin> fst ` set (om_builds s)" "pa_id p \<notin> fst ` set (om_admissions s)"
proof -
  show n: "pa_id p \<notin> set (ids extra s)" using omni_okD(1) [OF assms] by (simp add: ids_Cons)
  then show "pa_id p \<notin> pa_id ` set extra" "pa_id p \<notin> rq_id ` set (om_batches s)"
    by (auto simp: ids_def places_def requests_def)
  have "fst e = pa_id (fst (snd e)) \<and> fst (snd e) \<in> set (places extra s)" if "e \<in> set (om_builds s @ om_admissions s)" for e
    using omni_okD(2) [OF assms, of "fst e" "fst (snd e)" "snd (snd e)"] that by (auto simp: places_def)
  with n show "pa_id p \<notin> fst ` set (om_builds s)" "pa_id p \<notin> fst ` set (om_admissions s)"
    by (auto simp: ids_def)
qed

text \<open>A change that keeps every place and request and what is buffered for their ids, and adds one
  request or one staged payload for an id held before.\<close>

lemma request_ok_other:
  assumes "request_ok s L q" "ingress_of s' (rq_id q) = ingress_of s (rq_id q)"
  shows "request_ok s' L q"
  using assms by (cases "rq_data q") (simp_all add: request_ok_def buffered_def)

lemma enqueue_ok:
  assumes ok: "omni_ok (p # extra) s L" and st: "staged_ok s p pdone" and na: "pa_id p \<notin> set (om_aborted s)"
  shows "omni_ok extra (enqueue_built o' p pdone s) L"
proof (cases "ou_fits o' (pa_id p)")
  case False
  then show ?thesis
    by (simp add: enqueue_built_def fail_ok drop_extra [OF ok] extra_fresh [OF ok])
next
  case True
  define us where "us = (case dict_get (om_updates s) (pa_id p) of None \<Rightarrow> [] | Some us \<Rightarrow> us)"
  obtain cs d where cd: "ingress_of s (pa_id p) = (cs, d)" by fastforce
  define q where "q = \<lparr>rq_id = pa_id p, rq_data = Some (initial_items p us @ map Chunk cs @ (if d \<and> \<not> pdone then [StreamDone] else [])),
    rq_over = False\<rparr>"
  define s' where "s' = s\<lparr>om_updates := dict_pop (om_updates s) (pa_id p), om_ingress := dict_pop (om_ingress s) (pa_id p),
    om_waiting := om_waiting s @ [q]\<rparr>"
  have e: "enqueue_built o' p pdone s = s'"
    using True na by (simp add: enqueue_built_def Let_def cd s'_def q_def us_def)
  have f: "om_builds s' = om_builds s" "om_admissions s' = om_admissions s" "om_aborted s' = om_aborted s"
    "places extra s' = places extra s" "om_backlog s' = om_backlog s" "om_waiting s' = om_waiting s @ [q]"
    "requests s' = requests s @ [q]"
    by (simp_all add: s'_def places_def requests_def)
  have ing: "x \<noteq> pa_id p \<Longrightarrow> ingress_of s' x = ingress_of s x" for x by (simp add: ingress_of_def s'_def)
  note fresh = extra_fresh [OF ok]
  have other: "ingress_of s' x = ingress_of s x" if "x \<in> set (ids extra s)" for x
    by (rule ing) (use that fresh(1) in metis)
  show ?thesis
    unfolding e
  proof (rule omni_okI)
    show "distinct (ids extra s')"
      using omni_okD(1) [OF ok] by (auto simp: ids_Cons ids_def f q_def)
    fix k y b assume m: "(k, y, b) \<in> set (om_builds s' @ om_admissions s')"
    have "y \<in> set (places extra s)" using m by (force simp: places_def f)
    then have "ingress_of s' (pa_id y) = ingress_of s (pa_id y)" by (intro other) (simp add: ids_def)
    moreover have "k = pa_id y \<and> staged_ok s y b" by (rule omni_okD(2) [OF ok]) (use m f in simp)
    ultimately show "k = pa_id y \<and> staged_ok s' y b" by (simp add: staged_ok_def)
  next
    fix r assume "r \<in> set (om_aborted s')"
    then have r: "r \<in> set (om_aborted s)" by (simp add: f)
    with na have "r \<noteq> pa_id p" by blast
    with omni_okD(3) [OF ok r] show "r \<notin> pa_id ` set (om_backlog s') \<union> fst ` set (om_builds s') \<union> fst ` set (om_admissions s')
        \<union> rq_id ` set (om_waiting s')" unfolding f by (simp add: q_def)
  next
    fix y assume m: "y \<in> set (places extra s')"
    have "L (pa_id y) = map Chunk (pa_chunks y) @ buffered s (pa_id y)"
      by (rule omni_okD(4) [OF ok]) (use m f in \<open>simp add: ids_Cons\<close>)
    moreover have "ingress_of s' (pa_id y) = ingress_of s (pa_id y)" using m by (intro other) (simp add: ids_def f)
    ultimately show "L (pa_id y) = map Chunk (pa_chunks y) @ buffered s' (pa_id y)" by (simp add: buffered_def)
  next
    fix x assume "x \<in> set (requests s')"
    then consider "x \<in> set (requests s)" | "x = q" by (auto simp: f)
    then show "request_ok s' L x"
    proof cases
      case 1
      then show ?thesis by (intro request_ok_other [OF omni_okD(5) [OF ok 1]] other) (simp add: ids_def)
    next
      case 2
      have "L (pa_id p) = map Chunk (pa_chunks p) @ map Chunk cs @ (if d then [StreamDone] else [])"
        using omni_okD(4) [OF ok, of p] by (simp add: ids_Cons buffered_def cd)
      moreover have "pa_done p = pdone" "pdone \<Longrightarrow> cs = [] \<and> d" using st by (simp_all add: staged_ok_def cd)
      ultimately show ?thesis unfolding 2 by (cases pdone) (simp_all add: request_ok_def q_def initial_items_def)
    qed
  qed
qed

lemma omni_ok_move:
  assumes ok: "omni_ok extra s L"
    and ids: "mset (ids extra' s') \<subseteq># mset (ids extra s)"
    and sub: "set (places extra' s') \<subseteq> set (places extra s)" "set (requests s') \<subseteq> set (requests s)"
    and st: "\<And>k p d. (k, p, d) \<in> set (om_builds s' @ om_admissions s') \<Longrightarrow>
      (k, p, d) \<in> set (om_builds s @ om_admissions s) \<or> k = pa_id p \<and> staged_ok s p d"
    and ing: "om_ingress s' = om_ingress s"
    and ab: "\<And>r. r \<in> set (om_aborted s') \<Longrightarrow> r \<notin> pa_id ` set (om_backlog s') \<union> fst ` set (om_builds s') \<union> fst ` set (om_admissions s')
        \<union> rq_id ` set (om_waiting s')"
  shows "omni_ok extra' s' L"
proof (rule omni_okI)
  have i: "ingress_of s' = ingress_of s" "buffered s' = buffered s"
    by (rule ext, simp add: ingress_of_def ing, rule ext, simp add: buffered_def ingress_of_def ing)
  have o: "staged_ok s' = staged_ok s" "request_ok s' = request_ok s"
    by (intro ext, simp only: staged_ok_def i, intro ext, simp only: request_ok_def i)
  show "distinct (ids extra' s')" by (rule distinct_sub_mset [OF ids omni_okD(1) [OF ok]])
  fix k p d assume "(k, p, d) \<in> set (om_builds s' @ om_admissions s')"
  from st [OF this] omni_okD(2) [OF ok] show "k = pa_id p \<and> staged_ok s' p d" unfolding o by blast
next
  fix r assume "r \<in> set (om_aborted s')"
  then show "r \<notin> pa_id ` set (om_backlog s') \<union> fst ` set (om_builds s') \<union> fst ` set (om_admissions s')
        \<union> rq_id ` set (om_waiting s')" by (rule ab)
next
  have i: "buffered s' = buffered s" by (rule ext, simp add: buffered_def ingress_of_def ing)
  fix p assume m: "p \<in> set (places extra' s')"
  show "L (pa_id p) = map Chunk (pa_chunks p) @ buffered s' (pa_id p)"
    unfolding i by (rule omni_okD(4) [OF ok subsetD [OF sub(1) m]])
next
  have i: "ingress_of s' = ingress_of s" by (rule ext, simp add: ingress_of_def ing)
  fix q assume m: "q \<in> set (requests s')"
  show "request_ok s' L q" by (rule request_ok_other [OF omni_okD(5) [OF ok subsetD [OF sub(2) m]]]) (simp add: i)
qed

lemma dict_get_fresh: "k \<notin> fst ` set d \<Longrightarrow> dict_set d k v = d @ [(k, v)]"
  by (rule dict_set_fresh) (simp add: dict_get_None_iff)

lemma defer_ok:
  assumes ok: "omni_ok (p # extra) s L" and st: "staged_ok s p pdone" and na: "pa_id p \<notin> set (om_aborted s)"
  shows "omni_ok extra (s\<lparr>om_admissions := dict_set (om_admissions s) (pa_id p) (p, pdone)\<rparr>) L"
    "omni_ok extra (s\<lparr>om_builds := dict_set (om_builds s) (pa_id p) (p, pdone)\<rparr>) L"
proof -
  note d = dict_get_fresh [OF extra_fresh(5) [OF ok]] dict_get_fresh [OF extra_fresh(4) [OF ok]]
  show "omni_ok extra (s\<lparr>om_admissions := dict_set (om_admissions s) (pa_id p) (p, pdone)\<rparr>) L"
    using omni_okD(3) [OF ok] na st
    by (intro omni_ok_move [OF ok]) (auto simp: d ids_mset places_def requests_def)
  show "omni_ok extra (s\<lparr>om_builds := dict_set (om_builds s) (pa_id p) (p, pdone)\<rparr>) L"
    using omni_okD(3) [OF ok] na st
    by (intro omni_ok_move [OF ok]) (auto simp: d ids_mset places_def requests_def)
qed

lemma admit_ready_ok:
  assumes ok: "omni_ok (p # extra) s L" and st: "staged_ok s p pdone" and na: "pa_id p \<notin> set (om_aborted s)"
  shows "omni_ok extra (admit_ready o' p pdone s) L"
proof (cases "ou_ready o' (pa_id p)")
  case NotReady
  then show ?thesis using na defer_ok(1) [OF ok st na] by (simp add: admit_ready_def)
next
  case ReadyFails
  then show ?thesis
    using na fail_ok [OF drop_extra [OF ok] extra_fresh(2,3) [OF ok]] by (simp add: admit_ready_def)
next
  case IsReady
  then show ?thesis using na enqueue_ok [OF ok st na] by (simp add: admit_ready_def)
qed

lemma admit_or_defer_ok:
  assumes ok: "omni_ok (p # extra) s L" and st: "staged_ok s p pdone" and na: "pa_id p \<notin> set (om_aborted s)"
  shows "omni_ok extra (admit_or_defer o' p pdone s) L"
  using enqueue_ok [OF ok st na] admit_ready_ok [OF ok st na] fail_ok [OF drop_extra [OF ok] extra_fresh(2,3) [OF ok]]
  by (simp add: admit_or_defer_def split: build_result.split)

lemma take_build_ok:
  assumes ok: "omni_ok extra s L" and g: "dict_get (om_builds s) r = Some (p, d)"
  shows "omni_ok (p # extra) (s\<lparr>om_builds := dict_pop (om_builds s) r\<rparr>) L" (is "omni_ok _ ?s L")
    "staged_ok (s\<lparr>om_builds := dict_pop (om_builds s) r\<rparr>) p d" "pa_id p = r" "r \<notin> set (om_aborted s)"
proof -
  have m: "(r, p, d) \<in> set (om_builds s @ om_admissions s)" using dict_get_mem [OF g] by simp
  note k = omni_okD(2) [OF ok m]
  show "pa_id p = r" using k by simp
  show "staged_ok ?s p d" using k by (simp add: staged_ok_def ingress_of_def)
  have "r \<in> fst ` set (om_builds s)" using dict_get_mem [OF g] by force
  then show "r \<notin> set (om_aborted s)" using omni_okD(3) [OF ok] by blast
  have t: "add_mset (pa_id p) (mset (map (pa_id \<circ> fst \<circ> snd) (dict_pop (om_builds s) r))) \<subseteq># mset (map (pa_id \<circ> fst \<circ> snd) (om_builds s))"
    using dict_take [OF g, of "pa_id \<circ> fst \<circ> snd"] by simp
  show "omni_ok (p # extra) ?s L"
  proof (rule omni_ok_move [OF ok])
    show "mset (ids (p # extra) ?s) \<subseteq># mset (ids extra s)"
      using t by (simp add: ids_mset)
    show "set (places (p # extra) ?s) \<subseteq> set (places extra s)"
      using dict_get_mem [OF g] by (force simp: places_def dict_pop_def)
  qed (use omni_okD(3) [OF ok] in \<open>auto simp: requests_def dict_pop_def\<close>)
qed

lemma take_admission_ok:
  assumes ok: "omni_ok extra s L" and g: "dict_get (om_admissions s) r = Some (p, d)"
  shows "omni_ok (p # extra) (s\<lparr>om_admissions := dict_pop (om_admissions s) r\<rparr>) L" (is "omni_ok _ ?s L")
    "staged_ok (s\<lparr>om_admissions := dict_pop (om_admissions s) r\<rparr>) p d" "pa_id p = r" "r \<notin> set (om_aborted s)"
proof -
  have m: "(r, p, d) \<in> set (om_builds s @ om_admissions s)" using dict_get_mem [OF g] by simp
  note k = omni_okD(2) [OF ok m]
  show "pa_id p = r" using k by simp
  show "staged_ok ?s p d" using k by (simp add: staged_ok_def ingress_of_def)
  have "r \<in> fst ` set (om_admissions s)" using dict_get_mem [OF g] by force
  then show "r \<notin> set (om_aborted s)" using omni_okD(3) [OF ok] by blast
  have t: "add_mset (pa_id p) (mset (map (pa_id \<circ> fst \<circ> snd) (dict_pop (om_admissions s) r))) \<subseteq># mset (map (pa_id \<circ> fst \<circ> snd) (om_admissions s))"
    using dict_take [OF g, of "pa_id \<circ> fst \<circ> snd"] by simp
  show "omni_ok (p # extra) ?s L"
  proof (rule omni_ok_move [OF ok])
    show "mset (ids (p # extra) ?s) \<subseteq># mset (ids extra s)"
      using t by (simp add: ids_mset)
    show "set (places (p # extra) ?s) \<subseteq> set (places extra s)"
      using dict_get_mem [OF g] by (force simp: places_def dict_pop_def)
  qed (use omni_okD(3) [OF ok] in \<open>auto simp: requests_def dict_pop_def\<close>)
qed

lemma drain_builds_fuel_ok: "omni_ok extra s L \<Longrightarrow> omni_ok extra (drain_builds_fuel n o' s) L"
proof (induction n arbitrary: s)
  case (Suc n)
  show ?case
  proof (cases "om_builds s")
    case Nil
    with Suc(2) show ?thesis by simp
  next
    case (Cons b rest)
    obtain r p d where b: "b = (r, p, d)" by (cases b)
    then have g: "dict_get (om_builds s) r = Some (p, d)" by (simp add: Cons)
    note T = take_build_ok [OF Suc(2) g]
    show ?thesis
    proof (cases "ou_done o' r")
      case True
      let ?s = "s\<lparr>om_builds := dict_pop (om_builds s) r\<rparr>"
      have "omni_ok extra (admit_or_defer o' p d ?s) L"
        using T by (intro admit_or_defer_ok) simp_all
      from Suc(1) [OF this] show ?thesis using True T(4) by (simp add: Cons b)
    next
      case False
      with Suc(2) show ?thesis by (simp add: Cons b)
    qed
  qed
qed simp

lemma drain_builds_ok: "omni_ok extra s L \<Longrightarrow> omni_ok extra (drain_builds o' s) L"
  by (simp add: drain_builds_def drain_builds_fuel_ok)

lemma drain_admissions_loop_ok: "omni_ok extra s L \<Longrightarrow> omni_ok extra (drain_admissions_loop o' rs s) L"
proof (induction rs arbitrary: s)
  case (Cons r rs)
  show ?case
  proof (cases "dict_get (om_admissions s) r")
    case None
    with Cons show ?thesis by simp
  next
    case (Some e)
    obtain p d where e: "e = (p, d)" by (cases e)
    note T = take_admission_ok [OF Cons(2) Some [unfolded e]]
    let ?s = "s\<lparr>om_admissions := dict_pop (om_admissions s) r\<rparr>"
    have "omni_ok extra (admit_ready o' p d ?s) L" using T by (intro admit_ready_ok) simp_all
    from Cons(1) [OF this] show ?thesis using T(4) by (simp add: Some e)
  qed
qed simp

lemma drain_admissions_ok: "omni_ok extra s L \<Longrightarrow> omni_ok extra (drain_admissions o' s) L"
  by (simp add: drain_admissions_def drain_admissions_loop_ok)

subsection \<open>Staging and processing\<close>

lemma take_backlog_mset:
  "take_backlog known_id n ps = (sel, m, rest) \<Longrightarrow>
     mset (sel @ rest) \<subseteq># mset ps \<and> length sel + m = n \<and> length rest \<le> length ps \<and> (\<forall>p \<in> set sel. \<not> known_id (pa_id p))"
proof (induction known_id n ps arbitrary: sel m rest rule: take_backlog.induct)
  case (3 known_id n p ps)
  show ?case
  proof (cases "known_id (pa_id p)")
    case True
    from 3(1) [OF True] 3(3) True show ?thesis by (auto intro: subset_mset.order_trans)
  next
    case False
    obtain s1 m1 r1 where t: "take_backlog known_id n ps = (s1, m1, r1)" by (cases "take_backlog known_id n ps")
    from 3(2) [OF False t] 3(3) False t show ?thesis by auto
  qed
qed auto

lemma stage_received_mset:
  "stage_received known_id limit n sel backlog ps = (sel', backlog', rejected) \<Longrightarrow>
     mset (sel' @ backlog' @ rejected) \<subseteq># mset (sel @ backlog @ ps) \<and> length sel' + 0 \<le> length sel + n \<and>
     (\<forall>p \<in> set (sel' @ backlog' @ rejected). p \<in> set (sel @ backlog) \<or> \<not> known_id (pa_id p)) \<and>
     (\<forall>k. limit = Some k \<longrightarrow> length backlog \<le> k \<longrightarrow> length backlog' \<le> k)"
proof (induction known_id limit n sel backlog ps arbitrary: sel' backlog' rejected rule: stage_received.induct)
  case (2 known_id limit n sel backlog p ps)
  let ?skip = "known_id (pa_id p) \<or> pa_id p \<in> pa_id ` set backlog \<or> pa_id p \<in> pa_id ` set sel"
  let ?full = "case limit of None \<Rightarrow> False | Some k \<Rightarrow> k \<le> length backlog"
  consider "?skip" | "\<not> ?skip" "0 < n" | "\<not> ?skip" "\<not> 0 < n" "?full" | "\<not> ?skip" "\<not> 0 < n" "\<not> ?full" by blast
  then show ?case
  proof cases
    case 1
    then have e: "stage_received known_id limit n sel backlog (p # ps) = stage_received known_id limit n sel backlog ps"
      by (simp only: stage_received.simps if_True)
    have "mset (sel @ backlog @ ps) \<subseteq># mset (sel @ backlog @ p # ps)" by simp
    with 2(1) [OF 1 2(5) [unfolded e]] show ?thesis by (auto intro: subset_mset.order_trans)
  next
    case 2
    note c = this
    then have e: "stage_received known_id limit n sel backlog (p # ps) = stage_received known_id limit (n - 1) (sel @ [p]) backlog ps"
      by (simp only: stage_received.simps if_True if_False)
    have m: "mset ((sel @ [p]) @ backlog @ ps) = mset (sel @ backlog @ p # ps)" by simp
    note I = "2.IH"(2) [OF c "2.prems" [unfolded e]]
    show ?thesis using I c unfolding m by auto
  next
    case 3
    note c = this
    obtain s1 b1 r1 where t: "stage_received known_id limit n sel backlog ps = (s1, b1, r1)" by (metis prod_cases3)
    have e: "sel' = s1" "backlog' = b1" "rejected = p # r1"
      using "2.prems" c by (simp_all only: stage_received.simps if_True if_False t Let_def prod.case prod.inject)
    note I = "2.IH"(3) [OF c t]
    show ?thesis using I c unfolding e by auto
  next
    case 4
    note c = this
    then have e: "stage_received known_id limit n sel backlog (p # ps) = stage_received known_id limit n sel (backlog @ [p]) ps"
      by (simp only: stage_received.simps if_False)
    have m: "mset (sel @ (backlog @ [p]) @ ps) = mset (sel @ backlog @ p # ps)" by simp
    note I = "2.IH"(4) [OF c "2.prems" [unfolded e]]
    show ?thesis using I c unfolding m by (auto split: option.splits)
  qed
qed auto

lemma stage_ok:
  assumes ok: "omni_ok received s L" and st: "stage_payloads c received s = (sel, rejected, s1)"
  shows "omni_ok (rejected @ sel) s1 L"
proof (cases "oc_executor c")
  case False
  with st ok show ?thesis by (simp add: stage_payloads_def)
next
  case True
  obtain sel0 n rest where t: "take_backlog (known s) (oc_max_pending c - length (om_builds s)) (om_backlog s) = (sel0, n, rest)"
    by (metis prod_cases3)
  obtain sel1 b1 r1 where r: "stage_received (known s) (oc_backlog_limit c) n sel0 rest received = (sel1, b1, r1)"
    by (metis prod_cases3)
  have s1: "s1 = s\<lparr>om_backlog := b1\<rparr>" "sel = sel1" "rejected = r1"
    using st True by (simp_all add: stage_payloads_def t r)
  note T = take_backlog_mset [OF t] and R = stage_received_mset [OF r]
  have "mset (sel1 @ b1 @ r1) \<subseteq># mset (sel0 @ rest @ received)" using R by blast
  also have "\<dots> \<subseteq># mset (om_backlog s @ received)" using T by simp
  finally have sub: "mset (sel1 @ b1 @ r1) \<subseteq># mset (om_backlog s @ received)" .
  have ids: "mset (map pa_id (sel1 @ b1 @ r1)) \<subseteq># mset (map pa_id (om_backlog s @ received))"
    using image_mset_subseteq_mono [OF sub, of pa_id] by (simp only: mset_map)
  have sets: "set (sel1 @ b1 @ r1) \<subseteq> set (om_backlog s @ received)" using set_mset_mono [OF sub] by (simp only: set_mset_mset)
  show ?thesis
  proof (rule omni_ok_move [OF ok])
    have "mset (ids (rejected @ sel) s1) = mset (map pa_id (sel1 @ b1 @ r1)) + (mset (map (pa_id \<circ> fst \<circ> snd) (om_builds s))
       + mset (map (pa_id \<circ> fst \<circ> snd) (om_admissions s)) + mset (map rq_id (om_batches s)) + mset (map rq_id (om_waiting s)))"
      by (simp add: ids_mset s1 ac_simps)
    moreover have "mset (ids received s) = mset (map pa_id (om_backlog s @ received)) + (mset (map (pa_id \<circ> fst \<circ> snd) (om_builds s))
       + mset (map (pa_id \<circ> fst \<circ> snd) (om_admissions s)) + mset (map rq_id (om_batches s)) + mset (map rq_id (om_waiting s)))"
      by (simp add: ids_mset ac_simps)
    ultimately show "mset (ids (rejected @ sel) s1) \<subseteq># mset (ids received s)"
      using ids by (simp only: subset_mset.add_right_mono)
    show "set (places (rejected @ sel) s1) \<subseteq> set (places received s)" using sets by (auto simp: places_def s1)
    fix x assume x: "x \<in> set (om_aborted s1)"
    then have xa: "x \<in> set (om_aborted s)" by (simp add: s1)
    have "pa_id p \<noteq> x" if "p \<in> set b1" for p
    proof -
      have "p \<in> set (sel0 @ rest) \<or> \<not> known s (pa_id p)" using R that by auto
      moreover have "set (sel0 @ rest) \<subseteq> set (om_backlog s)" using set_mset_mono [OF conjunct1 [OF T]] by simp
      ultimately show ?thesis using omni_okD(3) [OF ok xa] xa by (auto simp: known_def)
    qed
    then show "x \<notin> pa_id ` set (om_backlog s1) \<union> fst ` set (om_builds s1) \<union> fst ` set (om_admissions s1) \<union> rq_id ` set (om_waiting s1)"
      using omni_okD(3) [OF ok xa] by (auto simp: s1)
  qed (simp_all add: s1 requests_def)
qed

lemma take_ingress_ok:
  assumes ok: "omni_ok (p # extra) s L" and t: "take_ingress p s = (p', d, s1)"
  shows "omni_ok (p' # extra) s1 L" "staged_ok s1 p' d" "pa_id p' = pa_id p" "om_aborted s1 = om_aborted s"
proof -
  obtain cs b where cd: "ingress_of s (pa_id p) = (cs, b)" by fastforce
  have p': "p' = p\<lparr>pa_chunks := pa_chunks p @ cs, pa_done := b\<rparr>" "d = b"
    and s1: "s1 = (if cs = [] then s else s\<lparr>om_ingress := dict_set (om_ingress s) (pa_id p) ([], b)\<rparr>)"
    using t unfolding take_ingress_def cd Let_def prod.case prod.inject by auto
  show id: "pa_id p' = pa_id p" and "om_aborted s1 = om_aborted s" by (simp_all add: p' s1)
  have own: "ingress_of s1 (pa_id p) = ([], b)" using cd by (simp add: s1 ingress_of_def)
  then show st: "staged_ok s1 p' d" by (simp add: staged_ok_def p')
  have f: "om_builds s1 = om_builds s" "om_admissions s1 = om_admissions s" "om_aborted s1 = om_aborted s" "om_backlog s1 = om_backlog s"
    "om_waiting s1 = om_waiting s" "om_batches s1 = om_batches s"
    by (simp_all add: s1)
  have g: "places extra s1 = places extra s" "requests s1 = requests s" "ids extra s1 = ids extra s"
    by (simp_all add: places_def requests_def ids_def f)
  have "x \<noteq> pa_id p \<Longrightarrow> ingress_of s1 x = ingress_of s x" for x by (simp add: s1 ingress_of_def)
  then have other: "ingress_of s1 x = ingress_of s x" if "x \<in> set (ids extra s)" for x using that extra_fresh(1) [OF ok] by metis
  show "omni_ok (p' # extra) s1 L"
  proof (rule omni_okI)
    show "distinct (ids (p' # extra) s1)" using omni_okD(1) [OF ok] by (simp add: ids_Cons id g)
    fix k y e assume m: "(k, y, e) \<in> set (om_builds s1 @ om_admissions s1)"
    then have "y \<in> set (places extra s)" by (force simp: places_def f)
    then have "ingress_of s1 (pa_id y) = ingress_of s (pa_id y)" by (intro other) (simp add: ids_def)
    moreover have "k = pa_id y \<and> staged_ok s y e" by (rule omni_okD(2) [OF ok]) (use m f in simp)
    ultimately show "k = pa_id y \<and> staged_ok s1 y e" by (simp add: staged_ok_def)
  next
    fix r assume "r \<in> set (om_aborted s1)"
    then show "r \<notin> pa_id ` set (om_backlog s1) \<union> fst ` set (om_builds s1) \<union> fst ` set (om_admissions s1) \<union> rq_id ` set (om_waiting s1)"
      unfolding f by (rule omni_okD(3) [OF ok])
  next
    fix y assume "y \<in> set (places (p' # extra) s1)"
    then consider "y = p'" | "y \<in> set (places extra s)" by (auto simp: ids_Cons g)
    then show "L (pa_id y) = map Chunk (pa_chunks y) @ buffered s1 (pa_id y)"
    proof cases
      case 1
      have "L (pa_id p) = map Chunk (pa_chunks p) @ buffered s (pa_id p)" by (rule omni_okD(4) [OF ok]) (simp add: ids_Cons)
      then show ?thesis using own cd by (simp add: 1 id buffered_def p')
    next
      case 2
      then have "ingress_of s1 (pa_id y) = ingress_of s (pa_id y)" by (intro other) (simp add: ids_def)
      moreover have "L (pa_id y) = map Chunk (pa_chunks y) @ buffered s (pa_id y)"
        by (rule omni_okD(4) [OF ok]) (simp add: ids_Cons 2)
      ultimately show ?thesis by (simp add: buffered_def)
    qed
  next
    fix q assume m: "q \<in> set (requests s1)"
    then show "request_ok s1 L q"
      by (intro request_ok_other [OF omni_okD(5) [OF ok]] other) (simp_all add: g ids_def)
  qed
qed

lemma process_payload_ok:
  assumes ok: "omni_ok (p # extra) s L"
  shows "omni_ok extra (process_payload c o' p s) L"
proof (cases "known s (pa_id p)")
  case True
  then show ?thesis by (simp add: process_payload_def drop_extra [OF ok])
next
  case False
  obtain p' d s1 where t: "take_ingress p s = (p', d, s1)" by (metis prod_cases3)
  note T = take_ingress_ok [OF ok t]
  have na: "pa_id p' \<notin> set (om_aborted s1)" using False T(3,4) by (simp add: known_def)
  show ?thesis
    using False defer_ok(2) [OF T(1,2) na] admit_or_defer_ok [OF T(1,2) na]
    by (simp add: process_payload_def t)
qed

lemma fold_process_ok: "omni_ok (ps @ extra) s L \<Longrightarrow> omni_ok extra (fold (process_payload c o') ps s) L"
  by (induction ps arbitrary: s) (simp_all add: process_payload_ok)

lemma fold_fail_ok: "omni_ok (ps @ extra) s L \<Longrightarrow> omni_ok extra (fold (\<lambda>p. fail_admission (pa_id p)) ps s) L"
proof (induction ps arbitrary: s)
  case (Cons p ps)
  then have ok: "omni_ok (p # ps @ extra) s L" by simp
  have "omni_ok (ps @ extra) (fail_admission (pa_id p) s) L"
    by (rule fail_ok [OF drop_extra [OF ok] extra_fresh(2,3) [OF ok]])
  from Cons(1) [OF this] show ?case by simp
qed simp

lemma process_input_ok:
  assumes ok: "omni_ok (om_received s) s L"
  shows "omni_ok [] (process_input_requests c o' s) L"
proof -
  have "omni_ok (om_received s) (s\<lparr>om_received := []\<rparr>) L"
    by (rule omni_ok_move [OF ok]) (use omni_okD(3) [OF ok] in \<open>auto simp: ids_mset places_def requests_def\<close>)
  then have 1: "omni_ok (om_received s) (drain_builds o' (drain_admissions o' (s\<lparr>om_received := []\<rparr>))) L"
    by (intro drain_builds_ok drain_admissions_ok)
  obtain sel rej s1 where st: "stage_payloads c (om_received s) (drain_builds o' (drain_admissions o' (s\<lparr>om_received := []\<rparr>))) = (sel, rej, s1)"
    by (metis prod_cases3)
  from fold_fail_ok [OF stage_ok [OF 1 st]] have "omni_ok (sel @ []) (fold (\<lambda>p. fail_admission (pa_id p)) rej s1) L" by simp
  from fold_process_ok [OF this] show ?thesis
    by (simp add: process_input_requests_def Let_def st drain_builds_ok drain_admissions_ok)
qed

subsection \<open>Capacity\<close>

text \<open>Steps inside the scheduler take payloads out of the builds and the backlog and leave the inbox's
  payloads alone.\<close>

definition no_growth :: "('c, 'u) omni \<Rightarrow> ('c, 'u) omni \<Rightarrow> bool" where
  "no_growth s s' \<longleftrightarrow> om_received s' = om_received s \<and> length (om_builds s') \<le> length (om_builds s) \<and>
     length (om_backlog s') \<le> length (om_backlog s)"

lemma no_growth_refl [simp, intro]: "no_growth s s" by (simp add: no_growth_def)

lemma no_growth_trans: "no_growth s1 s2 \<Longrightarrow> no_growth s2 s3 \<Longrightarrow> no_growth s1 s3" by (auto simp: no_growth_def)

lemma length_dict_pop: "length (dict_pop d k) \<le> length d" by (simp add: dict_pop_def)

lemma no_growth_abort: "no_growth s (abort_request r defer s)"
  by (simp add: no_growth_def abort_request_def Let_def length_dict_pop)

lemma no_growth_fail: "no_growth s (fail_admission r s)"
  unfolding fail_admission_def by (rule no_growth_trans [OF _ no_growth_abort]) (simp add: no_growth_def)

lemma no_growth_enqueue: "no_growth s (enqueue_built o' p d s)"
  by (auto simp: enqueue_built_def Let_def no_growth_fail split_beta) (simp_all add: no_growth_def)

lemma no_growth_admit_ready: "no_growth s (admit_ready o' p d s)"
  by (auto simp: admit_ready_def no_growth_fail no_growth_enqueue split: ready_result.split) (simp add: no_growth_def)

lemma no_growth_admit: "no_growth s (admit_or_defer o' p d s)"
  by (simp add: admit_or_defer_def no_growth_fail no_growth_enqueue no_growth_admit_ready split: build_result.split)

lemma no_growth_drain_builds: "no_growth s (drain_builds_fuel n o' s)"
proof (induction n arbitrary: s)
  case (Suc n)
  show ?case
  proof (cases "om_builds s")
    case (Cons b rest)
    obtain r p d where b: "b = (r, p, d)" by (cases b)
    let ?s = "s\<lparr>om_builds := dict_pop (om_builds s) r\<rparr>"
    have 1: "no_growth s ?s" using length_dict_pop [of "om_builds s" r] by (simp add: no_growth_def)
    have "no_growth s (if r \<in> set (om_aborted ?s) then ?s else admit_or_defer o' p d ?s)"
      using 1 no_growth_trans [OF 1 no_growth_admit] by simp
    from no_growth_trans [OF this Suc] show ?thesis by (simp add: Cons b Let_def split: if_splits)
  qed simp
qed simp

lemma no_growth_drain_admissions: "no_growth s (drain_admissions_loop o' rs s)"
proof (induction rs arbitrary: s)
  case (Cons r rs)
  show ?case
  proof (cases "dict_get (om_admissions s) r")
    case (Some e)
    obtain p d where e: "e = (p, d)" by (cases e)
    let ?s = "s\<lparr>om_admissions := dict_pop (om_admissions s) r\<rparr>"
    have 1: "no_growth s ?s" by (simp add: no_growth_def)
    have "no_growth s (if r \<in> set (om_aborted ?s) then ?s else admit_ready o' p d ?s)"
      using 1 no_growth_trans [OF 1 no_growth_admit_ready] by simp
    from no_growth_trans [OF this Cons] show ?thesis by (simp add: Some e Let_def)
  qed (simp add: Cons)
qed simp

lemma no_growth_drains: "no_growth s (drain_builds o' s)" "no_growth s (drain_admissions o' s)"
  by (simp_all add: drain_builds_def drain_admissions_def no_growth_drain_builds no_growth_drain_admissions)

lemma no_growth_fold_fail: "no_growth s (fold (\<lambda>p. fail_admission (pa_id p)) ps s)"
proof (induction ps arbitrary: s)
  case (Cons p ps)
  from no_growth_trans [OF no_growth_fail Cons] show ?case by simp
qed simp

lemma length_dict_set: "length (dict_set d k v) \<le> Suc (length d)"
  by (induction d k v rule: dict_set.induct) auto

lemma process_payload_growth:
  assumes "s' = process_payload c o' p s"
  shows "om_received s' = om_received s \<and> length (om_backlog s') \<le> length (om_backlog s) \<and>
    length (om_builds s') \<le> length (om_builds s) + (if oc_executor c then 1 else 0)"
proof -
  obtain p' d s1 where t: "take_ingress p s = (p', d, s1)" by (metis prod_cases3)
  then have "no_growth s s1" by (auto simp: take_ingress_def no_growth_def split_beta split: if_splits)
  moreover have "no_growth s1 (admit_or_defer o' p' d s1)" by (rule no_growth_admit)
  ultimately show ?thesis
    using le_trans [OF length_dict_set [of "om_builds s1" "pa_id p'" "(p', d)"], of "Suc (length (om_builds s))"]
    by (auto simp: assms process_payload_def t no_growth_def)
qed

lemma fold_process_growth:
  assumes "s' = fold (process_payload c o') ps s"
  shows "om_received s' = om_received s \<and> length (om_backlog s') \<le> length (om_backlog s) \<and>
    length (om_builds s') \<le> length (om_builds s) + (if oc_executor c then length ps else 0)"
  using assms
proof (induction ps arbitrary: s)
  case (Cons p ps)
  have "s' = fold (process_payload c o') ps (process_payload c o' p s)" using Cons(2) by simp
  from Cons(1) [OF this] process_payload_growth [OF refl, of c o' p s] show ?case by (auto split: if_splits)
qed simp

text \<open>What staging allows: as many builds as configured, none without an executor, and a backlog
  within its limit.\<close>

definition within_capacity :: "omni_config \<Rightarrow> ('c, 'u) omni \<Rightarrow> bool" where
  "within_capacity c s \<longleftrightarrow> length (om_builds s) \<le> oc_max_pending c \<and>
     (case oc_backlog_limit c of None \<Rightarrow> True | Some n \<Rightarrow> length (om_backlog s) \<le> n)"

lemma within_no_growth: "within_capacity c s \<Longrightarrow> no_growth s s' \<Longrightarrow> within_capacity c s'"
  by (auto simp: within_capacity_def no_growth_def split: option.splits)

lemma stage_capacity:
  assumes "within_capacity c s" "stage_payloads c received s = (sel, rejected, s1)" "oc_executor c"
  shows "within_capacity c s1" "length (om_builds s1) + length sel \<le> oc_max_pending c" "om_received s1 = om_received s"
proof -
  obtain sel0 n rest where t: "take_backlog (known s) (oc_max_pending c - length (om_builds s)) (om_backlog s) = (sel0, n, rest)"
    by (metis prod_cases3)
  obtain sel1 b1 r1 where r: "stage_received (known s) (oc_backlog_limit c) n sel0 rest received = (sel1, b1, r1)"
    by (metis prod_cases3)
  have s1: "s1 = s\<lparr>om_backlog := b1\<rparr>" "sel = sel1" using assms(2,3) by (simp_all add: stage_payloads_def t r)
  note T = take_backlog_mset [OF t] and R = stage_received_mset [OF r]
  have m: "length sel0 + n = oc_max_pending c - length (om_builds s)" "length rest \<le> length (om_backlog s)" using T by blast+
  have k: "length sel1 + 0 \<le> length sel0 + n" "\<forall>k. oc_backlog_limit c = Some k \<longrightarrow> length rest \<le> k \<longrightarrow> length b1 \<le> k" using R by blast+
  show "within_capacity c s1" "length (om_builds s1) + length sel \<le> oc_max_pending c" "om_received s1 = om_received s"
    using assms(1) m k by (auto simp: s1 within_capacity_def split: option.splits)
qed

lemma process_capacity:
  assumes w: "within_capacity c s"
  shows "within_capacity c (process_input_requests c o' s)" "om_received (process_input_requests c o' s) = []"
proof -
  let ?s = "drain_builds o' (drain_admissions o' (s\<lparr>om_received := []\<rparr>))"
  have w0: "within_capacity c (s\<lparr>om_received := []\<rparr>)" using w by (simp add: within_capacity_def split: option.splits)
  have g: "no_growth (s\<lparr>om_received := []\<rparr>) ?s" by (rule no_growth_trans [OF no_growth_drains(2,1)])
  have w1: "within_capacity c ?s" by (rule within_no_growth [OF w0 g])
  have r1: "om_received ?s = []" using g by (simp add: no_growth_def)
  obtain sel rej s1 where st: "stage_payloads c (om_received s) ?s = (sel, rej, s1)" by (metis prod_cases3)
  let ?s2 = "fold (\<lambda>p. fail_admission (pa_id p)) rej s1"
  let ?s3 = "fold (process_payload c o') sel ?s2"
  have d: "no_growth ?s3 (process_input_requests c o' s)"
    by (simp add: process_input_requests_def Let_def st no_growth_trans [OF no_growth_drains(1,2)])
  have g2: "no_growth s1 ?s2" by (rule no_growth_fold_fail)
  note g3 = fold_process_growth [OF refl, of c o' sel ?s2]
  have "within_capacity c ?s3 \<and> om_received ?s3 = []"
  proof (cases "oc_executor c")
    case True
    note S = stage_capacity [OF w1 st True]
    show ?thesis using S g2 g3 r1 True by (auto simp: within_capacity_def no_growth_def split: option.splits)
  next
    case False
    then have "s1 = ?s" using st by (simp add: stage_payloads_def)
    then show ?thesis using w1 g2 g3 r1 False by (auto simp: within_capacity_def no_growth_def split: option.splits)
  qed
  then show "within_capacity c (process_input_requests c o' s)" "om_received (process_input_requests c o' s) = []"
    using within_no_growth [OF _ d] d by (auto simp: no_growth_def)
qed

end
