(* ===== verification/Request_Admission_Trace.thy ===== *)
theory Request_Admission_Trace
  imports Request_Admission_Props
begin

section \<open>Requests and their streams over time\<close>

text \<open>The invariant of admission under every message of the inbox and every step of the scheduler,
  with the history of what was received for an id as a ghost, and the properties that follow.\<close>

subsection \<open>Stream items\<close>

lemma hand_over_append:
  "hand_over r xs (as @ bs) = (if List.find (\<lambda>q. rq_id q = r) as \<noteq> None then hand_over r xs as @ bs else as @ hand_over r xs bs)"
  by (induction as) auto

lemma hand_over_ids [simp]: "map rq_id (hand_over r xs qs) = map rq_id qs"
  by (induction qs) auto

lemma hand_over_mem:
  "q \<in> set (hand_over r xs qs) \<Longrightarrow> distinct (map rq_id qs) \<Longrightarrow>
     q \<in> set qs \<and> rq_id q \<noteq> r \<or> (\<exists>q0 \<in> set qs. rq_id q0 = r \<and> q = q0\<lparr>rq_data := map_option (\<lambda>d. d @ xs) (rq_data q0)\<rparr>)"
proof (induction qs)
  case (Cons a qs)
  show ?case
  proof (cases "rq_id a = r")
    case True
    then have "rq_id y \<noteq> r" if "y \<in> set qs" for y using Cons(3) that by (auto simp: image_iff)
    with True Cons(2) show ?thesis by auto
  next
    case False
    with Cons(2) consider "q = a" | "q \<in> set (hand_over r xs qs)" by auto
    then show ?thesis
    proof cases
      case 2
      from Cons(1) [OF 2] Cons(3) show ?thesis by auto
    qed (simp add: False)
  qed
qed simp

lemma requests_append_item: "requests (append_item r x s) = hand_over r [x] (requests s)"
  by (simp add: requests_def append_item_def hand_over_append)

lemma append_item_fields [simp]:
  "om_backlog (append_item r x s) = om_backlog s" "om_builds (append_item r x s) = om_builds s"
  "om_admissions (append_item r x s) = om_admissions s" "om_ingress (append_item r x s) = om_ingress s"
  "om_aborted (append_item r x s) = om_aborted s" "om_received (append_item r x s) = om_received s"
  "map rq_id (om_waiting (append_item r x s)) = map rq_id (om_waiting s)"
  by (simp_all add: append_item_def)

lemma waiting_ids_append: "rq_id ` set (om_waiting (append_item r x s)) = rq_id ` set (om_waiting s)"
  using arg_cong [OF append_item_fields(7), of set r x s] by (simp only: set_map)

lemma find_request_data_Some:
  assumes "distinct (map rq_id (requests s))" "q \<in> set (requests s)"
  shows "find_request_data s (rq_id q) = rq_data q"
proof -
  have "List.find (\<lambda>y. rq_id y = rq_id q) qs = Some q" if "distinct (map rq_id qs)" "q \<in> set qs" for qs
    using that by (induction qs) force+
  from this [OF assms] show ?thesis by (simp add: find_request_data_def find_request_def requests_def)
qed

lemma find_request_data_mem:
  assumes "find_request_data s r = Some d"
  shows "r \<in> rq_id ` set (requests s)"
proof -
  obtain q where "find_request s r = Some q" using assms by (auto simp: find_request_data_def split: option.splits)
  then have "q \<in> set (requests s) \<and> rq_id q = r"
    unfolding find_request_def requests_def find_Some_iff by (metis nth_mem)
  then show ?thesis by blast
qed

lemma omni_distinct_requests: "omni_ok extra s L \<Longrightarrow> distinct (map rq_id (requests s))"
  by (drule omni_okD(1)) (simp add: ids_def)

text \<open>An item handed to the request's data.\<close>

lemma append_item_ok:
  assumes ok: "omni_ok extra s L" and f: "find_request_data s r = Some d"
  shows "omni_ok extra (append_item r x s) (L(r := L r @ stream_of [x]))"
proof -
  let ?s = "append_item r x s" and ?L = "L(r := L r @ stream_of [x])"
  have pl: "places extra ?s = places extra s" by (simp add: places_def)
  have id: "ids extra ?s = ids extra s" by (simp add: ids_def pl requests_append_item)
  have ing: "ingress_of ?s = ingress_of s" by (rule ext) (simp add: ingress_of_def)
  have other: "pa_id p \<noteq> r" if "p \<in> set (places extra s)" for p
    using find_request_data_mem [OF f] omni_okD(1) [OF ok] that by (force simp: ids_def)
  show ?thesis
  proof (rule omni_okI)
    show "distinct (ids extra ?s)" using omni_okD(1) [OF ok] by (simp add: id)
    fix k p b assume "(k, p, b) \<in> set (om_builds ?s @ om_admissions ?s)"
    then have "k = pa_id p \<and> staged_ok s p b" by (intro omni_okD(2) [OF ok]) simp
    then show "k = pa_id p \<and> staged_ok ?s p b" by (simp add: staged_ok_def ing)
  next
    fix y assume "y \<in> set (om_aborted ?s)"
    then show "y \<notin> pa_id ` set (om_backlog ?s) \<union> fst ` set (om_builds ?s) \<union> fst ` set (om_admissions ?s) \<union> rq_id ` set (om_waiting ?s)"
      unfolding waiting_ids_append append_item_fields by (rule omni_okD(3) [OF ok])
  next
    fix p assume "p \<in> set (places extra ?s)"
    then have m: "p \<in> set (places extra s)" by (simp add: pl)
    from omni_okD(4) [OF ok m] other [OF m] show "?L (pa_id p) = map Chunk (pa_chunks p) @ buffered ?s (pa_id p)"
      by (simp add: buffered_def ing)
  next
    fix q assume m: "q \<in> set (requests ?s)"
    from hand_over_mem [OF m [unfolded requests_append_item] omni_distinct_requests [OF ok]]
    show "request_ok ?s ?L q"
    proof
      assume "q \<in> set (requests s) \<and> rq_id q \<noteq> r"
      then show ?thesis using omni_okD(5) [OF ok, of q] by (cases "rq_data q") (simp_all add: request_ok_def buffered_def ing)
    next
      assume "\<exists>q0 \<in> set (requests s). rq_id q0 = r \<and> q = q0\<lparr>rq_data := map_option (\<lambda>d. d @ [x]) (rq_data q0)\<rparr>"
      then obtain q0 where q0: "q0 \<in> set (requests s)" "rq_id q0 = r" "q = q0\<lparr>rq_data := map_option (\<lambda>d. d @ [x]) (rq_data q0)\<rparr>"
        by blast
      have d: "rq_data q0 = Some d" using find_request_data_Some [OF omni_distinct_requests [OF ok] q0(1)] f q0(2) by simp
      then have "stream_of d = L r" using omni_okD(5) [OF ok q0(1)] q0(2) by (simp add: request_ok_def)
      then show ?thesis using q0(2) by (simp add: q0(3) request_ok_def d)
    qed
  qed
qed

text \<open>An item put into the ingress buffer.\<close>

lemma buffer_item_ok:
  assumes ok: "omni_ok extra s L" and f: "find_request_data s r = None"
    and open_s: "\<not> snd (ingress_of s r)"
    and s': "s' = s\<lparr>om_ingress := i\<rparr>" and other: "\<And>y. y \<noteq> r \<Longrightarrow> ingress_of s' y = ingress_of s y"
    and own: "buffered s' r = buffered s r @ xs"
  shows "omni_ok extra s' (L(r := L r @ xs))"
proof (rule omni_okI)
  have g: "places extra s' = places extra s" "requests s' = requests s" by (simp_all add: s' places_def requests_def)
  have b: "y \<noteq> r \<Longrightarrow> buffered s' y = buffered s y" for y by (simp add: buffered_def other)
  show "distinct (ids extra s')" using omni_okD(1) [OF ok] by (simp add: ids_def g)
  fix k p d assume "(k, p, d) \<in> set (om_builds s' @ om_admissions s')"
  then have k: "k = pa_id p \<and> staged_ok s p d" by (intro omni_okD(2) [OF ok]) (simp add: s')
  show "k = pa_id p \<and> staged_ok s' p d"
    using k open_s other [of "pa_id p"] by (cases "pa_id p = r") (auto simp: staged_ok_def)
next
  fix y assume "y \<in> set (om_aborted s')"
  then have "y \<in> set (om_aborted s)" by (simp add: s')
  from omni_okD(3) [OF ok this]
  show "y \<notin> pa_id ` set (om_backlog s') \<union> fst ` set (om_builds s') \<union> fst ` set (om_admissions s') \<union> rq_id ` set (om_waiting s')"
    by (simp add: s')
next
  have b: "y \<noteq> r \<Longrightarrow> buffered s' y = buffered s y" for y by (simp add: buffered_def other)
  fix p assume "p \<in> set (places extra s')"
  then have "p \<in> set (places extra s)" by (simp add: s' places_def)
  from omni_okD(4) [OF ok this] show "(L(r := L r @ xs)) (pa_id p) = map Chunk (pa_chunks p) @ buffered s' (pa_id p)"
    by (cases "pa_id p = r") (simp_all add: own b)
next
  have b: "y \<noteq> r \<Longrightarrow> buffered s' y = buffered s y" for y by (simp add: buffered_def other)
  fix q assume "q \<in> set (requests s')"
  then have q: "q \<in> set (requests s)" by (simp add: s' requests_def)
  have "rq_id q = r \<Longrightarrow> rq_data q = None"
    using find_request_data_Some [OF omni_distinct_requests [OF ok] q] f by simp
  with omni_okD(5) [OF ok q] show "request_ok s' (L(r := L r @ xs)) q"
    by (cases "rq_id q = r"; cases "rq_data q") (simp_all add: request_ok_def own b)
qed

lemma reserve_room [simp]:
  "length (om_ingress s) < PENDING_STREAM_REQUEST_LIMIT \<Longrightarrow> reserve_pending_stream_request r s = s"
  by (simp add: reserve_pending_stream_request_def reserve_pending_def)

lemma chunk_ok:
  assumes ok: "omni_ok extra s L" and room: "length (om_ingress s) < PENDING_STREAM_REQUEST_LIMIT"
    and open_s: "find_request_data s r = None \<Longrightarrow> \<not> snd (ingress_of s r)" and live: "r \<notin> set (om_completed s)"
  shows "omni_ok extra (on_stream_chunk r x s) (L(r := L r @ [Chunk x]))"
proof (cases "find_request_data s r")
  case None
  let ?i = "dict_set (om_ingress s) r (fst (ingress_of s r) @ [x], snd (ingress_of s r))"
  have "on_stream_chunk r x s = s\<lparr>om_ingress := ?i\<rparr>"
    using live by (simp add: on_stream_chunk_def None room Let_def split_beta)
  then show ?thesis
    using open_s [OF None] by (intro buffer_item_ok [OF ok None open_s [OF None]]) (simp_all add: ingress_of_def buffered_def)
next
  case (Some d)
  from append_item_ok [OF ok Some, of "Chunk x"] show ?thesis using live by (simp add: on_stream_chunk_def Some)
qed

lemma done_ok:
  assumes ok: "omni_ok extra s L" and room: "length (om_ingress s) < PENDING_STREAM_REQUEST_LIMIT"
    and open_s: "find_request_data s r = None \<Longrightarrow> \<not> snd (ingress_of s r)" and live: "r \<notin> set (om_completed s)"
  shows "omni_ok extra (on_stream_done r s) (L(r := L r @ [StreamDone]))"
proof (cases "find_request_data s r")
  case None
  let ?i = "dict_set (om_ingress s) r (fst (ingress_of s r), True)"
  have "on_stream_done r s = s\<lparr>om_ingress := ?i\<rparr>"
    using live by (simp add: on_stream_done_def None room Let_def split_beta)
  then show ?thesis
    using open_s [OF None] by (intro buffer_item_ok [OF ok None open_s [OF None]]) (simp_all add: ingress_of_def buffered_def)
next
  case (Some d)
  from append_item_ok [OF ok Some, of StreamDone] show ?thesis using live by (simp add: on_stream_done_def Some)
qed

lemma omni_ok_updates:
  assumes ok: "omni_ok extra s L" shows "omni_ok extra (s\<lparr>om_updates := u\<rparr>) L"
proof (rule omni_ok_move [OF ok])
  fix y assume "y \<in> set (om_aborted (s\<lparr>om_updates := u\<rparr>))"
  then have "y \<in> set (om_aborted s)" by simp
  from omni_okD(3) [OF ok this]
  show "y \<notin> pa_id ` set (om_backlog (s\<lparr>om_updates := u\<rparr>)) \<union> fst ` set (om_builds (s\<lparr>om_updates := u\<rparr>)) \<union>
      fst ` set (om_admissions (s\<lparr>om_updates := u\<rparr>)) \<union> rq_id ` set (om_waiting (s\<lparr>om_updates := u\<rparr>))" by simp
qed (simp_all add: ids_def places_def requests_def)

lemma update_ok:
  assumes ok: "omni_ok extra s L"
  shows "omni_ok extra (on_request_update r u s) L"
proof (cases "find_request_data s r")
  case None
  with omni_ok_updates [OF ok] ok show ?thesis by (simp add: on_request_update_def Let_def)
next
  case (Some d)
  have "L(r := L r @ stream_of [Update u]) = L" by simp
  with append_item_ok [OF ok Some, of "Update u"] ok show ?thesis by (simp add: on_request_update_def Some)
qed

lemma receive_ok:
  assumes ok: "omni_ok extra s L" and fresh: "pa_id p \<notin> set (ids extra s)" and b: "L (pa_id p) = buffered s (pa_id p)"
    and s': "s' = s\<lparr>om_completed := c, om_received := e\<rparr>"
  shows "omni_ok (extra @ [p]) s' (L(pa_id p := map Chunk (pa_chunks p) @ L (pa_id p)))" (is "omni_ok _ _ ?L")
proof (rule omni_okI)
  have g: "places extra s' = places extra s" "requests s' = requests s" by (simp_all add: s' places_def requests_def)
  have i: "ingress_of s' = ingress_of s" "buffered s' = buffered s" by (auto simp: s' ingress_of_def buffered_def)
  have P: "places (extra @ [p]) s' = extra @ p # drop (length extra) (places extra s)" by (simp add: places_def s')
  have "mset (ids (extra @ [p]) s') = add_mset (pa_id p) (mset (ids extra s))" by (simp add: ids_mset s')
  also have "\<dots> = mset (pa_id p # ids extra s)" by simp
  finally have "distinct (ids (extra @ [p]) s') \<longleftrightarrow> distinct (pa_id p # ids extra s)" by (rule mset_eq_imp_distinct_iff)
  then show "distinct (ids (extra @ [p]) s')" using fresh omni_okD(1) [OF ok] by simp
  fix k y d assume "(k, y, d) \<in> set (om_builds s' @ om_admissions s')"
  then have "k = pa_id y \<and> staged_ok s y d" by (intro omni_okD(2) [OF ok]) (simp add: s')
  then show "k = pa_id y \<and> staged_ok s' y d" by (simp add: staged_ok_def i)
next
  fix y assume "y \<in> set (om_aborted s')"
  then have "y \<in> set (om_aborted s)" by (simp add: s')
  from omni_okD(3) [OF ok this]
  show "y \<notin> pa_id ` set (om_backlog s') \<union> fst ` set (om_builds s') \<union> fst ` set (om_admissions s') \<union> rq_id ` set (om_waiting s')"
    by (simp add: s')
next
  have i: "buffered s' = buffered s" by (auto simp: s' ingress_of_def buffered_def)
  fix y assume "y \<in> set (places (extra @ [p]) s')"
  then consider "y = p" | "y \<in> set (places extra s)" by (auto simp: places_def s')
  then show "?L (pa_id y) = map Chunk (pa_chunks y) @ buffered s' (pa_id y)"
  proof cases
    case 2
    then have "pa_id y \<in> set (ids extra s)" by (simp add: ids_def)
    then have "pa_id y \<noteq> pa_id p" using fresh by auto
    with omni_okD(4) [OF ok 2] show ?thesis by (simp add: i)
  qed (simp add: i b)
next
  have i: "buffered s' = buffered s" by (auto simp: s' ingress_of_def buffered_def)
  fix q assume "q \<in> set (requests s')"
  then have q: "q \<in> set (requests s)" by (simp add: s' requests_def)
  then have "rq_id q \<in> set (ids extra s)" by (simp add: ids_def)
  then have "rq_id q \<noteq> pa_id p" using fresh by auto
  with omni_okD(5) [OF ok q] show "request_ok s' ?L q" by (cases "rq_data q") (simp_all add: request_ok_def i)
qed

text \<open>What is left of an id after an abort: the data of a batch that SGLang still has to end, or what
  a payload carries that has been received and not yet staged.\<close>

definition after_abort :: "('c, 'u) omni \<Rightarrow> string \<Rightarrow> ('c, 'u) item list \<Rightarrow> ('c, 'u) item list" where
  "after_abort s r h =
     (if find_request_data s r \<noteq> None then h
      else map Chunk (concat (map pa_chunks (filter (\<lambda>p. pa_id p = r) (om_received s)))))"

lemma filter_distinct_id:
  "p \<in> set ps \<Longrightarrow> distinct (map pa_id ps) \<Longrightarrow> filter (\<lambda>y. pa_id y = pa_id p) ps = [p]"
proof (induction ps)
  case (Cons a ps)
  show ?case
  proof (cases "p = a")
    case True
    then have "filter (\<lambda>y. pa_id y = pa_id p) ps = []" using Cons(3) by (auto simp: filter_empty_conv image_iff)
    with True show ?thesis by simp
  next
    case False
    then have "p \<in> set ps" using Cons(2) by simp
    moreover from this have "pa_id a \<noteq> pa_id p" using Cons(3) by (auto simp: image_iff)
    ultimately show ?thesis using Cons(1,3) by simp
  qed
qed simp

lemma abort_ok:
  assumes ok: "omni_ok (om_received s) s L"
    and s'_def: "s' = abort_request r defer s"
  shows "omni_ok (om_received s) s' (L(r := after_abort s' r (L r)))" (is "omni_ok _ _ ?L")
proof -
  have A1: "mset (ids (om_received s) s') \<subseteq># mset (ids (om_received s) s)"
    and A2: "set (places (om_received s) s') \<subseteq> set (places (om_received s) s)"
    by (rule abort_shrinks [OF s'_def])+
  note A = A1 A2 abort_shrinks(3-6) [OF s'_def]
  show ?thesis
proof (rule omni_okI)
  have rec: "om_received s' = om_received s" by (simp add: s'_def abort_request_def Let_def)
  show d: "distinct (ids (om_received s) s')" by (rule distinct_sub_mset [OF A(1) omni_okD(1) [OF ok]])
  have b: "y \<noteq> r \<Longrightarrow> buffered s' y = buffered s y" "buffered s' r = []" for y using A(5,6) by (simp_all add: buffered_def)
  fix k p e assume m: "(k, p, e) \<in> set (om_builds s' @ om_admissions s')"
  have k: "k = pa_id p \<and> staged_ok s p e" by (rule omni_okD(2) [OF ok]) (rule subsetD [OF A(4) m])
  moreover have "k \<noteq> r" using m by (auto simp: s'_def abort_request_def Let_def dict_pop_def)
  ultimately show "k = pa_id p \<and> staged_ok s' p e" using A(5) by (simp add: staged_ok_def)
next
  fix x assume "x \<in> set (om_aborted s')"
  then show "x \<notin> pa_id ` set (om_backlog s') \<union> fst ` set (om_builds s') \<union> fst ` set (om_admissions s') \<union> rq_id ` set (om_waiting s')"
    by (rule bspec [OF abort_aborted [OF ok s'_def]])
next
  have rec: "om_received s' = om_received s" by (simp add: s'_def abort_request_def Let_def)
  have d: "distinct (ids (om_received s) s')" by (rule distinct_sub_mset [OF A(1) omni_okD(1) [OF ok]])
  fix p assume m: "p \<in> set (places (om_received s) s')"
  show "?L (pa_id p) = map Chunk (pa_chunks p) @ buffered s' (pa_id p)"
  proof (cases "pa_id p = r")
    case False
    then show ?thesis using omni_okD(4) [OF ok subsetD [OF A(2) m]] A(5) by (simp add: buffered_def)
  next
    case True
    have "find_request_data s' r = None"
    proof (cases "find_request_data s' r")
      case (Some h)
      from find_request_data_mem [OF this] d m True show ?thesis by (force simp: ids_def)
    qed
    moreover have "p \<in> set (om_received s)"
    proof -
      have k: "k = pa_id y" if "(k, y, e) \<in> set (om_builds s @ om_admissions s)" for k y e
        using omni_okD(2) [OF ok that] by blast
      have "pa_id (fst (snd z)) \<noteq> r" if "z \<in> set (om_builds s' @ om_admissions s')" for z
      proof -
        obtain k' y e where z: "z = (k', y, e)" by (metis prod_cases3)
        have "k' = pa_id y" by (rule k) (use subsetD [OF A(4) that] z in blast)
        moreover have "k' \<noteq> r" using that z by (auto simp: s'_def abort_request_def Let_def dict_pop_def)
        ultimately show ?thesis by (simp add: z)
      qed
      moreover have "pa_id y \<noteq> r" if "y \<in> set (om_backlog s')" for y
        using that by (simp add: s'_def abort_request_def Let_def)
      ultimately show ?thesis using m True by (auto simp: places_def)
    qed
    moreover have "distinct (map pa_id (om_received s))" using d by (simp add: ids_def places_def)
    ultimately have "filter (\<lambda>y. pa_id y = r) (om_received s) = [p]" "find_request_data s' r = None"
      using filter_distinct_id [of p "om_received s"] True by simp_all
    then show ?thesis using True A(6) by (simp add: after_abort_def rec buffered_def)
  qed
next
  have d: "distinct (ids (om_received s) s')" by (rule distinct_sub_mset [OF A(1) omni_okD(1) [OF ok]])
  fix q assume m: "q \<in> set (requests s')"
  have o: "request_ok s L q" by (rule omni_okD(5) [OF ok subsetD [OF A(3) m]])
  have f: "find_request_data s' (rq_id q) = rq_data q"
    by (rule find_request_data_Some [OF _ m]) (use d in \<open>simp add: ids_def\<close>)
  show "request_ok s' ?L q"
  proof (cases "rq_id q = r")
    case False
    then show ?thesis using o A(5) [OF False] by (cases "rq_data q") (simp_all add: request_ok_def buffered_def)
  next
    case True
    have "y \<in> set (om_received s) \<Longrightarrow> pa_id y \<noteq> r" for y using d m True by (force simp: ids_def places_def)
    then have "filter (\<lambda>y. pa_id y = r) (om_received s) = []" by (simp add: filter_empty_conv)
    moreover have "om_received s' = om_received s" by (simp add: s'_def abort_request_def Let_def)
    ultimately show ?thesis using o A(6) f True by (cases "rq_data q") (simp_all add: request_ok_def after_abort_def buffered_def)
  qed
qed
qed

subsection \<open>Runs of the scheduler\<close>

definition empty_omni :: "('c, 'u) omni" where
  "empty_omni = \<lparr>om_inbox = [], om_received = [], om_backlog = [], om_builds = [], om_admissions = [], om_ingress = [],
     om_updates = [], om_waiting = [], om_batches = [], om_aborted = [], om_completed = [], om_errors = []\<rparr>"

definition all_ids :: "('c, 'u) omni \<Rightarrow> string list" where
  "all_ids s = ids (om_received s) s"

text \<open>The history of an id that the scheduler holds nothing of is what it keeps buffered for it.\<close>

definition keep :: "(string \<Rightarrow> ('c, 'u) item list) \<Rightarrow> ('c, 'u) omni \<Rightarrow> string \<Rightarrow> ('c, 'u) item list" where
  "keep L s r = (if r \<in> set (all_ids s) then L r else buffered s r)"

text \<open>The second component is the history: the chunks a payload brings, then the items as they arrive.
  A stream ends once, an id is not requested twice while it is live, and the ingress buffers stay below
  the size at which the oldest are evicted.  Messages of aborted ids are ignored.  SGLang moves requests
  from the waiting queue into batches, ends them and drops them.\<close>

inductive omni_run :: "omni_config \<Rightarrow> ('c, 'u) omni \<Rightarrow> (string \<Rightarrow> ('c, 'u) item list) \<Rightarrow> bool" for c where
  run_init: "omni_run c empty_omni (\<lambda>_. [])"
| run_ignored: "omni_run c s L \<Longrightarrow> r \<in> set (om_aborted s) \<Longrightarrow> omni_run c (handle_message r m s) L"
| run_request: "omni_run c s L \<Longrightarrow> r \<notin> set (om_aborted s) \<Longrightarrow> r \<notin> set (all_ids s) \<Longrightarrow> pa_id p = r \<Longrightarrow>
    omni_run c (handle_message r (NewRequest p) s) (L(r := map Chunk (pa_chunks p) @ L r))"
| run_chunk: "omni_run c s L \<Longrightarrow> r \<notin> set (om_aborted s) \<Longrightarrow> StreamDone \<notin> set (L r) \<Longrightarrow>
    length (om_ingress s) < PENDING_STREAM_REQUEST_LIMIT \<Longrightarrow>
    omni_run c (handle_message r (MsgChunk x) s) (if r \<in> set (om_completed s) then L else L(r := L r @ [Chunk x]))"
| run_done: "omni_run c s L \<Longrightarrow> r \<notin> set (om_aborted s) \<Longrightarrow> StreamDone \<notin> set (L r) \<Longrightarrow>
    length (om_ingress s) < PENDING_STREAM_REQUEST_LIMIT \<Longrightarrow>
    omni_run c (handle_message r MsgDone s) (if r \<in> set (om_completed s) then L else L(r := L r @ [StreamDone]))"
| run_update: "omni_run c s L \<Longrightarrow> r \<notin> set (om_aborted s) \<Longrightarrow> omni_run c (handle_message r (MsgUpdate u) s) L"
| run_abort: "omni_run c s L \<Longrightarrow> r \<notin> set (om_aborted s) \<Longrightarrow> s' = handle_message r (MsgAbort defer) s \<Longrightarrow>
    omni_run c s' (L(r := after_abort s' r (L r)))"
| run_process: "omni_run c s L \<Longrightarrow> s' = process_input_requests c o' s \<Longrightarrow> omni_run c s' (keep L s')"
| run_batch: "omni_run c s L \<Longrightarrow> om_waiting s = ws @ q # ws' \<Longrightarrow>
    omni_run c (s\<lparr>om_waiting := ws @ ws', om_batches := om_batches s @ [q]\<rparr>) L"
| run_over: "omni_run c s L \<Longrightarrow> om_batches s = bs @ q # bs' \<Longrightarrow>
    omni_run c (s\<lparr>om_batches := bs @ q\<lparr>rq_over := True\<rparr> # bs'\<rparr>) L"
| run_complete: "omni_run c s L \<Longrightarrow> r \<in> rq_id ` set (om_batches s) \<Longrightarrow> s' = close_completed r s \<Longrightarrow>
    omni_run c s' (L(r := buffered s' r))"
| run_leave: "omni_run c s L \<Longrightarrow> om_batches s = bs @ q # bs' \<Longrightarrow> s' = s\<lparr>om_batches := bs @ bs'\<rparr> \<Longrightarrow> omni_run c s' (keep L s')"

definition run_inv :: "omni_config \<Rightarrow> ('c, 'u) omni \<Rightarrow> (string \<Rightarrow> ('c, 'u) item list) \<Rightarrow> bool" where
  "run_inv c s L \<longleftrightarrow> omni_ok (om_received s) s L \<and> (\<forall>r. r \<notin> set (all_ids s) \<longrightarrow> L r = buffered s r) \<and> within_capacity c s"

lemma run_invD:
  assumes "run_inv c s L"
  shows "omni_ok (om_received s) s L" "r \<notin> set (all_ids s) \<Longrightarrow> L r = buffered s r" "within_capacity c s"
  using assms unfolding run_inv_def by blast+

lemma run_invI:
  assumes "omni_ok (om_received s) s L" "\<And>r. r \<notin> set (all_ids s) \<Longrightarrow> L r = buffered s r" "within_capacity c s"
  shows "run_inv c s L"
  unfolding run_inv_def using assms by blast

lemma omni_ok_cong:
  assumes ok: "omni_ok extra s L" and eq: "\<And>r. r \<in> set (ids extra s) \<Longrightarrow> L' r = L r"
  shows "omni_ok extra s L'"
proof (rule omni_okI)
  fix p assume m: "p \<in> set (places extra s)"
  then have "L' (pa_id p) = L (pa_id p)" by (intro eq) (simp add: ids_def)
  with omni_okD(4) [OF ok m] show "L' (pa_id p) = map Chunk (pa_chunks p) @ buffered s (pa_id p)" by simp
next
  fix q assume m: "q \<in> set (requests s)"
  then have "L' (rq_id q) = L (rq_id q)" by (intro eq) (simp add: ids_def)
  with omni_okD(5) [OF ok m] show "request_ok s L' q" by (cases "rq_data q") (simp_all add: request_ok_def)
qed (fact omni_okD(1-3) [OF ok])+

lemma keep_inv:
  assumes "omni_ok (om_received s) s L" "within_capacity c s"
  shows "run_inv c s (keep L s)"
  by (rule run_invI [OF omni_ok_cong [OF assms(1)] _ assms(2)]) (simp_all add: keep_def all_ids_def)

lemma stream_open:
  assumes inv: "run_inv c s L" and o: "StreamDone \<notin> set (L r)" and f: "find_request_data s r = None"
  shows "\<not> snd (ingress_of s r)"
proof -
  note ok = run_invD(1) [OF inv]
  have "set (buffered s r) \<subseteq> set (L r)"
  proof (cases "r \<in> set (all_ids s)")
    case False
    with run_invD(2) [OF inv] show ?thesis by simp
  next
    case True
    then consider p where "p \<in> set (places (om_received s) s)" "pa_id p = r" | q where "q \<in> set (requests s)" "rq_id q = r"
      by (auto simp: all_ids_def ids_def)
    then show ?thesis
    proof cases
      case 1
      from omni_okD(4) [OF ok 1(1)] 1(2) show ?thesis by simp
    next
      case 2
      have "rq_data q = None" using find_request_data_Some [OF omni_distinct_requests [OF ok] 2(1)] f 2(2) by simp
      with omni_okD(5) [OF ok 2(1)] 2(2) show ?thesis by (simp add: request_ok_def)
    qed
  qed
  with o show ?thesis by (auto simp: buffered_def split: if_splits)
qed

subsection \<open>Every step keeps the invariant\<close>

lemma not_live: "r \<notin> set (all_ids s) \<Longrightarrow> find_request_data s r = None"
  using find_request_data_mem by (cases "find_request_data s r") (auto simp: all_ids_def ids_def)

lemma append_item_frame:
  "all_ids (append_item r x s) = all_ids s" "buffered (append_item r x s) = buffered s"
  by (simp_all add: all_ids_def ids_def places_def requests_append_item buffered_def ingress_of_def fun_eq_iff)

lemma within_frame:
  "om_builds s' = om_builds s \<Longrightarrow> om_backlog s' = om_backlog s \<Longrightarrow> within_capacity c s' = within_capacity c s"
  unfolding within_capacity_def by (simp cong: option.case_cong)

lemma stream_item_inv:
  assumes inv: "run_inv c s L"
    and s': "s' = (if find_request_data s r \<noteq> None then append_item r x s else s\<lparr>om_ingress := dict_set (om_ingress s) r e\<rparr>)"
    and b: "find_request_data s r = None \<Longrightarrow> buffered s' r = buffered s r @ [x]"
    and ok: "omni_ok (om_received s) s' (L(r := L r @ [x]))"
  shows "run_inv c s' (L(r := L r @ [x]))"
proof (rule run_invI)
  have a: "all_ids s' = all_ids s" using s' by (simp add: append_item_frame) (simp add: all_ids_def ids_def places_def requests_def)
  show "omni_ok (om_received s') s' (L(r := L r @ [x]))" using ok s' by (simp split: if_splits)
  show "within_capacity c s'" using run_invD(3) [OF inv] s' by (subst within_frame [of s' s]) simp_all
  fix y assume y: "y \<notin> set (all_ids s')"
  then have L: "L y = buffered s y" using run_invD(2) [OF inv] by (simp add: a)
  show "(L(r := L r @ [x])) y = buffered s' y"
  proof (cases "y = r")
    case True
    then have "find_request_data s r = None" using y by (intro not_live) (simp add: a)
    with True L b show ?thesis by simp
  next
    case False
    then have "buffered s' y = buffered s y" using s' by (simp add: append_item_frame) (simp add: buffered_def ingress_of_def)
    with False L show ?thesis by simp
  qed
qed

lemma run_chunk_inv:
  assumes inv: "run_inv c s L" and r: "r \<notin> set (om_aborted s)" "StreamDone \<notin> set (L r)"
    and room: "length (om_ingress s) < PENDING_STREAM_REQUEST_LIMIT"
  shows "run_inv c (handle_message r (MsgChunk x) s) (if r \<in> set (om_completed s) then L else L(r := L r @ [Chunk x]))"
proof (cases "r \<in> set (om_completed s)")
  case True
  with inv r show ?thesis by (simp add: handle_message_def on_stream_chunk_def)
next
  case False
  let ?e = "(fst (ingress_of s r) @ [x], snd (ingress_of s r))"
  have s': "on_stream_chunk r x s = (if find_request_data s r \<noteq> None then append_item r (Chunk x) s else s\<lparr>om_ingress := dict_set (om_ingress s) r ?e\<rparr>)"
    using False by (simp add: on_stream_chunk_def Let_def split_beta room)
  have "run_inv c (on_stream_chunk r x s) (L(r := L r @ [Chunk x]))"
  proof (rule stream_item_inv [OF inv s'])
    assume "find_request_data s r = None"
    then show "buffered (on_stream_chunk r x s) r = buffered s r @ [Chunk x]"
      using stream_open [OF inv r(2)] by (simp add: s' buffered_def ingress_of_def)
  next
    show "omni_ok (om_received s) (on_stream_chunk r x s) (L(r := L r @ [Chunk x]))"
      by (rule chunk_ok [OF run_invD(1) [OF inv] room stream_open [OF inv r(2)] False])
  qed
  with r False show ?thesis by (simp add: handle_message_def)
qed

lemma run_done_inv:
  assumes inv: "run_inv c s L" and r: "r \<notin> set (om_aborted s)" "StreamDone \<notin> set (L r)"
    and room: "length (om_ingress s) < PENDING_STREAM_REQUEST_LIMIT"
  shows "run_inv c (handle_message r MsgDone s) (if r \<in> set (om_completed s) then L else L(r := L r @ [StreamDone]))"
proof (cases "r \<in> set (om_completed s)")
  case True
  with inv r show ?thesis by (simp add: handle_message_def on_stream_done_def)
next
  case False
  have s': "on_stream_done r s = (if find_request_data s r \<noteq> None then append_item r StreamDone s
      else s\<lparr>om_ingress := dict_set (om_ingress s) r (fst (ingress_of s r), True)\<rparr>)"
    using False by (simp add: on_stream_done_def Let_def split_beta room)
  have "run_inv c (on_stream_done r s) (L(r := L r @ [StreamDone]))"
  proof (rule stream_item_inv [OF inv s'])
    assume "find_request_data s r = None"
    then show "buffered (on_stream_done r s) r = buffered s r @ [StreamDone]"
      using stream_open [OF inv r(2)] by (simp add: s' buffered_def ingress_of_def)
  next
    show "omni_ok (om_received s) (on_stream_done r s) (L(r := L r @ [StreamDone]))"
      by (rule done_ok [OF run_invD(1) [OF inv] room stream_open [OF inv r(2)] False])
  qed
  with r False show ?thesis by (simp add: handle_message_def)
qed

lemma run_update_inv:
  assumes inv: "run_inv c s L"
  shows "run_inv c (on_request_update r u s) L"
proof (rule run_invI)
  let ?s = "on_request_update r u s"
  have e: "?s = s \<or> ?s = append_item r (Update u) s \<or> (\<exists>v. ?s = s\<lparr>om_updates := v\<rparr>)"
    by (auto simp: on_request_update_def Let_def)
  have a: "all_ids s' = all_ids s \<and> buffered s' = buffered s \<and> om_received s' = om_received s \<and> within_capacity c s' = within_capacity c s"
    if "s' = s \<or> s' = append_item r (Update u) s \<or> (\<exists>v. s' = s\<lparr>om_updates := v\<rparr>)" for s'
    using that
  proof (elim disjE exE)
    fix v assume v: "s' = s\<lparr>om_updates := v\<rparr>"
    have "buffered s' = buffered s" by (rule ext) (simp add: v buffered_def ingress_of_def)
    moreover have "within_capacity c s' = within_capacity c s" by (rule within_frame) (simp_all add: v)
    ultimately show ?thesis by (simp add: v all_ids_def ids_def places_def requests_def)
  next
    assume v: "s' = append_item r (Update u) s"
    have "within_capacity c s' = within_capacity c s" by (rule within_frame) (simp_all add: v)
    then show ?thesis by (simp add: v append_item_frame)
  qed simp
  note a = a [OF e, THEN conjunct1] a [OF e, THEN conjunct2, THEN conjunct1] a [OF e, THEN conjunct2, THEN conjunct2, THEN conjunct1]
    a [OF e, THEN conjunct2, THEN conjunct2, THEN conjunct2]
  show "omni_ok (om_received ?s) ?s L" using update_ok [OF run_invD(1) [OF inv]] by (simp add: a)
  show "within_capacity c ?s" using run_invD(3) [OF inv] by (simp add: a)
  fix y assume "y \<notin> set (all_ids ?s)"
  with run_invD(2) [OF inv] show "L y = buffered ?s y" by (simp add: a)
qed

lemma run_request_inv:
  assumes inv: "run_inv c s L" and r: "r \<notin> set (om_aborted s)" "r \<notin> set (all_ids s)" "pa_id p = r"
  shows "run_inv c (handle_message r (NewRequest p) s) (L(r := map Chunk (pa_chunks p) @ L r))"
proof (rule run_invI)
  let ?s = "handle_message r (NewRequest p) s"
  have s': "?s = s\<lparr>om_completed := removeAll r (om_completed s), om_received := om_received s @ [p]\<rparr>"
    using r(1) by (simp add: handle_message_def)
  have "omni_ok (om_received s @ [p]) ?s (L(pa_id p := map Chunk (pa_chunks p) @ L (pa_id p)))"
    by (rule receive_ok [OF run_invD(1) [OF inv] _ _ s']) (use r run_invD(2) [OF inv r(2)] in \<open>simp_all add: all_ids_def\<close>)
  then show "omni_ok (om_received ?s) ?s (L(r := map Chunk (pa_chunks p) @ L r))" by (simp add: r(3) s')
  show "within_capacity c ?s" using run_invD(3) [OF inv] by (subst within_frame [of ?s s]) (simp_all add: s')
  fix y assume y: "y \<notin> set (all_ids ?s)"
  have "y \<noteq> r \<and> y \<notin> set (all_ids s)" using y r(3) by (auto simp: all_ids_def ids_def places_def requests_def s')
  with run_invD(2) [OF inv, of y] show "(L(r := map Chunk (pa_chunks p) @ L r)) y = buffered ?s y"
    by (simp add: s' buffered_def ingress_of_def)
qed

lemma set_ids:
  "set (ids extra s) = pa_id ` set extra \<union> pa_id ` set (om_backlog s) \<union> {pa_id p | k p e. (k, p, e) \<in> set (om_builds s @ om_admissions s)}
     \<union> rq_id ` set (om_batches s @ om_waiting s)"
proof -
  have "pa_id ` set (map (fst \<circ> snd) xs) = {pa_id p | k p e. (k, p, e) \<in> set xs}" for xs :: "(string \<times> 'a payload \<times> bool) list"
  proof (rule set_eqI)
    fix y
    have "y \<in> pa_id ` set (map (fst \<circ> snd) xs) \<longleftrightarrow> (\<exists>z \<in> set xs. y = pa_id (fst (snd z)))" by auto
    also have "\<dots> \<longleftrightarrow> (\<exists>k p e. (k, p, e) \<in> set xs \<and> y = pa_id p)" by (simp only: Bex_def split_paired_Ex fst_conv snd_conv)
    finally show "y \<in> pa_id ` set (map (fst \<circ> snd) xs) \<longleftrightarrow> y \<in> {pa_id p | k p e. (k, p, e) \<in> set xs}" by blast
  qed
  from this [of "om_builds s @ om_admissions s"] show ?thesis
    by (simp only: ids_def places_def requests_def set_append set_map image_Un map_append Un_assoc)
qed

lemma abort_ids:
  assumes k: "\<And>k p e. (k, p, e) \<in> set (om_builds s @ om_admissions s) \<Longrightarrow> k = pa_id p \<and> staged_ok s p e"
    and y: "y \<noteq> r" "y \<in> set (ids extra s)"
  shows "y \<in> set (ids extra (abort_request r defer s))"
proof -
  let ?s = "abort_request r defer s"
  from y(2) consider "y \<in> pa_id ` set extra" | p where "p \<in> set (om_backlog s)" "pa_id p = y"
    | k p e where "(k, p, e) \<in> set (om_builds s @ om_admissions s)" "pa_id p = y"
    | q where "q \<in> set (om_batches s @ om_waiting s)" "rq_id q = y"
    unfolding set_ids by blast
  then show ?thesis
  proof cases
    case 1
    then show ?thesis by (simp add: set_ids)
  next
    case (2 p)
    then have "p \<in> set (om_backlog ?s)" using y(1) by (simp add: abort_request_def Let_def)
    with 2(2) show ?thesis by (auto simp: set_ids)
  next
    case (3 k' p e)
    have "k' = y" using k [OF 3(1)] 3(2) by simp
    then have "(k', p, e) \<in> set (om_builds ?s @ om_admissions ?s)"
      using 3(1) y(1) by (auto simp: abort_request_def Let_def dict_pop_def)
    then show ?thesis using 3(2) unfolding set_ids by blast
  next
    case (4 q)
    then have "q \<in> set (om_batches ?s @ om_waiting ?s)" using y(1) by (auto simp: abort_request_def Let_def)
    with 4(2) show ?thesis unfolding set_ids by blast
  qed
qed

lemma run_abort_inv:
  assumes inv: "run_inv c s L" and s'_def: "s' = abort_request r defer s"
  shows "run_inv c s' (L(r := after_abort s' r (L r)))"
proof (rule run_invI)
  have rec: "om_received s' = om_received s" by (simp add: s'_def abort_request_def Let_def)
  show "omni_ok (om_received s') s' (L(r := after_abort s' r (L r)))"
    unfolding rec by (rule abort_ok [OF run_invD(1) [OF inv] s'_def])
  show "within_capacity c s'" unfolding s'_def by (rule within_no_growth [OF run_invD(3) [OF inv] no_growth_abort])
  fix y assume y: "y \<notin> set (all_ids s')"
  note A = abort_shrinks(5,6) [OF s'_def]
  show "(L(r := after_abort s' r (L r))) y = buffered s' y"
  proof (cases "y = r")
    case True
    from y have "filter (\<lambda>p. pa_id p = r) (om_received s') = []" by (auto simp: filter_empty_conv all_ids_def ids_def places_def True)
    with True not_live [OF y] A(2) show ?thesis by (simp add: after_abort_def buffered_def)
  next
    case False
    have "y \<notin> set (all_ids s)"
      using abort_ids [OF omni_okD(2) [OF run_invD(1) [OF inv]] False, of "om_received s" "defer"] y by (auto simp: all_ids_def s'_def [symmetric] rec)
    with run_invD(2) [OF inv] False A(1) show ?thesis by (simp add: buffered_def)
  qed
qed

lemma run_process_inv:
  assumes inv: "run_inv c s L"
  shows "run_inv c (process_input_requests c o' s) (keep L (process_input_requests c o' s))"
  using process_capacity [OF run_invD(3) [OF inv], of o'] process_input_ok [OF run_invD(1) [OF inv], of c o']
  by (intro keep_inv) simp_all

lemma same_ingress: "om_ingress s' = om_ingress s \<Longrightarrow> ingress_of s' = ingress_of s" "om_ingress s' = om_ingress s \<Longrightarrow> buffered s' = buffered s"
  by (simp_all add: fun_eq_iff buffered_def ingress_of_def)

lemma omni_frame:
  assumes ok: "omni_ok extra s L" and e: "extra' = extra"
    and ids: "mset (map rq_id (requests s')) \<subseteq># mset (map rq_id (requests s))"
    and sub: "\<And>q. q \<in> set (requests s') \<Longrightarrow> \<exists>q0 \<in> set (requests s). rq_id q = rq_id q0 \<and> rq_data q = rq_data q0 \<and> (rq_over q0 \<longrightarrow> rq_over q)"
    and wait: "set (om_waiting s') \<subseteq> set (om_waiting s)"
    and same: "om_backlog s' = om_backlog s" "om_builds s' = om_builds s" "om_admissions s' = om_admissions s"
      "om_ingress s' = om_ingress s" "om_aborted s' = om_aborted s"
  shows "omni_ok extra' s' L"
proof (rule omni_okI)
  have pl: "places extra' s' = places extra s" by (simp add: places_def same e)
  have "mset (ids extra' s') \<subseteq># mset (ids extra s)" using ids by (simp add: ids_def pl)
  then show "distinct (ids extra' s')" by (rule distinct_sub_mset [OF _ omni_okD(1) [OF ok]])
  fix k p d assume "(k, p, d) \<in> set (om_builds s' @ om_admissions s')"
  then have "k = pa_id p \<and> staged_ok s p d" by (intro omni_okD(2) [OF ok]) (simp add: same)
  then show "k = pa_id p \<and> staged_ok s' p d" by (simp add: staged_ok_def same_ingress [OF same(4)])
next
  fix y assume "y \<in> set (om_aborted s')"
  then have "y \<in> set (om_aborted s)" by (simp add: same)
  from omni_okD(3) [OF ok this] wait
  show "y \<notin> pa_id ` set (om_backlog s') \<union> fst ` set (om_builds s') \<union> fst ` set (om_admissions s') \<union> rq_id ` set (om_waiting s')"
    unfolding same by blast
next
  fix p assume "p \<in> set (places extra' s')"
  then have "p \<in> set (places extra s)" by (simp add: places_def same e)
  from omni_okD(4) [OF ok this] show "L (pa_id p) = map Chunk (pa_chunks p) @ buffered s' (pa_id p)"
    by (simp add: same_ingress [OF same(4)])
next
  fix q assume "q \<in> set (requests s')"
  from sub [OF this] obtain q0 where q0: "q0 \<in> set (requests s)" "rq_id q = rq_id q0" "rq_data q = rq_data q0" "rq_over q0 \<longrightarrow> rq_over q"
    by blast
  from omni_okD(5) [OF ok q0(1)] q0(2-4) show "request_ok s' L q"
    by (cases "rq_data q0") (auto simp: request_ok_def same_ingress [OF same(4)])
qed

lemma run_batch_inv:
  assumes inv: "run_inv c s L" and w: "om_waiting s = ws @ q # ws'"
  shows "run_inv c (s\<lparr>om_waiting := ws @ ws', om_batches := om_batches s @ [q]\<rparr>) L" (is "run_inv c ?s L")
proof (rule run_invI)
  show "omni_ok (om_received ?s) ?s L"
    by (rule omni_frame [OF run_invD(1) [OF inv]]) (auto simp: requests_def w)
  show "within_capacity c ?s" using run_invD(3) [OF inv] by (subst within_frame [of ?s s]) simp_all
  fix y assume "y \<notin> set (all_ids ?s)"
  then have "y \<notin> set (all_ids s)" by (auto simp: all_ids_def ids_def places_def requests_def w)
  with run_invD(2) [OF inv] show "L y = buffered ?s y" by (simp add: same_ingress(2) [of ?s s])
qed

lemma run_over_inv:
  assumes inv: "run_inv c s L" and w: "om_batches s = bs @ q # bs'"
  shows "run_inv c (s\<lparr>om_batches := bs @ q\<lparr>rq_over := True\<rparr> # bs'\<rparr>) L" (is "run_inv c ?s L")
proof (rule run_invI)
  show "omni_ok (om_received ?s) ?s L"
    by (rule omni_frame [OF run_invD(1) [OF inv]]) (auto simp: requests_def w)
  show "within_capacity c ?s" using run_invD(3) [OF inv] by (subst within_frame [of ?s s]) simp_all
  fix y assume "y \<notin> set (all_ids ?s)"
  then have "y \<notin> set (all_ids s)" by (auto simp: all_ids_def ids_def places_def requests_def w)
  with run_invD(2) [OF inv] show "L y = buffered ?s y" by (simp add: same_ingress(2) [of ?s s])
qed

lemma run_leave_inv:
  assumes inv: "run_inv c s L" and w: "om_batches s = bs @ q # bs'"
  shows "run_inv c (s\<lparr>om_batches := bs @ bs'\<rparr>) (keep L (s\<lparr>om_batches := bs @ bs'\<rparr>))" (is "run_inv c ?s _")
proof (rule keep_inv)
  show "omni_ok (om_received ?s) ?s L"
    by (rule omni_frame [OF run_invD(1) [OF inv]]) (auto simp: requests_def w)
  show "within_capacity c ?s" using run_invD(3) [OF inv] by (subst within_frame [of ?s s]) simp_all
qed

lemma detach_ids [simp]: "map rq_id (detach r qs) = map rq_id qs" by (induction qs) (simp_all add: detach_def)

lemma run_complete_inv:
  assumes inv: "run_inv c s L" and r: "r \<in> rq_id ` set (om_batches s)" and s'_def: "s' = close_completed r s"
  shows "run_inv c s' (L(r := buffered s' r))"
proof -
  note ok = run_invD(1) [OF inv]
  have f: "om_received s' = om_received s" "om_backlog s' = om_backlog s" "om_builds s' = om_builds s"
    "om_admissions s' = om_admissions s" "om_waiting s' = om_waiting s" "om_aborted s' = om_aborted s"
    "om_batches s' = detach r (om_batches s)"
    by (simp_all add: s'_def close_completed_def remember_completed_def)
  have ing: "y \<noteq> r \<Longrightarrow> ingress_of s' y = ingress_of s y" for y
    by (simp add: s'_def close_completed_def remember_completed_def ingress_of_def)
  have pl: "places extra s' = places extra s" and rq: "map rq_id (requests s') = map rq_id (requests s)" for extra
    by (simp_all add: places_def requests_def f)
  have id: "ids extra s' = ids extra s" for extra unfolding ids_def pl rq ..
  have other: "y \<noteq> r" if "y \<in> pa_id ` set (places (om_received s) s) \<or> y \<in> rq_id ` set (om_waiting s)" for y
    using that r omni_okD(1) [OF ok] by (auto simp: ids_def requests_def)
  show ?thesis
  proof (rule run_invI)
    show "within_capacity c s'" using run_invD(3) [OF inv] by (subst within_frame [of s' s]) (simp_all add: f)
    fix y assume "y \<notin> set (all_ids s')"
    then have y: "y \<notin> set (all_ids s)" by (simp add: all_ids_def f id)
    from run_invD(2) [OF inv y] ing show "(L(r := buffered s' r)) y = buffered s' y" by (simp add: buffered_def)
  next
    show "omni_ok (om_received s') s' (L(r := buffered s' r))"
      unfolding f(1)
    proof (rule omni_okI)
      show "distinct (ids (om_received s) s')" using omni_okD(1) [OF ok] by (simp add: id)
      fix k p d assume "(k, p, d) \<in> set (om_builds s' @ om_admissions s')"
      then have m: "(k, p, d) \<in> set (om_builds s @ om_admissions s)" by (simp add: f)
      then have "p \<in> set (places (om_received s) s)" by (force simp: places_def)
      with other have "pa_id p \<noteq> r" by blast
      with omni_okD(2) [OF ok m] show "k = pa_id p \<and> staged_ok s' p d" by (simp add: staged_ok_def ing)
    next
      fix y assume "y \<in> set (om_aborted s')"
      then have "y \<in> set (om_aborted s)" by (simp add: f)
      from omni_okD(3) [OF ok this]
      show "y \<notin> pa_id ` set (om_backlog s') \<union> fst ` set (om_builds s') \<union> fst ` set (om_admissions s') \<union> rq_id ` set (om_waiting s')"
        unfolding f .
    next
      fix p assume "p \<in> set (places (om_received s) s')"
      then have m: "p \<in> set (places (om_received s) s)" by (simp add: pl)
      with other have "pa_id p \<noteq> r" by blast
      with omni_okD(4) [OF ok m] show "(L(r := buffered s' r)) (pa_id p) = map Chunk (pa_chunks p) @ buffered s' (pa_id p)"
        by (simp add: buffered_def ing)
    next
      fix q assume "q \<in> set (requests s')"
      then consider "q \<in> set (requests s)" "rq_id q \<noteq> r" | "rq_id q = r" "rq_data q = None" "rq_over q"
        using other by (auto simp: requests_def f detach_def split: if_splits)
      then show "request_ok s' (L(r := buffered s' r)) q"
      proof cases
        case 1
        with omni_okD(5) [OF ok 1(1)] show ?thesis by (cases "rq_data q") (simp_all add: request_ok_def buffered_def ing)
      qed (simp add: request_ok_def)
    qed
  qed
qed

lemma empty_run_inv: "run_inv c empty_omni (\<lambda>_. [])"
  by (rule run_invI; (rule omni_okI)?)
    (simp_all add: empty_omni_def places_def requests_def ids_def buffered_def ingress_of_def within_capacity_def split: option.split)

lemma run_keeps: "omni_run c s L \<Longrightarrow> run_inv c s L"
proof (induction rule: omni_run.induct)
  case run_init
  show ?case by (rule empty_run_inv)
next
  case (run_ignored s L r m)
  then show ?case by (simp add: handle_message_def)
next
  case (run_request s L r p)
  from run_request_inv [OF run_request.IH run_request.hyps(2-4)] show ?case .
next
  case (run_chunk s L r x)
  from run_chunk_inv [OF run_chunk.IH run_chunk.hyps(2-4)] show ?case .
next
  case (run_done s L r)
  from run_done_inv [OF run_done.IH run_done.hyps(2-4)] show ?case .
next
  case (run_update s L r u)
  with run_update_inv [OF run_update.IH, of r u] show ?case by (simp add: handle_message_def)
next
  case (run_abort s L r s' d)
  then have "s' = abort_request r d s" by (simp add: handle_message_def)
  with run_abort_inv [OF run_abort.IH] show ?case by blast
next
  case (run_process s L s' o')
  with run_process_inv [OF run_process.IH] show ?case by simp
next
  case (run_batch s L ws q ws')
  from run_batch_inv [OF run_batch.IH run_batch.hyps(2)] show ?case .
next
  case (run_over s L bs q bs')
  from run_over_inv [OF run_over.IH run_over.hyps(2)] show ?case .
next
  case (run_complete s L r s')
  from run_complete_inv [OF run_complete.IH run_complete.hyps(2,3)] show ?case .
next
  case (run_leave s L bs q bs' s')
  with run_leave_inv [OF run_leave.IH run_leave.hyps(2)] show ?case by simp
qed

subsection \<open>What a run keeps\<close>

text \<open>C17: The scheduler hands a request exactly the stream that was sent for it.  In every
  state that runs of the scheduler reach, the chunks and the end mark in the data of a request are the
  chunks its payload brought followed by everything received for its id since, in the order of receipt
  and each item once: whether an item came before the request, while it waited in the backlog, was being
  built or waited for admission, or after it was enqueued.  What is still on its way is a payload's own
  chunks followed by what is buffered for its id.\<close>

theorem stream_intact:
  assumes "omni_run c s L"
    "q \<in> set (om_batches s @ om_waiting s)" "rq_data q = Some d"
    "p \<in> set (om_received s @ om_backlog s @ map (fst \<circ> snd) (om_builds s) @ map (fst \<circ> snd) (om_admissions s))"
  shows "stream_of d = L (rq_id q) \<and>
    map Chunk (pa_chunks p) @ map Chunk (fst (ingress_of s (pa_id p))) @ (if snd (ingress_of s (pa_id p)) then [StreamDone] else [])
      = L (pa_id p)"
proof -
  note ok = run_invD(1) [OF run_keeps [OF assms(1)]]
  have "request_ok s L q" by (rule omni_okD(5) [OF ok]) (use assms(2) in \<open>simp add: requests_def\<close>)
  moreover have "L (pa_id p) = map Chunk (pa_chunks p) @ buffered s (pa_id p)"
    by (rule omni_okD(4) [OF ok]) (use assms(4) in \<open>simp add: places_def\<close>)
  ultimately show ?thesis using assms(3) by (simp add: request_ok_def buffered_def)
qed

text \<open>C20: However requests arrive, at most the configured number is being built at a
  time, and the backlog never exceeds its limit when there is one; without an executor nothing is built
  in the background and nothing waits in the backlog.\<close>

theorem admission_capacity:
  assumes "omni_run (omni_config_of workers max_pending max_queued) s L"
  shows "(workers \<le> 1 \<longrightarrow> om_builds s = [] \<and> om_backlog s = []) \<and>
    (workers > 1 \<longrightarrow> int (length (om_builds s)) \<le> max 1 (case max_pending of None \<Rightarrow> workers | Some n \<Rightarrow> n) \<and>
      (max_queued > 0 \<longrightarrow> int (length (om_backlog s)) \<le> max max_queued (max 1 (case max_pending of None \<Rightarrow> workers | Some n \<Rightarrow> n))))"
proof -
  have w: "within_capacity (omni_config_of workers max_pending max_queued) s" by (rule run_invD(3) [OF run_keeps [OF assms]])
  show ?thesis
  proof (cases "workers > 1")
    case True
    define k where "k = max 1 (case max_pending of None \<Rightarrow> workers | Some n \<Rightarrow> n)"
    have "length (om_builds s) \<le> nat k \<and> (max_queued > 0 \<longrightarrow> length (om_backlog s) \<le> nat (max k max_queued))"
      using w True unfolding within_capacity_def omni_config_of_def Let_def k_def [symmetric] by (auto split: if_splits)
    moreover have "1 \<le> k" by (simp add: k_def)
    ultimately show ?thesis using True unfolding k_def [symmetric] by linarith
  next
    case False
    with w show ?thesis by (simp add: within_capacity_def omni_config_of_def)
  qed
qed

text \<open>C19: A request is in one place at a time: received, in the backlog, being built, waiting for
  admission, waiting to be scheduled or in a batch, and only once there; and an aborted id is in none of
  the backlog, the builds, the admissions and the waiting queue, so no aborted request is enqueued.\<close>

theorem one_place:
  assumes "omni_run c s L"
  shows "distinct (map pa_id (om_received s @ om_backlog s) @ map fst (om_builds s) @ map fst (om_admissions s) @
      map rq_id (om_batches s @ om_waiting s)) \<and>
    set (om_aborted s) \<inter> (set (map pa_id (om_backlog s) @ map fst (om_builds s) @ map fst (om_admissions s) @ map rq_id (om_waiting s))) = {}"
proof
  note ok = run_invD(1) [OF run_keeps [OF assms]]
  have "pa_id (fst (snd e)) = fst e" if "e \<in> set (om_builds s @ om_admissions s)" for e
    using omni_okD(2) [OF ok, of "fst e" "fst (snd e)" "snd (snd e)"] that by simp
  then have k: "map (pa_id \<circ> fst \<circ> snd) (om_builds s @ om_admissions s) = map fst (om_builds s @ om_admissions s)"
    by (intro map_cong) (simp_all only: comp_apply)
  have "map pa_id (om_received s @ om_backlog s) @ map fst (om_builds s) @ map fst (om_admissions s) @
      map rq_id (om_batches s @ om_waiting s) = ids (om_received s) s"
    unfolding ids_def places_def requests_def using k by (simp only: map_append map_map comp_assoc append_assoc append_eq_append_conv length_map)
  then show "distinct (map pa_id (om_received s @ om_backlog s) @ map fst (om_builds s) @ map fst (om_admissions s) @
      map rq_id (om_batches s @ om_waiting s))"
    using omni_okD(1) [OF ok] by (simp only:)
  show "set (om_aborted s) \<inter> (set (map pa_id (om_backlog s) @ map fst (om_builds s) @ map fst (om_admissions s) @ map rq_id (om_waiting s))) = {}"
    using omni_okD(3) [OF ok] unfolding set_append set_map disjoint_iff by blast
qed

subsection \<open>An example\<close>

text \<open>A chunk that comes before its request, the request, a second chunk while it is received; then the
  request is built at once and a third chunk goes straight to its data, while a second request is only received.\<close>

definition demo_config :: omni_config where "demo_config = omni_config_of 1 None 0"

definition demo_outside :: "nat outside" where
  "demo_outside = \<lparr>ou_build = \<lambda>_. BuildsRequest, ou_done = \<lambda>_. True, ou_ready = \<lambda>_. IsReady, ou_fits = \<lambda>_. True\<rparr>"

definition demo_received :: "(nat, nat) omni" where
  "demo_received = handle_message ''a'' (MsgChunk 7)
     (handle_message ''a'' (NewRequest \<lparr>pa_id = ''a'', pa_chunks = [1], pa_done = False\<rparr>) (handle_message ''a'' (MsgChunk 5) empty_omni))"

definition demo_waiting :: "(nat, nat) omni" where
  "demo_waiting = handle_message ''b'' (NewRequest \<lparr>pa_id = ''b'', pa_chunks = [2], pa_done = False\<rparr>)
     (handle_message ''a'' (MsgChunk 9) (process_input_requests demo_config demo_outside demo_received))"

lemma run_to: "omni_run c s L \<Longrightarrow> s = s' \<Longrightarrow> L = L' \<Longrightarrow> omni_run c s' L'" by simp

definition demo_history :: "string \<Rightarrow> (nat, nat) item list" where
  "demo_history = (\<lambda>_. [])(''a'' := [Chunk 1, Chunk 5, Chunk 7, Chunk 9], ''b'' := [Chunk 2])"

lemmas message_eval = handle_message_def on_stream_chunk_def find_request_data_def find_request_def empty_omni_def
  reserve_pending_stream_request_def reserve_pending_def ingress_of_def PENDING_STREAM_REQUEST_LIMIT_def append_item_def dict_get_def

lemma demo_messages:
  "handle_message ''a'' (MsgChunk 5) empty_omni = empty_omni\<lparr>om_ingress := [(''a'', [5], False)]\<rparr>"
  "handle_message ''a'' (NewRequest p) (empty_omni\<lparr>om_ingress := i\<rparr>) = empty_omni\<lparr>om_ingress := i, om_received := [p]\<rparr>"
  "handle_message ''a'' (MsgChunk 7) (empty_omni\<lparr>om_ingress := [(''a'', [5], False)], om_received := ps\<rparr>) =
     empty_omni\<lparr>om_ingress := [(''a'', [5, 7], False)], om_received := ps\<rparr>"
  "handle_message ''a'' (MsgChunk 9) (empty_omni\<lparr>om_waiting := [\<lparr>rq_id = ''a'', rq_data = Some d, rq_over = False\<rparr>]\<rparr>) =
     empty_omni\<lparr>om_waiting := [\<lparr>rq_id = ''a'', rq_data = Some (d @ [Chunk 9]), rq_over = False\<rparr>]\<rparr>"
  "handle_message ''b'' (NewRequest p) (empty_omni\<lparr>om_waiting := qs\<rparr>) = empty_omni\<lparr>om_waiting := qs, om_received := [p]\<rparr>"
  by (simp_all add: message_eval)

lemma demo_received_eval:
  "demo_received = empty_omni\<lparr>om_ingress := [(''a'', [5, 7], False)], om_received := [\<lparr>pa_id = ''a'', pa_chunks = [1], pa_done = False\<rparr>]\<rparr>"
  by (simp add: demo_received_def demo_messages)

lemma demo_processed:
  "process_input_requests demo_config demo_outside demo_received =
     empty_omni\<lparr>om_waiting := [\<lparr>rq_id = ''a'', rq_data = Some [Chunk 1, Chunk 5, Chunk 7], rq_over = False\<rparr>]\<rparr>"
  unfolding demo_received_eval by code_simp

lemma demo_waiting_eval:
  "demo_waiting = empty_omni\<lparr>om_waiting := [\<lparr>rq_id = ''a'', rq_data = Some [Chunk 1, Chunk 5, Chunk 7, Chunk 9], rq_over = False\<rparr>],
     om_received := [\<lparr>pa_id = ''b'', pa_chunks = [2], pa_done = False\<rparr>]\<rparr>"
  by (simp add: demo_waiting_def demo_processed demo_messages)

lemma demo_received_run: "omni_run demo_config demo_received ((\<lambda>_. [])(''a'' := [Chunk 1, Chunk 5, Chunk 7]))"
proof -
  let ?p = "\<lparr>pa_id = ''a'', pa_chunks = [1 :: nat], pa_done = False\<rparr>"
  let ?m1 = "empty_omni\<lparr>om_ingress := [(''a'', [5], False)]\<rparr> :: (nat, nat) omni"
  let ?m2 = "empty_omni\<lparr>om_ingress := [(''a'', [5], False)], om_received := [?p]\<rparr> :: (nat, nat) omni"
  let ?L = "\<lambda>a. (\<lambda>_. [])(''a'' := a)"
  note e = empty_omni_def all_ids_def ids_def places_def requests_def PENDING_STREAM_REQUEST_LIMIT_def fun_eq_iff
  have 1: "omni_run demo_config ?m1 (?L [Chunk 5])"
    by (rule run_to [OF run_chunk [OF run_init] demo_messages(1)]) (simp_all add: e)
  have 2: "omni_run demo_config ?m2 (?L [Chunk 1, Chunk 5])"
    by (rule run_to [OF run_request [OF 1] demo_messages(2)]) (simp_all add: e)
  show ?thesis
    unfolding demo_received_eval by (rule run_to [OF run_chunk [OF 2] demo_messages(3)]) (simp_all add: e)
qed

lemma demo_omni_run: "omni_run demo_config demo_waiting demo_history"
proof -
  let ?q = "\<lambda>d. \<lparr>rq_id = ''a'', rq_data = Some d, rq_over = False\<rparr>"
  let ?L = "\<lambda>a. (\<lambda>_. [])(''a'' := a)"
  note e = empty_omni_def all_ids_def ids_def places_def requests_def PENDING_STREAM_REQUEST_LIMIT_def fun_eq_iff
  have 4: "omni_run demo_config (empty_omni\<lparr>om_waiting := [?q [Chunk 1, Chunk 5, Chunk 7]]\<rparr> :: (nat, nat) omni) (?L [Chunk 1, Chunk 5, Chunk 7])"
    by (rule run_to [OF run_process [OF demo_received_run refl] demo_processed]) (simp add: demo_processed e keep_def buffered_def ingress_of_def dict_get_def)
  have 5: "omni_run demo_config (empty_omni\<lparr>om_waiting := [?q [Chunk 1, Chunk 5, Chunk 7, Chunk 9]]\<rparr> :: (nat, nat) omni) (?L [Chunk 1, Chunk 5, Chunk 7, Chunk 9])"
    by (rule run_to [OF run_chunk [OF 4] demo_messages(4) [THEN trans]]) (simp_all add: e)
  show ?thesis
    unfolding demo_waiting_eval by (rule run_to [OF run_request [OF 5] demo_messages(5)]) (simp_all add: e demo_history_def)
qed

lemma demo_state:
  "om_waiting demo_waiting = [\<lparr>rq_id = ''a'', rq_data = Some [Chunk 1, Chunk 5, Chunk 7, Chunk 9], rq_over = False\<rparr>]"
  "om_received demo_waiting = [\<lparr>pa_id = ''b'', pa_chunks = [2], pa_done = False\<rparr>]"
  by (simp_all add: demo_waiting_eval)

theorem stream_intact_witness:
  "stream_of [Chunk 1, Chunk 5, Chunk 7, Chunk 9] = demo_history ''a'' \<and>
    map Chunk [2] @ map Chunk (fst (ingress_of demo_waiting ''b'')) @ (if snd (ingress_of demo_waiting ''b'') then [StreamDone] else [])
      = demo_history ''b''"
  using stream_intact [OF demo_omni_run, of "\<lparr>rq_id = ''a'', rq_data = Some [Chunk 1, Chunk 5, Chunk 7, Chunk 9], rq_over = False\<rparr>"
      "[Chunk 1, Chunk 5, Chunk 7, Chunk 9]" "\<lparr>pa_id = ''b'', pa_chunks = [2], pa_done = False\<rparr>"]
  by (simp add: demo_state demo_history_def)

text \<open>Three requests for two workers: two are being built, one waits in the backlog.\<close>

definition demo_busy :: "(nat, nat) omni" where
  "demo_busy = process_input_requests (omni_config_of 2 None 1) (demo_outside\<lparr>ou_done := \<lambda>_. False\<rparr>)
     (fold (\<lambda>r. handle_message r (NewRequest \<lparr>pa_id = r, pa_chunks = [], pa_done = False\<rparr>)) [''a'', ''b'', ''c''] empty_omni)"

lemma demo_busy_run: "\<exists>L. omni_run (omni_config_of 2 None 1) demo_busy L"
proof -
  let ?c = "omni_config_of 2 None 1" and ?p = "\<lambda>r. \<lparr>pa_id = r, pa_chunks = [], pa_done = False\<rparr>"
  let ?m0 = "empty_omni :: (nat, nat) omni"
  let ?m1 = "handle_message ''a'' (NewRequest (?p ''a'')) ?m0"
  let ?m2 = "handle_message ''b'' (NewRequest (?p ''b'')) ?m1"
  let ?m3 = "handle_message ''c'' (NewRequest (?p ''c'')) ?m2"
  have a: "''a'' \<notin> set (om_aborted ?m0)" "''a'' \<notin> set (all_ids ?m0)"
    "''b'' \<notin> set (om_aborted ?m1)" "''b'' \<notin> set (all_ids ?m1)"
    "''c'' \<notin> set (om_aborted ?m2)" "''c'' \<notin> set (all_ids ?m2)" by code_simp+
  have i: "pa_id (?p r) = r" for r by simp
  note 1 = run_request [OF run_init a(1,2) i, of ?c]
  note 2 = run_request [OF 1 a(3,4) i]
  note 3 = run_request [OF 2 a(5,6) i]
  show ?thesis using run_process [OF 3 refl, of "demo_outside\<lparr>ou_done := \<lambda>_. False\<rparr>"] by (auto simp: demo_busy_def)
qed

theorem admission_capacity_witness:
  "map fst (om_builds demo_busy) = [''a'', ''b''] \<and> map pa_id (om_backlog demo_busy) = [''c''] \<and>
     int (length (om_builds demo_busy)) \<le> 2 \<and> int (length (om_backlog demo_busy)) \<le> 2"
proof -
  obtain L where "omni_run (omni_config_of 2 None 1) demo_busy L" using demo_busy_run by blast
  from admission_capacity [OF this]
  have "int (length (om_builds demo_busy)) \<le> 2" "int (length (om_backlog demo_busy)) \<le> 2" by simp_all
  moreover have "map fst (om_builds demo_busy) = [''a'', ''b'']" "map pa_id (om_backlog demo_busy) = [''c'']" by code_simp+
  ultimately show ?thesis by simp
qed

theorem one_place_witness:
  "distinct ([''b''] @ map pa_id (om_backlog demo_waiting) @ map fst (om_builds demo_waiting) @ map fst (om_admissions demo_waiting) @
      map rq_id (om_batches demo_waiting) @ [''a''])"
  using one_place [OF demo_omni_run] by (simp add: demo_state)

end
