(* ===== verification/Request_Admission_Kept.thy ===== *)
theory Request_Admission_Kept
  imports Request_Admission_Trace
begin

section \<open>No request is dropped silently\<close>

text \<open>A pass over the inbox's payloads keeps every id the scheduler holds, or reports its failure.
  \<open>A\<close> are the ids that were aborted before the pass.\<close>

definition tracked :: "'c payload list \<Rightarrow> ('c, 'u) omni \<Rightarrow> string \<Rightarrow> bool" where
  "tracked extra s r \<longleftrightarrow> r \<in> set (ids extra s) \<or> r \<in> set (om_errors s)"

definition aborts_reported :: "string set \<Rightarrow> ('c, 'u) omni \<Rightarrow> bool" where
  "aborts_reported A s \<longleftrightarrow> set (om_aborted s) \<subseteq> A \<union> set (om_errors s)"

definition carries :: "string set \<Rightarrow> 'c payload list \<Rightarrow> ('c, 'u) omni \<Rightarrow> 'c payload list \<Rightarrow> ('c, 'u) omni \<Rightarrow> bool" where
  "carries A extra s extra' s' \<longleftrightarrow>
     (aborts_reported A s \<longrightarrow> aborts_reported A s' \<and> (\<forall>r. r \<notin> A \<longrightarrow> tracked extra s r \<longrightarrow> tracked extra' s' r))"

lemma carriesI:
  assumes "aborts_reported A s \<Longrightarrow> aborts_reported A s'"
    "\<And>r. aborts_reported A s \<Longrightarrow> r \<notin> A \<Longrightarrow> tracked extra s r \<Longrightarrow> tracked extra' s' r"
  shows "carries A extra s extra' s'"
  unfolding carries_def using assms by blast

lemma carries_refl [simp]: "carries A extra s extra s" by (simp add: carries_def)

lemma carries_trans: "carries A e1 s1 e2 s2 \<Longrightarrow> carries A e2 s2 e3 s3 \<Longrightarrow> carries A e1 s1 e3 s3"
  unfolding carries_def by blast

text \<open>Steps that neither abort nor report only have to keep the ids.\<close>

lemma carries_ids:
  assumes "set (ids extra s) \<subseteq> set (ids extra' s')" "om_errors s' = om_errors s" "om_aborted s' = om_aborted s"
  shows "carries A extra s extra' s'"
  using assms by (auto simp: carries_def aborts_reported_def tracked_def)

lemma fail_carries:
  assumes ok: "omni_ok extra s L"
  shows "carries A extra s extra (fail_admission r s)"
proof (rule carriesI)
  let ?s = "s\<lparr>om_errors := om_errors s @ [r]\<rparr>"
  have e: "om_errors (fail_admission r s) = om_errors s @ [r]" by (simp add: fail_admission_def abort_request_def Let_def)
  have a: "set (om_aborted (fail_admission r s)) \<subseteq> insert r (set (om_aborted s))"
    using set_remember_aborted [of r "om_aborted s"] by (simp add: fail_admission_def abort_request_def Let_def)
  show "aborts_reported A s \<Longrightarrow> aborts_reported A (fail_admission r s)"
    using a by (auto simp: aborts_reported_def e)
  fix y assume t: "tracked extra s y"
  have ok': "omni_ok extra ?s L" using ok by (simp only: omni_ok_errors)
  show "tracked extra (fail_admission r s) y"
  proof (cases "y = r \<or> y \<in> set (om_errors s)")
    case True
    then show ?thesis by (auto simp: tracked_def e)
  next
    case False
    then have "y \<in> set (ids extra ?s)" using t by (simp add: tracked_def ids_def places_def requests_def)
    with abort_ids [OF omni_okD(2) [OF ok'], of y r extra True] False show ?thesis by (simp add: tracked_def fail_admission_def)
  qed
qed

lemma fail_drop_carries:
  assumes ok: "omni_ok (p # extra) s L"
  shows "carries A (p # extra) s extra (fail_admission (pa_id p) s)"
proof (rule carriesI)
  note F = fail_carries [OF drop_extra [OF ok], of A "pa_id p"]
  show "aborts_reported A s \<Longrightarrow> aborts_reported A (fail_admission (pa_id p) s)" using F by (simp add: carries_def)
  fix y assume a: "aborts_reported A s" "y \<notin> A" "tracked (p # extra) s y"
  have "om_errors (fail_admission (pa_id p) s) = om_errors s @ [pa_id p]" by (simp add: fail_admission_def abort_request_def Let_def)
  moreover have "y = pa_id p \<or> tracked extra s y" using a(3) by (auto simp: tracked_def ids_Cons)
  ultimately show "tracked extra (fail_admission (pa_id p) s) y"
    using F a(1,2) unfolding carries_def by (auto simp: tracked_def)
qed

lemma aborted_drop_carries:
  assumes "pa_id p \<in> set (om_aborted s)" "set (ids extra s) \<subseteq> set (ids extra s')" "om_errors s' = om_errors s" "om_aborted s' = om_aborted s"
  shows "carries A (p # extra) s extra s'"
  using assms by (auto simp: carries_def aborts_reported_def tracked_def ids_Cons)

lemma enqueue_carries:
  assumes ok: "omni_ok (p # extra) s L"
  shows "carries A (p # extra) s extra (enqueue_built o' p d s)"
proof (cases "ou_fits o' (pa_id p)")
  case False
  then show ?thesis using fail_drop_carries [OF ok] by (simp add: enqueue_built_def)
next
  case True
  show ?thesis
  proof (cases "pa_id p \<in> set (om_aborted s)")
    case ab: True
    then show ?thesis using True
      by (intro aborted_drop_carries) (simp_all add: enqueue_built_def Let_def split_beta ids_def places_def requests_def)
  next
    case False
    with True show ?thesis
      by (intro carries_ids) (auto simp: enqueue_built_def Let_def split_beta ids_def places_def requests_def)
  qed
qed

lemma admit_ready_carries:
  assumes ok: "omni_ok (p # extra) s L"
  shows "carries A (p # extra) s extra (admit_ready o' p d s)"
proof (cases "pa_id p \<in> set (om_aborted s)")
  case True
  then show ?thesis by (intro aborted_drop_carries) (simp_all add: admit_ready_def)
next
  case False
  have "dict_set (om_admissions s) (pa_id p) (p, d) = om_admissions s @ [(pa_id p, p, d)]"
    by (rule dict_get_fresh) (rule extra_fresh(5) [OF ok])
  then have "carries A (p # extra) s extra (s\<lparr>om_admissions := dict_set (om_admissions s) (pa_id p) (p, d)\<rparr>)"
    by (intro carries_ids) (auto simp: ids_def places_def requests_def)
  then show ?thesis using False fail_drop_carries [OF ok] enqueue_carries [OF ok] by (simp add: admit_ready_def split: ready_result.split)
qed

lemma admit_carries:
  assumes ok: "omni_ok (p # extra) s L"
  shows "carries A (p # extra) s extra (admit_or_defer o' p d s)"
  using fail_drop_carries [OF ok] enqueue_carries [OF ok] admit_ready_carries [OF ok]
  by (simp add: admit_or_defer_def split: build_result.split)

text \<open>Taking a build or an admission out of its place.\<close>

lemma take_carries:
  assumes ok: "omni_ok extra s L" and r: "pa_id p = r"
    and s': "s' = s\<lparr>om_builds := dict_pop (om_builds s) r\<rparr> \<or> s' = s\<lparr>om_admissions := dict_pop (om_admissions s) r\<rparr>"
  shows "carries A extra s (p # extra) s'"
proof (rule carries_ids)
  show "om_errors s' = om_errors s" "om_aborted s' = om_aborted s" using s' by auto
  have f: "om_backlog s' = om_backlog s" "om_batches s' = om_batches s" "om_waiting s' = om_waiting s"
    and b: "\<And>k y e. (k, y, e) \<in> set (om_builds s @ om_admissions s) \<Longrightarrow> k \<noteq> r \<Longrightarrow> (k, y, e) \<in> set (om_builds s' @ om_admissions s')"
    using s' by (auto simp: dict_pop_def)
  show "set (ids extra s) \<subseteq> set (ids (p # extra) s')"
  proof
    fix y assume "y \<in> set (ids extra s)"
    then consider "y \<in> pa_id ` set extra \<union> pa_id ` set (om_backlog s) \<union> rq_id ` set (om_batches s @ om_waiting s)"
      | k z e where "(k, z, e) \<in> set (om_builds s @ om_admissions s)" "pa_id z = y"
      unfolding set_ids by blast
    then show "y \<in> set (ids (p # extra) s')"
    proof cases
      case 1
      then show ?thesis by (auto simp: set_ids f)
    next
      case (2 k z e)
      have "k = y" using omni_okD(2) [OF ok 2(1)] 2(2) by simp
      then show ?thesis using b [OF 2(1)] 2(2) r unfolding set_ids by (cases "k = r") auto
    qed
  qed
qed

lemma drain_builds_carries:
  "omni_ok extra s L \<Longrightarrow> carries A extra s extra (drain_builds_fuel n o' s)"
proof (induction n arbitrary: s)
  case (Suc n)
  show ?case
  proof (cases "om_builds s")
    case (Cons b rest)
    obtain r p d where b: "b = (r, p, d)" by (cases b)
    then have g: "dict_get (om_builds s) r = Some (p, d)" by (simp add: Cons)
    note T = take_build_ok [OF Suc(2) g]
    let ?s = "s\<lparr>om_builds := dict_pop (om_builds s) r\<rparr>"
    have ok: "omni_ok extra (admit_or_defer o' p d ?s) L" using T by (intro admit_or_defer_ok) simp_all
    have "carries A extra s (p # extra) ?s" by (rule take_carries [OF Suc(2) T(3)]) simp
    note carries_trans [OF carries_trans [OF this admit_carries [OF T(1), of A o' d]] Suc(1) [OF ok]]
    then show ?thesis using T(4) by (simp add: Cons b)
  qed simp
qed simp

lemma drain_admissions_carries:
  "omni_ok extra s L \<Longrightarrow> carries A extra s extra (drain_admissions_loop o' rs s)"
proof (induction rs arbitrary: s)
  case (Cons r rs)
  show ?case
  proof (cases "dict_get (om_admissions s) r")
    case None
    with Cons show ?thesis by simp
  next
    case (Some e)
    obtain p d where e: "e = (p, d)" by (cases e)
    note T = take_admission_ok [OF Cons(2) Some [unfolded e]]
    let ?s = "s\<lparr>om_admissions := dict_pop (om_admissions s) r\<rparr>"
    have ok: "omni_ok extra (admit_ready o' p d ?s) L" using T by (intro admit_ready_ok) simp_all
    have "carries A extra s (p # extra) ?s" by (rule take_carries [OF Cons(2) T(3)]) simp
    note carries_trans [OF carries_trans [OF this admit_ready_carries [OF T(1), of A o' d]] Cons(1) [OF ok]]
    then show ?thesis using T(4) by (simp add: Some e)
  qed
qed simp

lemma drains_carry:
  assumes "omni_ok extra s L"
  shows "carries A extra s extra (drain_builds o' s)" "carries A extra s extra (drain_admissions o' s)"
  using drain_builds_carries [OF assms] drain_admissions_carries [OF assms]
  by (simp_all add: drain_builds_def drain_admissions_def)

text \<open>Staging drops payloads of known ids and of ids that it has already.\<close>

lemma take_backlog_cover:
  "take_backlog known_id n ps = (sel, m, rest) \<Longrightarrow> p \<in> set ps \<Longrightarrow> p \<in> set (sel @ rest) \<or> known_id (pa_id p)"
proof (induction known_id n ps arbitrary: sel m rest rule: take_backlog.induct)
  case (3 known_id n a ps)
  show ?case
  proof (cases "known_id (pa_id a)")
    case True
    from 3(1) [OF True] 3(3,4) True show ?thesis by auto
  next
    case False
    obtain s1 m1 r1 where t: "take_backlog known_id n ps = (s1, m1, r1)" by (cases "take_backlog known_id n ps")
    from 3(2) [OF False t] 3(3,4) False t show ?thesis by auto
  qed
qed auto

lemma stage_received_cover:
  "stage_received known_id limit n sel backlog ps = (sel', backlog', rejected) \<Longrightarrow> r \<in> pa_id ` set (sel @ backlog @ ps) \<Longrightarrow>
     r \<in> pa_id ` set (sel' @ backlog' @ rejected) \<or> known_id r"
proof (induction known_id limit n sel backlog ps arbitrary: sel' backlog' rejected rule: stage_received.induct)
  case (2 known_id limit n sel backlog p ps)
  let ?skip = "known_id (pa_id p) \<or> pa_id p \<in> pa_id ` set backlog \<or> pa_id p \<in> pa_id ` set sel"
  let ?full = "case limit of None \<Rightarrow> False | Some k \<Rightarrow> k \<le> length backlog"
  consider "?skip" | "\<not> ?skip" "0 < n" | "\<not> ?skip" "\<not> 0 < n" "?full" | "\<not> ?skip" "\<not> 0 < n" "\<not> ?full" by blast
  then show ?case
  proof cases
    case 1
    then have e: "stage_received known_id limit n sel backlog (p # ps) = stage_received known_id limit n sel backlog ps"
      by (simp only: stage_received.simps if_True)
    have "r \<in> pa_id ` set (sel @ backlog @ ps) \<or> known_id r" using 1 "2.prems"(2) by auto
    with "2.IH"(1) [OF 1 "2.prems"(1) [unfolded e]] show ?thesis by blast
  next
    case 2
    note c = this
    then have e: "stage_received known_id limit n sel backlog (p # ps) = stage_received known_id limit (n - 1) (sel @ [p]) backlog ps"
      by (simp only: stage_received.simps if_True if_False)
    have "r \<in> pa_id ` set ((sel @ [p]) @ backlog @ ps)" using "2.prems"(2) by auto
    from "2.IH"(2) [OF c "2.prems"(1) [unfolded e] this] show ?thesis .
  next
    case 3
    note c = this
    obtain s1 b1 r1 where t: "stage_received known_id limit n sel backlog ps = (s1, b1, r1)" by (metis prod_cases3)
    have e: "sel' = s1" "backlog' = b1" "rejected = p # r1"
      using "2.prems"(1) c by (simp_all only: stage_received.simps if_True if_False t Let_def prod.case prod.inject)
    have "r = pa_id p \<or> r \<in> pa_id ` set (sel @ backlog @ ps)" using "2.prems"(2) by auto
    with "2.IH"(3) [OF c t] show ?thesis unfolding e by auto
  next
    case 4
    note c = this
    then have e: "stage_received known_id limit n sel backlog (p # ps) = stage_received known_id limit n sel (backlog @ [p]) ps"
      by (simp only: stage_received.simps if_False)
    have "r \<in> pa_id ` set (sel @ (backlog @ [p]) @ ps)" using "2.prems"(2) by auto
    from "2.IH"(4) [OF c "2.prems"(1) [unfolded e] this] show ?thesis .
  qed
qed simp

lemma known_cases:
  assumes "known s r" "omni_ok extra s L"
  obtains "r \<in> set (om_aborted s)" | p e where "(r, p, e) \<in> set (om_builds s @ om_admissions s)" "pa_id p = r"
proof -
  have "r \<in> set (om_aborted s) \<or> r \<in> fst ` set (om_builds s @ om_admissions s)"
    using assms(1) by (simp add: known_def dict_get_None_iff image_Un)
  then show thesis
  proof
    assume "r \<in> fst ` set (om_builds s @ om_admissions s)"
    then obtain p e where m: "(r, p, e) \<in> set (om_builds s @ om_admissions s)" unfolding image_iff Bex_def split_paired_Ex by auto
    then show thesis using that(2) omni_okD(2) [OF assms(2) m] by blast
  qed (rule that(1))
qed

lemma known_tracked:
  assumes ok: "omni_ok extra s L" and k: "known s r" and a: "aborts_reported A s" "r \<notin> A"
    and s': "set (om_builds s @ om_admissions s) \<subseteq> set (om_builds s' @ om_admissions s')" "om_errors s' = om_errors s"
  shows "tracked extra' s' r"
  using k ok
proof (rule known_cases)
  assume "r \<in> set (om_aborted s)"
  with a show ?thesis by (auto simp: aborts_reported_def tracked_def s'(2))
next
  fix p e assume "(r, p, e) \<in> set (om_builds s @ om_admissions s)" "pa_id p = r"
  with s'(1) show ?thesis unfolding tracked_def set_ids by blast
qed

text \<open>Dropping payloads whose ids are tracked without them.\<close>

lemma carries_drop:
  assumes "\<And>r. aborts_reported A s \<Longrightarrow> r \<notin> A \<Longrightarrow> r \<in> set (ids extra s) \<Longrightarrow> r \<in> set (ids extra' s') \<or> tracked extra' s' r"
    "om_errors s' = om_errors s" "om_aborted s' = om_aborted s"
  shows "carries A extra s extra' s'"
proof (rule carriesI)
  show "aborts_reported A s \<Longrightarrow> aborts_reported A s'" by (simp add: aborts_reported_def assms(2,3))
  fix r assume "aborts_reported A s" "r \<notin> A" "tracked extra s r"
  then show "tracked extra' s' r" using assms(1) [of r] by (auto simp: tracked_def assms(2))
qed

lemma stage_carries:
  assumes ok: "omni_ok received s L" and st: "stage_payloads c received s = (sel, rejected, s1)"
  shows "carries A received s (rejected @ sel) s1"
proof (cases "oc_executor c")
  case False
  with st show ?thesis by (simp add: stage_payloads_def)
next
  case True
  obtain sel0 n rest where t: "take_backlog (known s) (oc_max_pending c - length (om_builds s)) (om_backlog s) = (sel0, n, rest)"
    by (metis prod_cases3)
  obtain sel1 b1 r1 where r: "stage_received (known s) (oc_backlog_limit c) n sel0 rest received = (sel1, b1, r1)"
    by (metis prod_cases3)
  have s1: "s1 = s\<lparr>om_backlog := b1\<rparr>" "sel = sel1" "rejected = r1"
    using st True by (simp_all add: stage_payloads_def t r)
  show ?thesis
  proof (rule carries_drop)
    fix y assume a: "aborts_reported A s" "y \<notin> A" and y: "y \<in> set (ids received s)"
    have K: "tracked (rejected @ sel) s1 y" if "known s y"
      by (rule known_tracked [OF ok that a]) (simp_all add: s1)
    from y consider "y \<in> pa_id ` set (received @ om_backlog s)"
      | "y \<in> {pa_id p | k p e. (k, p, e) \<in> set (om_builds s @ om_admissions s)} \<union> rq_id ` set (om_batches s @ om_waiting s)"
      unfolding set_ids by auto
    then show "y \<in> set (ids (rejected @ sel) s1) \<or> tracked (rejected @ sel) s1 y"
    proof cases
      case 1
      then have "y \<in> pa_id ` set (sel0 @ rest @ received) \<or> known s y"
        using take_backlog_cover [OF t] by (auto simp: image_iff)
      then have "y \<in> pa_id ` set (sel1 @ b1 @ r1) \<or> known s y" using stage_received_cover [OF r] by blast
      then show ?thesis using K by (auto simp: set_ids s1)
    next
      case 2
      then show ?thesis unfolding set_ids s1 by simp
    qed
  qed (simp_all add: s1)
qed

lemma process_payload_carries:
  assumes ok: "omni_ok (p # extra) s L"
  shows "carries A (p # extra) s extra (process_payload c o' p s)"
proof (cases "known s (pa_id p)")
  case True
  have "carries A (p # extra) s extra s"
    by (rule carries_drop) (use known_tracked [OF drop_extra [OF ok] True, of A s extra] in \<open>auto simp: ids_Cons\<close>)
  then show ?thesis using True by (simp add: process_payload_def)
next
  case False
  obtain p' d s1 where t: "take_ingress p s = (p', d, s1)" by (metis prod_cases3)
  note T = take_ingress_ok [OF ok t]
  have f: "om_builds s1 = om_builds s" "om_admissions s1 = om_admissions s" "om_backlog s1 = om_backlog s"
    "om_waiting s1 = om_waiting s" "om_batches s1 = om_batches s" "om_errors s1 = om_errors s" "om_aborted s1 = om_aborted s"
    using t by (auto simp: take_ingress_def split_beta)
  have 1: "carries A (p # extra) s (p' # extra) s1"
    by (rule carries_ids) (simp_all add: ids_def places_def requests_def f T(3))
  have "dict_set (om_builds s1) (pa_id p') (p', d) = om_builds s1 @ [(pa_id p', p', d)]"
    by (rule dict_get_fresh) (rule extra_fresh(4) [OF T(1)])
  then have "carries A (p' # extra) s1 extra (s1\<lparr>om_builds := dict_set (om_builds s1) (pa_id p') (p', d)\<rparr>)"
    by (intro carries_ids) (auto simp: ids_def places_def requests_def)
  from carries_trans [OF 1 this] carries_trans [OF 1 admit_carries [OF T(1)]] False show ?thesis
    by (simp add: process_payload_def t)
qed

lemma fold_process_carries:
  "omni_ok (ps @ extra) s L \<Longrightarrow> carries A (ps @ extra) s extra (fold (process_payload c o') ps s)"
proof (induction ps arbitrary: s)
  case (Cons p ps)
  then have ok: "omni_ok (p # ps @ extra) s L" by simp
  from carries_trans [OF process_payload_carries [OF ok] Cons(1) [OF process_payload_ok [OF ok]]] show ?case by simp
qed simp

lemma fold_fail_carries:
  "omni_ok (ps @ extra) s L \<Longrightarrow> carries A (ps @ extra) s extra (fold (\<lambda>p. fail_admission (pa_id p)) ps s)"
proof (induction ps arbitrary: s)
  case (Cons p ps)
  then have ok: "omni_ok (p # ps @ extra) s L" by simp
  have "omni_ok (ps @ extra) (fail_admission (pa_id p) s) L"
    by (rule fail_ok [OF drop_extra [OF ok] extra_fresh(2,3) [OF ok]])
  from carries_trans [OF fail_drop_carries [OF ok] Cons(1) [OF this]] show ?case by simp
qed simp

lemma process_input_carries:
  assumes ok: "omni_ok (om_received s) s L"
  shows "carries A (om_received s) s [] (process_input_requests c o' s)"
proof -
  let ?r = "om_received s" and ?s0 = "s\<lparr>om_received := []\<rparr>"
  have 0: "omni_ok ?r ?s0 L"
    by (rule omni_ok_move [OF ok]) (use omni_okD(3) [OF ok] in \<open>auto simp: ids_mset places_def requests_def\<close>)
  have c0: "carries A ?r s ?r ?s0" by (rule carries_ids) (simp_all add: ids_def places_def requests_def)
  let ?s1 = "drain_admissions o' ?s0" let ?s2 = "drain_builds o' ?s1"
  have 1: "omni_ok ?r ?s1 L" by (rule drain_admissions_ok [OF 0])
  have 2: "omni_ok ?r ?s2 L" by (rule drain_builds_ok [OF 1])
  obtain sel rej s3 where st: "stage_payloads c ?r ?s2 = (sel, rej, s3)" by (metis prod_cases3)
  have 3: "omni_ok (rej @ sel) s3 L" by (rule stage_ok [OF 2 st])
  let ?s4 = "fold (\<lambda>p. fail_admission (pa_id p)) rej s3" let ?s5 = "fold (process_payload c o') sel ?s4"
  have 4: "omni_ok (sel @ []) ?s4 L" using fold_fail_ok [OF 3] by simp
  have 5: "omni_ok [] ?s5 L" by (rule fold_process_ok [OF 4])
  note carries_trans [OF c0 carries_trans [OF drains_carry(2) [OF 0] carries_trans [OF drains_carry(1) [OF 1] stage_carries [OF 2 st]]]]
  note carries_trans [OF this fold_fail_carries [OF 3]]
  note carries_trans [OF this fold_process_carries [OF 4, simplified]]
  note carries_trans [OF this carries_trans [OF drains_carry(1) [OF 5] drains_carry(2) [OF drain_builds_ok [OF 5]]]]
  then show ?thesis by (simp add: process_input_requests_def Let_def st)
qed

subsection \<open>The property\<close>

text \<open>C18: No request disappears silently.  Whatever the builder, its workers, the futures and
  the length check answer in a pass over the inbox's payloads, each id that the scheduler holds before the
  pass, received, in the backlog, being built, waiting for admission, waiting or in a batch, and that has
  not been aborted, is still held after it or has been reported as failed.\<close>

theorem no_request_lost:
  assumes "omni_run c s L" "r \<notin> set (om_aborted s)" "s' = process_input_requests c o' s"
    "r \<in> set (map pa_id (om_received s @ om_backlog s) @ map fst (om_builds s) @ map fst (om_admissions s) @
      map rq_id (om_batches s @ om_waiting s))"
  shows "r \<in> set (map pa_id (om_backlog s') @ map fst (om_builds s') @ map fst (om_admissions s') @
      map rq_id (om_batches s' @ om_waiting s')) \<or> r \<in> set (om_errors s')"
proof -
  note ok = run_invD(1) [OF run_keeps [OF assms(1)]]
  have ids: "set (map pa_id (extra @ om_backlog s) @ map fst (om_builds s) @ map fst (om_admissions s) @ map rq_id (om_batches s @ om_waiting s))
      = set (ids extra s)" if "omni_ok extra s L'" for extra L' and s :: "('a, 'b) omni"
  proof -
    have "fst e = pa_id (fst (snd e))" if "e \<in> set (om_builds s @ om_admissions s)" for e
      using omni_okD(2) [OF \<open>omni_ok extra s L'\<close>, of "fst e" "fst (snd e)" "snd (snd e)"] that by simp
    then have "fst ` set (om_builds s @ om_admissions s) = (pa_id \<circ> fst \<circ> snd) ` set (om_builds s @ om_admissions s)"
      by (intro image_cong) simp_all
    then show ?thesis by (simp add: ids_def places_def requests_def image_comp comp_assoc image_Un Un_assoc) (simp add: Un_assoc [symmetric])
  qed
  have c: "carries (set (om_aborted s)) (om_received s) s [] s'" unfolding assms(3) by (rule process_input_carries [OF ok])
  have ok': "omni_ok [] s' L" unfolding assms(3) by (rule process_input_ok [OF ok])
  have "tracked (om_received s) s r" using assms(4) unfolding ids [OF ok] tracked_def by (rule disjI1)
  then have "r \<in> set (ids [] s') \<or> r \<in> set (om_errors s')"
    using c assms(2) unfolding carries_def aborts_reported_def tracked_def by blast
  then show ?thesis using ids [OF ok'] by (simp only: append_Nil)
qed

text \<open>A pass in which building fails: the request is reported.\<close>

theorem no_request_lost_witness:
  "''a'' \<in> set (om_errors (process_input_requests demo_config (demo_outside\<lparr>ou_build := \<lambda>_. BuildFails\<rparr>) demo_received))"
proof -
  let ?s = "process_input_requests demo_config (demo_outside\<lparr>ou_build := \<lambda>_. BuildFails\<rparr>) demo_received"
  obtain L where L: "omni_run demo_config demo_received L" using demo_received_run by blast
  have "set (map pa_id (om_backlog ?s) @ map fst (om_builds ?s) @ map fst (om_admissions ?s) @ map rq_id (om_batches ?s @ om_waiting ?s)) = {}"
    by (simp add: demo_received_eval empty_omni_def process_input_requests_def drain_admissions_def drain_builds_def stage_payloads_def
      demo_config_def omni_config_of_def process_payload_def known_def take_ingress_def ingress_of_def dict_get_def dict_pop_def
      admit_or_defer_def demo_outside_def fail_admission_def abort_request_def remember_aborted_def ABORTED_REQUEST_ID_LIMIT_def)
  moreover have "''a'' \<notin> set (om_aborted demo_received)" "''a'' \<in> set (map pa_id (om_received demo_received))"
    by (simp_all add: demo_received_eval empty_omni_def)
  ultimately show ?thesis using no_request_lost [OF L _ refl, of "''a''" "demo_outside\<lparr>ou_build := \<lambda>_. BuildFails\<rparr>"] by auto
qed

end
