(* ===== verification/Segment_Positions.thy ===== *)
theory Segment_Positions
  imports Segment_Session
begin

section \<open>Positions in closed form\<close>

text \<open>
  A reference for the positions of a segment, by index instead of by a running position.  A frame
  spans its larger side in merged cells.  A token begins at the start position plus its index plus
  the spans of the frames before it; text takes that position, an image token the one behind its
  frame.  A frame's cells carry the position where it begins, raised by their row and by their column,
  row by row, and are closed by the separator, which has the position of the image token.
\<close>

definition frame_span :: "int \<Rightarrow> grid_thw \<Rightarrow> int" where
  "frame_span m g = max (fst (snd g) div m) (snd (snd g) div m)"

definition frames_before :: "int \<Rightarrow> int list \<Rightarrow> nat \<Rightarrow> nat" where
  "frames_before tok is i = length (filter (\<lambda>j. j = tok) (take i is))"

definition begins_at :: "int \<Rightarrow> int \<Rightarrow> int \<Rightarrow> int list \<Rightarrow> grid_thw list \<Rightarrow> nat \<Rightarrow> int" where
  "begins_at tok m start is gs i = start + int i + (\<Sum>g \<leftarrow> take (frames_before tok is i) gs. frame_span m g)"

definition token_position :: "int \<Rightarrow> int \<Rightarrow> int \<Rightarrow> int list \<Rightarrow> grid_thw list \<Rightarrow> nat \<Rightarrow> position" where
  "token_position tok m start is gs i =
     (let p = begins_at tok m start is gs i + (if is ! i = tok then frame_span m (gs ! frames_before tok is i) else 0)
      in (p, p, p))"

definition frame_cells :: "int \<Rightarrow> int \<Rightarrow> int \<Rightarrow> int list \<Rightarrow> grid_thw list \<Rightarrow> nat \<Rightarrow> position list" where
  "frame_cells tok m start is gs i =
     (let b = begins_at tok m start is gs i; g = gs ! frames_before tok is i in
      concat (map (\<lambda>y. map (\<lambda>x. (b, b + y, b + x)) [0..snd (snd g) div m - 1]) [0..fst (snd g) div m - 1]))"

definition grid_fits :: "int \<Rightarrow> grid_thw \<Rightarrow> bool" where
  "grid_fits m g \<longleftrightarrow> fst g = 1 \<and> m dvd fst (snd g) \<and> m dvd snd (snd g) \<and> 0 \<le> fst (snd g) \<and> 0 \<le> snd (snd g)"

definition reference_positions ::
    "int \<Rightarrow> int \<Rightarrow> int \<Rightarrow> int list \<Rightarrow> grid_thw list \<Rightarrow> position list \<times> position list \<times> int" where
  "reference_positions tok m start is gs =
     (map (token_position tok m start is gs) [0..<length is],
      concat (map (\<lambda>i. frame_cells tok m start is gs i @ [token_position tok m start is gs i])
        (filter (\<lambda>i. is ! i = tok) [0..<length is])),
      begins_at tok m start is gs (length is))"

lemma upto_nat: "map int [0..<nat n] = [0..n - 1]"
proof (cases "0 \<le> n")
  case True
  have "map int [0..<k] = [0..int k - 1]" for k
    by (induction k) (simp_all add: upto_rec2)
  from this [of "nat n"] True show ?thesis by simp
qed simp

lemma grid_positions_upto: "grid_positions b mh mw = concat (map (\<lambda>y. map (\<lambda>x. (b, b + y, b + x)) [0..mw - 1]) [0..mh - 1])"
  by (simp add: grid_positions_def upto_nat [symmetric] comp_def)

lemma frames_before_Cons:
  "frames_before tok (i # is) 0 = 0"
  "frames_before tok (i # is) (Suc j) = (if i = tok then Suc (frames_before tok is j) else frames_before tok is j)"
  by (simp_all add: frames_before_def)

lemma reference_shift:
  assumes "i \<noteq> tok"
  shows "begins_at tok m start (i # is) gs (Suc j) = begins_at tok m (start + 1) is gs j"
    "token_position tok m start (i # is) gs (Suc j) = token_position tok m (start + 1) is gs j"
    "frame_cells tok m start (i # is) gs (Suc j) = frame_cells tok m (start + 1) is gs j"
  using assms by (simp_all add: begins_at_def token_position_def frame_cells_def frames_before_Cons Let_def algebra_simps)

lemma reference_shift_frame:
  "begins_at tok m start (tok # is) (g # gs) (Suc j) = begins_at tok m (start + frame_span m g + 1) is gs j"
  "token_position tok m start (tok # is) (g # gs) (Suc j) = token_position tok m (start + frame_span m g + 1) is gs j"
  "frame_cells tok m start (tok # is) (g # gs) (Suc j) = frame_cells tok m (start + frame_span m g + 1) is gs j"
  by (simp_all add: begins_at_def token_position_def frame_cells_def frames_before_Cons Let_def algebra_simps)

lemma upt_Cons: "[0..<length (i # is)] = 0 # map Suc [0..<length is]"
  by (simp add: map_Suc_upt upt_conv_Cons del: upt_Suc)

lemma map_by_index: "map f [0..<length (i # is)] = f 0 # map (\<lambda>j. f (Suc j)) [0..<length is]"
  unfolding upt_Cons by (simp add: comp_def)

lemma map_of_images:
  "map f (filter (\<lambda>j. (i # is) ! j = tok) [0..<length (i # is)]) =
     (if i = tok then [f 0] else []) @ map (\<lambda>j. f (Suc j)) (filter (\<lambda>j. is ! j = tok) [0..<length is])"
  unfolding upt_Cons by (simp add: filter_map comp_def)

lemma begins_at_0: "begins_at tok m start is gs 0 = start"
  by (simp add: begins_at_def frames_before_def)

lemma reference_text:
  assumes "i \<noteq> tok"
  shows "reference_positions tok m start (i # is) gs =
    (case reference_positions tok m (start + 1) is gs of (ts, vs, p) \<Rightarrow> ((start, start, start) # ts, vs, p))"
proof -
  have 0: "token_position tok m start (i # is) gs 0 = (start, start, start)"
    using assms by (simp add: token_position_def begins_at_0)
  show ?thesis
    unfolding reference_positions_def map_by_index map_of_images 0 using assms
    by (simp only: reference_shift [OF assms] if_False append_Nil length_Cons prod.case)
qed

lemma reference_frame:
  "reference_positions tok m start (tok # is) ((t, h, w) # gs) =
    (let sep = start + max (h div m) (w div m) in
     case reference_positions tok m (sep + 1) is gs of (ts, vs, p) \<Rightarrow>
       ((sep, sep, sep) # ts, grid_positions start (h div m) (w div m) @ (sep, sep, sep) # vs, p))"
proof -
  let ?g = "(t, h, w)"
  have s: "frame_span m ?g = max (h div m) (w div m)" by (simp add: frame_span_def)
  have 0: "token_position tok m start (tok # is) (?g # gs) 0 =
      (start + max (h div m) (w div m), start + max (h div m) (w div m), start + max (h div m) (w div m))"
    "frame_cells tok m start (tok # is) (?g # gs) 0 = grid_positions start (h div m) (w div m)"
    by (simp_all add: token_position_def frame_cells_def begins_at_0 frames_before_Cons s grid_positions_upto Let_def)
  show ?thesis
    unfolding reference_positions_def map_by_index map_of_images 0
    by (simp add: reference_shift_frame [where g = ?g] s Let_def)
qed

lemma mrope_from_reference:
  assumes m: "0 < m"
  shows "mrope_from tok m start is gs = Inr r \<longleftrightarrow>
    length (filter (\<lambda>j. j = tok) is) = length gs \<and> list_all (grid_fits m) gs \<and> r = reference_positions tok m start is gs"
  using m
proof (induction tok m start "is" gs arbitrary: r rule: mrope_from.induct)
  case (1 tok m start gs)
  show ?case by (auto simp: reference_positions_def begins_at_def frames_before_def)
next
  case (2 tok m start i "is" gs)
  show ?case
  proof (cases "i = tok")
    case False
    show ?thesis
      using False "2.IH"(1) [OF False "2.prems"]
      by (auto simp: bindE_eq_Inr reference_text split: prod.splits)
  next
    case True
    show ?thesis
    proof (cases gs)
      case Nil
      then show ?thesis using True by simp
    next
      case (Cons g gs')
      obtain t h w where g: "g = (t, h, w)" by (cases g)
      have dv: "(0 \<le> x) = (\<not> x div m < 0)" for x
        using "2.prems" by (simp add: not_less pos_imp_zdiv_nonneg_iff)
      have fit: "grid_fits m g \<longleftrightarrow> t = 1 \<and> h mod m = 0 \<and> w mod m = 0 \<and> \<not> (h div m < 0 \<or> w div m < 0)"
        by (auto simp: grid_fits_def g dv dvd_eq_mod_eq_0)
      let ?sep = "start + max (h div m) (w div m)"
      show ?thesis
      proof (cases "grid_fits m g")
        case False
        then have "mrope_from tok m start (i # is) gs \<noteq> Inr r" using True fit by (auto simp: Cons g Let_def)
        with False show ?thesis by (simp add: Cons)
      next
        case ok: True
        have c: "\<not> i \<noteq> tok" "\<not> t \<noteq> 1" "\<not> (h mod m \<noteq> 0 \<or> w mod m \<noteq> 0)" "\<not> (h div m < 0 \<or> w div m < 0)"
          using True ok fit by auto
        have IH: "mrope_from tok m (?sep + 1) is gs' = Inr r' \<longleftrightarrow>
          length (filter (\<lambda>j. j = tok) is) = length gs' \<and> list_all (grid_fits m) gs' \<and> r' = reference_positions tok m (?sep + 1) is gs'" for r'
          by (rule "2.IH"(2) [OF c(1) Cons g [symmetric] refl c(2,3) refl refl refl c(4) "2.prems"])
        have "mrope_from tok m start (i # is) gs = bindE (mrope_from tok m (?sep + 1) is gs') (\<lambda>(ts, vs, nxt).
            Inr ((?sep, ?sep, ?sep) # ts, grid_positions start (h div m) (w div m) @ (?sep, ?sep, ?sep) # vs, nxt))"
          using c by (simp add: Cons g Let_def)
        then show ?thesis
          using ok True by (auto simp: Cons g bindE_eq_Inr IH reference_frame Let_def split: prod.splits)
      qed
    qed
  qed
qed

text \<open>
  C13: The positions of a segment are those of the closed form.  The computation succeeds
  exactly when the start is not negative, the merge size is positive, there is one grid per image token
  and every grid is one frame whose sides are non-negative multiples of the merge size; then the tokens have the
  positions, the frames the cells and the next segment the start that the reference gives by index, and
  there are vision positions exactly when there are frames.
\<close>
theorem mrope_reference:
  "compute_realtime_mrope (Ids2 [is]) grids start tok m = Inr r \<longleftrightarrow>
    (let gs = (case grids of None \<Rightarrow> [] | Some gs \<Rightarrow> gs); (ts, vs, p) = reference_positions tok m start is gs in
     0 \<le> start \<and> 0 < m \<and> length (filter (\<lambda>j. j = tok) is) = length gs \<and> list_all (grid_fits m) gs \<and>
     r = (ts, if gs = [] then None else Some vs, p))"
proof -
  define gs where "gs = (case grids of None \<Rightarrow> [] | Some gs \<Rightarrow> gs)"
  obtain ts vs p where ref: "reference_positions tok m start is gs = (ts, vs, p)" by (metis prod_cases3)
  have "vs = [] \<longleftrightarrow> gs = []" if "length (filter (\<lambda>j. j = tok) is) = length gs"
  proof -
    have "vs = [] \<longleftrightarrow> filter (\<lambda>i. is ! i = tok) [0..<length is] = []"
      using ref by (auto simp: reference_positions_def)
    also have "\<dots> \<longleftrightarrow> filter (\<lambda>j. j = tok) is = []" by (auto simp: filter_empty_conv all_set_conv_all_nth)
    also have "\<dots> \<longleftrightarrow> gs = []" by (metis length_0_conv that)
    finally show ?thesis .
  qed
  then show ?thesis
    using mrope_from_reference [of m tok start "is" gs] unfolding gs_def [symmetric] ref
    by (cases "0 \<le> start \<and> 0 < m") (auto simp: compute_realtime_mrope_def bindE_eq_Inr gs_def [symmetric] ref Let_def)
qed

theorem mrope_reference_witness:
  "compute_realtime_mrope (Ids2 [[7, 9, 8]]) (Some [(1, 2, 4)]) 4 9 2
     = Inr ([(4, 4, 4), (7, 7, 7), (8, 8, 8)], Some [(5, 5, 5), (5, 5, 6), (7, 7, 7)], 9)"
  unfolding mrope_reference by code_simp

end
